(* ===== verification/LibK_Prelude.thy ===== *)
theory LibK_Prelude
  imports Main "HOL-Library.Word"
begin

unbundle bit_operations_syntax

text \<open>
  Shared vocabulary of the development: the C integer types of the library as words, the
  Windows error codes it sets with \<open>SetLastError\<close>, the pointer type of the explicit stores,
  the collections of rules the component theories add to, and generic lemmas on lists,
  options and words that several components use.
\<close>

section \<open>C types\<close>

type_synonym UCHAR = "8 word"
type_synonym USHORT = "16 word"
type_synonym UINT = "32 word"
type_synonym ULONG = "32 word"
type_synonym DWORD = "32 word"

text \<open>
  \<open>LONG\<close> and \<open>INT\<close> are 32-bit two's complement. They are kept as \<open>int\<close> with the wrap of
  the interlocked operations and of conversions written out by \<open>to_long\<close>.
\<close>

type_synonym LONG = int

definition to_long :: "int \<Rightarrow> LONG" where
  "to_long x = signed_take_bit 31 x"

definition is_long :: "int \<Rightarrow> bool" where
  "is_long x \<longleftrightarrow> - (2 ^ 31) \<le> x \<and> x < 2 ^ 31"

lemma to_long_id [simp]: "is_long x \<Longrightarrow> to_long x = x"
  unfolding is_long_def to_long_def by (simp add: signed_take_bit_int_eq_self)

lemma is_long_to_long [simp]: "is_long (to_long x)"
  unfolding is_long_def to_long_def
  using signed_take_bit_int_greater_eq_minus_exp [of 31 x] signed_take_bit_int_less_exp [of 31 x]
  by simp

lemma is_long_small: "0 \<le> x \<Longrightarrow> x < 2147483648 \<Longrightarrow> is_long x"
  by (simp add: is_long_def)

lemma to_long_mod: "to_long x mod 2 ^ 32 = x mod 2 ^ 32"
  using take_bit_signed_take_bit [of 32 31 x] by (simp add: to_long_def take_bit_eq_mod)

lemma to_long_cong: "x mod 2 ^ 32 = y mod 2 ^ 32 \<Longrightarrow> to_long x = to_long y"
  unfolding to_long_def
  by (subst signed_take_bit_eq_iff_take_bit_eq) (simp add: take_bit_eq_mod)

text \<open>Addresses of an explicit store; 0 is the null pointer.\<close>

type_synonym addr = nat

abbreviation (input) NULL :: addr where "NULL \<equiv> 0"

section \<open>Windows error codes set by the library\<close>

abbreviation (input) ERROR_SUCCESS :: DWORD where "ERROR_SUCCESS \<equiv> 0"
abbreviation (input) ERROR_ACCESS_DENIED :: DWORD where "ERROR_ACCESS_DENIED \<equiv> 5"
abbreviation (input) ERROR_INVALID_HANDLE :: DWORD where "ERROR_INVALID_HANDLE \<equiv> 6"
abbreviation (input) ERROR_NOT_ENOUGH_MEMORY :: DWORD where "ERROR_NOT_ENOUGH_MEMORY \<equiv> 8"
abbreviation (input) ERROR_NOT_SUPPORTED :: DWORD where "ERROR_NOT_SUPPORTED \<equiv> 50"
abbreviation (input) ERROR_OUT_OF_STRUCTURES :: DWORD where "ERROR_OUT_OF_STRUCTURES \<equiv> 84"
abbreviation (input) ERROR_INVALID_PARAMETER :: DWORD where "ERROR_INVALID_PARAMETER \<equiv> 87"
abbreviation (input) ERROR_SEM_TIMEOUT :: DWORD where "ERROR_SEM_TIMEOUT \<equiv> 121"
abbreviation (input) ERROR_MORE_DATA :: DWORD where "ERROR_MORE_DATA \<equiv> 234"
abbreviation (input) ERROR_NO_MORE_ITEMS :: DWORD where "ERROR_NO_MORE_ITEMS \<equiv> 259"
abbreviation (input) ERROR_OPERATION_ABORTED :: DWORD where "ERROR_OPERATION_ABORTED \<equiv> 995"
abbreviation (input) ERROR_IO_INCOMPLETE :: DWORD where "ERROR_IO_INCOMPLETE \<equiv> 996"
abbreviation (input) ERROR_IO_PENDING :: DWORD where "ERROR_IO_PENDING \<equiv> 997"
abbreviation (input) ERROR_NOT_FOUND :: DWORD where "ERROR_NOT_FOUND \<equiv> 1168"
abbreviation (input) ERROR_CANCELLED :: DWORD where "ERROR_CANCELLED \<equiv> 1223"
abbreviation (input) ERROR_RESOURCE_NOT_FOUND :: DWORD where "ERROR_RESOURCE_NOT_FOUND \<equiv> 5007"
abbreviation (input) ERROR_RESOURCE_NOT_AVAILABLE :: DWORD where "ERROR_RESOURCE_NOT_AVAILABLE \<equiv> 5006"

section \<open>Rule collections\<close>

named_theorems dl_ops \<open>definitions of the linked list macros and of their heap accessors\<close>
named_theorems libk_frame \<open>operations that do not touch the device handles\<close>
named_theorems pool_ops \<open>definitions of the handle pool operations\<close>

section \<open>Generic lemmas\<close>

lemma hd_append_Cons [simp]: "hd (xs @ y # ys) = (if xs = [] then y else hd xs)"
  by (cases xs) auto

lemma last_Cons_append [simp]: "last (x # xs @ y # ys) = last (y # ys)"
  by (induction xs) auto

lemma split_at_mem: "x \<in> set xs \<Longrightarrow> \<exists>as bs. xs = as @ x # bs \<and> x \<notin> set as"
  by (rule split_list_first)

lemma remove1_split: "x \<notin> set as \<Longrightarrow> remove1 x (as @ x # bs) = as @ bs"
  by (simp add: remove1_append)

text \<open>The position of the first element that satisfies a predicate.\<close>

fun find_pos :: "('a \<Rightarrow> bool) \<Rightarrow> 'a list \<Rightarrow> nat option" where
  "find_pos P [] = None"
| "find_pos P (x # xs) = (if P x then Some 0 else map_option Suc (find_pos P xs))"

lemma find_pos_Some: "find_pos P xs = Some i \<Longrightarrow> i < length xs \<and> P (xs ! i)"
  by (induction xs arbitrary: i) (auto split: if_splits)

lemma find_pos_None: "find_pos P xs = None \<longleftrightarrow> (\<forall>x \<in> set xs. \<not> P x)"
  by (induction xs) auto

lemma find_pos_unique:
  "i < length xs \<Longrightarrow> P (xs ! i) \<Longrightarrow> (\<And>j. j < length xs \<Longrightarrow> P (xs ! j) \<Longrightarrow> j = i) \<Longrightarrow> find_pos P xs = Some i"
proof (induction xs arbitrary: i)
  case (Cons x xs)
  show ?case
  proof (cases i)
    case 0
    with Cons.prems(2) show ?thesis by simp
  next
    case (Suc k)
    have "\<not> P x" using Cons.prems(3) [of 0] Suc by auto
    moreover have "find_pos P xs = Some k"
      by (rule Cons.IH) (use Cons.prems Suc in \<open>force+\<close>)
    ultimately show ?thesis using Suc by simp
  qed
qed simp

lemma bind_SomeE:
  assumes "Option.bind m f = Some y"
  obtains x where "m = Some x" "f x = Some y"
  using assms by (cases m) auto

lemma unat_word_of_nat: "n < 2 ^ LENGTH('a) \<Longrightarrow> unat (word_of_nat n :: 'a::len word) = n"
  by (simp add: unsigned_of_nat take_bit_nat_eq_self)

end
