(* ===== verification/Handle_Pool.thy ===== *)
theory Handle_Pool
  imports LibK_Prelude
begin

text \<open>
  The static handle pools of \<open>lusbk_handles.c\<close>. The macros \<open>POOLHANDLE_ACQUIRE\<close> and
  \<open>FN_POOLHANDLE\<close> are instantiated there for nine handle types; they are modelled once, over
  an arbitrary type of handle bodies (\<open>'o\<close>) and of cleanup routines (\<open>'c\<close>). A handle is its
  index in the section's array. The pool is part of a larger state \<open>'w\<close>, because the cleanup
  routine that the last release runs works on that state; a lens says which part it is.
\<close>

section \<open>State\<close>

text \<open>\<open>KOBJ_BASE\<close>, with the rest of the handle structure in \<open>body\<close>.\<close>

record ('c, 'o) kobj =
  Use :: LONG
  Ref :: LONG
  Disposing :: DWORD
  EvtCleanup :: "'c option"
  UserValid :: bool
  UserCleanupCB :: "nat option"
  UserContext :: int
  body :: 'o

record ('c, 'o) ksection =
  Index :: LONG
  DefaultUserContext :: int
  Handles :: "('c, 'o) kobj list"

record ('w, 's) lens =
  lget :: "'w \<Rightarrow> 's"
  lput :: "'s \<Rightarrow> 'w \<Rightarrow> 'w"

abbreviation SPINLOCK_HELD :: LONG where "SPINLOCK_HELD \<equiv> 0x4B425355"

definition handle_count :: "('c, 'o) ksection \<Rightarrow> nat" where
  "handle_count s = length (Handles s)"

definition ALLK_VALID_HANDLE :: "nat \<Rightarrow> ('c, 'o) ksection \<Rightarrow> bool" where
  [pool_ops]: "ALLK_VALID_HANDLE h s \<longleftrightarrow> h \<le> handle_count s - 1 \<and> 0 < handle_count s"

definition ALLK_INUSE_HANDLE :: "('c, 'o) kobj \<Rightarrow> bool" where
  [pool_ops]: "ALLK_INUSE_HANDLE k \<longleftrightarrow> Use k = SPINLOCK_HELD"

definition upd_handle :: "nat \<Rightarrow> (('c, 'o) kobj \<Rightarrow> ('c, 'o) kobj) \<Rightarrow> ('c, 'o) ksection \<Rightarrow> ('c, 'o) ksection" where
  "upd_handle h f s = s\<lparr>Handles := (Handles s)[h := f (Handles s ! h)]\<rparr>"

section \<open>Acquire\<close>

text \<open>\<open>mSpin_Try_Acquire\<close> is one interlocked exchange: the lock word is written either way.\<close>

definition mSpin_Try_Acquire :: "LONG \<Rightarrow> bool \<times> LONG" where
  [pool_ops]: "mSpin_Try_Acquire v = (v = 0, SPINLOCK_HELD)"

definition Init_Handle_ObjK :: "int \<Rightarrow> ('c, 'o) kobj \<Rightarrow> ('c, 'o) kobj" where
  [pool_ops]: "Init_Handle_ObjK ctx k =
     k\<lparr>EvtCleanup := None, Ref := 1, Disposing := 0,
       UserValid := False, UserCleanupCB := None, UserContext := ctx\<rparr>"

text \<open>
  The index counter wraps as a 32-bit \<open>long\<close>; the remainder is taken after the conversion to
  \<open>size_t\<close> (the element count has that type).
\<close>

definition next_pos :: "LONG \<Rightarrow> nat \<Rightarrow> nat" where
  "next_pos idx n = nat (idx mod 2 ^ 64) mod n"

fun acquire_loop ::
  "nat \<Rightarrow> ('o \<Rightarrow> 'o) \<Rightarrow> nat \<Rightarrow> nat \<Rightarrow> ('c, 'o) ksection \<Rightarrow> (nat option \<times> ('c, 'o) ksection) option" where
  "acquire_loop 0 ini start pos s = None"
| "acquire_loop (Suc fuel) ini start pos s =
     (let (ok, u) = mSpin_Try_Acquire (Use (Handles s ! pos));
          s1 = upd_handle pos (\<lambda>k. k\<lparr>Use := u\<rparr>) s
      in if ok then
           Some (Some pos,
             upd_handle pos (\<lambda>k. let k' = Init_Handle_ObjK (DefaultUserContext s) k
                                  in k'\<lparr>body := ini (body k')\<rparr>) s1)
         else
           let idx = to_long (Index s1 + 1);
               s2 = s1\<lparr>Index := idx\<rparr>;
               pos' = next_pos idx (handle_count s)
           in if pos' \<noteq> start then acquire_loop fuel ini start pos' s2
              else Some (None, s2))"

text \<open>
  The result is the handle (or null) with the new section; the error code that is set when the
  pool is exhausted is returned beside it. The loop visits each slot at most once, so its fuel is
  the number of slots (\<open>acquire_loop_spec\<close>). The context is initialised (\<open>AllK\<close> is not null).
\<close>

definition PoolHandle_Acquire_section ::
  "('o \<Rightarrow> 'o) \<Rightarrow> 'c option \<Rightarrow> ('c, 'o) ksection \<Rightarrow> (nat option \<times> ('c, 'o) ksection) option" where
  "PoolHandle_Acquire_section ini cb s =
     (let idx = to_long (Index s + 1);
          s1 = s\<lparr>Index := idx\<rparr>;
          start = next_pos idx (handle_count s)
      in case acquire_loop (handle_count s) ini start start s1 of
           None \<Rightarrow> None
         | Some (None, s2) \<Rightarrow> Some (None, s2)
         | Some (Some h, s2) \<Rightarrow> Some (Some h, upd_handle h (\<lambda>k. k\<lparr>EvtCleanup := cb\<rparr>) s2))"

section \<open>Reference counting\<close>

text \<open>
  \<open>PoolHandle_Inc\<close>: a handle that is being disposed of can be referenced only by the thread
  that disposes of it, and without counting. An increment that does not find a live count is
  taken back.
\<close>

definition PoolHandle_Inc :: "DWORD \<Rightarrow> nat \<Rightarrow> ('c, 'o) ksection \<Rightarrow> bool \<times> ('c, 'o) ksection" where
  [pool_ops]: "PoolHandle_Inc tid h s =
     (let k = Handles s ! h in
      if \<not> ALLK_INUSE_HANDLE k then (False, s)
      else if Disposing k \<noteq> 0 then (Disposing k = tid, s)
      else
        let c = to_long (Ref k + 1); s1 = upd_handle h (\<lambda>k. k\<lparr>Ref := c\<rparr>) s in
        if c > 1 then (True, s1)
        else (False, upd_handle h (\<lambda>k. k\<lparr>Ref := to_long (Ref k - 1)\<rparr>) s1))"

definition PoolHandle_IncEx ::
  "DWORD \<Rightarrow> nat \<Rightarrow> ('c, 'o) ksection \<Rightarrow> bool \<times> LONG \<times> ('c, 'o) ksection" where
  [pool_ops]: "PoolHandle_IncEx tid h s =
     (let k = Handles s ! h in
      if \<not> ALLK_INUSE_HANDLE k then (False, -1, s)
      else if Disposing k \<noteq> 0 then (Disposing k = tid, 0, s)
      else
        let c = to_long (Ref k + 1); s1 = upd_handle h (\<lambda>k. k\<lparr>Ref := c\<rparr>) s in
        if c > 1 then (True, c, s1)
        else let c' = to_long (c - 1) in (False, c', upd_handle h (\<lambda>k. k\<lparr>Ref := c'\<rparr>) s1))"

text \<open>
  \<open>PoolHandle_Dec\<close>: the decrement that reaches zero marks the handle as being disposed of by
  this thread, runs the cleanup routine on the whole state, clears it and releases the slot. It
  then returns \<open>FALSE\<close>, as does a decrement below zero.
\<close>

definition PoolHandle_Dec ::
  "('w, ('c, 'o) ksection) lens \<Rightarrow> ('c \<Rightarrow> nat \<Rightarrow> 'w \<Rightarrow> 'w) \<Rightarrow> DWORD \<Rightarrow> nat \<Rightarrow> 'w \<Rightarrow> bool \<times> 'w" where
  [pool_ops]: "PoolHandle_Dec L run tid h w =
     (let s = lget L w; k = Handles s ! h in
      if \<not> ALLK_INUSE_HANDLE k then (False, w)
      else if Disposing k \<noteq> 0 then (Disposing k = tid, w)
      else
        let c = to_long (Ref k - 1); w1 = lput L (upd_handle h (\<lambda>k. k\<lparr>Ref := c\<rparr>) s) w in
        if c = 0 then
          let w2 = lput L (upd_handle h (\<lambda>k. k\<lparr>Disposing := tid\<rparr>) (lget L w1)) w1;
              w3 = (case EvtCleanup (Handles (lget L w2) ! h) of
                      None \<Rightarrow> w2
                    | Some cb \<Rightarrow>
                        let w' = run cb h w2
                        in lput L (upd_handle h (\<lambda>k. k\<lparr>EvtCleanup := None\<rparr>) (lget L w')) w');
              w4 = lput L (upd_handle h (\<lambda>k. k\<lparr>Use := 0\<rparr>) (lget L w3)) w3
          in (False, w4)
        else if c < 0 then (False, w1)
        else (True, w1))"

section \<open>Validity of public handles and the user's cleanup callback\<close>

definition PoolHandle_Live :: "nat \<Rightarrow> ('c, 'o) ksection \<Rightarrow> ('c, 'o) ksection" where
  [pool_ops]: "PoolHandle_Live h s =
     (if \<not> UserValid (Handles s ! h) then upd_handle h (\<lambda>k. k\<lparr>UserValid := True\<rparr>) s else s)"

text \<open>\<open>PoolHandle_Dead\<close> returns the user callback it calls, with the context it passes, if any.\<close>

definition PoolHandle_Dead ::
  "nat \<Rightarrow> ('c, 'o) ksection \<Rightarrow> (nat \<times> int) option \<times> ('c, 'o) ksection" where
  [pool_ops]: "PoolHandle_Dead h s =
     (let k = Handles s ! h in
      if UserValid k then
        let s1 = upd_handle h (\<lambda>k. k\<lparr>UserValid := False\<rparr>) s in
        (case UserCleanupCB k of
           None \<Rightarrow> (None, s1)
         | Some cb \<Rightarrow> (Some (cb, UserContext k), upd_handle h (\<lambda>k. k\<lparr>UserCleanupCB := None\<rparr>) s1))
      else (None, s))"

section \<open>The section after an update of one handle\<close>

lemma upd_handle_simps [simp]:
  "Index (upd_handle h f s) = Index s"
  "DefaultUserContext (upd_handle h f s) = DefaultUserContext s"
  "handle_count (upd_handle h f s) = handle_count s"
  "handle_count (s\<lparr>Index := i\<rparr>) = handle_count s"
  "h < handle_count s \<Longrightarrow> Handles (upd_handle h f s) ! h = f (Handles s ! h)"
  "h' \<noteq> h \<Longrightarrow> Handles (upd_handle h f s) ! h' = Handles s ! h'"
  by (simp_all add: upd_handle_def handle_count_def)

lemma upd_handle_twice [simp]:
  "h < handle_count s \<Longrightarrow> upd_handle h g (upd_handle h f s) = upd_handle h (\<lambda>k. g (f k)) s"
  by (simp add: upd_handle_def handle_count_def)

lemma upd_handle_id: "f (Handles s ! h) = Handles s ! h \<Longrightarrow> upd_handle h f s = s"
  by (simp add: upd_handle_def)

lemma upd_handle_swap:
  "h \<noteq> h' \<Longrightarrow> upd_handle h f (upd_handle h' g s) = upd_handle h' g (upd_handle h f s)"
  by (simp add: upd_handle_def list_update_swap)

lemma upd_handle_Index: "upd_handle h f (s\<lparr>Index := i\<rparr>) = (upd_handle h f s)\<lparr>Index := i\<rparr>"
  by (simp add: upd_handle_def)

lemma upd_handle_cong:
  "f (Handles s ! h) = g (Handles s ! h) \<Longrightarrow> upd_handle h f s = upd_handle h g s"
  by (simp add: upd_handle_def)

lemma ALLK_VALID_HANDLE_iff: "ALLK_VALID_HANDLE h s \<longleftrightarrow> h < handle_count s"
  by (auto simp: ALLK_VALID_HANDLE_def)

text \<open>The lock word of a slot is free or held, nothing else.\<close>

definition locks_ok :: "('c, 'o) ksection \<Rightarrow> bool" where
  "locks_ok s \<longleftrightarrow> (\<forall>k \<in> set (Handles s). Use k = 0 \<or> Use k = SPINLOCK_HELD)"

lemma locks_okD: "locks_ok s \<Longrightarrow> h < handle_count s \<Longrightarrow> Use (Handles s ! h) = 0 \<or> Use (Handles s ! h) = SPINLOCK_HELD"
  by (simp add: locks_ok_def handle_count_def)

definition slot_free :: "('c, 'o) ksection \<Rightarrow> nat \<Rightarrow> bool" where
  "slot_free s h \<longleftrightarrow> Use (Handles s ! h) = 0"

section \<open>Acquire visits the slots round robin\<close>

lemma next_pos_to_long:
  assumes "0 < n" and "n dvd 2 ^ 32"
  shows "next_pos (to_long x) n = nat (x mod int n)"
proof -
  have "(2::nat) ^ 32 dvd 2 ^ 64"
    by (rule le_imp_power_dvd) simp
  then have "n dvd 2 ^ 64"
    using assms(2) by (rule dvd_trans [rotated])
  then have d64: "int n dvd 2 ^ 64"
    using of_nat_dvd_iff [of n "2 ^ 64", where ?'a = int] by simp
  have d32: "int n dvd 2 ^ 32"
    using assms(2) of_nat_dvd_iff [of n "2 ^ 32", where ?'a = int] by simp
  have "to_long x mod int n = x mod int n"
    using d32 to_long_mod [of x] by (metis mod_mod_cancel)
  moreover have "next_pos y n = nat (y mod int n)" for y
  proof -
    have "next_pos y n = nat (y mod 2 ^ 64) mod nat (int n)"
      by (simp add: next_pos_def)
    also have "\<dots> = nat ((y mod 2 ^ 64) mod int n)"
      by (rule nat_mod_distrib [symmetric]) simp_all
    also have "\<dots> = nat (y mod int n)"
      using d64 by (simp only: mod_mod_cancel)
    finally show ?thesis .
  qed
  ultimately show ?thesis by simp
qed

text \<open>What claiming a slot does to the section.\<close>

definition claim_slot :: "('o \<Rightarrow> 'o) \<Rightarrow> nat \<Rightarrow> ('c, 'o) ksection \<Rightarrow> ('c, 'o) ksection" where
  "claim_slot ini h s =
     upd_handle h (\<lambda>k. let k' = Init_Handle_ObjK (DefaultUserContext s) (k\<lparr>Use := SPINLOCK_HELD\<rparr>)
                        in k'\<lparr>body := ini (body k')\<rparr>) s"

text \<open>The positions the loop looks at from iteration \<open>j\<close> on.\<close>

definition probes :: "nat \<Rightarrow> nat \<Rightarrow> nat \<Rightarrow> nat list" where
  "probes start n j = map (\<lambda>i. (start + i) mod n) [j..<n]"

lemma probes_Cons: "j < n \<Longrightarrow> probes start n j = (start + j) mod n # probes start n (Suc j)"
  by (simp add: probes_def upt_rec [of j])

lemma probe_returns:
  assumes "start < n" and "j < n"
  shows "(start + Suc j) mod n = start \<longleftrightarrow> Suc j = n"
proof
  assume "(start + Suc j) mod n = start"
  then have "(start + Suc j) mod n = start mod n" using assms by simp
  then have "n dvd Suc j"
    by (metis add_diff_cancel_left' le_add1 mod_eq_dvd_iff_nat)
  with assms(2) show "Suc j = n" by (metis Suc_leI dvd_imp_le le_antisym zero_less_Suc)
qed (use assms in simp)

lemma acquire_loop_spec:
  assumes "n = handle_count s" "n dvd 2 ^ 32" "locks_ok s" "start < n"
    and "fuel = n - j" "j < n" "pos = (start + j) mod n" "Index s mod int n = int pos"
  shows "\<exists>ix. acquire_loop fuel ini start pos s =
           (case find (slot_free s) (probes start n j) of
              None \<Rightarrow> Some (None, s\<lparr>Index := ix\<rparr>)
            | Some h \<Rightarrow> Some (Some h, claim_slot ini h (s\<lparr>Index := ix\<rparr>)))"
  using assms
proof (induction fuel arbitrary: j pos s)
  case 0
  then show ?case by simp
next
  case (Suc fuel)
  have n0: "0 < n" and pn: "pos < n" using Suc.prems by auto
  show ?case
  proof (cases "slot_free s pos")
    case True
    then have "acquire_loop (Suc fuel) ini start pos s = Some (Some pos, claim_slot ini pos (s\<lparr>Index := Index s\<rparr>))"
      using pn Suc.prems(1) by (simp add: mSpin_Try_Acquire_def slot_free_def claim_slot_def Let_def)
    moreover have "find (slot_free s) (probes start n j) = Some pos"
      using True Suc.prems by (simp add: probes_Cons)
    ultimately show ?thesis
      by (simp del: acquire_loop.simps) (rule exI [of _ "Index s"], simp)
  next
    case False
    then have held: "Use (Handles s ! pos) = SPINLOCK_HELD"
      using locks_okD [OF Suc.prems(3), of pos] pn Suc.prems(1) by (simp add: slot_free_def)
    let ?idx = "to_long (Index s + 1)"
    let ?s2 = "s\<lparr>Index := ?idx\<rparr>"
    have same: "upd_handle pos (\<lambda>k. k\<lparr>Use := SPINLOCK_HELD\<rparr>) s = s"
      by (rule upd_handle_id) (use held in simp)
    have pos': "next_pos ?idx n = (start + Suc j) mod n"
    proof -
      have "(Index s + 1) mod int n = (int pos + 1) mod int n"
        using Suc.prems(8) by (metis mod_add_left_eq)
      also have "\<dots> = int ((start + Suc j) mod n)"
        using Suc.prems(7) by (simp add: zmod_int) (metis add.commute mod_add_right_eq mod_Suc_eq)
      finally show ?thesis
        using next_pos_to_long [OF n0 Suc.prems(2), of "Index s + 1"] by simp
    qed
    have step: "acquire_loop (Suc fuel) ini start pos s =
        (if Suc j = n then Some (None, ?s2)
         else acquire_loop fuel ini start ((start + Suc j) mod n) ?s2)"
      using held same pos' probe_returns [OF Suc.prems(4,6)] Suc.prems(1)
      by (simp add: mSpin_Try_Acquire_def Let_def)
    have pr: "probes start n j = pos # probes start n (Suc j)"
      using probes_Cons [OF Suc.prems(6)] Suc.prems(7) by simp
    show ?thesis
    proof (cases "Suc j = n")
      case True
      then show ?thesis using step pr False by (auto simp: probes_def)
    next
      case more: False
      have ix: "Index ?s2 mod int n = int ((start + Suc j) mod n)"
      proof -
        have "int (next_pos ?idx n) = ?idx mod int n"
          using next_pos_to_long [OF n0 Suc.prems(2), of ?idx] n0 by simp
        with pos' show ?thesis by simp
      qed
      have free: "slot_free ?s2 = slot_free s" by (simp add: slot_free_def fun_eq_iff)
      have lo: "locks_ok ?s2" using Suc.prems(3) by (simp add: locks_ok_def)
      have fj: "fuel = n - Suc j" "Suc j < n" using Suc.prems(5,6) more by simp_all
      obtain ix where "acquire_loop fuel ini start ((start + Suc j) mod n) ?s2 =
           (case find (slot_free ?s2) (probes start n (Suc j)) of
              None \<Rightarrow> Some (None, ?s2\<lparr>Index := ix\<rparr>)
            | Some h \<Rightarrow> Some (Some h, claim_slot ini h (?s2\<lparr>Index := ix\<rparr>)))"
        using Suc.IH [OF _ Suc.prems(2) lo Suc.prems(4) fj(1,2) refl ix] Suc.prems(1)
        by (simp del: acquire_loop.simps) blast
      then show ?thesis using step more pr False free by (auto split: option.splits)
    qed
  qed
qed

text \<open>The order in which an acquire looks at the slots: from the one after the last index on.\<close>

definition start_pos :: "('c, 'o) ksection \<Rightarrow> nat" where
  "start_pos s = next_pos (to_long (Index s + 1)) (handle_count s)"

lemma start_pos_less: "0 < handle_count s \<Longrightarrow> start_pos s < handle_count s"
  by (simp add: start_pos_def next_pos_def)

lemma set_probes: "start < n \<Longrightarrow> set (probes start n 0) = {..<n}"
proof (rule set_eqI)
  fix h
  assume s: "start < n"
  show "h \<in> set (probes start n 0) \<longleftrightarrow> h \<in> {..<n}"
  proof
    assume "h \<in> {..<n}"
    then have h: "h < n" by simp
    let ?i = "(h + n - start) mod n"
    have "(start + ?i) mod n = (start + (h + n - start)) mod n" by (rule mod_add_right_eq)
    also have "\<dots> = h" using h s by simp
    finally have "(start + ?i) mod n = h" .
    moreover have "?i \<in> set [0..<n]" using h by simp
    ultimately have "h \<in> (\<lambda>i. (start + i) mod n) ` set [0..<n]" by (metis image_eqI)
    then show "h \<in> set (probes start n 0)" by (simp add: probes_def)
  qed (use s in \<open>auto simp: probes_def\<close>)
qed

text \<open>What a caller of an acquire gets.\<close>

definition acquired :: "('o \<Rightarrow> 'o) \<Rightarrow> 'c option \<Rightarrow> nat \<Rightarrow> ('c, 'o) ksection \<Rightarrow> ('c, 'o) ksection" where
  "acquired ini cb h s =
     upd_handle h (\<lambda>k. k\<lparr>Use := SPINLOCK_HELD, Ref := 1, Disposing := 0,
       UserValid := False, UserCleanupCB := None, UserContext := DefaultUserContext s,
       body := ini (body k), EvtCleanup := cb\<rparr>) s"

lemma PoolHandle_Acquire_section_spec:
  assumes "locks_ok s" "0 < handle_count s" "handle_count s dvd 2 ^ 32"
  shows "\<exists>ix. PoolHandle_Acquire_section ini cb s =
           (case find (slot_free s) (probes (start_pos s) (handle_count s) 0) of
              None \<Rightarrow> Some (None, s\<lparr>Index := ix\<rparr>)
            | Some h \<Rightarrow> Some (Some h, acquired ini cb h (s\<lparr>Index := ix\<rparr>)))"
proof -
  let ?n = "handle_count s"
  let ?s1 = "s\<lparr>Index := to_long (Index s + 1)\<rparr>"
  have st: "start_pos s < ?n" using assms(2) by (rule start_pos_less)
  have "int (start_pos s) = to_long (Index s + 1) mod int ?n"
    using next_pos_to_long [OF assms(2,3), of "to_long (Index s + 1)"] assms(2)
    by (simp add: start_pos_def)
  moreover have free: "slot_free ?s1 = slot_free s" by (simp add: slot_free_def fun_eq_iff)
  ultimately obtain ix where l: "acquire_loop ?n ini (start_pos s) (start_pos s) ?s1 =
           (case find (slot_free s) (probes (start_pos s) ?n 0) of
              None \<Rightarrow> Some (None, ?s1\<lparr>Index := ix\<rparr>)
            | Some h \<Rightarrow> Some (Some h, claim_slot ini h (?s1\<lparr>Index := ix\<rparr>)))"
    using acquire_loop_spec [of ?n ?s1 "start_pos s" ?n 0 "start_pos s" ini] assms st
    by (auto simp: locks_ok_def)
  show ?thesis
  proof (cases "find (slot_free s) (probes (start_pos s) ?n 0)")
    case None
    with l show ?thesis by (auto simp: PoolHandle_Acquire_section_def start_pos_def Let_def)
  next
    case (Some h)
    then have "h < ?n"
      using set_probes [OF st] by (auto simp: find_Some_iff)
    then have "upd_handle h (\<lambda>k. k\<lparr>EvtCleanup := cb\<rparr>) (claim_slot ini h (s\<lparr>Index := ix\<rparr>)) =
        acquired ini cb h (s\<lparr>Index := ix\<rparr>)"
      by (simp add: claim_slot_def acquired_def Init_Handle_ObjK_def Let_def)
    with l Some show ?thesis by (auto simp: PoolHandle_Acquire_section_def start_pos_def Let_def)
  qed
qed

lemma PoolHandle_Acquire_section_Some:
  assumes "locks_ok s" "0 < handle_count s" "handle_count s dvd 2 ^ 32"
    and "PoolHandle_Acquire_section ini cb s = Some (Some h, s')"
  shows "h < handle_count s \<and> slot_free s h \<and> (\<exists>ix. s' = acquired ini cb h (s\<lparr>Index := ix\<rparr>))"
proof -
  obtain h' where f: "find (slot_free s) (probes (start_pos s) (handle_count s) 0) = Some h'"
    and e: "h = h'" "\<exists>ix. s' = acquired ini cb h (s\<lparr>Index := ix\<rparr>)"
    using PoolHandle_Acquire_section_spec [OF assms(1-3), of ini cb] assms(4)
    by (auto split: option.splits)
  have "h' \<in> set (probes (start_pos s) (handle_count s) 0)" "slot_free s h'"
    using f by (auto simp: find_Some_iff)
  then show ?thesis
    using e set_probes [OF start_pos_less [OF assms(2)]] by auto
qed

lemma PoolHandle_Acquire_section_None:
  assumes "locks_ok s" "0 < handle_count s" "handle_count s dvd 2 ^ 32"
    and "\<forall>h < handle_count s. \<not> slot_free s h"
  shows "\<exists>ix. PoolHandle_Acquire_section ini cb s = Some (None, s\<lparr>Index := ix\<rparr>)"
proof -
  have "find (slot_free s) (probes (start_pos s) (handle_count s) 0) = None"
    using assms(4) set_probes [OF start_pos_less [OF assms(2)]] by (auto simp: find_None_iff)
  then show ?thesis
    using PoolHandle_Acquire_section_spec [OF assms(1-3), of ini cb] by simp
qed

section \<open>Counting against an abstract reference counter\<close>

text \<open>
  A handle is alive when it is in use, not being disposed of and counted at least once. The
  counter of a live handle is below the largest \<open>long\<close>, so that counting does not wrap.
\<close>

definition alive :: "('c, 'o) ksection \<Rightarrow> nat \<Rightarrow> bool" where
  "alive s h \<longleftrightarrow> h < handle_count s \<and> Use (Handles s ! h) = SPINLOCK_HELD \<and> Disposing (Handles s ! h) = 0 \<and>
     1 \<le> Ref (Handles s ! h) \<and> Ref (Handles s ! h) < 2147483647"

lemma PoolHandle_Inc_alive:
  assumes "alive s h"
  shows "PoolHandle_Inc tid h s = (True, upd_handle h (\<lambda>k. k\<lparr>Ref := Ref k + 1\<rparr>) s)"
proof -
  have "to_long (Ref (Handles s ! h) + 1) = Ref (Handles s ! h) + 1"
    using assms by (intro to_long_id) (auto simp: alive_def is_long_def)
  then show ?thesis
    using assms by (simp add: PoolHandle_Inc_def ALLK_INUSE_HANDLE_def alive_def upd_handle_def Let_def)
qed

lemma PoolHandle_IncEx_alive:
  assumes "alive s h"
  shows "PoolHandle_IncEx tid h s =
           (True, Ref (Handles s ! h) + 1, upd_handle h (\<lambda>k. k\<lparr>Ref := Ref k + 1\<rparr>) s)"
proof -
  have "to_long (Ref (Handles s ! h) + 1) = Ref (Handles s ! h) + 1"
    using assms by (intro to_long_id) (auto simp: alive_def is_long_def)
  then show ?thesis
    using assms by (simp add: PoolHandle_IncEx_def ALLK_INUSE_HANDLE_def alive_def upd_handle_def Let_def)
qed

text \<open>
  An increment of a handle that is not alive changes nothing, whatever its count is: the
  increment and the decrement that takes it back cancel even where they wrap.
\<close>

lemma to_long_inc_dec: "is_long x \<Longrightarrow> to_long (to_long (x + 1) - 1) = x"
proof -
  assume x: "is_long x"
  have "(to_long (x + 1) - 1) mod 2 ^ 32 = (to_long (x + 1) mod 2 ^ 32 - 1) mod 2 ^ 32"
    by (metis mod_diff_left_eq)
  also have "\<dots> = ((x + 1) mod 2 ^ 32 - 1) mod 2 ^ 32"
    by (simp only: to_long_mod)
  also have "\<dots> = x mod 2 ^ 32"
    by (metis add_diff_cancel_right' mod_diff_left_eq)
  finally have "to_long (to_long (x + 1) - 1) = to_long x"
    by (rule to_long_cong)
  with x show ?thesis by simp
qed

lemma PoolHandle_Inc_dead:
  assumes "h < handle_count s" "\<not> alive s h" "Disposing (Handles s ! h) = 0 \<or> Disposing (Handles s ! h) \<noteq> tid"
    and "is_long (Ref (Handles s ! h))"
  shows "PoolHandle_Inc tid h s = (False, s)"
proof (cases "Use (Handles s ! h) = SPINLOCK_HELD \<and> Disposing (Handles s ! h) = 0")
  case False
  then show ?thesis using assms by (auto simp: PoolHandle_Inc_def ALLK_INUSE_HANDLE_def Let_def)
next
  case True
  let ?r = "Ref (Handles s ! h)"
  have r: "?r \<le> 0 \<or> ?r = 2147483647"
    using assms True by (auto simp: alive_def is_long_def)
  then have "\<not> to_long (?r + 1) > 1"
  proof
    assume "?r \<le> 0"
    moreover have "to_long (?r + 1) = ?r + 1"
      using \<open>?r \<le> 0\<close> assms(4) by (intro to_long_id) (auto simp: is_long_def)
    ultimately show ?thesis by simp
  next
    assume "?r = 2147483647"
    moreover have "to_long 2147483648 = - 2147483648" by code_simp
    ultimately show ?thesis by simp
  qed
  moreover have "upd_handle h (\<lambda>k. k\<lparr>Ref := to_long (Ref k - 1)\<rparr>)
       (upd_handle h (\<lambda>k. k\<lparr>Ref := to_long (?r + 1)\<rparr>) s) = s"
    using assms(1) to_long_inc_dec [OF assms(4)] by (simp add: upd_handle_id)
  ultimately show ?thesis
    using True by (simp add: PoolHandle_Inc_def ALLK_INUSE_HANDLE_def Let_def)
qed

text \<open>The counter the code implements: how often a live handle is referenced.\<close>

definition refcount :: "('c, 'o) ksection \<Rightarrow> nat \<Rightarrow> nat option" where
  "refcount s h = (if alive s h then Some (nat (Ref (Handles s ! h))) else None)"

locale pool_lens =
  fixes L :: "('w, ('c, 'o) ksection) lens"
  assumes get_put [simp]: "lget L (lput L s w) = s"
    and put_get [simp]: "lput L (lget L w) w = w"
    and put_put [simp]: "lput L s (lput L s' w) = lput L s w"
begin

lemma dec_alive:
  assumes "alive (lget L w) h" "1 < Ref (Handles (lget L w) ! h)"
  shows "PoolHandle_Dec L run tid h w = (True, lput L (upd_handle h (\<lambda>k. k\<lparr>Ref := Ref k - 1\<rparr>) (lget L w)) w)"
proof -
  have "to_long (Ref (Handles (lget L w) ! h) - 1) = Ref (Handles (lget L w) ! h) - 1"
    using assms by (intro to_long_id) (auto simp: alive_def is_long_def)
  then show ?thesis
    using assms by (simp add: PoolHandle_Dec_def ALLK_INUSE_HANDLE_def alive_def Let_def upd_handle_def)
qed

text \<open>A reference that is taken and dropped leaves the whole state as it was.\<close>

lemma inc_dec:
  assumes "alive (lget L w) h" "Ref (Handles (lget L w) ! h) < 2147483646"
  shows "PoolHandle_Dec L run tid' h (lput L (snd (PoolHandle_Inc tid h (lget L w))) w) = (True, w)"
proof -
  let ?s = "upd_handle h (\<lambda>k. k\<lparr>Ref := Ref k + 1\<rparr>) (lget L w)"
  have h: "h < handle_count (lget L w)" using assms(1) by (simp add: alive_def)
  have "alive (lget L (lput L ?s w)) h" "1 < Ref (Handles (lget L (lput L ?s w)) ! h)"
    using assms h by (auto simp: alive_def)
  then have "PoolHandle_Dec L run tid' h (lput L ?s w) =
      (True, lput L (upd_handle h (\<lambda>k. k\<lparr>Ref := Ref k - 1\<rparr>) ?s) w)"
    using dec_alive [of "lput L ?s w" h] by simp
  moreover have "upd_handle h (\<lambda>k. k\<lparr>Ref := Ref k - 1\<rparr>) ?s = lget L w"
    using h by (simp add: upd_handle_id)
  ultimately show ?thesis using PoolHandle_Inc_alive [OF assms(1)] by simp
qed

text \<open>
  The last release runs the cleanup routine in a state where the handle is marked as being
  disposed of, then frees the slot.
\<close>

definition disposing :: "DWORD \<Rightarrow> nat \<Rightarrow> 'w \<Rightarrow> 'w" where
  "disposing tid h w = lput L (upd_handle h (\<lambda>k. k\<lparr>Ref := 0, Disposing := tid\<rparr>) (lget L w)) w"

definition freed :: "nat \<Rightarrow> 'w \<Rightarrow> 'w" where
  "freed h w = lput L (upd_handle h (\<lambda>k. k\<lparr>EvtCleanup := None, Use := 0\<rparr>) (lget L w)) w"

lemma dec_last:
  assumes "alive (lget L w) h" "Ref (Handles (lget L w) ! h) = 1" "EvtCleanup (Handles (lget L w) ! h) = Some cb"
    and "h < handle_count (lget L (run cb h (disposing tid h w)))"
  shows "PoolHandle_Dec L run tid h w = (False, freed h (run cb h (disposing tid h w)))"
proof -
  have h: "h < handle_count (lget L w)" using assms(1) by (simp add: alive_def)
  have "to_long 0 = 0" by (simp add: to_long_def)
  then show ?thesis
    using assms h
    by (simp add: PoolHandle_Dec_def ALLK_INUSE_HANDLE_def alive_def Let_def disposing_def freed_def upd_handle_def
        handle_count_def)
qed

end

section \<open>Properties\<close>

definition example_slot :: "LONG \<Rightarrow> (unit, nat) kobj" where
  "example_slot u = \<lparr>Use = u, Ref = 1, Disposing = 0, EvtCleanup = Some (), UserValid = False,
     UserCleanupCB = None, UserContext = 0, body = 0\<rparr>"

definition example_section :: "(unit, nat) ksection" where
  "example_section = \<lparr>Index = -1, DefaultUserContext = 7,
     Handles = [example_slot SPINLOCK_HELD, example_slot 0]\<rparr>"

text \<open>
  C1. Acquiring a handle: the search starts after the last position used and goes round the whole
  array once, so a free slot is found whenever there is one, the first one in that order. That
  slot alone is claimed, with one reference, the default context, no user callback and the given
  cleanup routine. When no slot is free nothing but the position changes.
\<close>

theorem acquire_first_free:
  assumes "locks_ok s" "0 < handle_count s" "handle_count s dvd 2 ^ 32"
  shows "\<exists>ix. PoolHandle_Acquire_section ini cb s =
           (case find (slot_free s) (probes (start_pos s) (handle_count s) 0) of
              None \<Rightarrow> Some (None, s\<lparr>Index := ix\<rparr>)
            | Some h \<Rightarrow> Some (Some h, acquired ini cb h (s\<lparr>Index := ix\<rparr>)))
         \<and> set (probes (start_pos s) (handle_count s) 0) = {..<handle_count s}"
  using PoolHandle_Acquire_section_spec [OF assms] set_probes [OF start_pos_less [OF assms(2)]] by auto

lemma example_section_count: "handle_count example_section = 2"
  by (simp add: example_section_def handle_count_def)

theorem acquire_first_free_witness:
  "map_option fst (PoolHandle_Acquire_section (\<lambda>_. 0) (Some ()) example_section) = Some (Some 1)"
proof -
  have "start_pos example_section = 0"
    by (simp add: start_pos_def next_pos_def example_section_count) (simp add: example_section_def to_long_def)
  then have f: "find (slot_free example_section) (probes (start_pos example_section) (handle_count example_section) 0) = Some 1"
    unfolding example_section_count
    by (simp add: probes_def upt_rec slot_free_def example_section_def example_slot_def)
  have "locks_ok example_section"
    by (simp add: locks_ok_def example_section_def example_slot_def)
  then show ?thesis
    using acquire_first_free [of example_section "\<lambda>_. 0" "Some ()"] unfolding f
    by (auto simp: example_section_count)
qed

text \<open>
  Reference counting. On a live handle an increment succeeds and adds one; on any other
  handle it fails without an effect (the count is not disturbed even where it wraps), except that
  the thread that disposes of a handle is let through, uncounted.
\<close>

theorem PoolHandle_Inc_spec:
  assumes "h < handle_count s" and "is_long (Ref (Handles s ! h))"
  shows "PoolHandle_Inc tid h s =
           (if alive s h then (True, upd_handle h (\<lambda>k. k\<lparr>Ref := Ref k + 1\<rparr>) s)
            else (Use (Handles s ! h) = SPINLOCK_HELD \<and> Disposing (Handles s ! h) \<noteq> 0 \<and>
                  Disposing (Handles s ! h) = tid, s))"
proof (cases "alive s h \<or> Disposing (Handles s ! h) \<noteq> 0")
  case True
  then show ?thesis
    by (auto simp: PoolHandle_Inc_alive) (auto simp: PoolHandle_Inc_def ALLK_INUSE_HANDLE_def alive_def Let_def)
next
  case False
  then show ?thesis using PoolHandle_Inc_dead [of h s tid] assms by simp
qed

theorem PoolHandle_Inc_spec_witness:
  "fst (PoolHandle_Inc 5 1 example_section) = False \<and> snd (PoolHandle_Inc 5 1 example_section) = example_section"
  using PoolHandle_Inc_spec [of 1 example_section 5]
  by (simp add: example_section_def example_slot_def handle_count_def alive_def is_long_def)

end
