(* ===== verification/Linked_List.thy ===== *)
theory Linked_List
  imports LibK_Prelude "HOL-Library.Monad_Syntax"
begin

text \<open>
  The doubly linked list macros of \<open>lusbk_linked_list.h\<close> (utlist) over an explicit store of
  \<open>next\<close> and \<open>prev\<close> fields. A list is its head pointer; the head's \<open>prev\<close> is the tail and the
  tail's \<open>next\<close> is null. Every dereference of the null pointer makes the macro fail
  (\<open>None\<close>). The representation predicate \<open>dl_rep\<close> relates a head pointer to the list of its
  elements; the locale \<open>dlist\<close> states what clients of the macros rely on, and its
  interpretation shows that the macros provide it.
\<close>

section \<open>The store\<close>

record dl_heap =
  nxt :: "addr \<Rightarrow> addr"
  prv :: "addr \<Rightarrow> addr"

definition get_next :: "dl_heap \<Rightarrow> addr \<Rightarrow> addr option" where
  [dl_ops]: "get_next h p = (if p = NULL then None else Some (nxt h p))"

definition get_prev :: "dl_heap \<Rightarrow> addr \<Rightarrow> addr option" where
  [dl_ops]: "get_prev h p = (if p = NULL then None else Some (prv h p))"

definition set_next :: "dl_heap \<Rightarrow> addr \<Rightarrow> addr \<Rightarrow> dl_heap option" where
  [dl_ops]: "set_next h p q = (if p = NULL then None else Some (h\<lparr>nxt := (nxt h)(p := q)\<rparr>))"

definition set_prev :: "dl_heap \<Rightarrow> addr \<Rightarrow> addr \<Rightarrow> dl_heap option" where
  [dl_ops]: "set_prev h p q = (if p = NULL then None else Some (h\<lparr>prv := (prv h)(p := q)\<rparr>))"

section \<open>The macros\<close>

definition DL_PREPEND :: "dl_heap \<Rightarrow> addr \<Rightarrow> addr \<Rightarrow> (dl_heap \<times> addr) option" where
  [dl_ops]: "DL_PREPEND h head add = do {
     h1 \<leftarrow> set_next h add head;
     h2 \<leftarrow> (if head \<noteq> NULL
            then do { p \<leftarrow> get_prev h1 head; h' \<leftarrow> set_prev h1 add p; set_prev h' head add }
            else set_prev h1 add add);
     Some (h2, add) }"

definition DL_APPEND :: "dl_heap \<Rightarrow> addr \<Rightarrow> addr \<Rightarrow> (dl_heap \<times> addr) option" where
  [dl_ops]: "DL_APPEND h head add =
     (if head \<noteq> NULL then do {
        t \<leftarrow> get_prev h head;
        h1 \<leftarrow> set_prev h add t;
        t' \<leftarrow> get_prev h1 head;
        h2 \<leftarrow> set_next h1 t' add;
        h3 \<leftarrow> set_prev h2 head add;
        h4 \<leftarrow> set_next h3 add NULL;
        Some (h4, head) }
      else do {
        h1 \<leftarrow> set_prev h add add;
        h2 \<leftarrow> set_next h1 add NULL;
        Some (h2, add) })"

definition DL_DELETE :: "dl_heap \<Rightarrow> addr \<Rightarrow> addr \<Rightarrow> (dl_heap \<times> addr) option" where
  [dl_ops]: "DL_DELETE h head del = do {
     p \<leftarrow> get_prev h del;
     n \<leftarrow> get_next h del;
     if p = del then Some (h, NULL)
     else if del = head then do { h1 \<leftarrow> set_prev h n p; n' \<leftarrow> get_next h1 del; Some (h1, n') }
     else do {
       h1 \<leftarrow> set_next h p n;
       n1 \<leftarrow> get_next h1 del;
       if n1 \<noteq> NULL
       then do { p1 \<leftarrow> get_prev h1 del; h2 \<leftarrow> set_prev h1 n1 p1; Some (h2, head) }
       else do { p1 \<leftarrow> get_prev h1 del; h2 \<leftarrow> set_prev h1 head p1; Some (h2, head) } } }"

text \<open>
  The loops over a list follow the \<open>next\<close> pointers until null. On a damaged list they may not
  end, so they take fuel and return \<open>None\<close> when it runs out; one unit more than the number of
  elements is enough (\<open>DL_FOREACH_rep\<close>, \<open>LL_SEARCH_SCALAR_rep\<close>, \<open>DL_MOVE_APPEND_rep\<close>).
  They are stated over the operations they call, as the macros are.
\<close>

fun walk_list :: "('h \<Rightarrow> 'a \<Rightarrow> 'a) \<Rightarrow> 'a \<Rightarrow> nat \<Rightarrow> 'h \<Rightarrow> 'a \<Rightarrow> 'a list option" where
  "walk_list nx null 0 h el = None"
| "walk_list nx null (Suc fuel) h el =
     (if el = null then Some [] else map_option ((#) el) (walk_list nx null fuel h (nx h el)))"

fun search_list :: "('h \<Rightarrow> 'a \<Rightarrow> 'a) \<Rightarrow> 'a \<Rightarrow> nat \<Rightarrow> 'h \<Rightarrow> 'a \<Rightarrow> ('a \<Rightarrow> 'v) \<Rightarrow> 'v \<Rightarrow> 'a option" where
  "search_list nx null 0 h out field val = None"
| "search_list nx null (Suc fuel) h out field val =
     (if out = null then Some null
      else if field out = val then Some out
      else search_list nx null fuel h (nx h out) field val)"

text \<open>
  The idiom \<open>DL_FOREACH_SAFE(src, el, tmp) { DL_DELETE(src, el); DL_APPEND(dst, el); }\<close>:
  the successor is read before the element is unlinked.
\<close>

fun move_list ::
  "('h \<Rightarrow> 'a \<Rightarrow> 'a) \<Rightarrow> 'a \<Rightarrow> ('h \<Rightarrow> 'a \<Rightarrow> 'a \<Rightarrow> ('h \<times> 'a) option) \<Rightarrow> ('h \<Rightarrow> 'a \<Rightarrow> 'a \<Rightarrow> ('h \<times> 'a) option)
   \<Rightarrow> nat \<Rightarrow> 'h \<Rightarrow> 'a \<Rightarrow> 'a \<Rightarrow> 'a \<Rightarrow> ('h \<times> 'a \<times> 'a) option" where
  "move_list nx null del put 0 h src dst el = None"
| "move_list nx null del put (Suc fuel) h src dst el =
     (if el = null then Some (h, src, dst)
      else do {
        let tmp = nx h el;
        (h1, src1) \<leftarrow> del h src el;
        (h2, dst1) \<leftarrow> put h1 dst el;
        move_list nx null del put fuel h2 src1 dst1 tmp })"

definition DL_FOREACH :: "nat \<Rightarrow> dl_heap \<Rightarrow> addr \<Rightarrow> addr list option" where
  "DL_FOREACH = walk_list nxt NULL"

definition LL_SEARCH_SCALAR ::
  "nat \<Rightarrow> dl_heap \<Rightarrow> addr \<Rightarrow> (addr \<Rightarrow> 'v) \<Rightarrow> 'v \<Rightarrow> addr option" where
  "LL_SEARCH_SCALAR = search_list nxt NULL"

definition DL_MOVE_APPEND ::
  "nat \<Rightarrow> dl_heap \<Rightarrow> addr \<Rightarrow> addr \<Rightarrow> (dl_heap \<times> addr \<times> addr) option" where
  "DL_MOVE_APPEND fuel h src dst = move_list nxt NULL DL_DELETE DL_APPEND fuel h src dst src"

definition DL_MOVE_PREPEND ::
  "nat \<Rightarrow> dl_heap \<Rightarrow> addr \<Rightarrow> addr \<Rightarrow> (dl_heap \<times> addr \<times> addr) option" where
  "DL_MOVE_PREPEND fuel h src dst = move_list nxt NULL DL_DELETE DL_PREPEND fuel h src dst src"

section \<open>Representation\<close>

fun linked :: "dl_heap \<Rightarrow> addr list \<Rightarrow> bool" where
  "linked h [] = True"
| "linked h [x] = True"
| "linked h (x # y # zs) = (nxt h x = y \<and> prv h y = x \<and> linked h (y # zs))"

definition dl_rep :: "dl_heap \<Rightarrow> addr \<Rightarrow> addr list \<Rightarrow> bool" where
  "dl_rep h head xs \<longleftrightarrow>
     (if xs = [] then head = NULL
      else head = hd xs \<and> NULL \<notin> set xs \<and> distinct xs \<and> linked h xs \<and>
           prv h (hd xs) = last xs \<and> nxt h (last xs) = NULL)"

subsection \<open>Facts about \<open>linked\<close>\<close>

lemma linked_frame:
  "\<forall>x \<in> set (butlast xs). nxt h' x = nxt h x \<Longrightarrow> \<forall>x \<in> set (tl xs). prv h' x = prv h x \<Longrightarrow>
   linked h' xs = linked h xs"
  by (induction h xs rule: linked.induct) auto

lemma linked_append:
  "linked h (xs @ y # ys) \<longleftrightarrow> linked h (xs @ [y]) \<and> linked h (y # ys)"
  by (induction h xs rule: linked.induct) auto

lemma linked_snoc:
  "xs \<noteq> [] \<Longrightarrow> linked h (xs @ [y]) \<longleftrightarrow> linked h xs \<and> nxt h (last xs) = y \<and> prv h y = last xs"
  by (induction h xs rule: linked.induct) auto

lemma linked_Cons:
  "xs \<noteq> [] \<Longrightarrow> linked h (x # xs) \<longleftrightarrow> nxt h x = hd xs \<and> prv h (hd xs) = x \<and> linked h xs"
  by (cases xs) auto

lemma dl_rep_Nil [simp]: "dl_rep h head [] \<longleftrightarrow> head = NULL"
  by (simp add: dl_rep_def)

lemma dl_rep_NULL [simp]: "dl_rep h NULL xs \<longleftrightarrow> xs = []"
  by (cases xs) (auto simp: dl_rep_def)

lemma dl_repD:
  assumes "dl_rep h head xs"
  shows "distinct xs" "NULL \<notin> set xs" "linked h xs"
  using assms by (auto simp: dl_rep_def split: if_splits)

lemma dl_rep_frame:
  assumes "dl_rep h head xs" and "\<forall>x \<in> set xs. nxt h' x = nxt h x \<and> prv h' x = prv h x"
  shows "dl_rep h' head xs"
proof (cases "xs = []")
  case True
  with assms show ?thesis by simp
next
  case False
  have "linked h' xs = linked h xs"
    using assms(2) by (intro linked_frame) (auto dest: in_set_butlastD list.set_sel(2) [OF False])
  with False assms show ?thesis
    by (simp add: dl_rep_def)
qed

section \<open>The macros implement lists\<close>

lemma DL_PREPEND_rep:
  assumes "dl_rep h head xs" and "a \<notin> set xs" and "a \<noteq> NULL"
  shows "\<exists>h'. DL_PREPEND h head a = Some (h', a) \<and> dl_rep h' a (a # xs) \<and>
          (\<forall>x. x \<noteq> a \<and> x \<notin> set xs \<longrightarrow> nxt h' x = nxt h x \<and> prv h' x = prv h x)"
proof (cases "xs = []")
  case True
  with assms show ?thesis by (simp add: dl_ops dl_rep_def)
next
  case False
  then obtain y ys where xs: "xs = y # ys" by (cases xs) auto
  let ?h = "h\<lparr>nxt := (nxt h)(a := y), prv := (prv h)(a := last xs, y := a)\<rparr>"
  have l: "linked ?h (y # ys) = linked h (y # ys)"
    using assms xs by (intro linked_frame) (auto simp: dl_rep_def dest: in_set_butlastD)
  have "DL_PREPEND h head a = Some (?h, a)"
    using assms xs by (simp add: dl_ops dl_rep_def)
  moreover have "dl_rep ?h a (a # xs)"
    using assms xs l by (auto simp: dl_rep_def)
  ultimately show ?thesis using xs by auto
qed

lemma DL_APPEND_rep:
  assumes "dl_rep h head xs" and "a \<notin> set xs" and "a \<noteq> NULL"
  shows "\<exists>h' head'. DL_APPEND h head a = Some (h', head') \<and> dl_rep h' head' (xs @ [a]) \<and>
          (\<forall>x. x \<noteq> a \<and> x \<notin> set xs \<longrightarrow> nxt h' x = nxt h x \<and> prv h' x = prv h x)"
proof (cases "xs = []")
  case True
  with assms show ?thesis by (simp add: dl_ops dl_rep_def)
next
  case False
  let ?t = "last xs"
  let ?h = "h\<lparr>nxt := (nxt h)(?t := a, a := NULL), prv := (prv h)(a := ?t, head := a)\<rparr>"
  have nz: "hd xs \<noteq> NULL" "?t \<noteq> NULL"
    using dl_repD(2) [OF assms(1)] False by (metis hd_in_set, metis last_in_set)
  have head: "head = hd xs" "head \<noteq> NULL" "prv h head = ?t" "a \<noteq> head" "?t \<noteq> NULL" "a \<noteq> ?t"
    using assms nz False by (auto simp: dl_rep_def)
  have bl: "x \<in> set (butlast xs) \<Longrightarrow> x \<noteq> ?t" for x
    using dl_repD(1) [OF assms(1)] False
    by (metis append_butlast_last_id distinct_butlast not_distinct_conv_prefix)
  have tl: "x \<in> set (tl xs) \<Longrightarrow> x \<noteq> head" for x
    using dl_repD(1) [OF assms(1)] False head(1) by (cases xs) auto
  have "linked ?h xs = linked h xs"
    using assms(2) bl tl False
    by (intro linked_frame) (auto dest: in_set_butlastD list.set_sel(2) [OF False])
  then have "linked ?h (xs @ [a])"
    using False assms head by (auto simp: linked_snoc dl_rep_def)
  then have "dl_rep ?h head (xs @ [a])"
    using assms False head by (auto simp: dl_rep_def)
  moreover have "DL_APPEND h head a = Some (?h, head)"
    using head assms(3) by (simp add: dl_ops)
  ultimately show ?thesis using False head(1) by auto
qed

text \<open>
  Deletion has four cases: the only element, the head, the tail and an inner element. Each
  writes at most one \<open>next\<close> and one \<open>prev\<close> field.
\<close>

lemma DL_DELETE_only:
  assumes "dl_rep h head [d]"
  shows "DL_DELETE h head d = Some (h, NULL)"
  using assms by (auto simp: dl_ops dl_rep_def)

lemma DL_DELETE_head:
  assumes "dl_rep h head (d # b # bs)"
  shows "\<exists>h'. DL_DELETE h head d = Some (h', b) \<and> dl_rep h' b (b # bs) \<and>
          (\<forall>x. x \<notin> set (b # bs) \<longrightarrow> nxt h' x = nxt h x \<and> prv h' x = prv h x)"
proof -
  let ?h = "h\<lparr>prv := (prv h)(b := last (b # bs))\<rparr>"
  have l: "linked ?h (b # bs) = linked h (b # bs)"
    using assms by (intro linked_frame) (auto simp: dl_rep_def)
  have "DL_DELETE h head d = Some (?h, b)"
    using assms by (auto simp: dl_ops dl_rep_def)
  moreover have "dl_rep ?h b (b # bs)"
    using assms l by (auto simp: dl_rep_def)
  ultimately show ?thesis by auto
qed

lemma DL_DELETE_tail:
  assumes "dl_rep h head (as @ [d])" and "as \<noteq> []"
  shows "\<exists>h'. DL_DELETE h head d = Some (h', head) \<and> dl_rep h' head as \<and>
          (\<forall>x. x \<notin> set as \<longrightarrow> nxt h' x = nxt h x \<and> prv h' x = prv h x)"
proof -
  let ?t = "last as"
  let ?h = "h\<lparr>nxt := (nxt h)(?t := NULL), prv := (prv h)(head := ?t)\<rparr>"
  have d: "linked h as" "prv h d = ?t" "nxt h d = NULL" "d \<notin> set as" "distinct as" "NULL \<notin> set as"
      "head = hd as" "d \<noteq> NULL"
    using assms by (auto simp: dl_rep_def linked_snoc)
  have nz: "hd as \<noteq> NULL" "?t \<noteq> NULL" "hd as \<in> set as" "?t \<in> set as"
    using d(6) assms(2) by (metis hd_in_set, metis last_in_set, auto)
  have bl: "x \<in> set (butlast as) \<Longrightarrow> x \<noteq> ?t" for x
    using d(5) assms(2) by (metis append_butlast_last_id distinct_butlast not_distinct_conv_prefix)
  have tl: "x \<in> set (tl as) \<Longrightarrow> x \<noteq> hd as" for x
    using d(5) assms(2) by (cases as) auto
  have "linked ?h as = linked h as"
    using bl tl d(7) by (intro linked_frame) auto
  then have "dl_rep ?h head as"
    using assms(2) d by (auto simp: dl_rep_def)
  moreover have "DL_DELETE h head d = Some (?h, head)"
    using d nz by (auto simp: dl_ops)
  ultimately show ?thesis using nz d(7) by auto
qed

lemma DL_DELETE_inner:
  assumes "dl_rep h head (as @ d # b # bs)" and "as \<noteq> []"
  shows "\<exists>h'. DL_DELETE h head d = Some (h', head) \<and> dl_rep h' head (as @ b # bs) \<and>
          (\<forall>x. x \<notin> set (as @ b # bs) \<longrightarrow> nxt h' x = nxt h x \<and> prv h' x = prv h x)"
proof -
  let ?t = "last as"
  let ?h = "h\<lparr>nxt := (nxt h)(?t := b), prv := (prv h)(b := ?t)\<rparr>"
  have d: "linked h as" "linked h (b # bs)" "prv h d = ?t" "nxt h d = b" "d \<notin> set as" "distinct as"
      "NULL \<notin> set as" "head = hd as" "d \<noteq> NULL" "b \<noteq> NULL" "b \<noteq> d" "b \<notin> set as" "distinct (b # bs)"
      "set as \<inter> set (b # bs) = {}"
    using assms linked_append [of h as d "b # bs"] by (auto simp: dl_rep_def linked_snoc)
  have nz: "?t \<noteq> NULL" "hd as \<noteq> NULL" "?t \<in> set as" "hd as \<in> set as"
    using d(7) assms(2) by (metis last_in_set, metis hd_in_set, auto)
  have bl: "x \<in> set (butlast as) \<Longrightarrow> x \<noteq> ?t" for x
    using d(6) assms(2) by (metis append_butlast_last_id distinct_butlast not_distinct_conv_prefix)
  have "linked ?h as = linked h as"
    using bl d(12) assms(2) by (intro linked_frame) (auto dest: list.set_sel(2) [OF assms(2)])
  moreover have "linked ?h (b # bs) = linked h (b # bs)"
    using d(13,14) nz(3) by (intro linked_frame) (auto dest: in_set_butlastD split: if_splits)
  ultimately have "linked ?h (as @ b # bs)"
    using d(1,2) assms(2) by (subst linked_append) (simp add: linked_snoc)
  moreover have "prv h head = last (b # bs)" "nxt h (last (b # bs)) = NULL"
    using assms by (auto simp: dl_rep_def)
  moreover have "last (b # bs) \<in> set (b # bs)" by (rule last_in_set) simp
  then have "last (b # bs) \<noteq> ?t" using d(14) nz(3) by auto
  moreover have "head \<noteq> b" using d(8,12) nz(4) by auto
  ultimately have "dl_rep ?h head (as @ b # bs)"
    using d(6,7,8,10,13,14) assms by (auto simp: dl_rep_def)
  moreover have "DL_DELETE h head d = Some (?h, head)"
    using d(3,4,5,8,9,10,11) nz by (auto simp: dl_ops)
  moreover have "\<forall>x. x \<notin> set (as @ b # bs) \<longrightarrow> nxt ?h x = nxt h x \<and> prv ?h x = prv h x"
    using nz(3) by auto
  ultimately show ?thesis by blast
qed

lemma DL_DELETE_rep:
  assumes "dl_rep h head xs" and "d \<in> set xs"
  shows "\<exists>h' head'. DL_DELETE h head d = Some (h', head') \<and> dl_rep h' head' (remove1 d xs) \<and>
          (\<forall>x. x \<notin> set (remove1 d xs) \<longrightarrow> nxt h' x = nxt h x \<and> prv h' x = prv h x)"
proof -
  obtain as bs where xs: "xs = as @ d # bs" and nin: "d \<notin> set as"
    using split_at_mem [OF assms(2)] by blast
  have r: "remove1 d xs = as @ bs" using nin xs by (simp add: remove1_split)
  show ?thesis
  proof (cases as)
    case Nil
    show ?thesis
    proof (cases bs)
      case Nil
      then show ?thesis
        using assms(1) xs r \<open>as = []\<close> DL_DELETE_only [of h head d] by simp
    next
      case (Cons b bs')
      then show ?thesis
        using assms(1) xs r \<open>as = []\<close> DL_DELETE_head [of h head d b bs'] by fastforce
    qed
  next
    case (Cons a as')
    then have ne: "as \<noteq> []" by simp
    show ?thesis
    proof (cases bs)
      case Nil
      then show ?thesis
        using assms(1) xs r ne DL_DELETE_tail [of h head as d] by fastforce
    next
      case (Cons b bs')
      then show ?thesis
        using assms(1) xs r ne DL_DELETE_inner [of h head as d b bs'] by fastforce
    qed
  qed
qed

section \<open>The interface of the lists\<close>

text \<open>
  What the code relies on: an operation on one list keeps every other list it shares no
  element with, appending adds at the end, prepending at the front, deleting removes the
  element, and \<open>next\<close> leads from each element to the one after it.
\<close>

definition head_of :: "'a \<Rightarrow> 'a list \<Rightarrow> 'a" where
  "head_of null xs = (case xs of [] \<Rightarrow> null | x # _ \<Rightarrow> x)"

lemma head_of_simps [simp]: "head_of null [] = null" "head_of null (x # xs) = x"
  by (simp_all add: head_of_def)

locale dlist =
  fixes rep :: "'h \<Rightarrow> 'a \<Rightarrow> 'a list \<Rightarrow> bool"
    and null :: 'a
    and nx :: "'h \<Rightarrow> 'a \<Rightarrow> 'a"
    and app pre del :: "'h \<Rightarrow> 'a \<Rightarrow> 'a \<Rightarrow> ('h \<times> 'a) option"
  assumes rep_empty: "rep h null []"
    and rep_head: "rep h p xs \<Longrightarrow> p = head_of null xs"
    and rep_distinct: "rep h p xs \<Longrightarrow> distinct xs \<and> null \<notin> set xs"
    and rep_nx: "rep h p (as @ x # bs) \<Longrightarrow> nx h x = head_of null bs"
    and app_rep: "rep h p xs \<Longrightarrow> a \<notin> set xs \<Longrightarrow> a \<noteq> null \<Longrightarrow>
      \<exists>h' p'. app h p a = Some (h', p') \<and> rep h' p' (xs @ [a]) \<and>
        (\<forall>q ys. rep h q ys \<longrightarrow> set ys \<inter> insert a (set xs) = {} \<longrightarrow> rep h' q ys)"
    and pre_rep: "rep h p xs \<Longrightarrow> a \<notin> set xs \<Longrightarrow> a \<noteq> null \<Longrightarrow>
      \<exists>h' p'. pre h p a = Some (h', p') \<and> rep h' p' (a # xs) \<and>
        (\<forall>q ys. rep h q ys \<longrightarrow> set ys \<inter> insert a (set xs) = {} \<longrightarrow> rep h' q ys)"
    and del_rep: "rep h p xs \<Longrightarrow> a \<in> set xs \<Longrightarrow>
      \<exists>h' p'. del h p a = Some (h', p') \<and> rep h' p' (remove1 a xs) \<and>
        (\<forall>q ys. rep h q ys \<longrightarrow> set ys \<inter> set xs = {} \<longrightarrow> rep h' q ys)"
begin

lemma walk_from:
  "rep h p (as @ xs) \<Longrightarrow> length xs < fuel \<Longrightarrow> walk_list nx null fuel h (head_of null xs) = Some xs"
proof (induction xs arbitrary: as fuel)
  case Nil
  then show ?case by (cases fuel) auto
next
  case (Cons x xs)
  obtain f where f: "fuel = Suc f" using Cons.prems(2) by (cases fuel) auto
  have "x \<noteq> null" using rep_distinct [OF Cons.prems(1)] by auto
  moreover have "nx h x = head_of null xs" using rep_nx [OF Cons.prems(1)] .
  moreover have "walk_list nx null f h (head_of null xs) = Some xs"
    using Cons.IH [of "as @ [x]" f] Cons.prems f by simp
  ultimately show ?case using f by simp
qed

lemma walk_rep: "rep h p xs \<Longrightarrow> length xs < fuel \<Longrightarrow> walk_list nx null fuel h p = Some xs"
  using walk_from [of h p "[]" xs fuel] rep_head [of h p xs] by simp

lemma search_from:
  "rep h p (as @ xs) \<Longrightarrow> length xs < fuel \<Longrightarrow>
   search_list nx null fuel h (head_of null xs) field v =
     Some (case find (\<lambda>x. field x = v) xs of None \<Rightarrow> null | Some x \<Rightarrow> x)"
proof (induction xs arbitrary: as fuel)
  case Nil
  then show ?case by (cases fuel) auto
next
  case (Cons x xs)
  obtain f where f: "fuel = Suc f" using Cons.prems(2) by (cases fuel) auto
  have "x \<noteq> null" using rep_distinct [OF Cons.prems(1)] by auto
  moreover have "nx h x = head_of null xs" using rep_nx [OF Cons.prems(1)] .
  ultimately show ?case
    using Cons.IH [of "as @ [x]" f] Cons.prems f by simp
qed

lemma search_rep:
  "rep h p xs \<Longrightarrow> length xs < fuel \<Longrightarrow>
   search_list nx null fuel h p field v =
     Some (case find (\<lambda>x. field x = v) xs of None \<Rightarrow> null | Some x \<Rightarrow> x)"
  using search_from [of h p "[]" xs fuel] rep_head [of h p xs] by simp

lemma del_head:
  assumes "rep h p (x # xs)"
  shows "\<exists>h'. del h p x = Some (h', head_of null xs) \<and> rep h' (head_of null xs) xs \<and>
           (\<forall>q ys. rep h q ys \<longrightarrow> set ys \<inter> set (x # xs) = {} \<longrightarrow> rep h' q ys)"
  using del_rep [OF assms, of x] rep_head by fastforce

lemma move_append:
  "rep h src xs \<Longrightarrow> rep h dst ys \<Longrightarrow> set xs \<inter> set ys = {} \<Longrightarrow> length xs < fuel \<Longrightarrow>
   \<exists>h' dst'. move_list nx null del app fuel h src dst src = Some (h', null, dst') \<and>
     rep h' dst' (ys @ xs) \<and>
     (\<forall>q zs. rep h q zs \<longrightarrow> set zs \<inter> (set xs \<union> set ys) = {} \<longrightarrow> rep h' q zs)"
proof (induction xs arbitrary: h src dst ys fuel)
  case Nil
  then show ?case using rep_head [of h src "[]"] by (cases fuel) auto
next
  case (Cons x xs)
  obtain f where f: "fuel = Suc f" using Cons.prems(4) by (cases fuel) auto
  have x: "src = x" "x \<noteq> null" "x \<notin> set xs" "nx h x = head_of null xs"
    using rep_head [OF Cons.prems(1)] rep_distinct [OF Cons.prems(1)]
      rep_nx [of h src "[]" x xs] Cons.prems(1) by auto
  obtain h1 where d: "del h src x = Some (h1, head_of null xs)" "rep h1 (head_of null xs) xs"
    and d_frame: "\<And>q zs. rep h q zs \<Longrightarrow> set zs \<inter> set (x # xs) = {} \<Longrightarrow> rep h1 q zs"
    using del_head [OF Cons.prems(1)] by blast
  have r1: "rep h1 dst ys" using d_frame Cons.prems(2,3) by blast
  obtain h2 dst1 where a: "app h1 dst x = Some (h2, dst1)" "rep h2 dst1 (ys @ [x])"
    and a_frame: "\<And>q zs. rep h1 q zs \<Longrightarrow> set zs \<inter> insert x (set ys) = {} \<Longrightarrow> rep h2 q zs"
    using app_rep [OF r1 _ x(2)] Cons.prems(3) by (meson disjoint_iff list.set_intros(1))
  have "rep h2 (head_of null xs) xs" using a_frame [OF d(2)] x(3) Cons.prems(3) by auto
  then obtain h' dst' where
    m: "move_list nx null del app f h2 (head_of null xs) dst1 (head_of null xs) = Some (h', null, dst')"
      "rep h' dst' ((ys @ [x]) @ xs)"
    and m_frame: "\<And>q zs. rep h2 q zs \<Longrightarrow> set zs \<inter> (set xs \<union> set (ys @ [x])) = {} \<Longrightarrow> rep h' q zs"
    using Cons.IH [of h2 "head_of null xs" dst1 "ys @ [x]" f] a(2) x(3) Cons.prems(3,4) f by auto
  have "rep h' q zs" if "rep h q zs" "set zs \<inter> (set (x # xs) \<union> set ys) = {}" for q zs
    using that d_frame a_frame m_frame by (simp add: disjoint_iff)
  then show ?case using f x d(1) a(1) m by auto
qed

lemma move_prepend:
  "rep h src xs \<Longrightarrow> rep h dst ys \<Longrightarrow> set xs \<inter> set ys = {} \<Longrightarrow> length xs < fuel \<Longrightarrow>
   \<exists>h' dst'. move_list nx null del pre fuel h src dst src = Some (h', null, dst') \<and>
     rep h' dst' (rev xs @ ys) \<and>
     (\<forall>q zs. rep h q zs \<longrightarrow> set zs \<inter> (set xs \<union> set ys) = {} \<longrightarrow> rep h' q zs)"
proof (induction xs arbitrary: h src dst ys fuel)
  case Nil
  then show ?case using rep_head [of h src "[]"] by (cases fuel) auto
next
  case (Cons x xs)
  obtain f where f: "fuel = Suc f" using Cons.prems(4) by (cases fuel) auto
  have x: "src = x" "x \<noteq> null" "x \<notin> set xs" "nx h x = head_of null xs"
    using rep_head [OF Cons.prems(1)] rep_distinct [OF Cons.prems(1)]
      rep_nx [of h src "[]" x xs] Cons.prems(1) by auto
  obtain h1 where d: "del h src x = Some (h1, head_of null xs)" "rep h1 (head_of null xs) xs"
    and d_frame: "\<And>q zs. rep h q zs \<Longrightarrow> set zs \<inter> set (x # xs) = {} \<Longrightarrow> rep h1 q zs"
    using del_head [OF Cons.prems(1)] by blast
  have r1: "rep h1 dst ys" using d_frame Cons.prems(2,3) by blast
  obtain h2 dst1 where a: "pre h1 dst x = Some (h2, dst1)" "rep h2 dst1 (x # ys)"
    and a_frame: "\<And>q zs. rep h1 q zs \<Longrightarrow> set zs \<inter> insert x (set ys) = {} \<Longrightarrow> rep h2 q zs"
    using pre_rep [OF r1 _ x(2)] Cons.prems(3) by (meson disjoint_iff list.set_intros(1))
  have "rep h2 (head_of null xs) xs" using a_frame [OF d(2)] x(3) Cons.prems(3) by auto
  then obtain h' dst' where
    m: "move_list nx null del pre f h2 (head_of null xs) dst1 (head_of null xs) = Some (h', null, dst')"
      "rep h' dst' (rev xs @ x # ys)"
    and m_frame: "\<And>q zs. rep h2 q zs \<Longrightarrow> set zs \<inter> (set xs \<union> set (x # ys)) = {} \<Longrightarrow> rep h' q zs"
    using Cons.IH [of h2 "head_of null xs" dst1 "x # ys" f] a(2) x(3) Cons.prems(3,4) f by auto
  have "rep h' q zs" if "rep h q zs" "set zs \<inter> (set (x # xs) \<union> set ys) = {}" for q zs
    using that d_frame a_frame m_frame by (simp add: disjoint_iff)
  then show ?case using f x d(1) a(1) m by auto
qed

end

subsection \<open>The macros provide it\<close>

lemma dl_rep_nxt:
  assumes "dl_rep h p (as @ x # bs)"
  shows "nxt h x = head_of NULL bs"
proof (cases bs)
  case Nil
  with assms show ?thesis by (simp add: dl_rep_def)
next
  case (Cons b cs)
  then have "linked h (x # b # cs)"
    using dl_repD(3) [OF assms] linked_append by metis
  with Cons show ?thesis by simp
qed

lemma dl_rep_head_of: "dl_rep h p xs \<Longrightarrow> p = head_of NULL xs"
  by (cases xs) (auto simp: dl_rep_def)

interpretation dl: dlist dl_rep NULL nxt DL_APPEND DL_PREPEND DL_DELETE
proof (unfold_locales, goal_cases)
  case (5 h p xs a)
  then obtain h' p' where a: "DL_APPEND h p a = Some (h', p')" "dl_rep h' p' (xs @ [a])"
    "\<forall>x. x \<noteq> a \<and> x \<notin> set xs \<longrightarrow> nxt h' x = nxt h x \<and> prv h' x = prv h x"
    using DL_APPEND_rep by blast
  then show ?case by (blast intro: dl_rep_frame)
next
  case (6 h p xs a)
  then obtain h' where a: "DL_PREPEND h p a = Some (h', a)" "dl_rep h' a (a # xs)"
    "\<forall>x. x \<noteq> a \<and> x \<notin> set xs \<longrightarrow> nxt h' x = nxt h x \<and> prv h' x = prv h x"
    using DL_PREPEND_rep by blast
  then show ?case by (blast intro: dl_rep_frame)
next
  case (7 h p xs a)
  then obtain h' p' where a: "DL_DELETE h p a = Some (h', p')" "dl_rep h' p' (remove1 a xs)"
    "\<forall>x. x \<notin> set (remove1 a xs) \<longrightarrow> nxt h' x = nxt h x \<and> prv h' x = prv h x"
    using DL_DELETE_rep by blast
  then show ?case
    by (meson disjoint_iff dl_rep_frame notin_set_remove1)
qed (auto intro: dl_rep_nxt dl_rep_head_of dest: dl_repD)

section \<open>Loops over the lists of the library\<close>

lemma DL_FOREACH_rep:
  "dl_rep h head xs \<Longrightarrow> length xs < fuel \<Longrightarrow> DL_FOREACH fuel h head = Some xs"
  unfolding DL_FOREACH_def by (rule dl.walk_rep)

lemma LL_SEARCH_SCALAR_rep:
  "dl_rep h head xs \<Longrightarrow> length xs < fuel \<Longrightarrow>
   LL_SEARCH_SCALAR fuel h head field v =
     Some (case find (\<lambda>x. field x = v) xs of None \<Rightarrow> NULL | Some x \<Rightarrow> x)"
  unfolding LL_SEARCH_SCALAR_def by (rule dl.search_rep)

lemma DL_MOVE_APPEND_rep:
  "dl_rep h src xs \<Longrightarrow> dl_rep h dst ys \<Longrightarrow> set xs \<inter> set ys = {} \<Longrightarrow> length xs < fuel \<Longrightarrow>
   \<exists>h' dst'. DL_MOVE_APPEND fuel h src dst = Some (h', NULL, dst') \<and> dl_rep h' dst' (ys @ xs)"
  unfolding DL_MOVE_APPEND_def using dl.move_append by blast

lemma DL_MOVE_PREPEND_rep:
  "dl_rep h src xs \<Longrightarrow> dl_rep h dst ys \<Longrightarrow> set xs \<inter> set ys = {} \<Longrightarrow> length xs < fuel \<Longrightarrow>
   \<exists>h' dst'. DL_MOVE_PREPEND fuel h src dst = Some (h', NULL, dst') \<and> dl_rep h' dst' (rev xs @ ys)"
  unfolding DL_MOVE_PREPEND_def using dl.move_prepend by blast

section \<open>Properties\<close>

definition two_cells :: dl_heap where
  "two_cells = \<lparr>nxt = (\<lambda>x. if x = 2 then 3 else 0), prv = (\<lambda>x. if x = 2 then 3 else if x = 3 then 2 else 0)\<rparr>"

lemma two_cells_rep [simp]: "dl_rep two_cells 2 [2, 3]" "dl_rep two_cells 0 []"
  by (simp_all add: dl_rep_def two_cells_def)

text \<open>
  Inserting at either end: on a list the macros do not fail, the result is the list with the
  new element at that end, and no other cell is written.
\<close>

theorem DL_insert_refines:
  assumes "dl_rep h head xs" and "a \<notin> set xs" and "a \<noteq> NULL"
  shows "(\<exists>h' head'. DL_APPEND h head a = Some (h', head') \<and> dl_rep h' head' (xs @ [a]) \<and>
            (\<forall>x. x \<notin> set (a # xs) \<longrightarrow> nxt h' x = nxt h x \<and> prv h' x = prv h x)) \<and>
         (\<exists>h'. DL_PREPEND h head a = Some (h', a) \<and> dl_rep h' a (a # xs) \<and>
            (\<forall>x. x \<notin> set (a # xs) \<longrightarrow> nxt h' x = nxt h x \<and> prv h' x = prv h x))"
  using DL_APPEND_rep [OF assms] DL_PREPEND_rep [OF assms] by simp

theorem DL_insert_refines_witness:
  "\<exists>h' head'. DL_APPEND two_cells 2 4 = Some (h', head') \<and> dl_rep h' head' [2, 3, 4]"
  using DL_insert_refines [of two_cells 2 "[2, 3]" 4] by auto

text \<open>
  C36. Deleting an element, whether it is alone, first, last or in the middle: the macro does not
  fail, the result is the list without it, and only cells of the remaining list are written.
\<close>

theorem DL_DELETE_refines:
  assumes "dl_rep h head xs" and "d \<in> set xs"
  shows "\<exists>h' head'. DL_DELETE h head d = Some (h', head') \<and> dl_rep h' head' (remove1 d xs) \<and>
          (\<forall>x. x \<notin> set (remove1 d xs) \<longrightarrow> nxt h' x = nxt h x \<and> prv h' x = prv h x)"
  using assms by (rule DL_DELETE_rep)

theorem DL_DELETE_refines_witness:
  "\<exists>h' head'. DL_DELETE two_cells 2 2 = Some (h', head') \<and> dl_rep h' head' [3]"
  using DL_DELETE_refines [of two_cells 2 "[2, 3]" 2] by auto

text \<open>
  Draining one list into another: the loop ends after one round per element, empties the
  source, and either keeps the order (append) or reverses it (prepend), with the elements that
  were there before on the other side.
\<close>

theorem DL_MOVE_refines:
  assumes "dl_rep h src xs" and "dl_rep h dst ys" and "set xs \<inter> set ys = {}" and "length xs < fuel"
  shows "(\<exists>h' dst'. DL_MOVE_APPEND fuel h src dst = Some (h', NULL, dst') \<and> dl_rep h' dst' (ys @ xs)) \<and>
         (\<exists>h' dst'. DL_MOVE_PREPEND fuel h src dst = Some (h', NULL, dst') \<and> dl_rep h' dst' (rev xs @ ys))"
  using DL_MOVE_APPEND_rep [OF assms] DL_MOVE_PREPEND_rep [OF assms] by simp

theorem DL_MOVE_refines_witness:
  "\<exists>h' dst'. DL_MOVE_PREPEND 3 two_cells 2 0 = Some (h', NULL, dst') \<and> dl_rep h' dst' [3, 2]"
  using DL_MOVE_refines [of two_cells 2 "[2, 3]" 0 "[]" 3] by simp

end
