(* ===== verification/Iso_Context.thy ===== *)
theory Iso_Context
  imports LibK_Prelude
begin

text \<open>
  Isochronous transfer contexts (\<open>lusbk_usb_iso.c\<close>) and the packet timing helper of
  \<open>lusbk_usb_isoch.c\<close>. A context is a header and its array of packets. The functions return a
  sum: \<open>Inl e\<close> is \<open>SetLastError(e); return FALSE\<close>, \<open>Inr\<close> is \<open>TRUE\<close> with what the function
  wrote. The sum is wrapped in an option where the code can index outside the packet array
  (\<open>None\<close>); a null pointer argument is \<open>None\<close> too.
\<close>

section \<open>Contexts\<close>

record iso_packet =
  Offset :: UINT
  Length :: USHORT
  Status :: USHORT

record iso_context =
  Flags :: UINT
  StartFrame :: UINT
  ErrorCount :: int
  NumberOfPackets :: int
  UrbHdrStatus :: UINT
  IsoPackets :: "iso_packet list"

text \<open>\<open>SHORT\<close>: 16-bit two's complement, the type of \<open>NumberOfPackets\<close>.\<close>

definition to_short :: "int \<Rightarrow> int" where
  "to_short x = signed_take_bit 15 x"

definition zero_packet :: iso_packet where
  "zero_packet = \<lparr>Offset = 0, Length = 0, Status = 0\<rparr>"

text \<open>
  \<open>sizeof(KISO_CONTEXT) + sizeof(KISO_PACKET) * NumberOfPackets\<close>, computed in \<open>size_t\<close>: a negative
  count wraps.
\<close>

definition iso_alloc_size :: "int \<Rightarrow> nat" where
  "iso_alloc_size n = nat ((16 + 8 * (n mod 2 ^ 64)) mod 2 ^ 64)"

text \<open>The heap is a parameter: whether an allocation of a size succeeds. It returns zeroed memory.\<close>

definition IsoK_Init :: "(nat \<Rightarrow> bool) \<Rightarrow> bool \<Rightarrow> int \<Rightarrow> int \<Rightarrow> DWORD + iso_context" where
  "IsoK_Init heap_ok out_valid n start =
     (if \<not> out_valid then Inl ERROR_INVALID_HANDLE
      else if \<not> heap_ok (iso_alloc_size n) then Inl ERROR_NOT_ENOUGH_MEMORY
      else Inr \<lparr>Flags = 0, StartFrame = word_of_int start, ErrorCount = 0,
                NumberOfPackets = to_short n, UrbHdrStatus = 0,
                IsoPackets = replicate ((iso_alloc_size n - 16) div 8) zero_packet\<rparr>)"

definition IsoK_Free :: "iso_context option \<Rightarrow> DWORD + unit" where
  "IsoK_Free ctx = (case ctx of None \<Rightarrow> Inl ERROR_INVALID_HANDLE | Some _ \<Rightarrow> Inr ())"

text \<open>The packet at an index, when it is inside the array.\<close>

definition packet_at :: "iso_context \<Rightarrow> int \<Rightarrow> iso_packet option" where
  "packet_at ctx i =
     (if 0 \<le> i \<and> i < int (length (IsoPackets ctx)) then Some (IsoPackets ctx ! nat i) else None)"

definition put_packet :: "iso_context \<Rightarrow> int \<Rightarrow> iso_packet \<Rightarrow> iso_context option" where
  "put_packet ctx i p =
     (if 0 \<le> i \<and> i < int (length (IsoPackets ctx))
      then Some (ctx\<lparr>IsoPackets := (IsoPackets ctx)[nat i := p]\<rparr>) else None)"

function set_packets_loop :: "int \<Rightarrow> int \<Rightarrow> UINT \<Rightarrow> iso_context \<Rightarrow> iso_context option" where
  "set_packets_loop sz i off ctx =
     (if i < NumberOfPackets ctx then
        case packet_at ctx i of
          None \<Rightarrow> None
        | Some p \<Rightarrow>
            (case put_packet ctx i (p\<lparr>Offset := off\<rparr>) of
               None \<Rightarrow> None
             | Some ctx' \<Rightarrow> set_packets_loop sz (i + 1) (off + word_of_int sz) ctx')
      else Some ctx)"
  by pat_completeness auto
termination
  by (relation "measure (\<lambda>(sz, i, off, ctx). nat (NumberOfPackets ctx - i))")
    (auto simp: put_packet_def split: if_splits)

definition IsoK_SetPackets :: "iso_context option \<Rightarrow> int \<Rightarrow> (DWORD + iso_context) option" where
  "IsoK_SetPackets ctx sz =
     (case ctx of
        None \<Rightarrow> Some (Inl ERROR_INVALID_HANDLE)
      | Some c \<Rightarrow> map_option Inr (set_packets_loop sz 0 0 c))"

definition IsoK_SetPacket ::
  "iso_context option \<Rightarrow> int \<Rightarrow> iso_packet option \<Rightarrow> (DWORD + iso_context) option" where
  "IsoK_SetPacket ctx i pkt =
     (case ctx of
        None \<Rightarrow> Some (Inl ERROR_INVALID_HANDLE)
      | Some c \<Rightarrow>
          if i \<ge> NumberOfPackets c then Some (Inl ERROR_INVALID_PARAMETER)
          else (case pkt of
                  None \<Rightarrow> Some (Inl ERROR_INVALID_PARAMETER)
                | Some p \<Rightarrow> map_option Inr (put_packet c i p)))"

definition IsoK_GetPacket ::
  "iso_context option \<Rightarrow> int \<Rightarrow> bool \<Rightarrow> (DWORD + iso_packet) option" where
  "IsoK_GetPacket ctx i out_valid =
     (case ctx of
        None \<Rightarrow> Some (Inl ERROR_INVALID_HANDLE)
      | Some c \<Rightarrow>
          if i \<ge> NumberOfPackets c then Some (Inl ERROR_INVALID_PARAMETER)
          else if \<not> out_valid then Some (Inl ERROR_INVALID_PARAMETER)
          else map_option Inr (packet_at c i))"

text \<open>
  The enumeration callback gets the index (as \<open>UINT\<close>) and a pointer to the packet, which it may
  write, and threads the user's state; it says whether to go on.
\<close>

function enum_packets_loop ::
  "(UINT \<Rightarrow> iso_packet \<Rightarrow> 'u \<Rightarrow> bool \<times> iso_packet \<times> 'u) \<Rightarrow> int \<Rightarrow> iso_context \<Rightarrow> 'u
   \<Rightarrow> (iso_context \<times> 'u) option" where
  "enum_packets_loop cb i ctx u =
     (if i < NumberOfPackets ctx then
        case packet_at ctx i of
          None \<Rightarrow> None
        | Some p \<Rightarrow>
            (let (cont, p', u') = cb (word_of_int i) p u in
             case put_packet ctx i p' of
               None \<Rightarrow> None
             | Some ctx' \<Rightarrow> if cont then enum_packets_loop cb (i + 1) ctx' u' else Some (ctx', u'))
      else Some (ctx, u))"
  by pat_completeness auto
termination
  by (relation "measure (\<lambda>(cb, i, ctx, u). nat (NumberOfPackets ctx - i))")
    (auto simp: put_packet_def split: if_splits)

definition IsoK_EnumPackets ::
  "iso_context option \<Rightarrow> (UINT \<Rightarrow> iso_packet \<Rightarrow> 'u \<Rightarrow> bool \<times> iso_packet \<times> 'u) option \<Rightarrow> int \<Rightarrow> 'u
   \<Rightarrow> (DWORD + iso_context \<times> 'u) option" where
  "IsoK_EnumPackets ctx cb start u =
     (case ctx of
        None \<Rightarrow> Some (Inl ERROR_INVALID_HANDLE)
      | Some c \<Rightarrow>
          (case cb of
             None \<Rightarrow> Some (Inl ERROR_INVALID_PARAMETER)
           | Some f \<Rightarrow>
               if start \<ge> NumberOfPackets c then Some (Inl ERROR_INVALID_PARAMETER)
               else map_option Inr (enum_packets_loop f start c u)))"

function reuse_loop :: "int \<Rightarrow> iso_context \<Rightarrow> iso_context option" where
  "reuse_loop i ctx =
     (if i < NumberOfPackets ctx then
        case packet_at ctx i of
          None \<Rightarrow> None
        | Some p \<Rightarrow>
            (case put_packet ctx i (p\<lparr>Length := 0, Status := 0\<rparr>) of
               None \<Rightarrow> None
             | Some ctx' \<Rightarrow> reuse_loop (i + 1) ctx')
      else Some ctx)"
  by pat_completeness auto
termination
  by (relation "measure (\<lambda>(i, ctx). nat (NumberOfPackets ctx - i))")
    (auto simp: put_packet_def split: if_splits)

definition IsoK_ReUse :: "iso_context option \<Rightarrow> (DWORD + iso_context) option" where
  "IsoK_ReUse ctx =
     (case ctx of
        None \<Rightarrow> Some (Inl ERROR_INVALID_HANDLE)
      | Some c \<Rightarrow> map_option (\<lambda>c'. Inr (c'\<lparr>StartFrame := 0, ErrorCount := 0\<rparr>)) (reuse_loop 0 c))"

declare set_packets_loop.simps [simp del] enum_packets_loop.simps [simp del] reuse_loop.simps [simp del]

section \<open>Packet timing\<close>

definition PollingPeriod_Per_bInterval_HighSpeed :: "nat list" where
  "PollingPeriod_Per_bInterval_HighSpeed =
     [1, 2, 4, 8, 16, 32, 32,
      32, 32, 32, 32, 32, 32,
      32, 32, 32, 32, 32, 32,
      32, 32, 32, 32, 32, 32,
      32, 32, 32, 32, 32, 32,
      32]"

definition PollingPeriod_Per_bInterval_FullSpeed :: "nat list" where
  "PollingPeriod_Per_bInterval_FullSpeed =
     [1, 2, 2, 4, 4, 4,
      4, 8, 8, 8, 8, 8,
      8, 8, 8, 16, 16, 16,
      16, 16, 16, 16, 16,
      16, 16, 16, 16, 16,
      16, 16, 16, 32]"

record pipe_information_ex =
  PipeType :: nat
  PipeId :: UCHAR
  MaximumPacketSize :: USHORT
  Interval :: UCHAR
  MaximumBytesPerInterval :: ULONG

record isoch_packet_information =
  PacketsPerFrame :: UINT
  PollingPeriodMicroseconds :: UINT
  BytesPerMillisecond :: UINT

text \<open>
  \<open>(Interval - 1) % _countof(table)\<close>: the difference is an \<open>int\<close>, the count a \<open>size_t\<close>, so interval 0
  gives the last entry.
\<close>

definition interval_index :: "UCHAR \<Rightarrow> nat" where
  "interval_index b = nat ((uint b - 1) mod 2 ^ 64) mod 32"

definition IsochK_CalcPacketInformation ::
  "bool \<Rightarrow> pipe_information_ex \<Rightarrow> isoch_packet_information" where
  "IsochK_CalcPacketInformation high_speed pipe =
     (if high_speed then
        let period = PollingPeriod_Per_bInterval_HighSpeed ! interval_index (Interval pipe);
            ppf = word_of_nat (8 div period)
        in \<lparr>PacketsPerFrame = ppf,
            PollingPeriodMicroseconds = word_of_nat (period * 125),
            BytesPerMillisecond = MaximumBytesPerInterval pipe * ppf\<rparr>
      else
        let period = PollingPeriod_Per_bInterval_FullSpeed ! interval_index (Interval pipe)
        in \<lparr>PacketsPerFrame = 1,
            PollingPeriodMicroseconds = word_of_nat (period * 1000),
            BytesPerMillisecond = word_of_nat (unat (MaximumPacketSize pipe) div period)\<rparr>)"

section \<open>The loops over the packets\<close>

text \<open>
  A context is well formed when the packets it counts are in its array. \<open>IsoK_Init\<close> makes such
  contexts for every count up to 32767 (\<open>IsoK_Init_wf\<close>).
\<close>

definition iso_wf :: "iso_context \<Rightarrow> bool" where
  "iso_wf c \<longleftrightarrow> 0 \<le> NumberOfPackets c \<and> NumberOfPackets c \<le> int (length (IsoPackets c))"

lemma IsoK_Init_wf:
  assumes "0 \<le> n" "n < 32768" "IsoK_Init heap_ok True n start = Inr c"
  shows "iso_wf c \<and> NumberOfPackets c = n \<and> IsoPackets c = replicate (nat n) zero_packet"
proof -
  have "n mod 2 ^ 64 = n" using assms(1,2) by simp
  then have "iso_alloc_size n = nat (16 + 8 * n)"
    using assms(1,2) by (simp add: iso_alloc_size_def)
  then have "(iso_alloc_size n - 16) div 8 = nat n"
    using assms(1) by (simp add: nat_add_distrib nat_mult_distrib)
  moreover have "to_short n = n"
    using assms(1,2) by (simp add: to_short_def signed_take_bit_int_eq_self)
  ultimately show ?thesis
    using assms by (auto simp: IsoK_Init_def iso_wf_def split: if_splits)
qed

text \<open>What the enumeration does to the packets from an index on, as a list function.\<close>

fun enum_list ::
  "(UINT \<Rightarrow> iso_packet \<Rightarrow> 'u \<Rightarrow> bool \<times> iso_packet \<times> 'u) \<Rightarrow> nat \<Rightarrow> iso_packet list \<Rightarrow> 'u
   \<Rightarrow> iso_packet list \<times> 'u" where
  "enum_list cb i [] u = ([], u)"
| "enum_list cb i (p # ps) u =
     (let (cont, p', u') = cb (word_of_nat i) p u in
      if cont then (let (ps', u'') = enum_list cb (Suc i) ps u' in (p' # ps', u''))
      else (p' # ps, u'))"

definition enum_result ::
  "(UINT \<Rightarrow> iso_packet \<Rightarrow> 'u \<Rightarrow> bool \<times> iso_packet \<times> 'u) \<Rightarrow> nat \<Rightarrow> iso_context \<Rightarrow> 'u
   \<Rightarrow> iso_context \<times> 'u" where
  "enum_result cb s c u =
     (let ps = IsoPackets c; n = nat (NumberOfPackets c);
          (mid, u') = enum_list cb s (take (n - s) (drop s ps)) u
      in (c\<lparr>IsoPackets := take s ps @ mid @ drop n ps\<rparr>, u'))"

lemma enum_packets_loop_spec:
  "iso_wf c \<Longrightarrow> s \<le> nat (NumberOfPackets c) \<Longrightarrow>
   enum_packets_loop cb (int s) c u = Some (enum_result cb s c u)"
proof (induction "nat (NumberOfPackets c) - s" arbitrary: s c u)
  case 0
  then have "s = nat (NumberOfPackets c)" "0 \<le> NumberOfPackets c" by (auto simp: iso_wf_def)
  then show ?case
    by (subst enum_packets_loop.simps) (simp add: enum_result_def)
next
  case (Suc d)
  let ?ps = "IsoPackets c" and ?n = "nat (NumberOfPackets c)"
  have lt: "s < ?n" "?n \<le> length ?ps" "int s < NumberOfPackets c" "int s < int (length ?ps)"
    using Suc.hyps(2) Suc.prems by (auto simp: iso_wf_def)
  then have len: "s < length ?ps" by simp
  obtain cont p' u' where cb: "cb (word_of_nat s) (?ps ! s) u = (cont, p', u')"
    by (cases "cb (word_of_nat s) (?ps ! s) u") auto
  let ?c = "c\<lparr>IsoPackets := ?ps[s := p']\<rparr>"
  have step: "enum_packets_loop cb (int s) c u =
      (if cont then enum_packets_loop cb (int (Suc s)) ?c u' else Some (?c, u'))"
    using lt cb by (subst enum_packets_loop.simps) (simp add: packet_at_def put_packet_def add.commute)
  have dr: "take (?n - s) (drop s ?ps) = ?ps ! s # take (?n - Suc s) (drop (Suc s) ?ps)"
    using lt len by (metis Cons_nth_drop_Suc Suc_diff_Suc take_Suc_Cons)
  have upd: "take (Suc s) (?ps[s := p']) = take s ?ps @ [p']"
      "drop (Suc s) (?ps[s := p']) = drop (Suc s) ?ps" "drop ?n (?ps[s := p']) = drop ?n ?ps"
    using len lt by (simp_all add: take_Suc_conv_app_nth)
  show ?case
  proof (cases cont)
    case True
    have "enum_packets_loop cb (int (Suc s)) ?c u' = Some (enum_result cb (Suc s) ?c u')"
      by (rule Suc.hyps(1)) (use Suc.hyps(2) Suc.prems lt in \<open>auto simp: iso_wf_def\<close>)
    then show ?thesis
      using True step cb dr upd by (simp add: enum_result_def Let_def split: prod.split)
  next
    case False
    have "?ps[s := p'] = take s ?ps @ p' # drop (Suc s) ?ps"
      using len by (rule upd_conv_take_nth_drop)
    moreover have "drop (Suc s) ?ps = take (?n - Suc s) (drop (Suc s) ?ps) @ drop ?n ?ps"
      using lt by (metis Suc_leI add_diff_inverse_nat append_take_drop_id drop_drop linorder_not_less add.commute)
    ultimately show ?thesis
      using False step cb dr by (simp add: enum_result_def Let_def)
  qed
qed

text \<open>The two other loops are enumerations with a fixed callback.\<close>

lemma set_packets_loop_enum:
  "set_packets_loop sz i off c =
     map_option fst (enum_packets_loop (\<lambda>_ p o'. (True, p\<lparr>Offset := o'\<rparr>, o' + word_of_int sz)) i c off)"
proof (induction sz i off c rule: set_packets_loop.induct)
  case (1 sz i off c)
  show ?case
    by (subst set_packets_loop.simps, subst enum_packets_loop.simps)
      (use "1.IH" in \<open>auto split: option.splits\<close>)
qed

lemma reuse_loop_enum:
  "reuse_loop i c =
     map_option fst (enum_packets_loop (\<lambda>_ p u. (True, p\<lparr>Length := 0, Status := 0\<rparr>, u)) i c (0::nat))"
proof (induction i c rule: reuse_loop.induct)
  case (1 i c)
  show ?case
    by (subst reuse_loop.simps, subst enum_packets_loop.simps)
      (use "1.IH" in \<open>auto split: option.splits\<close>)
qed

lemma enum_list_offsets:
  "fst (enum_list (\<lambda>_ p o'. (True, p\<lparr>Offset := o'\<rparr>, o' + d)) i ps off) =
     map (\<lambda>k. (ps ! k)\<lparr>Offset := off + of_nat k * d\<rparr>) [0..<length ps]"
proof (induction ps arbitrary: i off)
  case Nil
  then show ?case by simp
next
  case (Cons p ps)
  have "map (\<lambda>k. ((p # ps) ! k)\<lparr>Offset := off + of_nat k * d\<rparr>) [0..<length (p # ps)] =
      p\<lparr>Offset := off\<rparr> # map (\<lambda>k. (ps ! k)\<lparr>Offset := off + d + of_nat k * d\<rparr>) [0..<length ps]"
    by (simp add: upt_conv_Cons map_Suc_upt [symmetric] algebra_simps del: upt_Suc)
  then show ?case
    using Cons.IH [of "Suc i" "off + d"] by (simp add: split_beta)
qed

lemma enum_list_const:
  "enum_list (\<lambda>_ p u. (True, f p, u)) i ps u = (map f ps, u)"
  by (induction ps arbitrary: i) auto

section \<open>Properties\<close>

definition example_iso :: iso_context where
  "example_iso = \<lparr>Flags = 0, StartFrame = 9, ErrorCount = 2, NumberOfPackets = 2, UrbHdrStatus = 0,
     IsoPackets = [\<lparr>Offset = 1, Length = 5, Status = 7\<rparr>, \<lparr>Offset = 2, Length = 6, Status = 8\<rparr>]\<rparr>"

lemma example_iso_simps [simp]:
  "iso_wf example_iso" "NumberOfPackets example_iso = 2" "length (IsoPackets example_iso) = 2"
  by (simp_all add: example_iso_def iso_wf_def)



text \<open>
  Laying out the packets: packet \<open>k\<close> of the counted ones starts at \<open>k\<close> times the packet size
  (modulo 2 to the 32), nothing else of a packet changes, and packets beyond the count keep
  their offsets.
\<close>

theorem IsoK_SetPackets_offsets:
  assumes "iso_wf c"
  shows "IsoK_SetPackets (Some c) sz = Some (Inr (c\<lparr>IsoPackets :=
           map (\<lambda>k. if int k < NumberOfPackets c
                    then (IsoPackets c ! k)\<lparr>Offset := of_nat k * word_of_int sz\<rparr>
                    else IsoPackets c ! k) [0..<length (IsoPackets c)]\<rparr>))"
proof -
  let ?ps = "IsoPackets c" and ?n = "nat (NumberOfPackets c)"
  have n: "?n \<le> length ?ps" "0 \<le> NumberOfPackets c" using assms by (auto simp: iso_wf_def)
  have "map (\<lambda>k. (take ?n ?ps ! k)\<lparr>Offset := of_nat k * word_of_int sz\<rparr>) [0..<?n] @ drop ?n ?ps =
      map (\<lambda>k. if int k < NumberOfPackets c then (?ps ! k)\<lparr>Offset := of_nat k * word_of_int sz\<rparr>
               else ?ps ! k) [0..<length ?ps]"
    by (rule nth_equalityI) (use n in \<open>auto simp: nth_append\<close>)
  then show ?thesis
    using enum_packets_loop_spec [OF assms, of 0 "\<lambda>_ p o'. (True, p\<lparr>Offset := o'\<rparr>, o' + word_of_int sz)" 0] n
      enum_list_offsets [of "word_of_int sz" 0 "take ?n ?ps" 0]
    by (simp add: IsoK_SetPackets_def set_packets_loop_enum enum_result_def split_beta min.absorb2 Let_def)
qed

theorem IsoK_SetPackets_offsets_witness:
  "map_option (map_sum id (\<lambda>c. map Offset (IsoPackets c))) (IsoK_SetPackets (Some example_iso) 192) =
     Some (Inr [0, 192])"
  unfolding IsoK_SetPackets_offsets [of example_iso 192, OF example_iso_simps(1)]
  by (simp add: upt_rec)

text \<open>
  Writing a packet and reading one: below the count the packet read back is the one written
  and every other packet is untouched; at or above the count both refuse with
  \<open>ERROR_INVALID_PARAMETER\<close>.
\<close>

theorem IsoK_SetPacket_GetPacket:
  assumes "iso_wf c" and "0 \<le> i"
  shows "if i < NumberOfPackets c
         then \<exists>c'. IsoK_SetPacket (Some c) i (Some p) = Some (Inr c') \<and>
                IsoK_GetPacket (Some c') i True = Some (Inr p) \<and>
                (\<forall>j. 0 \<le> j \<longrightarrow> j \<noteq> i \<longrightarrow> IsoK_GetPacket (Some c') j True = IsoK_GetPacket (Some c) j True)
         else IsoK_SetPacket (Some c) i (Some p) = Some (Inl ERROR_INVALID_PARAMETER) \<and>
              IsoK_GetPacket (Some c) i True = Some (Inl ERROR_INVALID_PARAMETER)"
  using assms
  by (auto simp: IsoK_SetPacket_def IsoK_GetPacket_def put_packet_def packet_at_def iso_wf_def nth_list_update)

theorem IsoK_SetPacket_GetPacket_witness:
  "\<exists>c'. IsoK_SetPacket (Some example_iso) 1 (Some zero_packet) = Some (Inr c') \<and>
     IsoK_GetPacket (Some c') 1 True = Some (Inr zero_packet)"
  using IsoK_SetPacket_GetPacket [of example_iso 1 zero_packet] by auto

text \<open>
  The index checks look only at the upper end: a negative index passes them, and both
  functions then access memory outside the packet array.
\<close>

theorem iso_negative_index:
  assumes "i < 0" and "0 \<le> NumberOfPackets c"
  shows "IsoK_SetPacket (Some c) i (Some p) = None \<and> IsoK_GetPacket (Some c) i True = None \<and>
         IsoK_EnumPackets (Some c) (Some f) i u = None"
proof -
  have "enum_packets_loop f i c u = None"
    using assms by (subst enum_packets_loop.simps) (simp add: packet_at_def)
  then show ?thesis
    using assms by (simp add: IsoK_SetPacket_def IsoK_GetPacket_def IsoK_EnumPackets_def
        put_packet_def packet_at_def)
qed

theorem iso_negative_index_witness: "IsoK_GetPacket (Some example_iso) (-1) True = None"
  using iso_negative_index [of "-1" example_iso zero_packet "\<lambda>_ p u. (True, p, u)" "()"] by simp

text \<open>
  Enumerating packets: the callback sees the packets from the start index up to the count, in
  order, each with its index and the state the previous call left; it stops where the callback
  says so. What the callback writes to a packet stays in the context, and all other packets keep
  their contents.
\<close>

theorem IsoK_EnumPackets_spec:
  assumes "iso_wf c" and "int s < NumberOfPackets c"
  shows "IsoK_EnumPackets (Some c) (Some f) (int s) u = Some (Inr (enum_result f s c u))"
  using enum_packets_loop_spec [of c s f u] assms
  by (simp add: IsoK_EnumPackets_def)

theorem IsoK_EnumPackets_spec_witness:
  "\<exists>c. IsoK_EnumPackets (Some example_iso) (Some (\<lambda>i p u. (True, p, u + unat (Offset p)))) 0 0 = Some (Inr (c, 3))"
proof -
  have "snd (enum_result (\<lambda>i p u. (True, p, u + unat (Offset p))) 0 example_iso 0) = 3"
    by (simp add: enum_result_def example_iso_def)
  then show ?thesis
    using IsoK_EnumPackets_spec [of example_iso 0 "\<lambda>i p u. (True, p, u + unat (Offset p))" 0]
    by (cases "enum_result (\<lambda>i p u. (True, p, u + unat (Offset p))) 0 example_iso 0") simp
qed

text \<open>
  Reusing a context: start frame, error count and the result fields of every counted packet
  are cleared; the offsets, so the layout of the buffer, stay.
\<close>

theorem IsoK_ReUse_keeps_layout:
  assumes "iso_wf c"
  shows "\<exists>c'. IsoK_ReUse (Some c) = Some (Inr c') \<and> StartFrame c' = 0 \<and> ErrorCount c' = 0 \<and>
           NumberOfPackets c' = NumberOfPackets c \<and>
           map Offset (IsoPackets c') = map Offset (IsoPackets c) \<and>
           (\<forall>k < nat (NumberOfPackets c). Length (IsoPackets c' ! k) = 0 \<and> Status (IsoPackets c' ! k) = 0)"
proof -
  let ?ps = "IsoPackets c" and ?n = "nat (NumberOfPackets c)"
  let ?qs = "map (\<lambda>p. p\<lparr>Length := 0, Status := 0\<rparr>) (take ?n ?ps) @ drop ?n ?ps"
  have n: "?n \<le> length ?ps" "0 \<le> NumberOfPackets c" using assms by (auto simp: iso_wf_def)
  have "IsoK_ReUse (Some c) = Some (Inr (c\<lparr>IsoPackets := ?qs, StartFrame := 0, ErrorCount := 0\<rparr>))"
    using enum_packets_loop_spec [OF assms, of 0 "\<lambda>_ p u. (True, p\<lparr>Length := 0, Status := 0\<rparr>, u)" "0::nat"]
    by (simp add: IsoK_ReUse_def reuse_loop_enum enum_result_def enum_list_const Let_def)
  moreover have "map Offset ?qs = map Offset ?ps"
  proof -
    have "map Offset ?qs = map Offset (take ?n ?ps @ drop ?n ?ps)"
      by (simp only: map_append map_map) (simp add: comp_def)
    then show ?thesis by (simp only: append_take_drop_id)
  qed
  moreover have "\<forall>k < ?n. Length (?qs ! k) = 0 \<and> Status (?qs ! k) = 0"
    using n by (simp add: nth_append)
  ultimately show ?thesis by simp
qed

theorem IsoK_ReUse_keeps_layout_witness:
  "\<exists>c'. IsoK_ReUse (Some example_iso) = Some (Inr c') \<and> map Offset (IsoPackets c') = [1, 2]"
  using IsoK_ReUse_keeps_layout [of example_iso] by (auto simp: example_iso_def iso_wf_def)

lemma interval_index_small:
  assumes "1 \<le> unat b"
  shows "interval_index b < 32" and "unat b \<le> 32 \<Longrightarrow> interval_index b = unat b - 1"
proof -
  define n where "n = unat b"
  have n: "1 \<le> n" "n < 256" "uint b = int n"
    using assms unsigned_less [of b] by (simp_all add: n_def)
  then have "nat ((uint b - 1) mod 2 ^ 64) = n - 1" by simp
  then have "interval_index b = (n - 1) mod 32" unfolding interval_index_def by (rule arg_cong)
  then show "interval_index b < 32" "unat b \<le> 32 \<Longrightarrow> interval_index b = unat b - 1"
    using n by (simp_all add: n_def)
qed

lemma HighSpeed_table:
  "b \<in> {1..16} \<Longrightarrow> PollingPeriod_Per_bInterval_HighSpeed ! (b - 1) = 2 ^ min (b - 1) 5"
proof -
  have "\<forall>k \<in> set [0..<16]. PollingPeriod_Per_bInterval_HighSpeed ! k = 2 ^ min k 5"
    by (simp add: PollingPeriod_Per_bInterval_HighSpeed_def upt_rec nth_Cons')
  then have "k < 16 \<Longrightarrow> PollingPeriod_Per_bInterval_HighSpeed ! k = 2 ^ min k 5" for k by simp
  from this [of "b - 1"] show "b \<in> {1..16} \<Longrightarrow> ?thesis" by auto
qed

lemma FullSpeed_table:
  "b \<in> {1..32} \<Longrightarrow> PollingPeriod_Per_bInterval_FullSpeed ! (b - 1) =
     (if b < 2 then 1 else if b < 4 then 2 else if b < 8 then 4 else if b < 16 then 8 else if b < 32 then 16 else 32)"
proof -
  have "\<forall>k \<in> set [0..<32]. PollingPeriod_Per_bInterval_FullSpeed ! k =
     (if k < 1 then 1 else if k < 3 then 2 else if k < 7 then 4 else if k < 15 then 8 else if k < 31 then 16 else 32)"
    by (simp add: PollingPeriod_Per_bInterval_FullSpeed_def upt_rec nth_Cons')
  then have "k < 32 \<Longrightarrow> PollingPeriod_Per_bInterval_FullSpeed ! k =
     (if k < 1 then 1 else if k < 3 then 2 else if k < 7 then 4 else if k < 15 then 8 else if k < 31 then 16 else 32)" for k
    by simp
  from this [of "b - 1"] show "b \<in> {1..32} \<Longrightarrow> ?thesis" by auto
qed

text \<open>
  Packet timing. For the intervals USB allows (1 to 16) a high speed pipe is polled every
  \<open>2 ^ (bInterval - 1)\<close> microframes, at most 32, and transfers \<open>8 div\<close> that many packets in a
  frame. A full speed pipe is polled every largest power of two frames up to its interval,
  and one packet per frame is reported.
\<close>

theorem IsochK_CalcPacketInformation_spec:
  assumes "1 \<le> unat (Interval p)" and "unat (Interval p) \<le> 16"
  shows "IsochK_CalcPacketInformation True p =
           (let m = min (unat (Interval p) - 1) 5 in
            \<lparr>PacketsPerFrame = word_of_nat (8 div 2 ^ m), PollingPeriodMicroseconds = word_of_nat (2 ^ m * 125),
             BytesPerMillisecond = MaximumBytesPerInterval p * word_of_nat (8 div 2 ^ m)\<rparr>) \<and>
         IsochK_CalcPacketInformation False p =
           (let q = (if unat (Interval p) < 2 then 1 else if unat (Interval p) < 4 then 2
                     else if unat (Interval p) < 8 then 4 else if unat (Interval p) < 16 then 8 else 16) in
            \<lparr>PacketsPerFrame = 1, PollingPeriodMicroseconds = word_of_nat (q * 1000),
             BytesPerMillisecond = word_of_nat (unat (MaximumPacketSize p) div q)\<rparr>)"
  using interval_index_small [OF assms(1)] HighSpeed_table [of "unat (Interval p)"]
    FullSpeed_table [of "unat (Interval p)"] assms
  by (simp_all add: IsochK_CalcPacketInformation_def Let_def del: One_nat_def)

definition example_pipe :: "UCHAR \<Rightarrow> pipe_information_ex" where
  "example_pipe b = \<lparr>PipeType = 1, PipeId = 0x81, MaximumPacketSize = 1024, Interval = b,
     MaximumBytesPerInterval = 1024\<rparr>"

theorem IsochK_CalcPacketInformation_spec_witness:
  "PacketsPerFrame (IsochK_CalcPacketInformation True (example_pipe 2)) = 4 \<and>
   PollingPeriodMicroseconds (IsochK_CalcPacketInformation False (example_pipe 2)) = 2000"
  using IsochK_CalcPacketInformation_spec [of "example_pipe 2"] by (simp add: example_pipe_def)

text \<open>
  For a high speed pipe that is polled less than once a frame (interval 5 to 16) the reported
  packets per frame and bytes per millisecond are zero, which a client may not divide by.
\<close>

theorem slow_highspeed_pipe_zero_rate:
  assumes "5 \<le> unat (Interval p)" and "unat (Interval p) \<le> 16"
  shows "PacketsPerFrame (IsochK_CalcPacketInformation True p) = 0 \<and>
         BytesPerMillisecond (IsochK_CalcPacketInformation True p) = 0"
proof -
  have m: "min (unat (Interval p) - 1) 5 = 4 \<or> min (unat (Interval p) - 1) 5 = 5"
    using assms by linarith
  have "interval_index (Interval p) = unat (Interval p) - 1"
    using interval_index_small [of "Interval p"] assms by simp
  moreover have "8 div PollingPeriod_Per_bInterval_HighSpeed ! (unat (Interval p) - 1) = 0"
    using m HighSpeed_table [of "unat (Interval p)"] assms by auto
  ultimately show ?thesis
    by (simp add: IsochK_CalcPacketInformation_def Let_def)
qed

theorem slow_highspeed_pipe_zero_rate_witness:
  "PacketsPerFrame (IsochK_CalcPacketInformation True (example_pipe 5)) = 0"
  using slow_highspeed_pipe_zero_rate [of "example_pipe 5"] by (simp add: example_pipe_def)

end
