(* ===== verification/Driver_Api.thy ===== *)
theory Driver_Api
  imports LibK_Prelude
begin

text \<open>
  The driver API tables of \<open>lusbk_usb.c\<close>: for a driver id, which backend implements which of the
  library's functions. A function pointer is the name of the implementation it points to; a null
  pointer is \<open>None\<close>. The WinUSB backend depends on which routines \<open>winusb.dll\<close> exports, which is
  read from a record.
\<close>

section \<open>Function identifiers and implementations\<close>

text \<open>The enumeration \<open>KUSB_FNID\<close>, in its order.\<close>

datatype kusb_fnid =
    KUSB_FNID_Init
  | KUSB_FNID_Free
  | KUSB_FNID_ClaimInterface
  | KUSB_FNID_ReleaseInterface
  | KUSB_FNID_SetAltInterface
  | KUSB_FNID_GetAltInterface
  | KUSB_FNID_GetDescriptor
  | KUSB_FNID_ControlTransfer
  | KUSB_FNID_SetPowerPolicy
  | KUSB_FNID_GetPowerPolicy
  | KUSB_FNID_SetConfiguration
  | KUSB_FNID_GetConfiguration
  | KUSB_FNID_ResetDevice
  | KUSB_FNID_Initialize
  | KUSB_FNID_SelectInterface
  | KUSB_FNID_GetAssociatedInterface
  | KUSB_FNID_Clone
  | KUSB_FNID_QueryInterfaceSettings
  | KUSB_FNID_QueryDeviceInformation
  | KUSB_FNID_SetCurrentAlternateSetting
  | KUSB_FNID_GetCurrentAlternateSetting
  | KUSB_FNID_QueryPipe
  | KUSB_FNID_SetPipePolicy
  | KUSB_FNID_GetPipePolicy
  | KUSB_FNID_ReadPipe
  | KUSB_FNID_WritePipe
  | KUSB_FNID_ResetPipe
  | KUSB_FNID_AbortPipe
  | KUSB_FNID_FlushPipe
  | KUSB_FNID_IsoReadPipe
  | KUSB_FNID_IsoWritePipe
  | KUSB_FNID_GetCurrentFrameNumber
  | KUSB_FNID_GetOverlappedResult
  | KUSB_FNID_GetProperty
  | KUSB_FNID_IsochReadPipe
  | KUSB_FNID_IsochWritePipe
  | KUSB_FNID_QueryPipeEx
  | KUSB_FNID_GetSuperSpeedPipeCompanionDescriptor

definition fnid_list :: "kusb_fnid list" where
  "fnid_list =
   [KUSB_FNID_Init,
    KUSB_FNID_Free,
    KUSB_FNID_ClaimInterface,
    KUSB_FNID_ReleaseInterface,
    KUSB_FNID_SetAltInterface,
    KUSB_FNID_GetAltInterface,
    KUSB_FNID_GetDescriptor,
    KUSB_FNID_ControlTransfer,
    KUSB_FNID_SetPowerPolicy,
    KUSB_FNID_GetPowerPolicy,
    KUSB_FNID_SetConfiguration,
    KUSB_FNID_GetConfiguration,
    KUSB_FNID_ResetDevice,
    KUSB_FNID_Initialize,
    KUSB_FNID_SelectInterface,
    KUSB_FNID_GetAssociatedInterface,
    KUSB_FNID_Clone,
    KUSB_FNID_QueryInterfaceSettings,
    KUSB_FNID_QueryDeviceInformation,
    KUSB_FNID_SetCurrentAlternateSetting,
    KUSB_FNID_GetCurrentAlternateSetting,
    KUSB_FNID_QueryPipe,
    KUSB_FNID_SetPipePolicy,
    KUSB_FNID_GetPipePolicy,
    KUSB_FNID_ReadPipe,
    KUSB_FNID_WritePipe,
    KUSB_FNID_ResetPipe,
    KUSB_FNID_AbortPipe,
    KUSB_FNID_FlushPipe,
    KUSB_FNID_IsoReadPipe,
    KUSB_FNID_IsoWritePipe,
    KUSB_FNID_GetCurrentFrameNumber,
    KUSB_FNID_GetOverlappedResult,
    KUSB_FNID_GetProperty,
    KUSB_FNID_IsochReadPipe,
    KUSB_FNID_IsochWritePipe,
    KUSB_FNID_QueryPipeEx,
    KUSB_FNID_GetSuperSpeedPipeCompanionDescriptor]"

datatype kproc =
    UsbK_proc kusb_fnid
  | WUsb_proc kusb_fnid
  | LUsb0_proc kusb_fnid
  | Unsupported_proc kusb_fnid

abbreviation (input) KUSB_DRVID_LIBUSBK :: int where "KUSB_DRVID_LIBUSBK \<equiv> 0"
abbreviation (input) KUSB_DRVID_LIBUSB0 :: int where "KUSB_DRVID_LIBUSB0 \<equiv> 1"
abbreviation (input) KUSB_DRVID_WINUSB :: int where "KUSB_DRVID_WINUSB \<equiv> 2"
abbreviation (input) KUSB_DRVID_LIBUSB0_FILTER :: int where "KUSB_DRVID_LIBUSB0_FILTER \<equiv> 3"

text \<open>What \<open>WUsb_Init_Library\<close> found: the library itself and the isochronous exports.\<close>

record winusb_library =
  winusb_DLL :: bool
  has_GetCurrentFrameNumber :: bool
  has_ReadIsochPipe :: bool
  has_WriteIsochPipe :: bool

section \<open>The switches\<close>

fun GetProcAddress_Base :: "kusb_fnid \<Rightarrow> kproc option" where
  "GetProcAddress_Base KUSB_FNID_Free = Some (UsbK_proc KUSB_FNID_Free)"
| "GetProcAddress_Base KUSB_FNID_GetAssociatedInterface = Some (UsbK_proc KUSB_FNID_GetAssociatedInterface)"
| "GetProcAddress_Base KUSB_FNID_QueryInterfaceSettings = Some (UsbK_proc KUSB_FNID_QueryInterfaceSettings)"
| "GetProcAddress_Base KUSB_FNID_QueryPipe = Some (UsbK_proc KUSB_FNID_QueryPipe)"
| "GetProcAddress_Base KUSB_FNID_Clone = Some (UsbK_proc KUSB_FNID_Clone)"
| "GetProcAddress_Base KUSB_FNID_SelectInterface = Some (UsbK_proc KUSB_FNID_SelectInterface)"
| "GetProcAddress_Base KUSB_FNID_GetProperty = Some (UsbK_proc KUSB_FNID_GetProperty)"
| "GetProcAddress_Base _ = None"

fun GetProcAddress_UsbK :: "kusb_fnid \<Rightarrow> kproc option" where
  "GetProcAddress_UsbK KUSB_FNID_Initialize = Some (UsbK_proc KUSB_FNID_Initialize)"
| "GetProcAddress_UsbK KUSB_FNID_GetDescriptor = Some (UsbK_proc KUSB_FNID_GetDescriptor)"
| "GetProcAddress_UsbK KUSB_FNID_QueryDeviceInformation = Some (UsbK_proc KUSB_FNID_QueryDeviceInformation)"
| "GetProcAddress_UsbK KUSB_FNID_SetCurrentAlternateSetting = Some (UsbK_proc KUSB_FNID_SetCurrentAlternateSetting)"
| "GetProcAddress_UsbK KUSB_FNID_GetCurrentAlternateSetting = Some (UsbK_proc KUSB_FNID_GetCurrentAlternateSetting)"
| "GetProcAddress_UsbK KUSB_FNID_SetPipePolicy = Some (UsbK_proc KUSB_FNID_SetPipePolicy)"
| "GetProcAddress_UsbK KUSB_FNID_GetPipePolicy = Some (UsbK_proc KUSB_FNID_GetPipePolicy)"
| "GetProcAddress_UsbK KUSB_FNID_ReadPipe = Some (UsbK_proc KUSB_FNID_ReadPipe)"
| "GetProcAddress_UsbK KUSB_FNID_WritePipe = Some (UsbK_proc KUSB_FNID_WritePipe)"
| "GetProcAddress_UsbK KUSB_FNID_ControlTransfer = Some (UsbK_proc KUSB_FNID_ControlTransfer)"
| "GetProcAddress_UsbK KUSB_FNID_ResetPipe = Some (UsbK_proc KUSB_FNID_ResetPipe)"
| "GetProcAddress_UsbK KUSB_FNID_AbortPipe = Some (UsbK_proc KUSB_FNID_AbortPipe)"
| "GetProcAddress_UsbK KUSB_FNID_FlushPipe = Some (UsbK_proc KUSB_FNID_FlushPipe)"
| "GetProcAddress_UsbK KUSB_FNID_SetPowerPolicy = Some (UsbK_proc KUSB_FNID_SetPowerPolicy)"
| "GetProcAddress_UsbK KUSB_FNID_GetPowerPolicy = Some (UsbK_proc KUSB_FNID_GetPowerPolicy)"
| "GetProcAddress_UsbK KUSB_FNID_GetOverlappedResult = Some (UsbK_proc KUSB_FNID_GetOverlappedResult)"
| "GetProcAddress_UsbK KUSB_FNID_ResetDevice = Some (UsbK_proc KUSB_FNID_ResetDevice)"
| "GetProcAddress_UsbK KUSB_FNID_Init = Some (UsbK_proc KUSB_FNID_Init)"
| "GetProcAddress_UsbK KUSB_FNID_SetConfiguration = Some (UsbK_proc KUSB_FNID_SetConfiguration)"
| "GetProcAddress_UsbK KUSB_FNID_GetConfiguration = Some (UsbK_proc KUSB_FNID_GetConfiguration)"
| "GetProcAddress_UsbK KUSB_FNID_ClaimInterface = Some (UsbK_proc KUSB_FNID_ClaimInterface)"
| "GetProcAddress_UsbK KUSB_FNID_ReleaseInterface = Some (UsbK_proc KUSB_FNID_ReleaseInterface)"
| "GetProcAddress_UsbK KUSB_FNID_SetAltInterface = Some (UsbK_proc KUSB_FNID_SetAltInterface)"
| "GetProcAddress_UsbK KUSB_FNID_GetAltInterface = Some (UsbK_proc KUSB_FNID_GetAltInterface)"
| "GetProcAddress_UsbK KUSB_FNID_IsoReadPipe = Some (UsbK_proc KUSB_FNID_IsoReadPipe)"
| "GetProcAddress_UsbK KUSB_FNID_IsoWritePipe = Some (UsbK_proc KUSB_FNID_IsoWritePipe)"
| "GetProcAddress_UsbK KUSB_FNID_GetCurrentFrameNumber = Some (UsbK_proc KUSB_FNID_GetCurrentFrameNumber)"
| "GetProcAddress_UsbK KUSB_FNID_IsochReadPipe = Some (UsbK_proc KUSB_FNID_IsochReadPipe)"
| "GetProcAddress_UsbK KUSB_FNID_IsochWritePipe = Some (UsbK_proc KUSB_FNID_IsochWritePipe)"
| "GetProcAddress_UsbK KUSB_FNID_QueryPipeEx = Some (UsbK_proc KUSB_FNID_QueryPipeEx)"
| "GetProcAddress_UsbK KUSB_FNID_GetSuperSpeedPipeCompanionDescriptor = Some (UsbK_proc KUSB_FNID_GetSuperSpeedPipeCompanionDescriptor)"
| "GetProcAddress_UsbK _ = None"

text \<open>
  \<open>GetProcAddress_LUsb0\<close>: the isochronous functions are refused, two functions have their own
  implementation, the others are shared with the libusbK backend.
\<close>

definition GetProcAddress_LUsb0 :: "kusb_fnid \<Rightarrow> kproc option" where
  "GetProcAddress_LUsb0 f =
     (if f \<in> {KUSB_FNID_IsoReadPipe, KUSB_FNID_IsoWritePipe, KUSB_FNID_IsochWritePipe, KUSB_FNID_IsochReadPipe}
      then None
      else if f = KUSB_FNID_SetConfiguration then Some (LUsb0_proc KUSB_FNID_SetConfiguration)
      else if f = KUSB_FNID_ControlTransfer then Some (LUsb0_proc KUSB_FNID_ControlTransfer)
      else GetProcAddress_UsbK f)"

fun wusb_switch :: "winusb_library \<Rightarrow> kusb_fnid \<Rightarrow> kproc option" where
  "wusb_switch l KUSB_FNID_Init = Some (WUsb_proc KUSB_FNID_Init)"
| "wusb_switch l KUSB_FNID_Initialize = Some (WUsb_proc KUSB_FNID_Initialize)"
| "wusb_switch l KUSB_FNID_GetDescriptor = Some (WUsb_proc KUSB_FNID_GetDescriptor)"
| "wusb_switch l KUSB_FNID_QueryDeviceInformation = Some (WUsb_proc KUSB_FNID_QueryDeviceInformation)"
| "wusb_switch l KUSB_FNID_SetCurrentAlternateSetting = Some (WUsb_proc KUSB_FNID_SetCurrentAlternateSetting)"
| "wusb_switch l KUSB_FNID_GetCurrentAlternateSetting = Some (WUsb_proc KUSB_FNID_GetCurrentAlternateSetting)"
| "wusb_switch l KUSB_FNID_SetPipePolicy = Some (WUsb_proc KUSB_FNID_SetPipePolicy)"
| "wusb_switch l KUSB_FNID_GetPipePolicy = Some (WUsb_proc KUSB_FNID_GetPipePolicy)"
| "wusb_switch l KUSB_FNID_ReadPipe = Some (WUsb_proc KUSB_FNID_ReadPipe)"
| "wusb_switch l KUSB_FNID_WritePipe = Some (WUsb_proc KUSB_FNID_WritePipe)"
| "wusb_switch l KUSB_FNID_ControlTransfer = Some (WUsb_proc KUSB_FNID_ControlTransfer)"
| "wusb_switch l KUSB_FNID_ResetPipe = Some (WUsb_proc KUSB_FNID_ResetPipe)"
| "wusb_switch l KUSB_FNID_AbortPipe = Some (WUsb_proc KUSB_FNID_AbortPipe)"
| "wusb_switch l KUSB_FNID_FlushPipe = Some (WUsb_proc KUSB_FNID_FlushPipe)"
| "wusb_switch l KUSB_FNID_SetPowerPolicy = Some (WUsb_proc KUSB_FNID_SetPowerPolicy)"
| "wusb_switch l KUSB_FNID_GetPowerPolicy = Some (WUsb_proc KUSB_FNID_GetPowerPolicy)"
| "wusb_switch l KUSB_FNID_GetOverlappedResult = Some (WUsb_proc KUSB_FNID_GetOverlappedResult)"
| "wusb_switch l KUSB_FNID_SetConfiguration = Some (WUsb_proc KUSB_FNID_SetConfiguration)"
| "wusb_switch l KUSB_FNID_GetConfiguration = Some (WUsb_proc KUSB_FNID_GetConfiguration)"
| "wusb_switch l KUSB_FNID_ClaimInterface = Some (WUsb_proc KUSB_FNID_ClaimInterface)"
| "wusb_switch l KUSB_FNID_ReleaseInterface = Some (WUsb_proc KUSB_FNID_ReleaseInterface)"
| "wusb_switch l KUSB_FNID_SetAltInterface = Some (WUsb_proc KUSB_FNID_SetAltInterface)"
| "wusb_switch l KUSB_FNID_GetAltInterface = Some (WUsb_proc KUSB_FNID_GetAltInterface)"
| "wusb_switch l KUSB_FNID_GetCurrentFrameNumber = (if \<not> has_GetCurrentFrameNumber l then None else Some (WUsb_proc KUSB_FNID_GetCurrentFrameNumber))"
| "wusb_switch l KUSB_FNID_IsochReadPipe = (if \<not> has_ReadIsochPipe l then None else Some (WUsb_proc KUSB_FNID_IsochReadPipe))"
| "wusb_switch l KUSB_FNID_IsochWritePipe = (if \<not> has_WriteIsochPipe l then None else Some (WUsb_proc KUSB_FNID_IsochWritePipe))"
| "wusb_switch l KUSB_FNID_QueryPipeEx = Some (WUsb_proc KUSB_FNID_QueryPipeEx)"
| "wusb_switch l KUSB_FNID_GetSuperSpeedPipeCompanionDescriptor = Some (WUsb_proc KUSB_FNID_GetSuperSpeedPipeCompanionDescriptor)"
| "wusb_switch _ _ = None"

definition GetProcAddress_WUsb :: "winusb_library \<Rightarrow> kusb_fnid \<Rightarrow> kproc option" where
  "GetProcAddress_WUsb l f = (if \<not> winusb_DLL l then None else wusb_switch l f)"

text \<open>
  \<open>GetProcAddress_Unsupported\<close> sets the pointer to a stub that fails (or to null for a function it
  does not know) and returns \<open>FALSE\<close>; the value is the pointer.
\<close>

fun GetProcAddress_Unsupported :: "kusb_fnid \<Rightarrow> kproc option" where
  "GetProcAddress_Unsupported KUSB_FNID_Initialize = Some (Unsupported_proc KUSB_FNID_Initialize)"
| "GetProcAddress_Unsupported KUSB_FNID_GetDescriptor = Some (Unsupported_proc KUSB_FNID_GetDescriptor)"
| "GetProcAddress_Unsupported KUSB_FNID_QueryDeviceInformation = Some (Unsupported_proc KUSB_FNID_QueryDeviceInformation)"
| "GetProcAddress_Unsupported KUSB_FNID_SetCurrentAlternateSetting = Some (Unsupported_proc KUSB_FNID_SetCurrentAlternateSetting)"
| "GetProcAddress_Unsupported KUSB_FNID_GetCurrentAlternateSetting = Some (Unsupported_proc KUSB_FNID_GetCurrentAlternateSetting)"
| "GetProcAddress_Unsupported KUSB_FNID_SetPipePolicy = Some (Unsupported_proc KUSB_FNID_SetPipePolicy)"
| "GetProcAddress_Unsupported KUSB_FNID_GetPipePolicy = Some (Unsupported_proc KUSB_FNID_GetPipePolicy)"
| "GetProcAddress_Unsupported KUSB_FNID_ReadPipe = Some (Unsupported_proc KUSB_FNID_ReadPipe)"
| "GetProcAddress_Unsupported KUSB_FNID_WritePipe = Some (Unsupported_proc KUSB_FNID_WritePipe)"
| "GetProcAddress_Unsupported KUSB_FNID_ControlTransfer = Some (Unsupported_proc KUSB_FNID_ControlTransfer)"
| "GetProcAddress_Unsupported KUSB_FNID_ResetPipe = Some (Unsupported_proc KUSB_FNID_ResetPipe)"
| "GetProcAddress_Unsupported KUSB_FNID_AbortPipe = Some (Unsupported_proc KUSB_FNID_AbortPipe)"
| "GetProcAddress_Unsupported KUSB_FNID_FlushPipe = Some (Unsupported_proc KUSB_FNID_FlushPipe)"
| "GetProcAddress_Unsupported KUSB_FNID_SetPowerPolicy = Some (Unsupported_proc KUSB_FNID_SetPowerPolicy)"
| "GetProcAddress_Unsupported KUSB_FNID_GetPowerPolicy = Some (Unsupported_proc KUSB_FNID_GetPowerPolicy)"
| "GetProcAddress_Unsupported KUSB_FNID_GetOverlappedResult = Some (Unsupported_proc KUSB_FNID_GetOverlappedResult)"
| "GetProcAddress_Unsupported KUSB_FNID_ResetDevice = Some (Unsupported_proc KUSB_FNID_ResetDevice)"
| "GetProcAddress_Unsupported KUSB_FNID_Init = Some (Unsupported_proc KUSB_FNID_Init)"
| "GetProcAddress_Unsupported KUSB_FNID_SetConfiguration = Some (Unsupported_proc KUSB_FNID_SetConfiguration)"
| "GetProcAddress_Unsupported KUSB_FNID_GetConfiguration = Some (Unsupported_proc KUSB_FNID_GetConfiguration)"
| "GetProcAddress_Unsupported KUSB_FNID_ClaimInterface = Some (Unsupported_proc KUSB_FNID_ClaimInterface)"
| "GetProcAddress_Unsupported KUSB_FNID_ReleaseInterface = Some (Unsupported_proc KUSB_FNID_ReleaseInterface)"
| "GetProcAddress_Unsupported KUSB_FNID_SetAltInterface = Some (Unsupported_proc KUSB_FNID_SetAltInterface)"
| "GetProcAddress_Unsupported KUSB_FNID_GetAltInterface = Some (Unsupported_proc KUSB_FNID_GetAltInterface)"
| "GetProcAddress_Unsupported KUSB_FNID_IsoReadPipe = Some (Unsupported_proc KUSB_FNID_IsoReadPipe)"
| "GetProcAddress_Unsupported KUSB_FNID_IsoWritePipe = Some (Unsupported_proc KUSB_FNID_IsoWritePipe)"
| "GetProcAddress_Unsupported KUSB_FNID_GetCurrentFrameNumber = Some (Unsupported_proc KUSB_FNID_GetCurrentFrameNumber)"
| "GetProcAddress_Unsupported KUSB_FNID_IsochReadPipe = Some (Unsupported_proc KUSB_FNID_IsochReadPipe)"
| "GetProcAddress_Unsupported KUSB_FNID_IsochWritePipe = Some (Unsupported_proc KUSB_FNID_IsochWritePipe)"
| "GetProcAddress_Unsupported _ = None"

text \<open>Every stub of \<open>lusbk_bknd_unsupported.c\<close> ignores its arguments, sets the last error and fails.\<close>

definition Unsupported_call :: "kusb_fnid \<Rightarrow> DWORD + unit" where
  "Unsupported_call f = Inl ERROR_NOT_SUPPORTED"

section \<open>Lookup and loading\<close>

text \<open>
  \<open>LibK_GetProcAddress\<close>: the result, and the pointer it wrote. On failure the last error is
  \<open>ERROR_NOT_SUPPORTED\<close>.
\<close>

definition LibK_GetProcAddress ::
  "winusb_library \<Rightarrow> int \<Rightarrow> kusb_fnid \<Rightarrow> bool \<times> kproc option" where
  "LibK_GetProcAddress l drv f =
     (case GetProcAddress_Base f of
        Some p \<Rightarrow> (True, Some p)
      | None \<Rightarrow>
          (case (if drv = KUSB_DRVID_LIBUSBK then GetProcAddress_UsbK f
                 else if drv = KUSB_DRVID_LIBUSB0_FILTER \<or> drv = KUSB_DRVID_LIBUSB0 then GetProcAddress_LUsb0 f
                 else if drv = KUSB_DRVID_WINUSB then GetProcAddress_WUsb l f
                 else None) of
             Some p \<Rightarrow> (True, Some p)
           | None \<Rightarrow> (False, GetProcAddress_Unsupported f)))"

record kusb_driver_api =
  Info_DriverID :: int
  Info_FunctionCount :: nat
  Funcs :: "kusb_fnid \<Rightarrow> kproc option"
  z_FuncSupported :: "kusb_fnid \<Rightarrow> bool"

text \<open>\<open>CASE_FNID_LOAD\<close>: mark as supported, look up, take the mark back if there is none.\<close>

definition load_function :: "winusb_library \<Rightarrow> int \<Rightarrow> kusb_fnid \<Rightarrow> kusb_driver_api \<times> nat \<Rightarrow> kusb_driver_api \<times> nat" where
  "load_function l drv f st =
     (let (api, count) = st;
          api1 = api\<lparr>z_FuncSupported := (z_FuncSupported api)(f := True)\<rparr>;
          (ok, p) = LibK_GetProcAddress l drv f;
          api2 = api1\<lparr>Funcs := (Funcs api1)(f := p)\<rparr>
      in if \<not> ok then (api2\<lparr>z_FuncSupported := (z_FuncSupported api2)(f := False)\<rparr>, count)
         else (api2, Suc count))"

definition zero_api :: kusb_driver_api where
  "zero_api = \<lparr>Info_DriverID = 0, Info_FunctionCount = 0, Funcs = (\<lambda>_. None), z_FuncSupported = (\<lambda>_. False)\<rparr>"

text \<open>The result is the count (\<open>FALSE\<close> when it is 0) and the table.\<close>

definition LibK_LoadDriverAPI :: "winusb_library \<Rightarrow> int \<Rightarrow> nat \<times> kusb_driver_api" where
  "LibK_LoadDriverAPI l drv =
     (let (api, count) = foldl (\<lambda>st f. load_function l drv f st) (zero_api, 0) fnid_list
      in (count, api\<lparr>Info_FunctionCount := count, Info_DriverID := drv\<rparr>))"

definition LibK_IsFunctionSupported :: "kusb_driver_api option \<Rightarrow> kusb_fnid \<Rightarrow> DWORD + bool" where
  "LibK_IsFunctionSupported api f =
     (case api of None \<Rightarrow> Inl ERROR_INVALID_HANDLE | Some a \<Rightarrow> Inr (z_FuncSupported a f))"

section \<open>Loading a table\<close>

lemma set_fnid_list: "set fnid_list = UNIV"
proof -
  have "f \<in> set fnid_list" for f by (cases f) (simp_all add: fnid_list_def)
  then show ?thesis by blast
qed

lemma distinct_fnid_list: "distinct fnid_list"
  by (simp add: fnid_list_def)

lemma foldl_load_function:
  "distinct fs \<Longrightarrow>
   foldl (\<lambda>st f. load_function l drv f st) (api, n) fs =
     (api\<lparr>Funcs := (\<lambda>f. if f \<in> set fs then snd (LibK_GetProcAddress l drv f) else Funcs api f),
          z_FuncSupported := (\<lambda>f. if f \<in> set fs then fst (LibK_GetProcAddress l drv f) else z_FuncSupported api f)\<rparr>,
      n + length (filter (\<lambda>f. fst (LibK_GetProcAddress l drv f)) fs))"
proof (induction fs arbitrary: api n)
  case Nil
  then show ?case by simp
next
  case (Cons f fs)
  then have d: "distinct fs" "f \<notin> set fs" by auto
  obtain ok p where r: "LibK_GetProcAddress l drv f = (ok, p)" by (cases "LibK_GetProcAddress l drv f")
  let ?api = "api\<lparr>Funcs := (Funcs api)(f := p), z_FuncSupported := (z_FuncSupported api)(f := ok)\<rparr>"
  have step: "load_function l drv f (api, n) = (?api, if ok then Suc n else n)"
    using r by (simp add: load_function_def)
  show ?case
    unfolding foldl.simps step using r d(2) by (auto simp: Cons.IH [OF d(1)] fun_eq_iff)
qed

text \<open>The functions that a lookup finds, for each driver.\<close>

definition drv_supports :: "winusb_library \<Rightarrow> int \<Rightarrow> kusb_fnid \<Rightarrow> bool" where
  "drv_supports l drv f \<longleftrightarrow> fst (LibK_GetProcAddress l drv f)"

lemma base_or_UsbK: "GetProcAddress_Base f = None \<Longrightarrow> GetProcAddress_UsbK f \<noteq> None"
  by (cases f) simp_all

lemma drv_supports_cases:
  "drv_supports l KUSB_DRVID_LIBUSBK f"
  "drv_supports l KUSB_DRVID_LIBUSB0 f \<longleftrightarrow>
     f \<notin> {KUSB_FNID_IsoReadPipe, KUSB_FNID_IsoWritePipe, KUSB_FNID_IsochReadPipe, KUSB_FNID_IsochWritePipe}"
  by (cases f; simp add: drv_supports_def LibK_GetProcAddress_def GetProcAddress_LUsb0_def)+

section \<open>Properties\<close>

text \<open>
  Loading a driver's function table visits every function identifier once: each slot of the
  table holds what the lookup gives for that function, each support flag says whether the lookup
  succeeded, and the count is the number of supported functions.
\<close>

theorem LibK_LoadDriverAPI_spec:
  "LibK_LoadDriverAPI l drv =
     (card {f. fst (LibK_GetProcAddress l drv f)},
      \<lparr>Info_DriverID = drv, Info_FunctionCount = card {f. fst (LibK_GetProcAddress l drv f)},
       Funcs = (\<lambda>f. snd (LibK_GetProcAddress l drv f)),
       z_FuncSupported = (\<lambda>f. fst (LibK_GetProcAddress l drv f))\<rparr>)"
proof -
  have "length (filter (\<lambda>f. fst (LibK_GetProcAddress l drv f)) fnid_list) =
      card {f. fst (LibK_GetProcAddress l drv f)}"
    using distinct_card [OF distinct_filter [OF distinct_fnid_list]] set_fnid_list by simp
  then show ?thesis
    by (simp add: LibK_LoadDriverAPI_def foldl_load_function [OF distinct_fnid_list] set_fnid_list zero_api_def)
qed

text \<open>
  What each driver supports: libusbK everything, libusb0 (and its filter) everything but
  the four isochronous functions, and an unknown driver only the seven functions that are the
  same for all of them. With the WinUSB library and its isochronous exports present, WinUSB
  lacks the two libusbK isochronous functions and the device reset; without the library it
  has only the common functions.
\<close>

theorem driver_function_sets:
  "{f. \<not> fst (LibK_GetProcAddress l KUSB_DRVID_LIBUSBK f)} = {} \<and>
   {f. \<not> fst (LibK_GetProcAddress l KUSB_DRVID_LIBUSB0 f)} =
     {KUSB_FNID_IsoReadPipe, KUSB_FNID_IsoWritePipe, KUSB_FNID_IsochReadPipe, KUSB_FNID_IsochWritePipe} \<and>
   {f. \<not> fst (LibK_GetProcAddress l KUSB_DRVID_LIBUSB0_FILTER f)} =
     {KUSB_FNID_IsoReadPipe, KUSB_FNID_IsoWritePipe, KUSB_FNID_IsochReadPipe, KUSB_FNID_IsochWritePipe} \<and>
   {f. \<not> fst (LibK_GetProcAddress \<lparr>winusb_DLL = True, has_GetCurrentFrameNumber = True,
        has_ReadIsochPipe = True, has_WriteIsochPipe = True\<rparr> KUSB_DRVID_WINUSB f)} =
     {KUSB_FNID_IsoReadPipe, KUSB_FNID_IsoWritePipe, KUSB_FNID_ResetDevice} \<and>
   {f. fst (LibK_GetProcAddress \<lparr>winusb_DLL = False, has_GetCurrentFrameNumber = x,
        has_ReadIsochPipe = y, has_WriteIsochPipe = z\<rparr> KUSB_DRVID_WINUSB f)} =
     {KUSB_FNID_Free, KUSB_FNID_GetAssociatedInterface, KUSB_FNID_QueryInterfaceSettings,
      KUSB_FNID_QueryPipe, KUSB_FNID_Clone, KUSB_FNID_SelectInterface, KUSB_FNID_GetProperty} \<and>
   {f. fst (LibK_GetProcAddress l 4 f)} =
     {KUSB_FNID_Free, KUSB_FNID_GetAssociatedInterface, KUSB_FNID_QueryInterfaceSettings,
      KUSB_FNID_QueryPipe, KUSB_FNID_Clone, KUSB_FNID_SelectInterface, KUSB_FNID_GetProperty}"
  (is "?A \<and> ?B \<and> ?C \<and> ?D \<and> ?E \<and> ?F")
proof (intro conjI)
  show ?A using drv_supports_cases(1) by (simp add: drv_supports_def)
  show ?B using drv_supports_cases(2) by (auto simp: drv_supports_def)
  show ?C
    by (rule set_eqI, rename_tac f, case_tac f)
      (simp_all add: LibK_GetProcAddress_def GetProcAddress_LUsb0_def)
  show ?D
    by (rule set_eqI, rename_tac f, case_tac f)
      (simp_all add: LibK_GetProcAddress_def GetProcAddress_WUsb_def)
  show ?E
    by (rule set_eqI, rename_tac f, case_tac f)
      (simp_all add: LibK_GetProcAddress_def GetProcAddress_WUsb_def)
  show ?F
    by (rule set_eqI, rename_tac f, case_tac f) (simp_all add: LibK_GetProcAddress_def)
qed

text \<open>
  A failed lookup still yields a pointer that can be called (the stub that refuses), except
  for the two functions the table of stubs does not know: for these, and only for these, a table
  of a driver that lacks them holds a null pointer.
\<close>

theorem null_only_without_stub:
  "snd (LibK_GetProcAddress l drv f) = None \<longleftrightarrow>
     \<not> fst (LibK_GetProcAddress l drv f) \<and>
     f \<in> {KUSB_FNID_QueryPipeEx, KUSB_FNID_GetSuperSpeedPipeCompanionDescriptor}"
proof -
  have "GetProcAddress_Base f = None \<Longrightarrow> GetProcAddress_Unsupported f = None \<longleftrightarrow>
      f \<in> {KUSB_FNID_QueryPipeEx, KUSB_FNID_GetSuperSpeedPipeCompanionDescriptor}"
    by (cases f) simp_all
  then show ?thesis
    by (auto simp: LibK_GetProcAddress_def split: option.splits)
qed

end
