(* ===== verification/LibK_State.thy ===== *)
theory LibK_State
  imports Handle_Pool Linked_List Iso_Context Driver_Api
begin

text \<open>
  The state of the user mode library: the structures of \<open>lusbk_handles.h\<close> that the modelled
  components keep in the handle pools, the pools themselves (\<open>AllK\<close>), the explicit store of the
  overlapped pool's list elements, and what the library leaves behind in the system (events,
  closed handles, calls of user callbacks). Windows and the drivers are not modelled: their
  answers come in as arguments of the operations that call them.
\<close>

type_synonym HANDLE = nat

definition IsHandleValid :: "HANDLE \<Rightarrow> bool" where
  "IsHandleValid h \<longleftrightarrow> h \<noteq> 0 \<and> h \<noteq> 2 ^ 64 - 1"

section \<open>Devices and interfaces\<close>

record shared_interface =
  InterfaceHandle :: HANDLE
  SI_ID :: UCHAR
  SI_Index :: UCHAR
  Claimed :: bool
  CurrentAltSetting :: LONG

text \<open>
  The elements of the interface tree. A descriptor pointer points into the configuration
  descriptor, so it is an offset into its bytes. The lists are the \<open>DL_\<close> lists of
  \<open>Linked_List\<close>; their elements are freshly allocated, so they are represented by their contents.
\<close>

record kusb_pipe_el =
  Pipe_ID :: UCHAR
  Pipe_Index :: UCHAR
  Pipe_Descriptor :: nat
  SuperSpeedCompanionDescriptor :: "nat option"

record kusb_alt_interface_el =
  Alt_ID :: UCHAR
  Alt_Index :: UCHAR
  Alt_Descriptor :: nat
  PipeList :: "kusb_pipe_el list"
  PipeCount :: UCHAR

record kusb_interface_el =
  Intf_ID :: UCHAR
  Intf_Index :: UCHAR
  SharedInterface :: nat
  AltInterfaceList :: "kusb_alt_interface_el list"
  AltInterfaceCount :: UCHAR

record kusb_interface_stack =
  UsePipeCache :: bool
  PipeCache :: "HANDLE list"
  InterfaceList :: "kusb_interface_el list"
  InterfaceCount :: UCHAR

record pipe_policy =
  pol_timeout :: ULONG
  pol_isoasap :: ULONG

record bknd_context =
  PipePolicies :: "pipe_policy list"
  Version_major :: UINT

record dev_obj =
  MasterDeviceHandle :: HANDLE
  MasterInterfaceHandle :: HANDLE
  DevicePath :: "string option"
  ConfigDescriptor :: "UCHAR list option"
  SharedInterfaces :: "shared_interface list"
  DriverAPI :: "kusb_driver_api option"
  UsbStack :: "kusb_interface_stack option"
  BackendCtx :: "bknd_context option"

definition KDEV_SHARED_INTERFACE_COUNT :: nat where
  "KDEV_SHARED_INTERFACE_COUNT = 128"

definition Init_Handle_DevK :: "dev_obj \<Rightarrow> dev_obj" where
  "Init_Handle_DevK d =
     \<lparr>MasterDeviceHandle = 0, MasterInterfaceHandle = 0, DevicePath = None, ConfigDescriptor = None,
      SharedInterfaces = [], DriverAPI = None, UsbStack = None, BackendCtx = None\<rparr>"

record usb_obj =
  Device :: "nat option"
  Selected_SharedInterface_Index :: LONG
  IsClone :: bool

definition Init_Handle_UsbK :: "usb_obj \<Rightarrow> usb_obj" where
  "Init_Handle_UsbK u = \<lparr>Device = None, Selected_SharedInterface_Index = 0, IsClone = False\<rparr>"

text \<open>\<open>Get_SharedInterface\<close> masks the index, so it is always inside the array.\<close>

definition shared_idx :: "LONG \<Rightarrow> nat" where
  "shared_idx i = nat (i AND 127)"

text \<open>\<open>PIPEID_TO_IDX\<close>: the endpoint number in the low bits, the direction in bit 4.\<close>

definition PIPEID_TO_IDX :: "UCHAR \<Rightarrow> nat" where
  "PIPEID_TO_IDX p = unat (((p AND 0x0F) OR (drop_bit 3 p AND 0x10)) AND 0x1F)"

section \<open>Overlapped handles and pools\<close>

record ovl_obj =
  hEvent :: HANDLE
  Ovl_Pool :: "nat option"
  IsAcquired :: LONG
  MasterLink :: addr

text \<open>\<open>Init_Handle_OvlK\<close> does not touch \<open>MasterLink\<close>.\<close>

definition Init_Handle_OvlK :: "ovl_obj \<Rightarrow> ovl_obj" where
  "Init_Handle_OvlK v = v\<lparr>hEvent := 0, Ovl_Pool := None, IsAcquired := 0\<rparr>"

record ovlpool_obj =
  MasterListCount :: LONG
  MasterArray :: addr
  AcquiredList :: addr
  ReleasedList :: addr
  Pool_Flags :: UINT
  Pool_UsbHandle :: "nat option"

text \<open>\<open>Init_Handle_OvlPoolK\<close> resets the flags and the device, and leaves the lists as they are.\<close>

definition Init_Handle_OvlPoolK :: "ovlpool_obj \<Rightarrow> ovlpool_obj" where
  "Init_Handle_OvlPoolK p = p\<lparr>Pool_Flags := 0, Pool_UsbHandle := None\<rparr>"

section \<open>Isochronous handles\<close>

record usbd_iso_packet =
  W_Offset :: ULONG
  W_Length :: ULONG
  W_Status :: ULONG

record winusb_iso_context =
  BufferHandle :: HANDLE
  W_Packets :: "usbd_iso_packet list option"
  W_NumberOfPackets :: UINT

text \<open>
  The union \<open>Context\<close> is kept as its two members; the code reads and writes only the one that
  belongs to the driver of the handle. It is zeroed when the handle is initialised.
\<close>

record isoch_obj =
  Isoch_UsbHandle :: "nat option"
  Isoch_PipeID :: UCHAR
  TransferBuffer :: addr
  TransferBufferSize :: UINT
  PacketCount :: UINT
  IsHighSpeed :: bool
  PacketInformation :: isoch_packet_information
  PipeInformation :: pipe_information_ex
  Ctx_UsbK :: "iso_context option"
  Ctx_UsbW :: winusb_iso_context

definition Init_Handle_IsochK :: "isoch_obj \<Rightarrow> isoch_obj" where
  "Init_Handle_IsochK i =
     i\<lparr>Isoch_UsbHandle := None, TransferBuffer := 0, TransferBufferSize := 0, PacketCount := 0,
       Ctx_UsbK := None, Ctx_UsbW := \<lparr>BufferHandle = 0, W_Packets = None, W_NumberOfPackets = 0\<rparr>\<rparr>"

section \<open>Streams\<close>

text \<open>
  A transfer of a stream has an internal buffer of \<open>X_BufferSize\<close> bytes; the public context shows a
  window of it, given by its offset, with the number of bytes to write or read. The pointer to the
  overlapped structure is an address in the store of the stream thread. \<open>UserState\<close>, which the
  library does not touch, is left out.
\<close>

record kstm_public =
  XC_Buffer :: nat
  XC_BufferSize :: LONG
  XC_TransferLength :: LONG

record kstm_xfer =
  X_Overlapped :: addr
  Public :: kstm_public
  X_Index :: LONG
  X_BufferSize :: LONG
  X_Buffer :: "UCHAR list"

record kstm_info =
  I_UsbHandle :: "nat option"
  I_PipeID :: UCHAR
  I_MaxPendingTransfers :: LONG
  I_MaxTransferSize :: LONG
  I_MaxPendingIO :: LONG
  I_EndpointDescriptor :: "UCHAR list"
  I_DriverAPI :: "kusb_driver_api option"
  I_DeviceHandle :: HANDLE

text \<open>
  The asynchronous procedure calls that can be queued to the stream thread, with their arguments.
  The lists of a stream link transfers, which are named by their index in \<open>XferItems\<close>; a transfer is
  only ever unlinked from the list it is on, so the lists are represented by their contents
  (\<open>DL_DELETE_refines\<close>, \<open>DL_insert_refines\<close>). The semaphore is its handle and its count.
\<close>

datatype stm_apc = TransferListAPC "nat list" | StopAPC

record kstm =
  Heap :: HANDLE
  Info :: "kstm_info option"
  Stm_Flags :: UINT
  PendingIO :: LONG
  APCTransferQueueCount :: LONG
  TimeoutCancelMS :: ULONG
  SemReady :: HANDLE
  SemCount :: nat
  WaitTimeout :: LONG
  Thread_State :: LONG
  Thread_APCs :: "stm_apc list"
  Finished :: "nat list"
  FinishedTemp :: "nat list"
  Queued :: "nat list"
  XferItems :: "kstm_xfer list"
  XferItemsCount :: LONG

text \<open>
  \<open>Init_Handle_StmK\<close> leaves the counters, the semaphore, the timeout of waits and the transfers as
  the previous stream of the slot had them.
\<close>

definition Init_Handle_StmK :: "kstm \<Rightarrow> kstm" where
  "Init_Handle_StmK s =
     s\<lparr>Heap := 0, Info := None, Stm_Flags := 0, TimeoutCancelMS := 0, Thread_State := 0, Thread_APCs := [],
       Finished := [], FinishedTemp := [], Queued := []\<rparr>"

section \<open>The library\<close>

text \<open>The cleanup routines that \<open>Evt.Cleanup\<close> can point to.\<close>

datatype cleanup =
    k_Cleanup_UsbK_cb
  | k_Cleanup_DevK_cb
  | Cleanup_OvlPoolK_cb
  | Cleanup_OvlK_cb
  | Isoch_Cleanup_cb
  | Stm_Cleanup_cb

record setup_packet =
  RequestType :: UCHAR
  Request :: UCHAR
  SP_Value :: USHORT
  SP_Index :: USHORT
  SP_Length :: USHORT

text \<open>
  The requests that are sent to a driver. Sizes of output buffers are part of a request. What a
  driver answers is a parameter of the operations: it depends on the number of requests sent
  before, on the file handle and on the request.
\<close>

datatype kioctl =
    GET_VERSION
  | GET_CACHED_CONFIGURATION
  | SET_CONFIGURATION UINT
  | GET_DESCRIPTOR UCHAR UCHAR USHORT nat
  | QUERY_DEVICE_INFORMATION UINT nat
  | SET_INTERFACE UCHAR UCHAR
  | GET_INTERFACE UCHAR
  | SET_PIPE_POLICY UCHAR UINT "UCHAR list"
  | GET_PIPE_POLICY UCHAR UINT nat
  | SET_POWER_POLICY UINT "UCHAR list"
  | GET_POWER_POLICY UINT nat
  | CLAIM_INTERFACE UCHAR
  | RELEASE_INTERFACE UCHAR
  | GET_CURRENTFRAME_NUMBER
  | RESET_DEVICE
  | CONTROL_READ setup_packet ULONG nat
  | CONTROL_WRITE setup_packet ULONG "UCHAR list"
  | RESET_ENDPOINT UCHAR
  | ABORT_ENDPOINT UCHAR
  | FLUSH_PIPE UCHAR
  | TRANSFER_READ UCHAR nat
  | TRANSFER_WRITE UCHAR "UCHAR list"
  | ISOEX_READ UCHAR iso_context ULONG nat
  | ISOEX_WRITE UCHAR iso_context ULONG nat
  | AUTOISOEX_READ UCHAR nat
  | AUTOISOEX_WRITE UCHAR nat

record ioctl_answer =
  io_event :: bool
  io_pending :: bool
  io_timed_out :: bool
  io_ok :: bool
  io_data :: "UCHAR list"
  io_ret :: UINT
  io_err :: DWORD

type_synonym driver = "nat \<Rightarrow> HANDLE \<Rightarrow> kioctl \<Rightarrow> ioctl_answer"

datatype lib_event =
    CloseHandle HANDLE
  | UserCleanup nat nat int
  | UnregisterIsochBuffer HANDLE
  | CancelIo HANDLE
  | DeviceIo HANDLE kioctl
  | ResetEvent HANDLE
  | SetEvent HANDLE

record libk =
  LastError :: DWORD
  CurrentThreadId :: DWORD
  UsbK :: "(cleanup, usb_obj) ksection"
  DevK :: "(cleanup, dev_obj) ksection"
  OvlK :: "(cleanup, ovl_obj) ksection"
  OvlPoolK :: "(cleanup, ovlpool_obj) ksection"
  IsochK :: "(cleanup, isoch_obj) ksection"
  StmK :: "(cleanup, kstm) ksection"
  OvlHeap :: dl_heap
  OvlElHandle :: "addr \<Rightarrow> nat option"
  OvlBrk :: addr
  AllocPlan :: "bool list"
  NextEvent :: HANDLE
  IoCount :: nat
  Trace :: "lib_event list"

definition lens_UsbK :: "(libk, (cleanup, usb_obj) ksection) lens" where
  "lens_UsbK = \<lparr>lget = UsbK, lput = (\<lambda>s w. w\<lparr>UsbK := s\<rparr>)\<rparr>"

definition lens_DevK :: "(libk, (cleanup, dev_obj) ksection) lens" where
  "lens_DevK = \<lparr>lget = DevK, lput = (\<lambda>s w. w\<lparr>DevK := s\<rparr>)\<rparr>"

definition lens_OvlK :: "(libk, (cleanup, ovl_obj) ksection) lens" where
  "lens_OvlK = \<lparr>lget = OvlK, lput = (\<lambda>s w. w\<lparr>OvlK := s\<rparr>)\<rparr>"

definition lens_OvlPoolK :: "(libk, (cleanup, ovlpool_obj) ksection) lens" where
  "lens_OvlPoolK = \<lparr>lget = OvlPoolK, lput = (\<lambda>s w. w\<lparr>OvlPoolK := s\<rparr>)\<rparr>"

definition lens_IsochK :: "(libk, (cleanup, isoch_obj) ksection) lens" where
  "lens_IsochK = \<lparr>lget = IsochK, lput = (\<lambda>s w. w\<lparr>IsochK := s\<rparr>)\<rparr>"

definition lens_StmK :: "(libk, (cleanup, kstm) ksection) lens" where
  "lens_StmK = \<lparr>lget = StmK, lput = (\<lambda>s w. w\<lparr>StmK := s\<rparr>)\<rparr>"

definition SetLastError :: "DWORD \<Rightarrow> libk \<Rightarrow> libk" where
  "SetLastError e w = w\<lparr>LastError := e\<rparr>"

text \<open>\<open>LusbwError\<close>: \<open>TRUE\<close> for success, else set the last error and return \<open>FALSE\<close>.\<close>

definition LusbwError :: "DWORD \<Rightarrow> libk \<Rightarrow> bool \<times> libk" where
  "LusbwError e w = (if e \<noteq> ERROR_SUCCESS then (False, SetLastError e w) else (True, w))"

definition log_event :: "lib_event \<Rightarrow> libk \<Rightarrow> libk" where
  "log_event e w = w\<lparr>Trace := Trace w @ [e]\<rparr>"

text \<open>
  The outcome of one request. \<open>io_event\<close>: the event for it can be created. \<open>io_pending\<close>: it does
  not complete at once. \<open>io_timed_out\<close>: a wait for it with a timeout expires. \<open>io_ok\<close>, \<open>io_data\<close>,
  \<open>io_ret\<close>, \<open>io_err\<close>: its result, the bytes written to the output buffer, their number as
  reported, and the error code. An asynchronous request that is pending fails with
  \<open>ERROR_IO_PENDING\<close>.
\<close>

definition send :: "driver \<Rightarrow> HANDLE \<Rightarrow> kioctl \<Rightarrow> libk \<Rightarrow> ioctl_answer \<times> libk" where
  "send drv dev code w =
     (let a = drv (IoCount w) dev code
      in (a, if io_event a then log_event (DeviceIo dev code) (w\<lparr>IoCount := IoCount w + 1\<rparr>) else w))"

text \<open>\<open>Ioctl_Sync\<close>: the transferred length is 0 unless the request succeeds.\<close>

definition Ioctl_Sync :: "driver \<Rightarrow> HANDLE \<Rightarrow> kioctl \<Rightarrow> libk \<Rightarrow> bool \<times> UCHAR list \<times> UINT \<times> libk" where
  "Ioctl_Sync drv dev code w =
     (let (a, w1) = send drv dev code w in
      if \<not> io_event a then (False, [], 0, w1)
      else if io_ok a then (True, io_data a, io_ret a, w1)
      else (False, [], 0, SetLastError (io_err a) w1))"

text \<open>
  \<open>Ioctl_SyncWithTimeout\<close>: a request that is still pending when the timeout expires is aborted on
  its pipe. The timeout is an \<open>INT\<close>; 0 waits for ever.
\<close>

definition Ioctl_SyncWithTimeout ::
  "driver \<Rightarrow> HANDLE \<Rightarrow> kioctl \<Rightarrow> ULONG \<Rightarrow> UCHAR \<Rightarrow> libk \<Rightarrow> bool \<times> UCHAR list \<times> UINT \<times> libk" where
  "Ioctl_SyncWithTimeout drv dev code timeout pipe w =
     (let (a, w1) = send drv dev code w in
      if \<not> io_event a then (False, [], 0, w1)
      else if io_pending a \<and> timeout \<noteq> 0 \<and> io_timed_out a then
        (let (ok, _, _, w2) = Ioctl_Sync drv dev (ABORT_ENDPOINT pipe) w1
         in (False, [], 0, if ok then SetLastError ERROR_SEM_TIMEOUT w2 else w2))
      else if io_ok a then (True, io_data a, io_ret a, w1)
      else (False, [], 0, SetLastError (io_err a) w1))"

definition Ioctl_Async :: "driver \<Rightarrow> HANDLE \<Rightarrow> kioctl \<Rightarrow> bool \<Rightarrow> libk \<Rightarrow> bool \<times> libk" where
  "Ioctl_Async drv dev code overlapped w =
     (if \<not> overlapped then LusbwError ERROR_INVALID_PARAMETER w
      else
        let a = drv (IoCount w) dev code;
            w1 = log_event (DeviceIo dev code) (w\<lparr>IoCount := IoCount w + 1\<rparr>)
        in if io_pending a then (False, SetLastError ERROR_IO_PENDING w1)
           else if io_ok a then (True, w1)
           else (False, SetLastError (io_err a) w1))"

text \<open>
  \<open>Mem_Alloc\<close> may fail: the plan says which of the next allocations do, and an exhausted plan
  means that they succeed.
\<close>

definition take_alloc :: "bool list \<Rightarrow> bool \<times> bool list" where
  "take_alloc plan = (case plan of [] \<Rightarrow> (True, []) | b # bs \<Rightarrow> (b, bs))"

definition Mem_Alloc :: "libk \<Rightarrow> bool \<times> libk" where
  "Mem_Alloc w = (let (ok, plan) = take_alloc (AllocPlan w) in (ok, w\<lparr>AllocPlan := plan\<rparr>))"

text \<open>The pool operations on a section of the library.\<close>

definition sec_acquire ::
  "(libk, (cleanup, 'o) ksection) lens \<Rightarrow> ('o \<Rightarrow> 'o) \<Rightarrow> cleanup option \<Rightarrow> libk \<Rightarrow> nat option \<times> libk" where
  "sec_acquire L ini cb w =
     (case PoolHandle_Acquire_section ini cb (lget L w) of
        None \<Rightarrow> (None, w)
      | Some (None, s) \<Rightarrow> (None, SetLastError ERROR_OUT_OF_STRUCTURES (lput L s w))
      | Some (Some h, s) \<Rightarrow> (Some h, lput L s w))"

definition sec_inc :: "(libk, (cleanup, 'o) ksection) lens \<Rightarrow> nat \<Rightarrow> libk \<Rightarrow> bool \<times> libk" where
  "sec_inc L h w = (let (ok, s) = PoolHandle_Inc (CurrentThreadId w) h (lget L w) in (ok, lput L s w))"

definition sec_live :: "(libk, (cleanup, 'o) ksection) lens \<Rightarrow> nat \<Rightarrow> libk \<Rightarrow> libk" where
  "sec_live L h w = lput L (PoolHandle_Live h (lget L w)) w"

definition sec_dead :: "(libk, (cleanup, 'o) ksection) lens \<Rightarrow> nat \<Rightarrow> libk \<Rightarrow> libk" where
  "sec_dead L h w =
     (let (call, s) = PoolHandle_Dead h (lget L w); w1 = lput L s w in
      case call of None \<Rightarrow> w1 | Some (cb, ctx) \<Rightarrow> log_event (UserCleanup cb h ctx) w1)"

definition sec_body :: "(libk, (cleanup, 'o) ksection) lens \<Rightarrow> nat \<Rightarrow> libk \<Rightarrow> 'o" where
  "sec_body L h w = body (Handles (lget L w) ! h)"

definition sec_set_body ::
  "(libk, (cleanup, 'o) ksection) lens \<Rightarrow> nat \<Rightarrow> ('o \<Rightarrow> 'o) \<Rightarrow> libk \<Rightarrow> libk" where
  "sec_set_body L h f w = lput L (upd_handle h (\<lambda>k. k\<lparr>body := f (body k)\<rparr>) (lget L w)) w"

section \<open>Releasing devices and device handles\<close>

definition UsbStack_Clear :: "kusb_interface_stack \<Rightarrow> kusb_interface_stack" where
  "UsbStack_Clear s = s\<lparr>InterfaceList := []\<rparr>"

text \<open>
  \<open>k_Cleanup_DevK\<close>: a device that the library opened itself (it has a path) is closed; the stack,
  the configuration descriptor and the backend context are freed.
\<close>

definition k_Cleanup_DevK :: "nat \<Rightarrow> libk \<Rightarrow> libk" where
  "k_Cleanup_DevK h w =
     (let w1 = sec_dead lens_DevK h w; d = sec_body lens_DevK h w1;
          w2 = (if DevicePath d \<noteq> None \<and> DevicePath d \<noteq> Some ''''
                then log_event (CloseHandle (MasterDeviceHandle d))
                       (sec_set_body lens_DevK h (\<lambda>d. d\<lparr>DevicePath := None\<rparr>) w1)
                else w1);
          w3 = sec_set_body lens_DevK h (\<lambda>d. d\<lparr>UsbStack := None\<rparr>) w2
      in sec_set_body lens_DevK h (\<lambda>d. d\<lparr>ConfigDescriptor := None, BackendCtx := None\<rparr>) w3)"

fun run_DevK :: "cleanup \<Rightarrow> nat \<Rightarrow> libk \<Rightarrow> libk" where
  "run_DevK k_Cleanup_DevK_cb h w = k_Cleanup_DevK h w"
| "run_DevK _ h w = w"

definition Dec_DevK :: "nat \<Rightarrow> libk \<Rightarrow> bool \<times> libk" where
  "Dec_DevK h w = PoolHandle_Dec lens_DevK run_DevK (CurrentThreadId w) h w"

definition k_Cleanup_UsbK :: "nat \<Rightarrow> libk \<Rightarrow> libk" where
  "k_Cleanup_UsbK h w =
     (let w1 = sec_dead lens_UsbK h w in
      case Device (sec_body lens_UsbK h w1) of None \<Rightarrow> w1 | Some d \<Rightarrow> snd (Dec_DevK d w1))"

fun run_UsbK :: "cleanup \<Rightarrow> nat \<Rightarrow> libk \<Rightarrow> libk" where
  "run_UsbK k_Cleanup_UsbK_cb h w = k_Cleanup_UsbK h w"
| "run_UsbK _ h w = w"

definition Dec_UsbK :: "nat \<Rightarrow> libk \<Rightarrow> bool \<times> libk" where
  "Dec_UsbK h w = PoolHandle_Dec lens_UsbK run_UsbK (CurrentThreadId w) h w"

text \<open>\<open>UsbK_Free\<close> always succeeds.\<close>

definition UsbK_Free :: "nat \<Rightarrow> libk \<Rightarrow> bool \<times> libk" where
  "UsbK_Free h w =
     (if \<not> ALLK_VALID_HANDLE h (UsbK w) then (True, SetLastError ERROR_INVALID_HANDLE w)
      else (True, snd (Dec_UsbK h w)))"

text \<open>
  The frame of almost every function of the device interface: check the public handle, take a
  reference, run the body, drop the reference. The value is the result, what was written to the
  caller's output (if anything) and the new state; \<open>None\<close> is an access that the code must not
  make (a null pointer, an address outside a buffer) or a loop that does not end.
\<close>

definition with_UsbK ::
  "nat \<Rightarrow> (libk \<Rightarrow> (bool \<times> 'r option \<times> libk) option) \<Rightarrow> libk \<Rightarrow> (bool \<times> 'r option \<times> libk) option" where
  "with_UsbK h bdy w =
     (if \<not> ALLK_VALID_HANDLE h (UsbK w) then Some (False, None, SetLastError ERROR_INVALID_HANDLE w)
      else
        let (ok, w1) = sec_inc lens_UsbK h w in
        if \<not> ok then Some (False, None, SetLastError ERROR_RESOURCE_NOT_AVAILABLE w1)
        else case bdy w1 of
               None \<Rightarrow> None
             | Some (r, out, w2) \<Rightarrow> Some (r, out, snd (Dec_UsbK h w2)))"

text \<open>The checks of parameters before it: \<open>ErrorParamAction(..., return FALSE)\<close>.\<close>

definition require :: "bool \<Rightarrow> DWORD \<Rightarrow> (libk \<Rightarrow> (bool \<times> 'r option \<times> libk) option) \<Rightarrow> libk \<Rightarrow> (bool \<times> 'r option \<times> libk) option" where
  "require c e k w = (if c then k w else Some (False, None, SetLastError e w))"

definition fail :: "DWORD \<Rightarrow> libk \<Rightarrow> (bool \<times> 'r option \<times> libk) option" where
  "fail e w = Some (False, None, SetLastError e w)"

section \<open>The pools of the library are pools\<close>

text \<open>A section that an acquire can search: the lock words are sound and the count divides the range of the index.\<close>

definition section_ok :: "('c, 'o) ksection \<Rightarrow> bool" where
  "section_ok s \<longleftrightarrow> locks_ok s \<and> 0 < handle_count s \<and> handle_count s dvd 2 ^ 32"

lemma section_ok_upd:
  "section_ok s \<Longrightarrow> h < handle_count s \<Longrightarrow> Use (f (Handles s ! h)) = Use (Handles s ! h) \<or> Use (f (Handles s ! h)) = 0 \<Longrightarrow>
   section_ok (upd_handle h f s)"
  by (auto simp: section_ok_def locks_ok_def upd_handle_def handle_count_def dest!: set_update_subset_insert [THEN subsetD])

definition dead_kobj :: "('c, 'o) kobj \<Rightarrow> ('c, 'o) kobj" where
  "dead_kobj k = (if UserValid k then k\<lparr>UserValid := False, UserCleanupCB := None\<rparr> else k)"

definition dead_events :: "nat \<Rightarrow> ('c, 'o) kobj \<Rightarrow> lib_event list" where
  "dead_events h k =
     (if UserValid k then (case UserCleanupCB k of None \<Rightarrow> [] | Some cb \<Rightarrow> [UserCleanup cb h (UserContext k)]) else [])"

lemma dead_kobj_simps [simp]:
  "Use (dead_kobj k) = Use k" "Ref (dead_kobj k) = Ref k" "Disposing (dead_kobj k) = Disposing k"
  "EvtCleanup (dead_kobj k) = EvtCleanup k" "body (dead_kobj k) = body k"
  by (simp_all add: dead_kobj_def)

lemma log_events: "foldl (\<lambda>v e. log_event e v) w es = w\<lparr>Trace := Trace w @ es\<rparr>"
  by (induction es arbitrary: w) (simp_all add: log_event_def)

locale libk_pool = pool_lens L for L :: "(libk, (cleanup, 'o) ksection) lens" +
  assumes put_error [simp]: "lget L (SetLastError e w) = lget L w"
    and put_trace [simp]: "lget L (log_event ev w) = lget L w"
    and put_log: "lput L s (log_event ev w) = log_event ev (lput L s w)"
begin

text \<open>What becomes of a handle that is no longer valid for the user, and the callback it causes.\<close>

lemma dead_eq:
  assumes "h < handle_count (lget L w)"
  shows "sec_dead L h w =
     lput L (upd_handle h dead_kobj (lget L w)) (foldl (\<lambda>v e. log_event e v) w (dead_events h (Handles (lget L w) ! h)))"
proof (cases "UserValid (Handles (lget L w) ! h)")
  case True
  then have "upd_handle h dead_kobj (lget L w) =
      upd_handle h (\<lambda>k. k\<lparr>UserValid := False, UserCleanupCB := None\<rparr>) (lget L w)"
    by (intro upd_handle_cong) (simp add: dead_kobj_def)
  moreover have "UserCleanupCB (Handles (lget L w) ! h) = None \<Longrightarrow>
      upd_handle h (\<lambda>k. k\<lparr>UserValid := False, UserCleanupCB := None\<rparr>) (lget L w) =
      upd_handle h (\<lambda>k. k\<lparr>UserValid := False\<rparr>) (lget L w)"
    by (intro upd_handle_cong) (cases "Handles (lget L w) ! h", simp)
  ultimately show ?thesis
    using True assms
    by (cases "UserCleanupCB (Handles (lget L w) ! h)")
      (simp_all add: sec_dead_def PoolHandle_Dead_def dead_events_def Let_def put_log)
next
  case False
  then have "upd_handle h dead_kobj (lget L w) = lget L w"
    by (intro upd_handle_id) (simp add: dead_kobj_def)
  with False show ?thesis by (simp add: sec_dead_def PoolHandle_Dead_def dead_events_def)
qed

lemma acquire_free:
  assumes "section_ok (lget L w)" "\<exists>h < handle_count (lget L w). slot_free (lget L w) h"
  shows "\<exists>h ix. sec_acquire L ini cb w = (Some h, lput L (acquired ini cb h ((lget L w)\<lparr>Index := ix\<rparr>)) w) \<and>
           h < handle_count (lget L w) \<and> slot_free (lget L w) h"
proof -
  let ?s = "lget L w"
  have s: "locks_ok ?s" "0 < handle_count ?s" "handle_count ?s dvd 2 ^ 32"
    using assms(1) by (auto simp: section_ok_def)
  obtain h where h: "find (slot_free ?s) (probes (start_pos ?s) (handle_count ?s) 0) = Some h"
    using assms(2) set_probes [OF start_pos_less [OF s(2)]]
    by (cases "find (slot_free ?s) (probes (start_pos ?s) (handle_count ?s) 0)") (auto simp: find_None_iff)
  then have "h \<in> set (probes (start_pos ?s) (handle_count ?s) 0)" "slot_free ?s h"
    by (auto simp: find_Some_iff)
  then have "h < handle_count ?s" "slot_free ?s h"
    using set_probes [OF start_pos_less [OF s(2)]] by auto
  moreover obtain ix where "PoolHandle_Acquire_section ini cb ?s = Some (Some h, acquired ini cb h (?s\<lparr>Index := ix\<rparr>))"
    using PoolHandle_Acquire_section_spec [OF s, of ini cb] h by auto
  ultimately show ?thesis
    by (auto simp: sec_acquire_def)
qed

lemma acquire_full:
  assumes "section_ok (lget L w)" "\<forall>h < handle_count (lget L w). \<not> slot_free (lget L w) h"
  shows "\<exists>ix. sec_acquire L ini cb w =
           (None, SetLastError ERROR_OUT_OF_STRUCTURES (lput L ((lget L w)\<lparr>Index := ix\<rparr>) w))"
  using PoolHandle_Acquire_section_None [OF _ _ _ assms(2), of ini cb] assms(1)
  by (auto simp: sec_acquire_def section_ok_def)

lemma inc_alive:
  assumes "alive (lget L w) h"
  shows "sec_inc L h w = (True, lput L (upd_handle h (\<lambda>k. k\<lparr>Ref := Ref k + 1\<rparr>) (lget L w)) w)"
  using PoolHandle_Inc_alive [OF assms] by (simp add: sec_inc_def)

end

interpretation usbk: libk_pool lens_UsbK
  by unfold_locales (simp_all add: lens_UsbK_def SetLastError_def log_event_def)

interpretation devk: libk_pool lens_DevK
  by unfold_locales (simp_all add: lens_DevK_def SetLastError_def log_event_def)

interpretation ovlk: libk_pool lens_OvlK
  by unfold_locales (simp_all add: lens_OvlK_def SetLastError_def log_event_def)

interpretation ovlpoolk: libk_pool lens_OvlPoolK
  by unfold_locales (simp_all add: lens_OvlPoolK_def SetLastError_def log_event_def)

interpretation isochk: libk_pool lens_IsochK
  by unfold_locales (simp_all add: lens_IsochK_def SetLastError_def log_event_def)

interpretation stmk: libk_pool lens_StmK
  by unfold_locales (simp_all add: lens_StmK_def SetLastError_def log_event_def)

lemma lens_simps [simp]:
  "lget lens_UsbK w = UsbK w" "lput lens_UsbK su w = w\<lparr>UsbK := su\<rparr>"
  "lget lens_DevK w = DevK w" "lput lens_DevK sd w = w\<lparr>DevK := sd\<rparr>"
  "lget lens_OvlK w = OvlK w" "lput lens_OvlK so w = w\<lparr>OvlK := so\<rparr>"
  "lget lens_OvlPoolK w = OvlPoolK w" "lput lens_OvlPoolK sp w = w\<lparr>OvlPoolK := sp\<rparr>"
  "lget lens_IsochK w = IsochK w" "lput lens_IsochK si w = w\<lparr>IsochK := si\<rparr>"
  "lget lens_StmK w = StmK w" "lput lens_StmK st w = w\<lparr>StmK := st\<rparr>"
  by (simp_all add: lens_StmK_def lens_UsbK_def lens_DevK_def lens_OvlK_def lens_OvlPoolK_def lens_IsochK_def)

text \<open>What the frame does, when the handle is still referenced after the body.\<close>

lemma with_UsbK_run:
  assumes "alive (UsbK w) h"
    and "bdy (w\<lparr>UsbK := upd_handle h (\<lambda>k. k\<lparr>Ref := Ref k + 1\<rparr>) (UsbK w)\<rparr>) = Some (r, out, v)"
    and "alive (UsbK v) h" "1 < Ref (Handles (UsbK v) ! h)"
  shows "with_UsbK h bdy w = Some (r, out, v\<lparr>UsbK := upd_handle h (\<lambda>k. k\<lparr>Ref := Ref k - 1\<rparr>) (UsbK v)\<rparr>)"
proof -
  have "Dec_UsbK h v = (True, v\<lparr>UsbK := upd_handle h (\<lambda>k. k\<lparr>Ref := Ref k - 1\<rparr>) (UsbK v)\<rparr>)"
    using usbk.dec_alive [of v h] assms(3,4) by (simp add: Dec_UsbK_def)
  then show ?thesis
    using assms(1,2) usbk.inc_alive [of w h]
    by (simp add: with_UsbK_def ALLK_VALID_HANDLE_iff alive_def)
qed

text \<open>A body that leaves the device handles alone keeps the references as they were.\<close>

lemma with_UsbK_frame:
  assumes "alive (UsbK w) h" "Ref (Handles (UsbK w) ! h) < 2147483646"
    and "bdy (w\<lparr>UsbK := upd_handle h (\<lambda>k. k\<lparr>Ref := Ref k + 1\<rparr>) (UsbK w)\<rparr>) = Some (r, out, v)"
    and "UsbK v = upd_handle h (\<lambda>k. k\<lparr>Ref := Ref k + 1\<rparr>) (UsbK w)"
  shows "with_UsbK h bdy w = Some (r, out, v\<lparr>UsbK := UsbK w\<rparr>)"
proof -
  have h: "h < handle_count (UsbK w)" using assms(1) by (simp add: alive_def)
  then have "alive (UsbK v) h" "1 < Ref (Handles (UsbK v) ! h)"
    using assms(1,2) by (auto simp: alive_def assms(4))
  then show ?thesis
    using with_UsbK_run [of w h bdy, OF assms(1,3)] h by (simp add: assms(4) upd_handle_id)
qed

lemma with_UsbK_invalid:
  "\<not> h < handle_count (UsbK w) \<Longrightarrow> with_UsbK h bdy w = Some (False, None, SetLastError ERROR_INVALID_HANDLE w)"
  by (simp add: with_UsbK_def ALLK_VALID_HANDLE_iff)

end
