(* ===== verification/Config_Parser.thy ===== *)
theory Config_Parser
  imports LibK_State
begin

text \<open>
  The configuration descriptor parser of \<open>lusbk_stack_collection.c\<close>. It walks the bytes of the
  configuration descriptor with an iterator (remaining length and offset) and builds the tree of
  interfaces, alternate settings and pipes. The descriptor is a list of bytes; reading a byte
  beyond its end is \<open>Over_Read\<close>. Both loops of the parser advance by a length they read from
  the device, so they take fuel; \<open>No_Fuel\<close> is a loop that did not end within it. The last
  section proves that on well-formed descriptors the two nested loops, with their backing up,
  compute one fold over the descriptors.
\<close>

section \<open>The iterator\<close>

datatype parse_stuck = Over_Read | No_Fuel

record desc_iter =
  Remaining :: LONG
  Ptr_Offset :: nat

abbreviation (input) USB_DESCRIPTOR_TYPE_INTERFACE :: UCHAR where "USB_DESCRIPTOR_TYPE_INTERFACE \<equiv> 4"
abbreviation (input) USB_DESCRIPTOR_TYPE_ENDPOINT :: UCHAR where "USB_DESCRIPTOR_TYPE_ENDPOINT \<equiv> 5"
abbreviation (input) USB_SUPERSPEED_ENDPOINT_COMPANION :: UCHAR where "USB_SUPERSPEED_ENDPOINT_COMPANION \<equiv> 0x30"

definition byte_at :: "UCHAR list \<Rightarrow> nat \<Rightarrow> UCHAR option" where
  "byte_at cfg i = (if i < length cfg then Some (cfg ! i) else None)"

text \<open>
  \<open>Remaining\<close> is a \<open>LONG\<close> and is compared with a \<open>size_t\<close>: a negative value becomes a very
  large one.
\<close>

definition to_size_t :: "LONG \<Rightarrow> int" where
  "to_size_t x = x mod 2 ^ 64"

definition u_Desc_Next :: "UCHAR list \<Rightarrow> desc_iter \<Rightarrow> (bool \<times> desc_iter) option" where
  "u_Desc_Next cfg d =
     (if to_size_t (Remaining d) < 2 then Some (False, d)
      else case byte_at cfg (Ptr_Offset d) of
             None \<Rightarrow> None
           | Some bLength \<Rightarrow>
               let d1 = d\<lparr>Remaining := to_long (Remaining d - uint bLength)\<rparr> in
               if to_size_t (Remaining d1) \<ge> 2
               then Some (True, d1\<lparr>Ptr_Offset := Ptr_Offset d + unat bLength\<rparr>)
               else Some (False, d1))"

section \<open>Searching the tree\<close>

text \<open>
  The searches compare a byte of the element with a number or an index of a wider type, after
  promotion. They return the element's position.
\<close>

definition FindInterfaceEL :: "kusb_interface_stack \<Rightarrow> bool \<Rightarrow> int \<Rightarrow> nat option" where
  "FindInterfaceEL st is_index n =
     find_pos (\<lambda>el. (if is_index then uint (Intf_Index el) else uint (Intf_ID el)) = n) (InterfaceList st)"

definition FindAltInterfaceEL :: "kusb_interface_el \<Rightarrow> bool \<Rightarrow> int \<Rightarrow> nat option" where
  "FindAltInterfaceEL el is_index n =
     find_pos (\<lambda>a. (if is_index then uint (Alt_Index a) else uint (Alt_ID a)) = n) (AltInterfaceList el)"

definition FindPipeEL :: "kusb_alt_interface_el \<Rightarrow> bool \<Rightarrow> int \<Rightarrow> nat option" where
  "FindPipeEL a is_index n =
     find_pos (\<lambda>p. (if is_index then uint (Pipe_Index p) else uint (Pipe_ID p)) = n) (PipeList a)"

section \<open>Pipes\<close>

definition append_pipe :: "UCHAR \<Rightarrow> nat \<Rightarrow> kusb_alt_interface_el \<Rightarrow> kusb_alt_interface_el" where
  "append_pipe ep off a =
     a\<lparr>PipeCount := PipeCount a + 1,
       PipeList := PipeList a @ [\<lparr>Pipe_ID = ep, Pipe_Index = PipeCount a, Pipe_Descriptor = off,
                                   SuperSpeedCompanionDescriptor = None\<rparr>]\<rparr>"

definition attach_companion :: "nat \<Rightarrow> nat \<Rightarrow> kusb_alt_interface_el \<Rightarrow> kusb_alt_interface_el" where
  "attach_companion i off a =
     a\<lparr>PipeList := (PipeList a)[i := (PipeList a ! i)\<lparr>SuperSpeedCompanionDescriptor := Some off\<rparr>]\<rparr>"

text \<open>
  The loop of \<open>u_Add_Pipe\<close>. \<open>prev\<close> is \<open>descPrev\<close>, \<open>att\<close> the pipe (its position) that a companion
  descriptor would be attached to. At an interface descriptor the iterator is set back, so that the
  caller sees that descriptor again.
\<close>

fun u_Add_Pipe_loop ::
  "nat \<Rightarrow> UCHAR list \<Rightarrow> kusb_alt_interface_el \<Rightarrow> desc_iter \<Rightarrow> desc_iter \<Rightarrow> nat option \<Rightarrow> bool list
   \<Rightarrow> parse_stuck + kusb_alt_interface_el \<times> desc_iter \<times> bool list" where
  "u_Add_Pipe_loop 0 cfg a d prev att plan = Inl No_Fuel"
| "u_Add_Pipe_loop (Suc fuel) cfg a d prev att plan =
     (case u_Desc_Next cfg d of
        None \<Rightarrow> Inl Over_Read
      | Some (False, d1) \<Rightarrow> Inr (a, d1, plan)
      | Some (True, d1) \<Rightarrow>
          (case byte_at cfg (Ptr_Offset d1 + 1) of
             None \<Rightarrow> Inl Over_Read
           | Some ty \<Rightarrow>
               if ty = USB_DESCRIPTOR_TYPE_INTERFACE then Inr (a, prev, plan)
               else if ty = USB_DESCRIPTOR_TYPE_ENDPOINT then
                 (case byte_at cfg (Ptr_Offset d1 + 2) of
                    None \<Rightarrow> Inl Over_Read
                  | Some ep \<Rightarrow>
                      (case FindPipeEL a False (uint ep) of
                         Some i \<Rightarrow> u_Add_Pipe_loop fuel cfg a d1 d1 (Some i) plan
                       | None \<Rightarrow>
                           (let (ok, plan') = take_alloc plan in
                            if \<not> ok then Inr (a, d1, plan')
                            else u_Add_Pipe_loop fuel cfg (append_pipe ep (Ptr_Offset d1) a) d1 d1
                                   (Some (length (PipeList a))) plan')))
               else if ty = USB_SUPERSPEED_ENDPOINT_COMPANION then
                 (case att of
                    None \<Rightarrow> u_Add_Pipe_loop fuel cfg a d1 d1 None plan
                  | Some i \<Rightarrow> u_Add_Pipe_loop fuel cfg (attach_companion i (Ptr_Offset d1) a) d1 d1 None plan)
               else u_Add_Pipe_loop fuel cfg a d1 d1 att plan))"

definition u_Add_Pipe ::
  "nat \<Rightarrow> UCHAR list \<Rightarrow> kusb_alt_interface_el \<Rightarrow> desc_iter \<Rightarrow> bool list
   \<Rightarrow> parse_stuck + kusb_alt_interface_el \<times> desc_iter \<times> bool list" where
  "u_Add_Pipe fuel cfg a d plan = u_Add_Pipe_loop fuel cfg a d d None plan"

section \<open>Interfaces and alternate settings\<close>

type_synonym build = "kusb_interface_stack \<times> shared_interface list \<times> bool list"

text \<open>
  Finding or adding the interface element, then the alternate setting. A failed allocation gives
  \<open>None\<close> with what was built so far.
\<close>

definition ensure_interface :: "UCHAR \<Rightarrow> build \<Rightarrow> nat option \<times> build" where
  "ensure_interface num b =
     (let (st, sh, plan) = b in
      case FindInterfaceEL st False (uint num) of
        Some i \<Rightarrow> (Some i, b)
      | None \<Rightarrow>
          let (ok, plan') = take_alloc plan in
          if \<not> ok then (None, st, sh, plan')
          else
            let idx = InterfaceCount st; k = shared_idx (uint idx);
                el = \<lparr>Intf_ID = num, Intf_Index = idx, SharedInterface = k, AltInterfaceList = [], AltInterfaceCount = 0\<rparr>
            in (Some (length (InterfaceList st)),
                st\<lparr>InterfaceCount := idx + 1, InterfaceList := InterfaceList st @ [el]\<rparr>,
                sh[k := (sh ! k)\<lparr>SI_ID := num, SI_Index := idx\<rparr>], plan'))"

definition upd_interface :: "nat \<Rightarrow> (kusb_interface_el \<Rightarrow> kusb_interface_el) \<Rightarrow> kusb_interface_stack \<Rightarrow> kusb_interface_stack" where
  "upd_interface i f st = st\<lparr>InterfaceList := (InterfaceList st)[i := f (InterfaceList st ! i)]\<rparr>"

definition upd_alt :: "nat \<Rightarrow> nat \<Rightarrow> (kusb_alt_interface_el \<Rightarrow> kusb_alt_interface_el) \<Rightarrow> kusb_interface_stack \<Rightarrow> kusb_interface_stack" where
  "upd_alt i j f = upd_interface i (\<lambda>el. el\<lparr>AltInterfaceList := (AltInterfaceList el)[j := f (AltInterfaceList el ! j)]\<rparr>)"

definition get_alt :: "nat \<Rightarrow> nat \<Rightarrow> kusb_interface_stack \<Rightarrow> kusb_alt_interface_el" where
  "get_alt i j st = AltInterfaceList (InterfaceList st ! i) ! j"

definition ensure_alt :: "nat \<Rightarrow> UCHAR \<Rightarrow> nat \<Rightarrow> build \<Rightarrow> nat option \<times> build" where
  "ensure_alt i num off b =
     (let (st, sh, plan) = b; el = InterfaceList st ! i in
      case FindAltInterfaceEL el False (uint num) of
        Some j \<Rightarrow> (Some j, b)
      | None \<Rightarrow>
          let (ok, plan') = take_alloc plan in
          if \<not> ok then (None, st, sh, plan')
          else
            (Some (length (AltInterfaceList el)),
             upd_interface i (\<lambda>el. el\<lparr>AltInterfaceCount := AltInterfaceCount el + 1,
               AltInterfaceList := AltInterfaceList el @
                 [\<lparr>Alt_ID = num, Alt_Index = AltInterfaceCount el, Alt_Descriptor = off, PipeList = [], PipeCount = 0\<rparr>]\<rparr>) st,
             sh, plan'))"

definition u_Add_Interface ::
  "nat \<Rightarrow> UCHAR list \<Rightarrow> desc_iter \<Rightarrow> build \<Rightarrow> parse_stuck + build \<times> desc_iter" where
  "u_Add_Interface fuel cfg d b =
     (case byte_at cfg (Ptr_Offset d + 2) of
        None \<Rightarrow> Inl Over_Read
      | Some inum \<Rightarrow>
          (case ensure_interface inum b of
             (None, b1) \<Rightarrow> Inr (b1, d)
           | (Some i, b1) \<Rightarrow>
               (case byte_at cfg (Ptr_Offset d + 3) of
                  None \<Rightarrow> Inl Over_Read
                | Some anum \<Rightarrow>
                    (case ensure_alt i anum (Ptr_Offset d) b1 of
                       (None, b2) \<Rightarrow> Inr (b2, d)
                     | (Some j, b2) \<Rightarrow>
                         (let (st, sh, plan) = b2 in
                          case u_Add_Pipe fuel cfg (get_alt i j st) d plan of
                            Inl e \<Rightarrow> Inl e
                          | Inr (a, d', plan') \<Rightarrow> Inr ((upd_alt i j (\<lambda>_. a) st, sh, plan'), d'))))))"

section \<open>The configuration\<close>

fun u_Init_Config_loop :: "nat \<Rightarrow> UCHAR list \<Rightarrow> desc_iter \<Rightarrow> build \<Rightarrow> parse_stuck + build" where
  "u_Init_Config_loop 0 cfg d b = Inl No_Fuel"
| "u_Init_Config_loop (Suc fuel) cfg d b =
     (case u_Desc_Next cfg d of
        None \<Rightarrow> Inl Over_Read
      | Some (False, d1) \<Rightarrow> Inr b
      | Some (True, d1) \<Rightarrow>
          (case byte_at cfg (Ptr_Offset d1 + 1) of
             None \<Rightarrow> Inl Over_Read
           | Some ty \<Rightarrow>
               if ty = USB_DESCRIPTOR_TYPE_INTERFACE then
                 (case u_Add_Interface (Suc fuel) cfg d1 b of
                    Inl e \<Rightarrow> Inl e
                  | Inr (b1, d2) \<Rightarrow> u_Init_Config_loop fuel cfg d2 b1)
               else u_Init_Config_loop fuel cfg d1 b))"

text \<open>\<open>wTotalLength\<close> is the little endian 16-bit field at offset 2.\<close>

definition u_Init_Config :: "nat \<Rightarrow> UCHAR list \<Rightarrow> build \<Rightarrow> parse_stuck + build" where
  "u_Init_Config fuel cfg b =
     (case (byte_at cfg 2, byte_at cfg 3) of
        (Some lo, Some hi) \<Rightarrow>
          u_Init_Config_loop fuel cfg \<lparr>Remaining = int (unat lo + 256 * unat hi), Ptr_Offset = 0\<rparr> b
      | _ \<Rightarrow> Inl Over_Read)"

section \<open>The parser is one fold over the descriptors\<close>

text \<open>
  The descriptors that follow the one at offset \<open>o'\<close> with \<open>r\<close> bytes remaining, when the lengths
  are consistent: no length exceeds what remains, and an interface or endpoint descriptor has the
  bytes the parser reads.
\<close>

definition fits :: "UCHAR list \<Rightarrow> nat \<Rightarrow> bool" where
  "fits cfg p \<longleftrightarrow>
     (if cfg ! (p + 1) = USB_DESCRIPTOR_TYPE_INTERFACE then p + 4 \<le> length cfg
      else if cfg ! (p + 1) = USB_DESCRIPTOR_TYPE_ENDPOINT then p + 3 \<le> length cfg else True)"

fun chain :: "UCHAR list \<Rightarrow> nat \<Rightarrow> nat \<Rightarrow> nat list \<Rightarrow> bool" where
  "chain cfg p r [] \<longleftrightarrow>
     2 \<le> r \<and> p + r \<le> length cfg \<and> unat (cfg ! p) \<le> r \<and> r - unat (cfg ! p) < 2"
| "chain cfg p r (q # qs) \<longleftrightarrow>
     2 \<le> r \<and> p + r \<le> length cfg \<and> unat (cfg ! p) + 2 \<le> r \<and> q = p + unat (cfg ! p) \<and> fits cfg q \<and>
     chain cfg q (r - unat (cfg ! p)) qs"

lemma chain_bounds: "chain cfg p r qs \<Longrightarrow> 2 \<le> r \<and> p + r \<le> length cfg"
  by (cases qs) auto

lemma to_size_t_nat [simp]: "r < 2 ^ 31 \<Longrightarrow> to_size_t (int r) = int r"
  by (simp add: to_size_t_def)

abbreviation (input) iter :: "nat \<Rightarrow> nat \<Rightarrow> desc_iter" where
  "iter r p \<equiv> \<lparr>Remaining = int r, Ptr_Offset = p\<rparr>"

lemma desc_next_read:
  assumes "2 \<le> r" "r < 2 ^ 31" "p < length cfg" "unat (cfg ! p) \<le> r"
  shows "u_Desc_Next cfg (iter r p) =
     (let r' = r - unat (cfg ! p) in
      if 2 \<le> r' then Some (True, iter r' (p + unat (cfg ! p))) else Some (False, iter r' p))"
proof -
  define n where "n = unat (cfg ! p)"
  have u: "uint (cfg ! p) = int n" by (simp add: n_def)
  have "to_long (int r - int n) = int (r - n)"
    using assms(2,4) by (subst to_long_id) (auto simp: is_long_def of_nat_diff n_def [symmetric])
  then have "to_long (int r - uint (cfg ! p)) = int (r - unat (cfg ! p))"
    by (simp only: u n_def)
  moreover have "r - unat (cfg ! p) < 2 ^ 31" using assms(2) by simp
  ultimately show ?thesis
    using assms(1-3) to_size_t_nat [of "r - unat (cfg ! p)"]
    by (simp add: u_Desc_Next_def byte_at_def Let_def)
qed

lemma desc_next_end:
  assumes "chain cfg p r []" "r < 2 ^ 31"
  shows "u_Desc_Next cfg (iter r p) = Some (False, iter (r - unat (cfg ! p)) p)" "r - unat (cfg ! p) < 2"
  using assms desc_next_read [of r p cfg] by (auto simp: Let_def)

lemma desc_next_more:
  assumes "chain cfg p r (q # qs)" "r < 2 ^ 31"
  shows "u_Desc_Next cfg (iter r p) = Some (True, iter (r - unat (cfg ! p)) q)"
  using assms desc_next_read [of r p cfg] by (auto simp: Let_def)

lemma desc_next_done: "r < 2 \<Longrightarrow> u_Desc_Next cfg (iter r p) = Some (False, iter r p)"
  by (simp add: u_Desc_Next_def)

lemma chain_byte:
  assumes "chain cfg p r (q # qs)"
  shows "byte_at cfg (q + 1) = Some (cfg ! (q + 1))"
proof -
  have "2 \<le> r - unat (cfg ! p)" "q + (r - unat (cfg ! p)) \<le> length cfg"
    using assms chain_bounds [of cfg q] by auto
  then show ?thesis by (simp add: byte_at_def)
qed

text \<open>
  What one descriptor adds. The state is what was built, the current alternate setting (none before
  the first interface and after a failed allocation) and the pipe a companion belongs to.
\<close>

type_synonym fold_state = "build \<times> (nat \<times> nat) option \<times> nat option"

definition step_desc :: "UCHAR list \<Rightarrow> fold_state \<Rightarrow> nat \<Rightarrow> fold_state" where
  "step_desc cfg s q =
     (let (b, cur, att) = s; ty = cfg ! (q + 1) in
      if ty = USB_DESCRIPTOR_TYPE_INTERFACE then
        (case ensure_interface (cfg ! (q + 2)) b of
           (None, b1) \<Rightarrow> (b1, None, None)
         | (Some i, b1) \<Rightarrow>
             (case ensure_alt i (cfg ! (q + 3)) q b1 of
                (None, b2) \<Rightarrow> (b2, None, None)
              | (Some j, b2) \<Rightarrow> (b2, Some (i, j), None)))
      else
        (case cur of
           None \<Rightarrow> (b, None, None)
         | Some (i, j) \<Rightarrow>
             let (st, sh, plan) = b; a = get_alt i j st in
             if ty = USB_DESCRIPTOR_TYPE_ENDPOINT then
               (case FindPipeEL a False (uint (cfg ! (q + 2))) of
                  Some k \<Rightarrow> (b, cur, Some k)
                | None \<Rightarrow>
                    let (ok, plan') = take_alloc plan in
                    if \<not> ok then ((st, sh, plan'), None, None)
                    else ((upd_alt i j (append_pipe (cfg ! (q + 2)) q) st, sh, plan'), cur, Some (length (PipeList a))))
             else if ty = USB_SUPERSPEED_ENDPOINT_COMPANION then
               (case att of
                  None \<Rightarrow> (b, cur, None)
                | Some k \<Rightarrow> ((upd_alt i j (attach_companion k q) st, sh, plan), cur, None))
             else (b, cur, att)))"

definition alt_ok :: "nat \<Rightarrow> nat \<Rightarrow> kusb_interface_stack \<Rightarrow> bool" where
  "alt_ok i j st \<longleftrightarrow> i < length (InterfaceList st) \<and> j < length (AltInterfaceList (InterfaceList st ! i))"

lemma upd_alt_simps:
  assumes "alt_ok i j st"
  shows "get_alt i j (upd_alt i j f st) = f (get_alt i j st)"
    and "alt_ok i j (upd_alt i j f st)"
    and "upd_alt i j g (upd_alt i j f st) = upd_alt i j (\<lambda>a. g (f a)) st"
    and "upd_alt i j (\<lambda>_. get_alt i j st) st = st"
  using assms by (simp_all add: alt_ok_def upd_alt_def upd_interface_def get_alt_def)

lemma ensure_interface_Some:
  "ensure_interface n (st, sh, plan) = (Some i, st', sh', plan') \<Longrightarrow> i < length (InterfaceList st')"
  by (auto simp: ensure_interface_def FindInterfaceEL_def Let_def split: option.splits if_splits prod.splits
      dest: find_pos_Some)

lemma ensure_alt_Some:
  "i < length (InterfaceList st) \<Longrightarrow> ensure_alt i n q (st, sh, plan) = (Some j, st', sh', plan') \<Longrightarrow> alt_ok i j st'"
  by (auto simp: ensure_alt_def FindAltInterfaceEL_def Let_def alt_ok_def upd_interface_def
      split: option.splits if_splits prod.splits dest: find_pos_Some)

text \<open>How the loop over the pipes of one alternate setting ends.\<close>

definition add_pipe_end :: "UCHAR list \<Rightarrow> nat \<Rightarrow> nat list \<Rightarrow> desc_iter \<Rightarrow> (nat \<times> nat) option \<Rightarrow> bool" where
  "add_pipe_end cfg r post d cur \<longleftrightarrow>
     (post = [] \<and> (\<exists>r' p'. d = iter r' p' \<and> r' < 2)) \<or>
     (\<exists>r' p'. d = iter r' p' \<and> r' \<le> r \<and> chain cfg p' r' post \<and>
        (cur = None \<or> (\<exists>q qs. post = q # qs \<and> cfg ! (q + 1) = USB_DESCRIPTOR_TYPE_INTERFACE)))"

lemma add_pipe_loop_fold:
  assumes "chain cfg p r qs" "r < 2 ^ 31" "length qs < fuel" "alt_ok i j st"
  shows "\<exists>pre post a' d' plan' cur att'. qs = pre @ post \<and>
           u_Add_Pipe_loop fuel cfg (get_alt i j st) (iter r p) (iter r p) att plan = Inr (a', d', plan') \<and>
           foldl (step_desc cfg) ((st, sh, plan), Some (i, j), att) pre =
             ((upd_alt i j (\<lambda>_. a') st, sh, plan'), cur, att') \<and>
           add_pipe_end cfg r post d' cur"
  using assms
proof (induction qs arbitrary: p r fuel st att plan)
  case Nil
  then obtain f where "fuel = Suc f" by (cases fuel) auto
  then show ?case
    using desc_next_end [OF Nil.prems(1,2)] upd_alt_simps(4) [OF Nil.prems(4)]
    by (simp add: add_pipe_end_def)
next
  case (Cons q qs)
  obtain f where f: "fuel = Suc f" "length qs < f" using Cons.prems(3) by (cases fuel) auto
  let ?r = "r - unat (cfg ! p)"
  have nx: "u_Desc_Next cfg (iter r p) = Some (True, iter ?r q)"
    by (rule desc_next_more [OF Cons.prems(1,2)])
  have b1: "byte_at cfg (q + 1) = Some (cfg ! (q + 1))" by (rule chain_byte [OF Cons.prems(1)])
  have ch: "chain cfg q ?r qs" "fits cfg q" "?r < 2 ^ 31" "?r \<le> r" using Cons.prems(1,2) by auto
  have continue: ?case
    if lp: "u_Add_Pipe_loop fuel cfg (get_alt i j st) (iter r p) (iter r p) att plan =
          u_Add_Pipe_loop f cfg (get_alt i j (upd_alt i j g st)) (iter ?r q) (iter ?r q) att1 plan1"
      and sd: "step_desc cfg ((st, sh, plan), Some (i, j), att) q =
          ((upd_alt i j g st, sh, plan1), Some (i, j), att1)" for g att1 plan1
  proof -
    obtain pre post a' d' plan' cur att' where ih: "qs = pre @ post"
      "u_Add_Pipe_loop f cfg (get_alt i j (upd_alt i j g st)) (iter ?r q) (iter ?r q) att1 plan1 = Inr (a', d', plan')"
      "foldl (step_desc cfg) ((upd_alt i j g st, sh, plan1), Some (i, j), att1) pre =
         ((upd_alt i j (\<lambda>_. a') (upd_alt i j g st), sh, plan'), cur, att')"
      "add_pipe_end cfg ?r post d' cur"
      using Cons.IH [OF ch(1,3) f(2) upd_alt_simps(2) [OF Cons.prems(4), of g], of att1 plan1]
      by (elim exE conjE) (rule that)
    show ?thesis
      using ih ch(4) lp sd upd_alt_simps(3) [OF Cons.prems(4)]
      by (intro exI [of _ "q # pre"] exI [of _ post]) (auto simp: add_pipe_end_def)
  qed
  have id: "upd_alt i j (\<lambda>a. a) st = st"
    using Cons.prems(4) by (simp add: alt_ok_def upd_alt_def upd_interface_def)
  have stop: ?case
    if "u_Add_Pipe_loop fuel cfg (get_alt i j st) (iter r p) (iter r p) att plan = Inr (get_alt i j st, iter r p, plan)"
      "cfg ! (q + 1) = USB_DESCRIPTOR_TYPE_INTERFACE"
    using that Cons.prems(1,4) upd_alt_simps(4)
    by (intro exI [of _ "[]"] exI [of _ "q # qs"]) (auto simp: add_pipe_end_def)
  have fail: ?case
    if "u_Add_Pipe_loop fuel cfg (get_alt i j st) (iter r p) (iter r p) att plan = Inr (get_alt i j st, iter ?r q, plan1)"
      "step_desc cfg ((st, sh, plan), Some (i, j), att) q = ((st, sh, plan1), None, None)" for plan1
    using that ch(1,4) Cons.prems(4) upd_alt_simps(4)
    by (intro exI [of _ "[q]"] exI [of _ qs]) (auto simp: add_pipe_end_def)
  consider (intf) "cfg ! (q + 1) = USB_DESCRIPTOR_TYPE_INTERFACE"
    | (ep) "cfg ! (q + 1) = USB_DESCRIPTOR_TYPE_ENDPOINT"
    | (comp) "cfg ! (q + 1) = USB_SUPERSPEED_ENDPOINT_COMPANION"
    | (other) "cfg ! (q + 1) \<notin> {USB_DESCRIPTOR_TYPE_INTERFACE, USB_DESCRIPTOR_TYPE_ENDPOINT, USB_SUPERSPEED_ENDPOINT_COMPANION}"
    by blast
  then show ?case
  proof cases
    case intf
    show ?thesis by (rule stop) (use f nx b1 intf in simp_all)
  next
    case ep
    have b2: "byte_at cfg (q + 2) = Some (cfg ! (q + 2))" using ch(2) ep by (simp add: fits_def byte_at_def)
    obtain ok plan1 where al: "take_alloc plan = (ok, plan1)" by (cases "take_alloc plan")
    show ?thesis
    proof (cases "FindPipeEL (get_alt i j st) False (uint (cfg ! (q + 2)))")
      case (Some k)
      show ?thesis
        by (rule continue [of "\<lambda>a. a" "Some k" plan]) (use f nx b1 b2 ep Some id in \<open>simp_all add: step_desc_def\<close>)
    next
      case None
      show ?thesis
      proof (cases ok)
        case True
        show ?thesis
          by (rule continue [of "append_pipe (cfg ! (q + 2)) q" "Some (length (PipeList (get_alt i j st)))" plan1])
            (use f nx b1 b2 ep None al True upd_alt_simps(1) [OF Cons.prems(4)] in \<open>simp_all add: step_desc_def\<close>)
      next
        case False
        show ?thesis
          by (rule fail [of plan1]) (use f nx b1 b2 ep None al False in \<open>simp_all add: step_desc_def\<close>)
      qed
    qed
  next
    case comp
    show ?thesis
    proof (cases att)
      case None
      show ?thesis
        by (rule continue [of "\<lambda>a. a" None plan]) (use f nx b1 comp None id in \<open>simp_all add: step_desc_def\<close>)
    next
      case (Some k)
      show ?thesis
        by (rule continue [of "attach_companion k q" None plan])
          (use f nx b1 comp Some upd_alt_simps(1) [OF Cons.prems(4)] in \<open>simp_all add: step_desc_def\<close>)
    qed
  next
    case other
    show ?thesis
      by (rule continue [of "\<lambda>a. a" att plan]) (use f nx b1 other id in \<open>simp_all add: step_desc_def\<close>)
  qed
qed

text \<open>Where the loop over the pipes stopped does not matter to the rest of the fold.\<close>

lemma fold_restart:
  assumes "add_pipe_end cfg r post d cur" "cur = None \<Longrightarrow> att = None"
  shows "fst (foldl (step_desc cfg) (b, cur, att) post) = fst (foldl (step_desc cfg) (b, None, None) post)"
proof (cases post)
  case (Cons q qs)
  then have "cur = None \<or> cfg ! (q + 1) = USB_DESCRIPTOR_TYPE_INTERFACE"
    using assms(1) by (auto simp: add_pipe_end_def)
  then have "step_desc cfg (b, cur, att) q = step_desc cfg (b, None, None) q"
    using assms(2) by (auto simp: step_desc_def)
  then show ?thesis using Cons by simp
qed simp

lemma add_pipe_end_cases:
  assumes "add_pipe_end cfg r post d cur"
  obtains (at_end) r' p' where "post = []" "d = iter r' p'" "r' < 2"
    | (at_desc) r' p' where "d = iter r' p'" "r' \<le> r" "chain cfg p' r' post"
  using assms unfolding add_pipe_end_def by blast

lemma step_desc_att: "step_desc cfg (b, cur, att) q = (b', None, att') \<Longrightarrow> att' = None"
  by (auto simp: step_desc_def Let_def split: if_splits option.splits prod.splits)

lemma fold_att:
  "foldl (step_desc cfg) (b, cur, att) qs = (b', None, att') \<Longrightarrow> (cur = None \<Longrightarrow> att = None) \<Longrightarrow> att' = None"
proof (induction qs arbitrary: b cur att)
  case (Cons q qs)
  obtain b1 cur1 att1 where s: "step_desc cfg (b, cur, att) q = (b1, cur1, att1)"
    by (cases "step_desc cfg (b, cur, att) q")
  then have "cur1 = None \<Longrightarrow> att1 = None" using step_desc_att by blast
  then show ?case using Cons.IH [of b1 cur1 att1] Cons.prems(1) s by simp
qed auto

lemma init_config_loop_fold:
  "chain cfg p r qs \<Longrightarrow> r < 2 ^ 31 \<Longrightarrow> length qs < fuel \<Longrightarrow>
   u_Init_Config_loop fuel cfg (iter r p) b = Inr (fst (foldl (step_desc cfg) (b, None, None) qs))"
proof (induction "length qs" arbitrary: qs p r fuel b rule: less_induct)
  case less
  obtain f where f: "fuel = Suc f" using less.prems(3) by (cases fuel) auto
  show ?case
  proof (cases qs)
    case Nil
    then show ?thesis using f desc_next_end(1) [of cfg p r] less.prems(1,2) by simp
  next
    case (Cons q rest)
    let ?r = "r - unat (cfg ! p)"
    have nx: "u_Desc_Next cfg (iter r p) = Some (True, iter ?r q)"
      by (rule desc_next_more [OF less.prems(1) [unfolded Cons] less.prems(2)])
    have b1: "byte_at cfg (q + 1) = Some (cfg ! (q + 1))" by (rule chain_byte [OF less.prems(1) [unfolded Cons]])
    have ch: "chain cfg q ?r rest" "fits cfg q" "?r < 2 ^ 31" using less.prems(1,2) Cons by auto
    have lf: "length rest < f" using less.prems(3) Cons f by simp
    have IH: "u_Init_Config_loop f cfg (iter r' p') b' = Inr (fst (foldl (step_desc cfg) (b', None, None) post))"
      if "chain cfg p' r' post" "r' < 2 ^ 31" "length post \<le> length rest" for p' r' post b'
      using less.hyps [of post p' r' f b'] that lf Cons by simp
    show ?thesis
    proof (cases "cfg ! (q + 1) = USB_DESCRIPTOR_TYPE_INTERFACE")
      case False
      then have "step_desc cfg (b, None, None) q = (b, None, None)" by (simp add: step_desc_def)
      then show ?thesis using f nx b1 False IH [OF ch(1,3)] Cons by simp
    next
      case True
      have b23: "byte_at cfg (q + 2) = Some (cfg ! (q + 2))" "byte_at cfg (q + 3) = Some (cfg ! (q + 3))"
        using ch(2) True by (simp_all add: fits_def byte_at_def)
      obtain st sh plan where b: "b = (st, sh, plan)" by (cases b)
      obtain oi st1 sh1 plan1 where e1: "ensure_interface (cfg ! (q + 2)) b = (oi, st1, sh1, plan1)"
        by (cases "ensure_interface (cfg ! (q + 2)) b")
      have run: "u_Init_Config_loop fuel cfg (iter r p) b =
          (case u_Add_Interface fuel cfg (iter ?r q) b of
             Inl e \<Rightarrow> Inl e | Inr (b1, d2) \<Rightarrow> u_Init_Config_loop f cfg d2 b1)"
        using f nx b1 True by simp
      show ?thesis
      proof (cases oi)
        case None
        then have "u_Add_Interface fuel cfg (iter ?r q) b = Inr ((st1, sh1, plan1), iter ?r q)"
          "step_desc cfg (b, None, None) q = ((st1, sh1, plan1), None, None)"
          using b23 e1 True by (simp_all add: u_Add_Interface_def step_desc_def)
        then show ?thesis using run IH [OF ch(1,3)] Cons by simp
      next
        case (Some i)
        obtain oj st2 sh2 plan2 where e2: "ensure_alt i (cfg ! (q + 3)) q (st1, sh1, plan1) = (oj, st2, sh2, plan2)"
          by (cases "ensure_alt i (cfg ! (q + 3)) q (st1, sh1, plan1)")
        show ?thesis
        proof (cases oj)
          case None
          then have "u_Add_Interface fuel cfg (iter ?r q) b = Inr ((st2, sh2, plan2), iter ?r q)"
            "step_desc cfg (b, None, None) q = ((st2, sh2, plan2), None, None)"
            using b23 e1 e2 True Some by (simp_all add: u_Add_Interface_def step_desc_def)
          then show ?thesis using run IH [OF ch(1,3)] Cons by simp
        next
          case j: (Some j)
          have ok: "alt_ok i j st2"
            using ensure_interface_Some e1 e2 Some j b ensure_alt_Some by metis
          have "length rest < fuel" using lf f by simp
          from add_pipe_loop_fold [OF ch(1,3) this ok, where sh = sh2 and att = None and plan = plan2]
          obtain pre post a' d' plan' cur att' where ap: "rest = pre @ post"
            "u_Add_Pipe_loop fuel cfg (get_alt i j st2) (iter ?r q) (iter ?r q) None plan2 = Inr (a', d', plan')"
            "foldl (step_desc cfg) ((st2, sh2, plan2), Some (i, j), None) pre =
               ((upd_alt i j (\<lambda>_. a') st2, sh2, plan'), cur, att')"
            "add_pipe_end cfg ?r post d' cur"
            by (elim exE conjE) (rule that)
          let ?b' = "(upd_alt i j (\<lambda>_. a') st2, sh2, plan')"
          have "u_Add_Interface fuel cfg (iter ?r q) b = Inr (?b', d')"
            using b23 e1 e2 Some j ap(2) by (simp add: u_Add_Interface_def u_Add_Pipe_def)
          moreover have "step_desc cfg (b, None, None) q = ((st2, sh2, plan2), Some (i, j), None)"
            using e1 e2 Some j True by (simp add: step_desc_def)
          moreover have "cur = None \<Longrightarrow> att' = None"
            using fold_att [of cfg "(st2, sh2, plan2)" "Some (i, j)" None pre ?b' att'] ap(3) by simp
          moreover have "u_Init_Config_loop f cfg d' ?b' = Inr (fst (foldl (step_desc cfg) (?b', None, None) post))"
            using ap(4)
          proof (cases rule: add_pipe_end_cases)
            case (at_end r' p')
            then show ?thesis using desc_next_done lf by (cases f) simp_all
          next
            case (at_desc r' p')
            then show ?thesis using IH [of p' r' post] ch(3) ap(1) by simp
          qed
          ultimately show ?thesis
            using run Cons ap fold_restart [OF ap(4), of att'] by simp
        qed
      qed
    qed
  qed
qed

section \<open>The tree is well formed\<close>

text \<open>
  Identifiers are unique among siblings and indices are positions. It holds of whatever the parser
  returns, also for descriptors that are not well formed.
\<close>

definition keyed :: "('a \<Rightarrow> UCHAR) \<Rightarrow> ('a \<Rightarrow> UCHAR) \<Rightarrow> UCHAR \<Rightarrow> 'a list \<Rightarrow> bool" where
  "keyed ident ix n xs \<longleftrightarrow>
     distinct (map ident xs) \<and> n = word_of_nat (length xs) \<and> (\<forall>k < length xs. ix (xs ! k) = word_of_nat k)"

lemma keyed_Nil [simp]: "keyed ident ix 0 []"
  by (simp add: keyed_def)

lemma keyed_snoc:
  "keyed ident ix n xs \<Longrightarrow> ident x \<notin> ident ` set xs \<Longrightarrow> ix x = n \<Longrightarrow> keyed ident ix (n + 1) (xs @ [x])"
  by (auto simp: keyed_def nth_append less_Suc_eq)

lemma keyed_update:
  "keyed ident ix n xs \<Longrightarrow> k < length xs \<Longrightarrow> ident y = ident (xs ! k) \<Longrightarrow> ix y = ix (xs ! k) \<Longrightarrow>
   keyed ident ix n (xs[k := y])"
  by (auto simp: keyed_def map_update nth_list_update) (metis list_update_id map_update nth_map)

text \<open>A search by identifier or by index has one answer.\<close>

lemma keyed_length: "keyed ident ix n xs \<Longrightarrow> length xs \<le> 256"
proof -
  assume k: "keyed ident ix n xs"
  then have "length xs = card (set (map ident xs))"
    by (metis distinct_card keyed_def length_map)
  also have "\<dots> \<le> card (UNIV :: UCHAR set)" by (rule card_mono) simp_all
  finally show ?thesis by (simp add: card_word)
qed

lemma keyed_find_index:
  assumes "keyed ident ix n xs" "k < length xs"
  shows "find_pos (\<lambda>x. uint (ix x) = int k) xs = Some k"
proof (rule find_pos_unique)
  have l: "j < length xs \<Longrightarrow> uint (ix (xs ! j)) = int j" for j
    using assms(1) keyed_length [OF assms(1)] by (simp add: keyed_def unsigned_of_nat take_bit_nat_eq_self_iff flip: uint_nat)
  show "uint (ix (xs ! k)) = int k" using l assms(2) .
  show "j = k" if "j < length xs" "uint (ix (xs ! j)) = int k" for j
    using l that by simp
qed (rule assms(2))

lemma keyed_find_ident:
  assumes "keyed ident ix n xs" "k < length xs"
  shows "find_pos (\<lambda>x. uint (ident x) = uint (ident (xs ! k))) xs = Some k"
  by (rule find_pos_unique) (use assms in \<open>auto simp: keyed_def distinct_conv_nth simp flip: word_uint_eq_iff\<close>)

definition alt_wf :: "kusb_alt_interface_el \<Rightarrow> bool" where
  "alt_wf a \<longleftrightarrow> keyed Pipe_ID Pipe_Index (PipeCount a) (PipeList a)"

definition intf_wf :: "kusb_interface_el \<Rightarrow> bool" where
  "intf_wf el \<longleftrightarrow> keyed Alt_ID Alt_Index (AltInterfaceCount el) (AltInterfaceList el) \<and>
     (\<forall>a \<in> set (AltInterfaceList el). alt_wf a) \<and> SharedInterface el = shared_idx (uint (Intf_Index el))"

definition tree_wf :: "kusb_interface_stack \<Rightarrow> bool" where
  "tree_wf st \<longleftrightarrow> keyed Intf_ID Intf_Index (InterfaceCount st) (InterfaceList st) \<and>
     (\<forall>el \<in> set (InterfaceList st). intf_wf el)"

lemma append_pipe_wf:
  "alt_wf a \<Longrightarrow> FindPipeEL a False (uint ep) = None \<Longrightarrow> alt_wf (append_pipe ep q a)"
  unfolding alt_wf_def append_pipe_def FindPipeEL_def
  by (simp add: find_pos_None) (rule keyed_snoc; force)

lemma attach_companion_wf: "alt_wf a \<Longrightarrow> alt_wf (attach_companion k q a)"
proof (cases "k < length (PipeList a)")
  case True
  then show "alt_wf a \<Longrightarrow> ?thesis"
    by (auto simp: alt_wf_def attach_companion_def intro!: keyed_update)
qed (simp add: alt_wf_def attach_companion_def list_update_beyond)

lemma u_Add_Pipe_loop_wf:
  "alt_wf a \<Longrightarrow> u_Add_Pipe_loop fuel cfg a d prev att plan = Inr (a', d', plan') \<Longrightarrow>
   alt_wf a' \<and> Alt_ID a' = Alt_ID a \<and> Alt_Index a' = Alt_Index a"
proof (induction fuel arbitrary: a d prev att plan)
  case (Suc fuel)
  let ?same = "\<lambda>a2. Alt_ID a2 = Alt_ID a \<and> Alt_Index a2 = Alt_Index a"
  have s: "?same (append_pipe ep q a)" "?same (attach_companion k q a)" for ep q k
    by (simp_all add: append_pipe_def attach_companion_def)
  obtain more d1 where nx: "u_Desc_Next cfg d = Some (more, d1)"
    using Suc.prems(2) by (auto split: option.splits)
  show ?case
  proof (cases more)
    case False
    then show ?thesis using Suc.prems nx by simp
  next
    case True
    obtain ty where ty: "byte_at cfg (Ptr_Offset d1 + 1) = Some ty"
      using Suc.prems(2) nx True by (auto split: option.splits)
    consider "ty = USB_DESCRIPTOR_TYPE_INTERFACE" | "ty = USB_DESCRIPTOR_TYPE_ENDPOINT"
      | "ty = USB_SUPERSPEED_ENDPOINT_COMPANION"
      | "ty \<notin> {USB_DESCRIPTOR_TYPE_INTERFACE, USB_DESCRIPTOR_TYPE_ENDPOINT, USB_SUPERSPEED_ENDPOINT_COMPANION}"
      by blast
    then show ?thesis
    proof cases
      case 1
      then show ?thesis using Suc.prems nx True ty by simp
    next
      case 2
      obtain ep where ep: "byte_at cfg (Ptr_Offset d1 + 2) = Some ep"
        using Suc.prems(2) nx True ty 2 by (auto split: option.splits)
      show ?thesis
      proof (cases "FindPipeEL a False (uint ep)")
        case (Some i)
        then show ?thesis using Suc.prems nx True ty 2 ep Suc.IH [of a] by auto
      next
        case None
        obtain ok plan1 where al: "take_alloc plan = (ok, plan1)" by (cases "take_alloc plan")
        then show ?thesis
          using Suc.prems nx True ty 2 ep None s append_pipe_wf [OF Suc.prems(1) None]
            Suc.IH [of "append_pipe ep (Ptr_Offset d1) a"]
          by (cases ok) auto
      qed
    next
      case 3
      then show ?thesis
        using Suc.prems nx True ty Suc.IH [of a] Suc.IH [of "attach_companion k (Ptr_Offset d1) a" for k]
          s attach_companion_wf [OF Suc.prems(1)]
        by (cases att) auto
    next
      case 4
      then show ?thesis using Suc.prems nx True ty Suc.IH [of a] by auto
    qed
  qed
qed simp

lemma upd_interface_wf:
  assumes "tree_wf st" "i < length (InterfaceList st)"
    and "intf_wf (f (InterfaceList st ! i))" "Intf_ID (f (InterfaceList st ! i)) = Intf_ID (InterfaceList st ! i)"
    and "Intf_Index (f (InterfaceList st ! i)) = Intf_Index (InterfaceList st ! i)"
  shows "tree_wf (upd_interface i f st)"
  using assms by (auto simp: tree_wf_def upd_interface_def intro: keyed_update dest!: set_update_subset_insert [THEN subsetD])

lemma ensure_interface_wf:
  assumes "tree_wf st" "ensure_interface num (st, sh, plan) = (r, st', sh', plan')"
  shows "tree_wf st'"
proof (cases "FindInterfaceEL st False (uint num)")
  case None
  then have "num \<notin> Intf_ID ` set (InterfaceList st)"
    by (auto simp: FindInterfaceEL_def find_pos_None)
  then show ?thesis
    using assms None keyed_snoc
    by (fastforce simp: ensure_interface_def Let_def tree_wf_def intf_wf_def split: prod.splits if_splits)
qed (use assms in \<open>simp add: ensure_interface_def\<close>)

lemma ensure_alt_wf:
  assumes "tree_wf st" "i < length (InterfaceList st)" "ensure_alt i num q (st, sh, plan) = (r, st', sh', plan')"
  shows "tree_wf st'"
proof (cases "FindAltInterfaceEL (InterfaceList st ! i) False (uint num)")
  case None
  let ?el = "InterfaceList st ! i"
  have n: "num \<notin> Alt_ID ` set (AltInterfaceList ?el)"
    using None by (auto simp: FindAltInterfaceEL_def find_pos_None)
  have el: "intf_wf ?el" using assms(1,2) by (simp add: tree_wf_def)
  have "alt_wf \<lparr>Alt_ID = num, Alt_Index = AltInterfaceCount ?el, Alt_Descriptor = q, PipeList = [], PipeCount = 0\<rparr>"
    by (simp add: alt_wf_def)
  then have "intf_wf (?el\<lparr>AltInterfaceCount := AltInterfaceCount ?el + 1, AltInterfaceList := AltInterfaceList ?el @
      [\<lparr>Alt_ID = num, Alt_Index = AltInterfaceCount ?el, Alt_Descriptor = q, PipeList = [], PipeCount = 0\<rparr>]\<rparr>)"
    using el n by (auto simp: intf_wf_def intro!: keyed_snoc)
  then show ?thesis
    using assms None
    by (auto simp: ensure_alt_def Let_def split: prod.splits if_splits intro!: upd_interface_wf)
qed (use assms in \<open>simp add: ensure_alt_def\<close>)

lemma u_Add_Interface_wf:
  assumes "tree_wf (fst b)" "u_Add_Interface fuel cfg d b = Inr (b', d')"
  shows "tree_wf (fst b')"
proof -
  obtain st sh plan where b: "b = (st, sh, plan)" by (cases b)
  obtain inum where i: "byte_at cfg (Ptr_Offset d + 2) = Some inum"
    using assms(2) by (auto simp: u_Add_Interface_def split: option.splits)
  obtain oi st1 sh1 plan1 where e1: "ensure_interface inum b = (oi, st1, sh1, plan1)"
    by (cases "ensure_interface inum b")
  have w1: "tree_wf st1" using ensure_interface_wf assms(1) e1 b by auto
  show ?thesis
  proof (cases oi)
    case None
    then show ?thesis using assms(2) i e1 w1 by (auto simp: u_Add_Interface_def)
  next
    case (Some i')
    have il: "i' < length (InterfaceList st1)" using ensure_interface_Some e1 Some b by auto
    obtain anum where a: "byte_at cfg (Ptr_Offset d + 3) = Some anum"
      using assms(2) i e1 Some by (auto simp: u_Add_Interface_def split: option.splits)
    obtain oj st2 sh2 plan2 where e2: "ensure_alt i' anum (Ptr_Offset d) (st1, sh1, plan1) = (oj, st2, sh2, plan2)"
      by (cases "ensure_alt i' anum (Ptr_Offset d) (st1, sh1, plan1)")
    have w2: "tree_wf st2" by (rule ensure_alt_wf [OF w1 il e2])
    show ?thesis
    proof (cases oj)
      case None
      then show ?thesis using assms(2) i e1 Some a e2 w2 by (auto simp: u_Add_Interface_def)
    next
      case j: (Some j)
      have ok: "alt_ok i' j st2" using ensure_alt_Some [OF il] e2 j by blast
      obtain alt' plan' where ap: "u_Add_Pipe fuel cfg (get_alt i' j st2) d plan2 = Inr (alt', d', plan')"
        and b': "b' = (upd_alt i' j (\<lambda>_. alt') st2, sh2, plan')"
        using assms(2) i e1 Some a e2 j by (auto simp: u_Add_Interface_def split: sum.splits)
      have "intf_wf (InterfaceList st2 ! i')" "alt_wf (get_alt i' j st2)"
        using w2 ok nth_mem by (fastforce simp: tree_wf_def intf_wf_def alt_ok_def get_alt_def)+
      moreover have "alt_wf alt' \<and> Alt_ID alt' = Alt_ID (get_alt i' j st2) \<and> Alt_Index alt' = Alt_Index (get_alt i' j st2)"
        using u_Add_Pipe_loop_wf [OF calculation(2)] ap unfolding u_Add_Pipe_def by blast
      ultimately have "tree_wf (upd_alt i' j (\<lambda>_. alt') st2)"
        using w2 ok unfolding upd_alt_def
        by (intro upd_interface_wf)
          (auto simp: alt_ok_def intf_wf_def get_alt_def intro!: keyed_update dest!: set_update_subset_insert [THEN subsetD])
      then show ?thesis using b' by simp
    qed
  qed
qed

lemma u_Init_Config_loop_wf:
  "tree_wf (fst b) \<Longrightarrow> u_Init_Config_loop fuel cfg d b = Inr b' \<Longrightarrow> tree_wf (fst b')"
proof (induction fuel cfg d b rule: u_Init_Config_loop.induct)
  case (2 fuel cfg d b)
  show ?case
    using "2.prems" "2.IH" u_Add_Interface_wf [OF "2.prems"(1)]
    by (auto split: option.splits prod.splits bool.splits if_splits sum.splits)
qed simp

section \<open>Properties\<close>

definition wTotalLength :: "UCHAR list \<Rightarrow> nat" where
  "wTotalLength cfg = unat (cfg ! 2) + 256 * unat (cfg ! 3)"

lemma wTotalLength_bound: "wTotalLength cfg < 2 ^ 31"
  using unsigned_less [of "cfg ! 2", where ?'a = nat] unsigned_less [of "cfg ! 3", where ?'a = nat]
  by (simp add: wTotalLength_def)

definition empty_build :: build where
  "empty_build = (\<lparr>UsePipeCache = False, PipeCache = replicate 32 0, InterfaceList = [], InterfaceCount = 0\<rparr>,
     replicate 128 \<lparr>InterfaceHandle = 0, SI_ID = 0, SI_Index = 0, Claimed = False, CurrentAltSetting = 0\<rparr>, [])"

text \<open>A configuration with one interface, one bulk endpoint and its companion.\<close>

definition example_config :: "UCHAR list" where
  "example_config =
     [9, 2, 31, 0, 1, 1, 0, 0x80, 50,
      9, 4, 3, 0, 1, 0xFF, 0, 0, 0,
      7, 5, 0x81, 2, 0, 4, 0,
      6, 0x30, 0, 0, 0, 0]"

text \<open>
  C2. On a configuration descriptor whose lengths are consistent the parser ends, reads only bytes
  of the descriptor, and builds what one pass over the descriptors builds: its two nested loops,
  the backing up at the next interface descriptor and the way it goes on after a failed
  allocation together are the fold \<open>step_desc\<close>. One unit of fuel per descriptor and one more
  is enough.
\<close>

theorem u_Init_Config_fold:
  assumes "4 \<le> length cfg" and "chain cfg 0 (wTotalLength cfg) qs" and "length qs < fuel"
  shows "u_Init_Config fuel cfg b = Inr (fst (foldl (step_desc cfg) (b, None, None) qs))"
proof -
  have "u_Init_Config fuel cfg b = u_Init_Config_loop fuel cfg (iter (wTotalLength cfg) 0) b"
    using assms(1) by (simp add: u_Init_Config_def byte_at_def wTotalLength_def)
  then show ?thesis
    using init_config_loop_fold [OF assms(2) wTotalLength_bound assms(3)] by simp
qed

lemma example_chain: "chain example_config 0 (wTotalLength example_config) [9, 18, 25]" "4 \<le> length example_config"
  by (simp_all add: example_config_def wTotalLength_def fits_def)

theorem u_Init_Config_fold_witness:
  "map_sum id (\<lambda>(st, _). map (\<lambda>el. (Intf_ID el, map (\<lambda>a. map Pipe_ID (PipeList a)) (AltInterfaceList el))) (InterfaceList st))
     (u_Init_Config 4 example_config empty_build) = Inr [(3, [[0x81]])]"
proof -
  have "u_Init_Config 4 example_config empty_build =
      Inr (fst (foldl (step_desc example_config) (empty_build, None, None) [9, 18, 25]))"
    by (intro u_Init_Config_fold example_chain) simp
  then show ?thesis
    by (simp add: example_config_def empty_build_def step_desc_def ensure_interface_def ensure_alt_def
        FindInterfaceEL_def FindAltInterfaceEL_def FindPipeEL_def take_alloc_def upd_alt_def upd_interface_def
        get_alt_def append_pipe_def attach_companion_def shared_idx_def Let_def)
qed



lemma desc_next_stay:
  "2 \<le> r \<Longrightarrow> r < 2 ^ 31 \<Longrightarrow> p < length cfg \<Longrightarrow> cfg ! p = 0 \<Longrightarrow>
   u_Desc_Next cfg (iter r p) = Some (True, iter r p)"
  using desc_next_read [of r p cfg] by (simp add: Let_def)

lemma add_pipe_stay:
  assumes "2 \<le> r" "r < 2 ^ 31" "p + 4 \<le> length cfg" "cfg ! p = 0" "cfg ! (p + 1) = USB_DESCRIPTOR_TYPE_INTERFACE"
  shows "u_Add_Pipe (Suc f) cfg a (iter r p) plan = Inr (a, iter r p, plan)"
  using assms desc_next_stay [of r p cfg] by (simp add: u_Add_Pipe_def byte_at_def)

lemma add_interface_stay:
  assumes "2 \<le> r" "r < 2 ^ 31" "p + 4 \<le> length cfg" "cfg ! p = 0" "cfg ! (p + 1) = USB_DESCRIPTOR_TYPE_INTERFACE"
  shows "\<exists>b'. u_Add_Interface (Suc f) cfg (iter r p) b = Inr (b', iter r p)"
  using assms(3) add_pipe_stay [OF assms]
  by (auto simp: u_Add_Interface_def byte_at_def split: prod.splits option.splits)

lemma config_loop_stay:
  "2 \<le> r \<Longrightarrow> r < 2 ^ 31 \<Longrightarrow> p + 4 \<le> length cfg \<Longrightarrow> cfg ! p = 0 \<Longrightarrow>
   u_Init_Config_loop fuel cfg (iter r p) b = Inl No_Fuel"
proof (induction fuel arbitrary: b)
  case (Suc fuel)
  have nx: "u_Desc_Next cfg (iter r p) = Some (True, iter r p)"
    by (rule desc_next_stay) (use Suc.prems in auto)
  show ?case
  proof (cases "cfg ! (p + 1) = USB_DESCRIPTOR_TYPE_INTERFACE")
    case True
    obtain b' where "u_Add_Interface (Suc fuel) cfg (iter r p) b = Inr (b', iter r p)"
      using add_interface_stay [OF Suc.prems True] by blast
    then show ?thesis using nx Suc True by (simp add: byte_at_def)
  next
    case False
    then show ?thesis using nx Suc by (simp add: byte_at_def)
  qed
qed simp

text \<open>
  A descriptor of length zero makes the parser loop for ever: whatever the fuel, it is used up.
  A device needs only one such descriptor after its configuration descriptor.
\<close>

theorem zero_length_descriptor_hangs:
  assumes "p = unat (cfg ! 0)" and "cfg ! p = 0" and "p + 4 \<le> length cfg" and "0 < p"
    and "p + 2 \<le> wTotalLength cfg" and "4 \<le> length cfg"
  shows "u_Init_Config fuel cfg b = Inl No_Fuel"
proof -
  have "u_Init_Config fuel cfg b = u_Init_Config_loop fuel cfg (iter (wTotalLength cfg) 0) b"
    using assms(6) by (simp add: u_Init_Config_def byte_at_def wTotalLength_def)
  moreover have nx: "u_Desc_Next cfg (iter (wTotalLength cfg) 0) = Some (True, iter (wTotalLength cfg - p) p)"
  proof -
    have "0 < length cfg" "2 \<le> wTotalLength cfg" "unat (cfg ! 0) \<le> wTotalLength cfg" "2 \<le> wTotalLength cfg - p"
      using assms by auto
    then show ?thesis
      using desc_next_read [OF _ wTotalLength_bound, of cfg 0 cfg] assms(1) by (simp add: Let_def)
  qed
  have r: "2 \<le> wTotalLength cfg - p" "wTotalLength cfg - p < 2 ^ 31"
    using assms(5) wTotalLength_bound [of cfg] by auto
  have "u_Init_Config_loop fuel cfg (iter (wTotalLength cfg) 0) b = Inl No_Fuel"
  proof (cases fuel)
    case (Suc f)
    show ?thesis
    proof (cases "cfg ! (p + 1) = USB_DESCRIPTOR_TYPE_INTERFACE")
      case True
      obtain b' where "u_Add_Interface (Suc f) cfg (iter (wTotalLength cfg - p) p) b = Inr (b', iter (wTotalLength cfg - p) p)"
        using add_interface_stay [OF r assms(3,2) True] by blast
      then show ?thesis using Suc nx True assms(3) config_loop_stay [OF r assms(3,2)] by (simp add: byte_at_def)
    next
      case False
      then show ?thesis using Suc nx assms(3) config_loop_stay [OF r assms(3,2)] by (simp add: byte_at_def)
    qed
  qed simp
  ultimately show ?thesis by simp
qed

theorem zero_length_descriptor_hangs_witness:
  "u_Init_Config 1000 [9, 2, 13, 0, 1, 1, 0, 0x80, 50, 0, 4, 0, 0] empty_build = Inl No_Fuel"
  using zero_length_descriptor_hangs [of 9 "[9, 2, 13, 0, 1, 1, 0, 0x80, 50, 0, 4, 0, 0]" 1000 empty_build]
  by (simp add: wTotalLength_def)

text \<open>
  A descriptor that claims more bytes than remain is not noticed: the remaining length goes
  negative, is compared as an unsigned number, and the iterator moves past the end of the
  descriptor, where the next read is outside the buffer.
\<close>

theorem long_descriptor_reads_outside:
  assumes "2 \<le> r" and "r < 2 ^ 31" and "p + r = length cfg" and "r < unat (cfg ! p)"
  shows "(\<exists>d. u_Desc_Next cfg (iter r p) = Some (True, d) \<and> length cfg < Ptr_Offset d \<and> Remaining d < 0) \<and>
         u_Init_Config_loop (Suc fuel) cfg (iter r p) b = Inl Over_Read"
proof -
  define n where "n = unat (cfg ! p)"
  have n: "r < n" "n < 256" "uint (cfg ! p) = int n"
    using assms(4) unsigned_less [of "cfg ! p", where ?'a = nat] by (simp_all add: n_def)
  have "to_long (int r - int n) = int r - int n"
    using n assms(2) by (intro to_long_id) (simp add: is_long_def)
  moreover have "to_size_t (int r - int n) \<ge> 2"
  proof -
    have "(int r - int n) mod 2 ^ 64 = (int r - int n + 2 ^ 64) mod 2 ^ 64" by simp
    also have "\<dots> = int r - int n + 2 ^ 64" using n by (intro mod_pos_pos_trivial) auto
    finally show ?thesis using n by (simp add: to_size_t_def)
  qed
  ultimately have "u_Desc_Next cfg (iter r p) = Some (True, \<lparr>Remaining = int r - int n, Ptr_Offset = p + n\<rparr>)"
    using assms(1-3) n by (simp add: u_Desc_Next_def byte_at_def n_def flip: n_def)
  then show ?thesis
    using assms(3) n(1) by (auto simp: byte_at_def)
qed

theorem long_descriptor_reads_outside_witness:
  "u_Init_Config_loop 9 [9, 2, 4, 0] \<lparr>Remaining = 4, Ptr_Offset = 0\<rparr> empty_build = Inl Over_Read"
  using long_descriptor_reads_outside [of 4 0 "[9, 2, 4, 0]" 8 empty_build] by simp

end
