(* ===== verification/Usb_Stack.thy ===== *)
theory Usb_Stack
  imports Config_Parser
begin

text \<open>
  Device handles and the operations on the interface tree: \<open>lusbk_stack_collection.c\<close> from
  \<open>u_Init_Handle\<close> on. A device handle refers to a device object, which clones share and which is
  released with the last of them. Results are as in \<open>with_UsbK\<close>: the returned truth value, the
  output (if any) and the new state, and \<open>None\<close> where the code dereferences a null pointer,
  reads outside a buffer or does not return.
\<close>

section \<open>The objects behind a handle\<close>

definition dev_of :: "nat \<Rightarrow> libk \<Rightarrow> (nat \<times> dev_obj) option" where
  "dev_of h w =
     (case Device (sec_body lens_UsbK h w) of None \<Rightarrow> None | Some d \<Rightarrow> Some (d, sec_body lens_DevK d w))"

definition selected :: "nat \<Rightarrow> libk \<Rightarrow> LONG" where
  "selected h w = Selected_SharedInterface_Index (sec_body lens_UsbK h w)"

definition set_selected :: "nat \<Rightarrow> LONG \<Rightarrow> libk \<Rightarrow> libk" where
  "set_selected h i = sec_set_body lens_UsbK h (\<lambda>u. u\<lparr>Selected_SharedInterface_Index := i\<rparr>)"

text \<open>Bytes of a descriptor in the configuration descriptor of the device.\<close>

definition read_bytes :: "dev_obj \<Rightarrow> nat \<Rightarrow> nat \<Rightarrow> UCHAR list option" where
  "read_bytes dev off n =
     (case ConfigDescriptor dev of
        None \<Rightarrow> None
      | Some cfg \<Rightarrow> if off + n \<le> length cfg then Some (take n (drop off cfg)) else None)"

section \<open>Creating handles\<close>

type_synonym stack_cb = "nat \<Rightarrow> libk \<Rightarrow> bool \<times> libk"

definition u_Init_Handle ::
  "nat option \<Rightarrow> stack_cb option \<Rightarrow> cleanup option \<Rightarrow> cleanup option \<Rightarrow> libk \<Rightarrow> nat option \<times> libk" where
  "u_Init_Handle shared backend cb_usb cb_dev w =
     (case sec_acquire lens_UsbK Init_Handle_UsbK cb_usb w of
        (None, w1) \<Rightarrow> (None, w1)
      | (Some h, w1) \<Rightarrow>
          (case shared of
             Some d \<Rightarrow>
               (let (ok, w2) = sec_inc lens_DevK d w1 in
                if \<not> ok then (None, snd (Dec_UsbK h (SetLastError ERROR_RESOURCE_NOT_AVAILABLE w2)))
                else (Some h, sec_set_body lens_UsbK h (\<lambda>u. u\<lparr>Device := Some d, IsClone := True\<rparr>) w2))
           | None \<Rightarrow>
               (case sec_acquire lens_DevK Init_Handle_DevK cb_dev w1 of
                  (None, w2) \<Rightarrow> (None, snd (Dec_UsbK h w2))
                | (Some d, w2) \<Rightarrow>
                    (let w3 = sec_set_body lens_UsbK h (\<lambda>u. u\<lparr>Device := Some d\<rparr>) w2 in
                     case backend of
                       None \<Rightarrow> (Some h, w3)
                     | Some f \<Rightarrow>
                         (let (ok, w4) = f h w3 in if ok then (Some h, w4) else (None, snd (Dec_UsbK h w4)))))))"

text \<open>
  \<open>Str_Dupe\<close>: a string longer than 4096 gives null. The result of the allocation is used without
  a check, so that a failure is a write to the null pointer.
\<close>

definition Str_Dupe :: "string \<Rightarrow> libk \<Rightarrow> (string option \<times> libk) option" where
  "Str_Dupe s w =
     (if s = '''' \<or> length s > 4096 then Some (None, w)
      else let (ok, w1) = Mem_Alloc w in if ok then Some (Some s, w1) else None)"

definition zero_shared :: shared_interface where
  "zero_shared = \<lparr>InterfaceHandle = 0, SI_ID = 0, SI_Index = 0, Claimed = False, CurrentAltSetting = 0\<rparr>"

text \<open>
  \<open>u_Init_Config\<close> on the device of a handle. It always returns \<open>TRUE\<close>. The device must have its
  configuration descriptor, its stack and its shared interfaces.
\<close>

definition Init_Config :: "nat \<Rightarrow> nat \<Rightarrow> libk \<Rightarrow> libk option" where
  "Init_Config fuel h w = do {
     (d, dev) \<leftarrow> dev_of h w;
     cfg \<leftarrow> ConfigDescriptor dev;
     st \<leftarrow> UsbStack dev;
     (case u_Init_Config fuel cfg (st, SharedInterfaces dev, AllocPlan w) of
        Inl _ \<Rightarrow> None
      | Inr (st', sh', plan') \<Rightarrow>
          Some (sec_set_body lens_DevK d (\<lambda>v. v\<lparr>UsbStack := Some st', SharedInterfaces := sh'\<rparr>)
                  (w\<lparr>AllocPlan := plan'\<rparr>))) }"

definition refresh_pipe :: "shared_interface \<Rightarrow> HANDLE \<Rightarrow> UCHAR \<Rightarrow> HANDLE list \<Rightarrow> kusb_pipe_el \<Rightarrow> HANDLE list" where
  "refresh_pipe sh master alt_id cache p =
     (let k = PIPEID_TO_IDX (Pipe_ID p) in
      if uint alt_id = CurrentAltSetting sh then cache[k := InterfaceHandle sh]
      else if cache ! k = 0 then
        (if InterfaceHandle sh \<noteq> 0 then cache[k := InterfaceHandle sh] else cache[k := master])
      else cache)"

text \<open>
  \<open>UsbStack_RefreshPipeCache\<close>: the loops run over the interfaces, their alternate settings and
  their pipes. The array of shared interfaces is read at a masked index, inside its 128 elements.
\<close>

definition RefreshPipeCache :: "dev_obj \<Rightarrow> dev_obj" where
  "RefreshPipeCache dev =
     (case UsbStack dev of
        None \<Rightarrow> dev
      | Some st \<Rightarrow>
          let cache = foldl (\<lambda>c el.
                let sh = SharedInterfaces dev ! shared_idx (uint (Intf_Index el)) in
                foldl (\<lambda>c a. foldl (refresh_pipe sh (MasterInterfaceHandle dev) (Alt_ID a)) c (PipeList a))
                  c (AltInterfaceList el)) (PipeCache st) (InterfaceList st)
          in dev\<lparr>UsbStack := Some (st\<lparr>PipeCache := cache\<rparr>)\<rparr>)"

text \<open>
  \<open>UsbStack_Init\<close>. \<open>open_dev\<close> is the answer of \<open>CreateDeviceFile\<close>; \<open>dev_info\<close> the path and driver
  of the device list entry. When the block of the device cannot be allocated the function returns
  without releasing the handle and without writing its output.
\<close>

definition UsbStack_Init ::
  "nat \<Rightarrow> winusb_library \<Rightarrow> (string \<Rightarrow> HANDLE) \<Rightarrow> int \<Rightarrow> bool \<Rightarrow> HANDLE \<Rightarrow> (string \<times> int) option \<Rightarrow> nat option
   \<Rightarrow> stack_cb \<Rightarrow> stack_cb option \<Rightarrow> cleanup option \<Rightarrow> cleanup option \<Rightarrow> libk
   \<Rightarrow> (bool \<times> nat option \<times> libk) option" where
  "UsbStack_Init fuel l open_dev drv_id use_cache dev_handle dev_info shared init_config backend cb_usb cb_dev w =
     (case u_Init_Handle shared backend cb_usb cb_dev w of
        (None, w1) \<Rightarrow> Some (False, None, w1)
      | (Some h, w1) \<Rightarrow>
          (case shared of
             Some _ \<Rightarrow> Some (True, Some h, w1)
           | None \<Rightarrow> do {
               (d, _) \<leftarrow> dev_of h w1;
               (dh, id, w2) \<leftarrow>
                 (if IsHandleValid dev_handle then Some (dev_handle, drv_id, w1)
                  else do {
                    (path, id) \<leftarrow> dev_info;
                    let dh = open_dev path;
                    if \<not> IsHandleValid dh then Some (dh, id, w1)
                    else do {
                      (dup, w2) \<leftarrow> Str_Dupe path w1;
                      Some (dh, id, sec_set_body lens_DevK d (\<lambda>v. v\<lparr>DevicePath := dup\<rparr>) w2) } });
               (if \<not> IsHandleValid dh then Some (False, None, snd (Dec_UsbK h w2))
                else
                  let w3 = sec_set_body lens_DevK d (\<lambda>v. v\<lparr>MasterDeviceHandle := dh\<rparr>) w2;
                      (ok, w4) = Mem_Alloc w3
                  in if \<not> ok then Some (False, None, SetLastError ERROR_NOT_ENOUGH_MEMORY w4)
                     else
                       let w5 = sec_set_body lens_DevK d (\<lambda>v. v\<lparr>
                              UsbStack := Some \<lparr>UsePipeCache = use_cache, PipeCache = replicate 32 0,
                                                InterfaceList = [], InterfaceCount = 0\<rparr>,
                              DriverAPI := Some zero_api,
                              SharedInterfaces := replicate KDEV_SHARED_INTERFACE_COUNT zero_shared\<rparr>) w4;
                           (ok, w6) = init_config h w5
                       in if \<not> ok then Some (False, None, snd (Dec_UsbK h w6))
                          else do {
                            w7 \<leftarrow> Init_Config fuel h (set_selected h 0 w6);
                            let w8 = sec_set_body lens_DevK d (\<lambda>v. v\<lparr>DriverAPI := Some (snd (LibK_LoadDriverAPI l id))\<rparr>) w7;
                            let w9 = (if use_cache then sec_set_body lens_DevK d RefreshPipeCache w8 else w8);
                            Some (True, Some h, sec_live lens_UsbK h (sec_live lens_DevK d w9)) }) }))"

section \<open>Clones and associated interfaces\<close>

text \<open>The cleanup routines and the device are those of the handle that is cloned.\<close>

definition UsbStack_CloneHandle :: "nat \<Rightarrow> libk \<Rightarrow> (bool \<times> nat option \<times> libk) option" where
  "UsbStack_CloneHandle h = with_UsbK h (\<lambda>w. do {
     (d, dev) \<leftarrow> dev_of h w;
     api \<leftarrow> DriverAPI dev;
     st \<leftarrow> UsbStack dev;
     (r, clone, w1) \<leftarrow> UsbStack_Init 0 \<lparr>winusb_DLL = False, has_GetCurrentFrameNumber = False,
         has_ReadIsochPipe = False, has_WriteIsochPipe = False\<rparr> (\<lambda>_. 0)
         (Info_DriverID api) (UsePipeCache st) 0 None (Some d) (\<lambda>_ w. (True, w)) None
         (EvtCleanup (Handles (UsbK w) ! h)) (EvtCleanup (Handles (DevK w) ! d)) w;
     (case clone of
        None \<Rightarrow> Some (False, None, w1)
      | Some c \<Rightarrow> Some (True, Some c, sec_live lens_UsbK c (set_selected c (selected h w1) w1))) })"

definition UsbStack_GetAssociatedInterface :: "nat \<Rightarrow> UCHAR \<Rightarrow> libk \<Rightarrow> (bool \<times> nat option \<times> libk) option" where
  "UsbStack_GetAssociatedInterface h idx = with_UsbK h (\<lambda>w. do {
     (d, dev) \<leftarrow> dev_of h w;
     st \<leftarrow> UsbStack dev;
     let next_idx = word_of_int (selected h w) + 1 + idx;
     (case FindInterfaceEL st True (uint next_idx) of
        None \<Rightarrow> fail ERROR_NO_MORE_ITEMS w
      | Some _ \<Rightarrow> do {
          (r, out, w1) \<leftarrow> UsbStack_CloneHandle h w;
          (case out of
             None \<Rightarrow> Some (False, None, w1)
           | Some a \<Rightarrow> Some (True, Some a, sec_live lens_UsbK a (set_selected a (uint next_idx) w1))) }) })"

section \<open>Rebuilding the tree\<close>

definition dev_ref_add :: "nat \<Rightarrow> int \<Rightarrow> libk \<Rightarrow> libk" where
  "dev_ref_add d n w = w\<lparr>DevK := upd_handle d (\<lambda>k. k\<lparr>Ref := to_long (Ref k + n)\<rparr>) (DevK w)\<rparr>"

text \<open>
  \<open>UsbStack_Rebuild\<close> goes on only when two decrements of the device's count give 1 and then 0; it
  adds them back in any case. \<open>memset\<close> clears as many bytes of the shared interfaces as a pointer
  has, which is the first interface handle.
\<close>

definition UsbStack_Rebuild :: "nat \<Rightarrow> nat \<Rightarrow> stack_cb \<Rightarrow> libk \<Rightarrow> (bool \<times> libk) option" where
  "UsbStack_Rebuild fuel h init_config w = do {
     (d, dev) \<leftarrow> dev_of h w;
     let w1 = dev_ref_add d (-1) w;
     (if Ref (Handles (DevK w1) ! d) \<noteq> 1
      then Some (False, SetLastError ERROR_RESOURCE_NOT_AVAILABLE (dev_ref_add d 1 w1))
      else
        let w2 = dev_ref_add d (-1) w1 in
        if Ref (Handles (DevK w2) ! d) \<noteq> 0
        then Some (False, SetLastError ERROR_RESOURCE_NOT_AVAILABLE (dev_ref_add d 1 (dev_ref_add d 1 w2)))
        else
          let w3 = set_selected h 0 (sec_set_body lens_DevK d (\<lambda>v. v\<lparr>
                 UsbStack := map_option UsbStack_Clear (UsbStack v), ConfigDescriptor := None,
                 SharedInterfaces := (case SharedInterfaces v of [] \<Rightarrow> [] | s # ss \<Rightarrow> s\<lparr>InterfaceHandle := 0\<rparr> # ss)\<rparr>) w2);
              (ok, w4) = init_config h w3
          in if \<not> ok then Some (False, dev_ref_add d 1 (dev_ref_add d 1 w4))
             else do {
               w5 \<leftarrow> Init_Config fuel h w4;
               Some (True, dev_ref_add d 1 (dev_ref_add d 1 w5)) }) }"

section \<open>Queries\<close>

definition UsbStack_QueryInterfaceSettings ::
  "nat \<Rightarrow> UCHAR \<Rightarrow> bool \<Rightarrow> libk \<Rightarrow> (bool \<times> UCHAR list option \<times> libk) option" where
  "UsbStack_QueryInterfaceSettings h alt_idx out_valid =
     require out_valid ERROR_INVALID_PARAMETER (
     require (alt_idx \<le> 0x7F) ERROR_INVALID_PARAMETER (
     with_UsbK h (\<lambda>w. do {
       (d, dev) \<leftarrow> dev_of h w;
       st \<leftarrow> UsbStack dev;
       (case FindInterfaceEL st True (selected h w) of
          None \<Rightarrow> fail ERROR_NO_MORE_ITEMS w
        | Some i \<Rightarrow>
            (case FindAltInterfaceEL (InterfaceList st ! i) True (uint alt_idx) of
               None \<Rightarrow> fail ERROR_NO_MORE_ITEMS w
             | Some j \<Rightarrow> do {
                 bs \<leftarrow> read_bytes dev (Alt_Descriptor (get_alt i j st)) 9;
                 Some (True, Some bs, w) })) })))"

definition UsbStack_SelectInterface :: "nat \<Rightarrow> UCHAR \<Rightarrow> bool \<Rightarrow> libk \<Rightarrow> (bool \<times> unit option \<times> libk) option" where
  "UsbStack_SelectInterface h n is_index =
     require (n \<le> 0x7F) ERROR_INVALID_PARAMETER (
     with_UsbK h (\<lambda>w. do {
       (d, dev) \<leftarrow> dev_of h w;
       st \<leftarrow> UsbStack dev;
       (case FindInterfaceEL st is_index (uint n) of
          None \<Rightarrow> fail ERROR_NO_MORE_ITEMS w
        | Some i \<Rightarrow> Some (True, None, set_selected h (uint (Intf_Index (InterfaceList st ! i))) w)) }))"

text \<open>
  The selected interface and its current alternate setting. The array is indexed with the
  selection itself, not masked.
\<close>

definition selected_alt :: "nat \<Rightarrow> libk \<Rightarrow> dev_obj \<Rightarrow> kusb_interface_stack \<Rightarrow> (nat \<times> nat) option option" where
  "selected_alt h w dev st =
     (case FindInterfaceEL st True (selected h w) of
        None \<Rightarrow> Some None
      | Some i \<Rightarrow>
          if nat (selected h w) < length (SharedInterfaces dev) then
            let alt = word_of_int (CurrentAltSetting (SharedInterfaces dev ! nat (selected h w))) :: UCHAR in
            (case FindAltInterfaceEL (InterfaceList st ! i) False (uint alt) of
               None \<Rightarrow> Some None
             | Some j \<Rightarrow> Some (Some (i, j)))
          else None)"

definition UsbStack_QuerySelectedEndpoint ::
  "nat \<Rightarrow> UCHAR \<Rightarrow> bool \<Rightarrow> bool \<Rightarrow> libk \<Rightarrow> (bool \<times> UCHAR list option \<times> libk) option" where
  "UsbStack_QuerySelectedEndpoint h ep is_index out_valid =
     require out_valid ERROR_INVALID_PARAMETER (
     with_UsbK h (\<lambda>w. do {
       (d, dev) \<leftarrow> dev_of h w;
       st \<leftarrow> UsbStack dev;
       sel \<leftarrow> selected_alt h w dev st;
       (case sel of
          None \<Rightarrow> fail ERROR_NO_MORE_ITEMS w
        | Some (i, j) \<Rightarrow>
            (case FindPipeEL (get_alt i j st) is_index (uint ep) of
               None \<Rightarrow> fail ERROR_NO_MORE_ITEMS w
             | Some k \<Rightarrow> do {
                 bs \<leftarrow> read_bytes dev (Pipe_Descriptor (PipeList (get_alt i j st) ! k)) 7;
                 Some (True, Some bs, w) })) }))"

text \<open>
  The pipe information: type, packet size with the additional transactions of high speed, address
  and interval, from the fields of the endpoint descriptor.
\<close>

definition packet_size :: "UCHAR \<Rightarrow> UCHAR \<Rightarrow> USHORT" where
  "packet_size lo hi =
     (let m = unat lo + 256 * unat hi in word_of_nat ((m mod 2048) * ((m div 2048) mod 4 + 1)))"

definition max_bytes :: "USHORT \<Rightarrow> ULONG option \<Rightarrow> ULONG" where
  "max_bytes mps companion =
     (case companion of
        None \<Rightarrow> ucast mps
      | Some b \<Rightarrow> if b = 0 then ucast mps else b)"

definition find_pipe :: "nat \<Rightarrow> UCHAR \<Rightarrow> UCHAR \<Rightarrow> libk \<Rightarrow> kusb_interface_stack \<Rightarrow> kusb_pipe_el option" where
  "find_pipe h alt_num pipe_idx w st =
     (case FindInterfaceEL st True (selected h w) of
        None \<Rightarrow> None
      | Some i \<Rightarrow>
          (case FindAltInterfaceEL (InterfaceList st ! i) False (uint alt_num) of
             None \<Rightarrow> None
           | Some j \<Rightarrow>
               (case FindPipeEL (get_alt i j st) True (uint pipe_idx) of
                  None \<Rightarrow> None
                | Some k \<Rightarrow> Some (PipeList (get_alt i j st) ! k))))"

text \<open>The three queries of a pipe by alternate setting and index share their beginning.\<close>

definition with_pipe ::
  "nat \<Rightarrow> UCHAR \<Rightarrow> UCHAR \<Rightarrow> bool \<Rightarrow> (dev_obj \<Rightarrow> kusb_pipe_el \<Rightarrow> libk \<Rightarrow> (bool \<times> 'r option \<times> libk) option) \<Rightarrow> libk
   \<Rightarrow> (bool \<times> 'r option \<times> libk) option" where
  "with_pipe h alt_num pipe_idx out_valid k =
     require (alt_num \<le> 0x7F) ERROR_INVALID_PARAMETER (
     require (pipe_idx \<le> 0x1F) ERROR_INVALID_PARAMETER (
     require out_valid ERROR_INVALID_PARAMETER (
     with_UsbK h (\<lambda>w. do {
       (d, dev) \<leftarrow> dev_of h w;
       st \<leftarrow> UsbStack dev;
       (case find_pipe h alt_num pipe_idx w st of
          None \<Rightarrow> fail ERROR_NO_MORE_ITEMS w
        | Some p \<Rightarrow> k dev p w) }))))"

record pipe_information =
  PI_PipeType :: nat
  PI_PipeId :: UCHAR
  PI_MaximumPacketSize :: USHORT
  PI_Interval :: UCHAR

definition UsbStack_QueryPipe ::
  "nat \<Rightarrow> UCHAR \<Rightarrow> UCHAR \<Rightarrow> bool \<Rightarrow> libk \<Rightarrow> (bool \<times> pipe_information option \<times> libk) option" where
  "UsbStack_QueryPipe h alt_num pipe_idx out_valid = with_pipe h alt_num pipe_idx out_valid (\<lambda>dev p w. do {
     bs \<leftarrow> read_bytes dev (Pipe_Descriptor p) 7;
     Some (True, Some \<lparr>PI_PipeType = unat (bs ! 3 AND 3), PI_PipeId = bs ! 2,
       PI_MaximumPacketSize = packet_size (bs ! 4) (bs ! 5), PI_Interval = bs ! 6\<rparr>, w) })"

definition UsbStack_QueryPipeEx ::
  "nat \<Rightarrow> UCHAR \<Rightarrow> UCHAR \<Rightarrow> bool \<Rightarrow> libk \<Rightarrow> (bool \<times> pipe_information_ex option \<times> libk) option" where
  "UsbStack_QueryPipeEx h alt_num pipe_idx out_valid = with_pipe h alt_num pipe_idx out_valid (\<lambda>dev p w. do {
     bs \<leftarrow> read_bytes dev (Pipe_Descriptor p) 7;
     companion \<leftarrow> (case SuperSpeedCompanionDescriptor p of
        None \<Rightarrow> Some None
      | Some off \<Rightarrow> map_option (\<lambda>c. Some (word_of_nat (unat (c ! 4) + 256 * unat (c ! 5)))) (read_bytes dev off 6));
     let mps = packet_size (bs ! 4) (bs ! 5);
     Some (True, Some \<lparr>PipeType = unat (bs ! 3 AND 3), PipeId = bs ! 2, MaximumPacketSize = mps,
       Interval = bs ! 6, MaximumBytesPerInterval = max_bytes mps companion\<rparr>, w) })"

definition UsbStack_QuerySelectedPipe ::
  "nat \<Rightarrow> UCHAR \<Rightarrow> bool \<Rightarrow> bool \<Rightarrow> libk \<Rightarrow> (bool \<times> pipe_information_ex option \<times> libk) option" where
  "UsbStack_QuerySelectedPipe h ep is_index out_valid =
     require out_valid ERROR_INVALID_PARAMETER (
     with_UsbK h (\<lambda>w. do {
       (d, dev) \<leftarrow> dev_of h w;
       st \<leftarrow> UsbStack dev;
       sel \<leftarrow> selected_alt h w dev st;
       (case sel of
          None \<Rightarrow> fail ERROR_NO_MORE_ITEMS w
        | Some (i, j) \<Rightarrow>
            (case FindPipeEL (get_alt i j st) is_index (uint ep) of
               None \<Rightarrow> fail ERROR_NO_MORE_ITEMS w
             | Some k \<Rightarrow> do {
                 (r, out, w1) \<leftarrow> UsbStack_QueryPipeEx h
                   (word_of_int (CurrentAltSetting (SharedInterfaces dev ! nat (selected h w))))
                   (Pipe_Index (PipeList (get_alt i j st) ! k)) True w;
                 (if \<not> r then Some (False, out, w1) else Some (True, out, w1)) })) }))"

definition UsbStack_GetSuperSpeedPipeCompanionDescriptor ::
  "nat \<Rightarrow> UCHAR \<Rightarrow> UCHAR \<Rightarrow> bool \<Rightarrow> libk \<Rightarrow> (bool \<times> UCHAR list option \<times> libk) option" where
  "UsbStack_GetSuperSpeedPipeCompanionDescriptor h alt_num pipe_idx out_valid =
     with_pipe h alt_num pipe_idx out_valid (\<lambda>dev p w.
       case SuperSpeedCompanionDescriptor p of
         None \<Rightarrow> fail ERROR_NOT_FOUND w
       | Some off \<Rightarrow> do { bs \<leftarrow> read_bytes dev off 6; Some (True, Some bs, w) })"

section \<open>References\<close>

text \<open>A device handle in use, with its device, both far from the largest count.\<close>

definition handle_ok :: "libk \<Rightarrow> nat \<Rightarrow> nat \<Rightarrow> bool" where
  "handle_ok w h d \<longleftrightarrow>
     alive (UsbK w) h \<and> Ref (Handles (UsbK w) ! h) < 2147483646 \<and> Device (sec_body lens_UsbK h w) = Some d \<and>
     alive (DevK w) d \<and> Ref (Handles (DevK w) ! d) < 2147483646 \<and>
     DriverAPI (sec_body lens_DevK d w) \<noteq> None \<and> UsbStack (sec_body lens_DevK d w) \<noteq> None"

lemma handle_okD:
  assumes "handle_ok w h d"
  shows "alive (UsbK w) h" "h < handle_count (UsbK w)" "alive (DevK w) d" "d < handle_count (DevK w)"
    "Device (body (Handles (UsbK w) ! h)) = Some d" "Use (Handles (UsbK w) ! h) = SPINLOCK_HELD"
    "1 \<le> Ref (Handles (DevK w) ! d)"
    "dev_of h w = Some (d, body (Handles (DevK w) ! d))"
  using assms by (auto simp: handle_ok_def alive_def dev_of_def sec_body_def)

lemma slot_free_alive: "slot_free s c \<Longrightarrow> alive s h \<Longrightarrow> c \<noteq> h"
  by (auto simp: slot_free_def alive_def)

text \<open>The slot of a fresh clone.\<close>

definition clone_slot :: "libk \<Rightarrow> nat \<Rightarrow> nat \<Rightarrow> (cleanup, usb_obj) kobj \<Rightarrow> (cleanup, usb_obj) kobj" where
  "clone_slot w h d = (\<lambda>k. k\<lparr>Use := SPINLOCK_HELD, Ref := 1, Disposing := 0,
     UserCleanupCB := None, UserContext := DefaultUserContext (UsbK w), EvtCleanup := EvtCleanup (Handles (UsbK w) ! h),
     body := \<lparr>Device = Some d, Selected_SharedInterface_Index = selected h w, IsClone = True\<rparr>, UserValid := True\<rparr>)"

lemma dev_of_ref [simp]:
  "dev_of h (w\<lparr>UsbK := upd_handle h' (\<lambda>k. k\<lparr>Ref := r k\<rparr>) (UsbK w)\<rparr>) = dev_of h w"
  "selected h (w\<lparr>UsbK := upd_handle h' (\<lambda>k. k\<lparr>Ref := r k\<rparr>) (UsbK w)\<rparr>) = selected h w"
proof -
  have "body (Handles (upd_handle h' (\<lambda>k. k\<lparr>Ref := r k\<rparr>) s) ! h) = body (Handles s ! h)" for s :: "(cleanup, usb_obj) ksection"
    by (cases "h = h'"; cases "h' < length (Handles s)")
      (simp_all add: upd_handle_def list_update_beyond)
  then show "dev_of h (w\<lparr>UsbK := upd_handle h' (\<lambda>k. k\<lparr>Ref := r k\<rparr>) (UsbK w)\<rparr>) = dev_of h w"
    "selected h (w\<lparr>UsbK := upd_handle h' (\<lambda>k. k\<lparr>Ref := r k\<rparr>) (UsbK w)\<rparr>) = selected h w"
    by (simp_all add: dev_of_def selected_def sec_body_def cong: option.case_cong)
qed

definition shared_slot ::
  "cleanup option \<Rightarrow> nat \<Rightarrow> (cleanup, usb_obj) ksection \<Rightarrow> (cleanup, usb_obj) kobj \<Rightarrow> (cleanup, usb_obj) kobj" where
  "shared_slot cb d s = (\<lambda>k. k\<lparr>Use := SPINLOCK_HELD, Ref := 1, Disposing := 0,
     UserValid := False, UserCleanupCB := None, UserContext := DefaultUserContext s, EvtCleanup := cb,
     body := \<lparr>Device = Some d, Selected_SharedInterface_Index = 0, IsClone = True\<rparr>\<rparr>)"

lemma u_Init_Handle_shared:
  assumes "section_ok (UsbK w)" "\<exists>c < handle_count (UsbK w). slot_free (UsbK w) c" "alive (DevK w) d"
  shows "\<exists>c ix. u_Init_Handle (Some d) None cbU cbD w =
           (Some c, w\<lparr>DevK := upd_handle d (\<lambda>k. k\<lparr>Ref := Ref k + 1\<rparr>) (DevK w),
              UsbK := upd_handle c (shared_slot cbU d (UsbK w)) ((UsbK w)\<lparr>Index := ix\<rparr>)\<rparr>) \<and>
           c < handle_count (UsbK w) \<and> slot_free (UsbK w) c"
proof -
  obtain c ix where c: "sec_acquire lens_UsbK Init_Handle_UsbK cbU w =
      (Some c, w\<lparr>UsbK := acquired Init_Handle_UsbK cbU c ((UsbK w)\<lparr>Index := ix\<rparr>)\<rparr>)"
    "c < handle_count (UsbK w)" "slot_free (UsbK w) c"
    using usbk.acquire_free [of w Init_Handle_UsbK cbU] assms(1,2) by auto
  let ?w1 = "w\<lparr>UsbK := acquired Init_Handle_UsbK cbU c ((UsbK w)\<lparr>Index := ix\<rparr>)\<rparr>"
  have "sec_inc lens_DevK d ?w1 = (True, ?w1\<lparr>DevK := upd_handle d (\<lambda>k. k\<lparr>Ref := Ref k + 1\<rparr>) (DevK w)\<rparr>)"
    using devk.inc_alive [of ?w1 d] assms(3) by simp
  then have "u_Init_Handle (Some d) None cbU cbD w =
      (Some c, sec_set_body lens_UsbK c (\<lambda>u. u\<lparr>Device := Some d, IsClone := True\<rparr>)
        (?w1\<lparr>DevK := upd_handle d (\<lambda>k. k\<lparr>Ref := Ref k + 1\<rparr>) (DevK w)\<rparr>))"
    by (simp add: u_Init_Handle_def c(1))
  moreover have "\<dots> = (Some c, w\<lparr>DevK := upd_handle d (\<lambda>k. k\<lparr>Ref := Ref k + 1\<rparr>) (DevK w),
              UsbK := upd_handle c (shared_slot cbU d (UsbK w)) ((UsbK w)\<lparr>Index := ix\<rparr>)\<rparr>)"
    using c(2) by (simp add: sec_set_body_def acquired_def Init_Handle_UsbK_def shared_slot_def)
  ultimately show ?thesis using c(2,3) by (intro exI [of _ c] exI [of _ ix]) simp
qed

lemma CloneHandle_spec:
  assumes "handle_ok w h d" "section_ok (UsbK w)" "\<exists>c < handle_count (UsbK w). slot_free (UsbK w) c"
  shows "\<exists>c ix. UsbStack_CloneHandle h w =
           Some (True, Some c, w\<lparr>DevK := upd_handle d (\<lambda>k. k\<lparr>Ref := Ref k + 1\<rparr>) (DevK w),
                                 UsbK := upd_handle c (clone_slot w h d) ((UsbK w)\<lparr>Index := ix\<rparr>)\<rparr>) \<and>
           c < handle_count (UsbK w) \<and> slot_free (UsbK w) c"
proof -
  note h = handle_okD [OF assms(1)]
  let ?s = "upd_handle h (\<lambda>k. k\<lparr>Ref := Ref k + 1\<rparr>) (UsbK w)"
  let ?w1 = "w\<lparr>UsbK := ?s\<rparr>"
  let ?cb = "EvtCleanup (Handles (UsbK w) ! h)" and ?cbD = "EvtCleanup (Handles (DevK w) ! d)"
  have ss: "shared_slot ?cb d ?s = shared_slot ?cb d (UsbK w)"
    by (simp add: shared_slot_def fun_eq_iff)
  have ok1: "section_ok (UsbK ?w1)" using assms(2) h(2) by (simp add: section_ok_upd)
  have fr: "slot_free ?s c = slot_free (UsbK w) c" for c
    using h(2) by (cases "c = h") (simp_all add: slot_free_def)
  obtain c ix where c: "u_Init_Handle (Some d) None ?cb ?cbD ?w1 =
      (Some c, w\<lparr>DevK := upd_handle d (\<lambda>k. k\<lparr>Ref := Ref k + 1\<rparr>) (DevK w),
              UsbK := upd_handle c (shared_slot ?cb d (UsbK w)) (?s\<lparr>Index := ix\<rparr>)\<rparr>)"
    "c < handle_count (UsbK w)" "slot_free (UsbK w) c"
    using u_Init_Handle_shared [OF ok1, of d ?cb ?cbD] assms(3) h(3) fr ss by auto
  have ch: "c \<noteq> h" using slot_free_alive [OF c(3) h(1)] .
  obtain api st where dev: "DriverAPI (body (Handles (DevK w) ! d)) = Some api" "UsbStack (body (Handles (DevK w) ! d)) = Some st"
    using assms(1) by (auto simp: handle_ok_def sec_body_def)
  let ?v = "w\<lparr>DevK := upd_handle d (\<lambda>k. k\<lparr>Ref := Ref k + 1\<rparr>) (DevK w),
             UsbK := upd_handle c (clone_slot w h d) (?s\<lparr>Index := ix\<rparr>)\<rparr>"
  have body: "(do {
     (d, dev) \<leftarrow> dev_of h ?w1;
     api \<leftarrow> DriverAPI dev;
     st \<leftarrow> UsbStack dev;
     (r, clone, w1) \<leftarrow> UsbStack_Init 0 \<lparr>winusb_DLL = False, has_GetCurrentFrameNumber = False,
         has_ReadIsochPipe = False, has_WriteIsochPipe = False\<rparr> (\<lambda>_. 0)
         (Info_DriverID api) (UsePipeCache st) 0 None (Some d) (\<lambda>_ w. (True, w)) None
         (EvtCleanup (Handles (UsbK ?w1) ! h)) (EvtCleanup (Handles (DevK ?w1) ! d)) ?w1;
     (case clone of
        None \<Rightarrow> Some (False, None, w1)
      | Some c \<Rightarrow> Some (True, Some c, sec_live lens_UsbK c (set_selected c (selected h w1) w1))) }) = Some (True, Some c, ?v)"
    using h(2,8) dev c(1) c(2) ch
    by (simp add: UsbStack_Init_def set_selected_def sec_set_body_def sec_live_def PoolHandle_Live_def
        selected_def sec_body_def clone_slot_def shared_slot_def)
  have "alive (UsbK ?v) h" "1 < Ref (Handles (UsbK ?v) ! h)"
    using h(1,2) assms(1) ch ch [symmetric] by (auto simp: alive_def handle_ok_def)
  then have "UsbStack_CloneHandle h w =
      Some (True, Some c, ?v\<lparr>UsbK := upd_handle h (\<lambda>k. k\<lparr>Ref := Ref k - 1\<rparr>) (UsbK ?v)\<rparr>)"
    unfolding UsbStack_CloneHandle_def by (intro with_UsbK_run h(1) body)
  moreover have "upd_handle h (\<lambda>k. k\<lparr>Ref := Ref k - 1\<rparr>) (UsbK ?v) =
      upd_handle c (clone_slot w h d) ((UsbK w)\<lparr>Index := ix\<rparr>)"
  proof -
    have "upd_handle h (\<lambda>k. k\<lparr>Ref := Ref k - 1\<rparr>) (upd_handle c (clone_slot w h d) (?s\<lparr>Index := ix\<rparr>)) =
        upd_handle c (clone_slot w h d) (upd_handle h (\<lambda>k. k\<lparr>Ref := Ref k - 1\<rparr>) (?s\<lparr>Index := ix\<rparr>))"
      by (rule upd_handle_swap) (rule ch [symmetric])
    also have "upd_handle h (\<lambda>k. k\<lparr>Ref := Ref k - 1\<rparr>) (?s\<lparr>Index := ix\<rparr>) = (UsbK w)\<lparr>Index := ix\<rparr>"
      using h(2) by (simp add: upd_handle_Index upd_handle_id)
    finally show ?thesis by simp
  qed
  ultimately show ?thesis using c(2,3) by (intro exI [of _ c] exI [of _ ix]) simp
qed

text \<open>Releasing a handle that is not the last one of its device.\<close>

lemma UsbK_Free_shared:
  assumes "alive (UsbK w) c" "Ref (Handles (UsbK w) ! c) = 1" "EvtCleanup (Handles (UsbK w) ! c) = Some k_Cleanup_UsbK_cb"
    and "UserCleanupCB (Handles (UsbK w) ! c) = None" "Device (body (Handles (UsbK w) ! c)) = Some d"
    and "alive (DevK w) d" "1 < Ref (Handles (DevK w) ! d)"
  shows "\<exists>f. UsbK_Free c w = (True, w\<lparr>UsbK := upd_handle c f (UsbK w),
             DevK := upd_handle d (\<lambda>k. k\<lparr>Ref := Ref k - 1\<rparr>) (DevK w)\<rparr>) \<and> Use (f (Handles (UsbK w) ! c)) = 0"
proof -
  have c: "c < handle_count (UsbK w)" using assms(1) by (simp add: alive_def)
  let ?D = "usbk.disposing (CurrentThreadId w) c w"
  have D: "?D = w\<lparr>UsbK := upd_handle c (\<lambda>k. k\<lparr>Ref := 0, Disposing := CurrentThreadId w\<rparr>) (UsbK w)\<rparr>"
    by (simp add: usbk.disposing_def)
  obtain g where g: "sec_dead lens_UsbK c ?D = w\<lparr>UsbK := upd_handle c g (UsbK w)\<rparr>"
    "body (g (Handles (UsbK w) ! c)) = body (Handles (UsbK w) ! c)"
  proof (cases "UserValid (Handles (UsbK w) ! c)")
    case True
    show ?thesis
      by (rule that [of "\<lambda>k. k\<lparr>Ref := 0, Disposing := CurrentThreadId w, UserValid := False\<rparr>"])
        (use c True assms(4) in \<open>simp_all add: D sec_dead_def PoolHandle_Dead_def Let_def\<close>)
  next
    case False
    show ?thesis
      by (rule that [of "\<lambda>k. k\<lparr>Ref := 0, Disposing := CurrentThreadId w\<rparr>"])
        (use c False in \<open>simp_all add: D sec_dead_def PoolHandle_Dead_def Let_def\<close>)
  qed
  let ?W = "w\<lparr>UsbK := upd_handle c g (UsbK w)\<rparr>"
  have "Dec_DevK d ?W = (True, ?W\<lparr>DevK := upd_handle d (\<lambda>k. k\<lparr>Ref := Ref k - 1\<rparr>) (DevK w)\<rparr>)"
    using devk.dec_alive [of ?W d] assms(6,7) by (simp add: Dec_DevK_def)
  then have run: "run_UsbK k_Cleanup_UsbK_cb c ?D = ?W\<lparr>DevK := upd_handle d (\<lambda>k. k\<lparr>Ref := Ref k - 1\<rparr>) (DevK w)\<rparr>"
    using g c assms(5) by (simp add: k_Cleanup_UsbK_def sec_body_def)
  then have "Dec_UsbK c w = (False, usbk.freed c (?W\<lparr>DevK := upd_handle d (\<lambda>k. k\<lparr>Ref := Ref k - 1\<rparr>) (DevK w)\<rparr>))"
    using usbk.dec_last [of w c k_Cleanup_UsbK_cb run_UsbK "CurrentThreadId w"] assms(1-3) c
    by (simp add: Dec_UsbK_def)
  then show ?thesis
    using c by (intro exI [of _ "\<lambda>k. (g k)\<lparr>EvtCleanup := None, Use := 0\<rparr>"])
      (simp add: UsbK_Free_def ALLK_VALID_HANDLE_iff usbk.freed_def)
qed

text \<open>
  Releasing the last handle of a device. The user's callbacks are told first about the handle, then
  about the device; a device the library opened is closed.
\<close>

definition close_events :: "dev_obj \<Rightarrow> lib_event list" where
  "close_events dev =
     (if DevicePath dev \<noteq> None \<and> DevicePath dev \<noteq> Some '''' then [CloseHandle (MasterDeviceHandle dev)] else [])"

lemma Dec_DevK_last:
  assumes "alive (DevK w) d" "Ref (Handles (DevK w) ! d) = 1" "EvtCleanup (Handles (DevK w) ! d) = Some k_Cleanup_DevK_cb"
  shows "\<exists>f. Dec_DevK d w = (False, w\<lparr>DevK := upd_handle d f (DevK w),
             Trace := Trace w @ dead_events d (Handles (DevK w) ! d) @ close_events (body (Handles (DevK w) ! d))\<rparr>) \<and>
           Use (f (Handles (DevK w) ! d)) = 0 \<and>
           UsbStack (body (f (Handles (DevK w) ! d))) = None \<and> ConfigDescriptor (body (f (Handles (DevK w) ! d))) = None \<and>
           BackendCtx (body (f (Handles (DevK w) ! d))) = None"
proof -
  have d: "d < handle_count (DevK w)" using assms(1) by (simp add: alive_def)
  let ?k = "Handles (DevK w) ! d"
  let ?e = "dead_events d ?k @ close_events (body ?k)"
  let ?g = "\<lambda>k. dead_kobj (k\<lparr>Ref := 0, Disposing := CurrentThreadId w\<rparr>)"
  let ?D = "devk.disposing (CurrentThreadId w) d w"
  have ev: "dead_events d (?k\<lparr>Ref := 0, Disposing := CurrentThreadId w\<rparr>) = dead_events d ?k"
    by (simp add: dead_events_def split: option.split)
  have dead: "sec_dead lens_DevK d ?D =
      w\<lparr>DevK := upd_handle d ?g (DevK w), Trace := Trace w @ dead_events d ?k\<rparr>"
    using devk.dead_eq [of d ?D] d ev by (simp add: devk.disposing_def log_events)
  obtain f where f: "k_Cleanup_DevK d ?D = w\<lparr>DevK := upd_handle d f (DevK w), Trace := Trace w @ ?e\<rparr>"
    "UsbStack (body (f ?k)) = None" "ConfigDescriptor (body (f ?k)) = None" "BackendCtx (body (f ?k)) = None"
  proof (cases "DevicePath (body ?k) \<noteq> None \<and> DevicePath (body ?k) \<noteq> Some ''''")
    case True
    show ?thesis
      by (rule that [of "\<lambda>k. let k1 = ?g k in k1\<lparr>body := (body k1)\<lparr>DevicePath := None, UsbStack := None,
            ConfigDescriptor := None, BackendCtx := None\<rparr>\<rparr>"])
        (use True d dead in \<open>simp_all add: k_Cleanup_DevK_def sec_body_def sec_set_body_def close_events_def
          log_event_def Let_def\<close>)
  next
    case False
    show ?thesis
      by (rule that [of "\<lambda>k. let k1 = ?g k in k1\<lparr>body := (body k1)\<lparr>UsbStack := None,
            ConfigDescriptor := None, BackendCtx := None\<rparr>\<rparr>"])
        (use False d dead in \<open>auto simp: k_Cleanup_DevK_def sec_body_def sec_set_body_def close_events_def Let_def\<close>)
  qed
  then have "Dec_DevK d w = (False, devk.freed d (w\<lparr>DevK := upd_handle d f (DevK w), Trace := Trace w @ ?e\<rparr>))"
    using devk.dec_last [of w d k_Cleanup_DevK_cb run_DevK "CurrentThreadId w"] assms d by (simp add: Dec_DevK_def)
  then show ?thesis
    using f d by (intro exI [of _ "\<lambda>k. (f k)\<lparr>EvtCleanup := None, Use := 0\<rparr>"]) (simp add: devk.freed_def)
qed

lemma UsbK_Free_last:
  assumes "alive (UsbK w) h" "Ref (Handles (UsbK w) ! h) = 1" "EvtCleanup (Handles (UsbK w) ! h) = Some k_Cleanup_UsbK_cb"
    and "Device (body (Handles (UsbK w) ! h)) = Some d"
    and "alive (DevK w) d" "Ref (Handles (DevK w) ! d) = 1" "EvtCleanup (Handles (DevK w) ! d) = Some k_Cleanup_DevK_cb"
  shows "\<exists>f g. UsbK_Free h w = (True, w\<lparr>UsbK := upd_handle h g (UsbK w), DevK := upd_handle d f (DevK w),
             Trace := Trace w @ dead_events h (Handles (UsbK w) ! h) @ dead_events d (Handles (DevK w) ! d) @
                      close_events (body (Handles (DevK w) ! d))\<rparr>) \<and>
           Use (g (Handles (UsbK w) ! h)) = 0 \<and> Use (f (Handles (DevK w) ! d)) = 0 \<and>
           UsbStack (body (f (Handles (DevK w) ! d))) = None \<and> ConfigDescriptor (body (f (Handles (DevK w) ! d))) = None \<and>
           BackendCtx (body (f (Handles (DevK w) ! d))) = None"
proof -
  have h: "h < handle_count (UsbK w)" using assms(1) by (simp add: alive_def)
  let ?k = "Handles (UsbK w) ! h"
  let ?g = "\<lambda>k. dead_kobj (k\<lparr>Ref := 0, Disposing := CurrentThreadId w\<rparr>)"
  let ?D = "usbk.disposing (CurrentThreadId w) h w"
  have ev: "dead_events h (?k\<lparr>Ref := 0, Disposing := CurrentThreadId w\<rparr>) = dead_events h ?k"
    by (simp add: dead_events_def split: option.split)
  let ?W = "w\<lparr>UsbK := upd_handle h ?g (UsbK w), Trace := Trace w @ dead_events h ?k\<rparr>"
  have dead: "sec_dead lens_UsbK h ?D = ?W"
    using usbk.dead_eq [of h ?D] h ev by (simp add: usbk.disposing_def log_events)
  obtain f where f: "Dec_DevK d ?W = (False, ?W\<lparr>DevK := upd_handle d f (DevK w),
             Trace := Trace ?W @ dead_events d (Handles (DevK w) ! d) @ close_events (body (Handles (DevK w) ! d))\<rparr>)"
    "Use (f (Handles (DevK w) ! d)) = 0"
    "UsbStack (body (f (Handles (DevK w) ! d))) = None" "ConfigDescriptor (body (f (Handles (DevK w) ! d))) = None"
    "BackendCtx (body (f (Handles (DevK w) ! d))) = None"
    using Dec_DevK_last [of ?W d] assms(5-7) by auto
  have "run_UsbK k_Cleanup_UsbK_cb h ?D = ?W\<lparr>DevK := upd_handle d f (DevK w),
             Trace := Trace ?W @ dead_events d (Handles (DevK w) ! d) @ close_events (body (Handles (DevK w) ! d))\<rparr>"
    using dead h assms(4) f(1) by (simp add: k_Cleanup_UsbK_def sec_body_def)
  then have "Dec_UsbK h w = (False, usbk.freed h (?W\<lparr>DevK := upd_handle d f (DevK w),
             Trace := Trace ?W @ dead_events d (Handles (DevK w) ! d) @ close_events (body (Handles (DevK w) ! d))\<rparr>))"
    using usbk.dec_last [of w h k_Cleanup_UsbK_cb run_UsbK "CurrentThreadId w"] assms(1-3) h
    by (simp add: Dec_UsbK_def)
  then show ?thesis
    using h f(2-) by (intro exI [of _ f] exI [of _ "\<lambda>k. (?g k)\<lparr>EvtCleanup := None, Use := 0\<rparr>"])
      (simp add: UsbK_Free_def ALLK_VALID_HANDLE_iff usbk.freed_def)
qed

section \<open>Properties\<close>

text \<open>A library with one opened device and a second, free, slot for device handles.\<close>

definition example_dev :: dev_obj where
  "example_dev = \<lparr>MasterDeviceHandle = 44, MasterInterfaceHandle = 0, DevicePath = Some ''usb'',
     ConfigDescriptor = Some example_config,
     SharedInterfaces = [\<lparr>InterfaceHandle = 0, SI_ID = 3, SI_Index = 0, Claimed = False, CurrentAltSetting = 0\<rparr>],
     DriverAPI = Some zero_api,
     UsbStack = Some \<lparr>UsePipeCache = False, PipeCache = replicate 32 0, InterfaceList =
       [\<lparr>Intf_ID = 3, Intf_Index = 0, SharedInterface = 0, AltInterfaceList =
          [\<lparr>Alt_ID = 0, Alt_Index = 0, Alt_Descriptor = 9, PipeList =
             [\<lparr>Pipe_ID = 0x81, Pipe_Index = 0, Pipe_Descriptor = 18, SuperSpeedCompanionDescriptor = Some 25\<rparr>],
            PipeCount = 1\<rparr>], AltInterfaceCount = 1\<rparr>], InterfaceCount = 1\<rparr>,
     BackendCtx = None\<rparr>"

definition example_kobj :: "LONG \<Rightarrow> LONG \<Rightarrow> cleanup \<Rightarrow> 'o \<Rightarrow> (cleanup, 'o) kobj" where
  "example_kobj use ref cb b = \<lparr>Use = use, Ref = ref, Disposing = 0, EvtCleanup = Some cb, UserValid = True,
     UserCleanupCB = None, UserContext = 0, body = b\<rparr>"

definition example_usb :: usb_obj where
  "example_usb = \<lparr>Device = Some 0, Selected_SharedInterface_Index = 0, IsClone = False\<rparr>"

definition empty_section :: "('c, 'o) ksection" where
  "empty_section = \<lparr>Index = 0, DefaultUserContext = 0, Handles = []\<rparr>"

definition example_libk :: "LONG \<Rightarrow> libk" where
  "example_libk dev_refs = \<lparr>LastError = 0, CurrentThreadId = 7,
     UsbK = \<lparr>Index = 0, DefaultUserContext = 0, Handles =
        [example_kobj SPINLOCK_HELD 1 k_Cleanup_UsbK_cb example_usb, example_kobj 0 0 k_Cleanup_UsbK_cb example_usb]\<rparr>,
     DevK = \<lparr>Index = 0, DefaultUserContext = 0, Handles =
        [example_kobj SPINLOCK_HELD dev_refs k_Cleanup_DevK_cb example_dev]\<rparr>,
     OvlK = empty_section, OvlPoolK = empty_section, IsochK = empty_section, StmK = empty_section,
     OvlHeap = \<lparr>nxt = (\<lambda>_. 0), prv = (\<lambda>_. 0)\<rparr>, OvlElHandle = (\<lambda>_. None), OvlBrk = 1, AllocPlan = [],
     NextEvent = 1, IoCount = 0, Trace = []\<rparr>"

lemma example_libk_ok:
  "handle_ok (example_libk 1) 0 0" "section_ok (UsbK (example_libk 1))"
  "\<exists>c < handle_count (UsbK (example_libk 1)). slot_free (UsbK (example_libk 1)) c"
  "EvtCleanup (Handles (UsbK (example_libk 1)) ! 0) = Some k_Cleanup_UsbK_cb"
proof -
  have n: "handle_count (UsbK (example_libk 1)) = 2" by (simp add: example_libk_def handle_count_def)
  show "handle_ok (example_libk 1) 0 0"
    by (simp add: handle_ok_def alive_def handle_count_def sec_body_def example_libk_def example_kobj_def
        example_usb_def example_dev_def)
  show "section_ok (UsbK (example_libk 1))"
    by (simp add: section_ok_def n) (simp add: locks_ok_def example_libk_def example_kobj_def)
  show "\<exists>c < handle_count (UsbK (example_libk 1)). slot_free (UsbK (example_libk 1)) c"
    by (rule exI [of _ 1]) (simp add: n, simp add: slot_free_def example_libk_def example_kobj_def)
  show "EvtCleanup (Handles (UsbK (example_libk 1)) ! 0) = Some k_Cleanup_UsbK_cb"
    by (simp add: example_libk_def example_kobj_def)
qed

text \<open>
  Cloning a device handle: with a free slot the clone is a new handle on the same device, with
  one reference, the selected interface of the original and its cleanup routine. The device gains
  one reference and nothing else of the library changes: the original is referenced as before.
\<close>

theorem UsbStack_CloneHandle_spec:
  assumes "handle_ok w h d" "section_ok (UsbK w)" "\<exists>c < handle_count (UsbK w). slot_free (UsbK w) c"
  shows "\<exists>c ix. UsbStack_CloneHandle h w =
           Some (True, Some c, w\<lparr>DevK := upd_handle d (\<lambda>k. k\<lparr>Ref := Ref k + 1\<rparr>) (DevK w),
                                 UsbK := upd_handle c (clone_slot w h d) ((UsbK w)\<lparr>Index := ix\<rparr>)\<rparr>) \<and>
           c < handle_count (UsbK w) \<and> slot_free (UsbK w) c \<and> c \<noteq> h"
  using CloneHandle_spec [OF assms] slot_free_alive handle_okD(1) [OF assms(1)] by blast

theorem UsbStack_CloneHandle_spec_witness:
  "\<exists>w'. UsbStack_CloneHandle 0 (example_libk 1) = Some (True, Some 1, w') \<and> Ref (Handles (DevK w') ! 0) = 2"
proof -
  obtain c ix where c: "UsbStack_CloneHandle 0 (example_libk 1) =
      Some (True, Some c, (example_libk 1)\<lparr>DevK := upd_handle 0 (\<lambda>k. k\<lparr>Ref := Ref k + 1\<rparr>) (DevK (example_libk 1)),
        UsbK := upd_handle c (clone_slot (example_libk 1) 0 0) ((UsbK (example_libk 1))\<lparr>Index := ix\<rparr>)\<rparr>)"
    "c < handle_count (UsbK (example_libk 1))" "c \<noteq> 0"
    using UsbStack_CloneHandle_spec [OF example_libk_ok(1-3)] by blast
  moreover have "handle_count (UsbK (example_libk 1)) = 2" by (simp add: example_libk_def handle_count_def)
  ultimately have "c = 1" by simp
  moreover have "Ref (Handles (upd_handle 0 (\<lambda>k. k\<lparr>Ref := Ref k + 1\<rparr>) (DevK (example_libk 1))) ! 0) = 2"
    by (simp add: upd_handle_def example_libk_def example_kobj_def)
  ultimately show ?thesis using c(1) by (intro exI) (auto intro: conjI)
qed

text \<open>
  C17. Cloning and then freeing the clone gives back what was taken: the device's count and every
  device handle but the slot of the clone are as before, and that slot is free again.
\<close>

theorem clone_then_free:
  assumes "handle_ok w h d" "section_ok (UsbK w)" "\<exists>c < handle_count (UsbK w). slot_free (UsbK w) c"
    and "EvtCleanup (Handles (UsbK w) ! h) = Some k_Cleanup_UsbK_cb"
  shows "\<exists>c w1 w2. UsbStack_CloneHandle h w = Some (True, Some c, w1) \<and> UsbK_Free c w1 = (True, w2) \<and>
           DevK w2 = DevK w \<and> slot_free (UsbK w2) c \<and>
           (\<forall>h'. h' \<noteq> c \<longrightarrow> Handles (UsbK w2) ! h' = Handles (UsbK w) ! h')"
proof -
  obtain c ix where c: "UsbStack_CloneHandle h w =
           Some (True, Some c, w\<lparr>DevK := upd_handle d (\<lambda>k. k\<lparr>Ref := Ref k + 1\<rparr>) (DevK w),
                                 UsbK := upd_handle c (clone_slot w h d) ((UsbK w)\<lparr>Index := ix\<rparr>)\<rparr>)"
    "c < handle_count (UsbK w)"
    using CloneHandle_spec [OF assms(1-3)] by blast
  let ?w1 = "w\<lparr>DevK := upd_handle d (\<lambda>k. k\<lparr>Ref := Ref k + 1\<rparr>) (DevK w),
              UsbK := upd_handle c (clone_slot w h d) ((UsbK w)\<lparr>Index := ix\<rparr>)\<rparr>"
  note h = handle_okD [OF assms(1)]
  have "Ref (Handles (DevK w) ! d) < 2147483646" using assms(1) by (simp add: handle_ok_def)
  then have d: "alive (DevK ?w1) d" "1 < Ref (Handles (DevK ?w1) ! d)"
    using h(3,4) by (auto simp: alive_def)
  have k: "alive (UsbK ?w1) c" "Ref (Handles (UsbK ?w1) ! c) = 1"
    "EvtCleanup (Handles (UsbK ?w1) ! c) = Some k_Cleanup_UsbK_cb"
    "UserCleanupCB (Handles (UsbK ?w1) ! c) = None" "Device (body (Handles (UsbK ?w1) ! c)) = Some d"
    using c(2) assms(4) by (simp_all add: clone_slot_def alive_def)
  obtain f where f: "UsbK_Free c ?w1 = (True, ?w1\<lparr>UsbK := upd_handle c f (UsbK ?w1),
             DevK := upd_handle d (\<lambda>k. k\<lparr>Ref := Ref k - 1\<rparr>) (DevK ?w1)\<rparr>)" "Use (f (Handles (UsbK ?w1) ! c)) = 0"
    using UsbK_Free_shared [OF k d] by blast
  have "upd_handle d (\<lambda>k. k\<lparr>Ref := Ref k - 1\<rparr>) (DevK ?w1) = DevK w"
    using h(4) by (simp add: upd_handle_id)
  then show ?thesis
    by (rule_tac exI [of _ c], rule_tac exI [of _ ?w1],
        rule_tac exI [of _ "?w1\<lparr>UsbK := upd_handle c f (UsbK ?w1), DevK := DevK w\<rparr>"])
      (use c f in \<open>simp add: slot_free_def\<close>)
qed

theorem clone_then_free_witness:
  "\<exists>c w1 w2. UsbStack_CloneHandle 0 (example_libk 1) = Some (True, Some c, w1) \<and> UsbK_Free c w1 = (True, w2) \<and>
     DevK w2 = DevK (example_libk 1)"
  using clone_then_free [OF example_libk_ok] by blast

text \<open>
  C6. Freeing the last handle of a device releases both pool slots and everything the device
  holds: the interface tree, the configuration descriptor and the backend context. The user's
  cleanup callbacks run once each, first for the handle and then for the device, and after them
  the device file is closed if the library opened it.
\<close>

theorem UsbK_Free_last_handle:
  assumes "alive (UsbK w) h" "Ref (Handles (UsbK w) ! h) = 1" "EvtCleanup (Handles (UsbK w) ! h) = Some k_Cleanup_UsbK_cb"
    and "Device (body (Handles (UsbK w) ! h)) = Some d"
    and "alive (DevK w) d" "Ref (Handles (DevK w) ! d) = 1" "EvtCleanup (Handles (DevK w) ! d) = Some k_Cleanup_DevK_cb"
  shows "\<exists>w'. UsbK_Free h w = (True, w') \<and> slot_free (UsbK w') h \<and> slot_free (DevK w') d \<and>
           UsbStack (sec_body lens_DevK d w') = None \<and> ConfigDescriptor (sec_body lens_DevK d w') = None \<and>
           BackendCtx (sec_body lens_DevK d w') = None \<and>
           Trace w' = Trace w @ dead_events h (Handles (UsbK w) ! h) @ dead_events d (Handles (DevK w) ! d) @
                      close_events (body (Handles (DevK w) ! d))"
proof -
  have "h < handle_count (UsbK w)" "d < handle_count (DevK w)" using assms(1,5) by (auto simp: alive_def)
  with UsbK_Free_last [OF assms] show ?thesis by (fastforce simp: slot_free_def sec_body_def)
qed

theorem UsbK_Free_last_handle_witness:
  "\<exists>w'. UsbK_Free 0 (example_libk 1) = (True, w') \<and> Trace w' = [CloseHandle 44]"
  using UsbK_Free_last_handle [of "example_libk 1" 0 0]
  by (auto simp: example_libk_def example_kobj_def example_usb_def alive_def handle_count_def
      dead_events_def close_events_def example_dev_def)

lemma dev_ref_add_undo:
  assumes "d < handle_count (DevK w)" "is_long (Ref (Handles (DevK w) ! d))"
  shows "dev_ref_add d 1 (dev_ref_add d (-1) w) = w"
proof -
  let ?r = "Ref (Handles (DevK w) ! d)"
  have "(to_long (?r - 1) + 1) mod 2 ^ 32 = (to_long (?r - 1) mod 2 ^ 32 + 1) mod 2 ^ 32"
    by (metis mod_add_left_eq)
  also have "\<dots> = ?r mod 2 ^ 32" by (simp only: to_long_mod) (metis diff_add_cancel mod_add_left_eq)
  finally have "to_long (to_long (?r - 1) + 1) = ?r"
    using to_long_cong assms(2) by (metis to_long_id)
  then show ?thesis using assms(1) by (simp add: dev_ref_add_def upd_handle_id)
qed

lemma Rebuild_refused:
  assumes "dev_of h w = Some (d, dev)" "d < handle_count (DevK w)" "is_long (Ref (Handles (DevK w) ! d))"
    and "Ref (Handles (DevK w) ! d) \<noteq> 2"
  shows "UsbStack_Rebuild fuel h init_config w = Some (False, SetLastError ERROR_RESOURCE_NOT_AVAILABLE w)"
proof -
  have "to_long (Ref (Handles (DevK w) ! d) - 1) \<noteq> 1"
  proof
    assume a: "to_long (Ref (Handles (DevK w) ! d) - 1) = 1"
    have "to_long (to_long (Ref (Handles (DevK w) ! d) - 1) + 1) = to_long (Ref (Handles (DevK w) ! d))"
      by (rule to_long_cong) (metis (no_types) diff_add_cancel mod_add_left_eq to_long_mod)
    then have "Ref (Handles (DevK w) ! d) = to_long 2" using a assms(3) by simp
    also have "to_long 2 = 2" by (rule to_long_id) (simp add: is_long_def)
    finally show False using assms(4) by simp
  qed
  then have "Ref (Handles (DevK (dev_ref_add d (-1) w)) ! d) \<noteq> 1"
    using assms(2) by (simp add: dev_ref_add_def)
  then show ?thesis
    using assms(1) dev_ref_add_undo [OF assms(2,3)] by (simp add: UsbStack_Rebuild_def Let_def)
qed

text \<open>
  Rebuilding the interface tree after a change of configuration is refused, with nothing
  changed but the last error, unless the device is referenced exactly twice. A device that one
  handle has opened is referenced once, so for a handle without a clone the rebuild always fails.
\<close>

theorem UsbStack_Rebuild_needs_two_references:
  assumes "dev_of h w = Some (d, dev)" "d < handle_count (DevK w)" "is_long (Ref (Handles (DevK w) ! d))"
    and "Ref (Handles (DevK w) ! d) \<noteq> 2"
  shows "UsbStack_Rebuild fuel h init_config w = Some (False, SetLastError ERROR_RESOURCE_NOT_AVAILABLE w)"
  by (rule Rebuild_refused [OF assms])

theorem UsbStack_Rebuild_needs_two_references_witness:
  "UsbStack_Rebuild 9 0 (\<lambda>_ w. (True, w)) (example_libk 1) =
     Some (False, SetLastError ERROR_RESOURCE_NOT_AVAILABLE (example_libk 1))"
  using UsbStack_Rebuild_needs_two_references [OF handle_okD(8,4) [OF example_libk_ok(1)], of 9 "\<lambda>_ w. (True, w)"]
    handle_okD(4) [OF example_libk_ok(1)]
  by (simp add: example_libk_def example_kobj_def is_long_def)

text \<open>Bodies that only read, or only write the body of the handle itself.\<close>

lemma with_UsbK_read:
  assumes "handle_ok w h d" "bdy (w\<lparr>UsbK := upd_handle h (\<lambda>k. k\<lparr>Ref := Ref k + 1\<rparr>) (UsbK w)\<rparr>) =
     Some (r, out, F (w\<lparr>UsbK := upd_handle h (\<lambda>k. k\<lparr>Ref := Ref k + 1\<rparr>) (UsbK w)\<rparr>))"
    and "F = (\<lambda>w. w) \<or> (\<exists>e. F = SetLastError e) \<or> (\<exists>i. F = set_selected h i)"
  shows "with_UsbK h bdy w = Some (r, out, F w)"
proof -
  note h = handle_okD [OF assms(1)]
  let ?w1 = "w\<lparr>UsbK := upd_handle h (\<lambda>k. k\<lparr>Ref := Ref k + 1\<rparr>) (UsbK w)\<rparr>"
  have sel: "upd_handle h (\<lambda>k. k\<lparr>Ref := Ref k + 1, body := g (body k), Ref := Ref k\<rparr>) s =
      upd_handle h (\<lambda>k. k\<lparr>body := g (body k)\<rparr>) s" for g and s :: "(cleanup, usb_obj) ksection"
    by (rule upd_handle_cong) (cases "Handles s ! h", simp)
  have "alive (UsbK (F ?w1)) h" "1 < Ref (Handles (UsbK (F ?w1)) ! h)"
    using assms(1,3) h(2) by (auto simp: alive_def handle_ok_def SetLastError_def set_selected_def sec_set_body_def)
  then have "with_UsbK h bdy w = Some (r, out, (F ?w1)\<lparr>UsbK := upd_handle h (\<lambda>k. k\<lparr>Ref := Ref k - 1\<rparr>) (UsbK (F ?w1))\<rparr>)"
    using assms(2) by (intro with_UsbK_run h(1))
  moreover have "(F ?w1)\<lparr>UsbK := upd_handle h (\<lambda>k. k\<lparr>Ref := Ref k - 1\<rparr>) (UsbK (F ?w1))\<rparr> = F w"
    using assms(3) h(2) sel
    by (auto simp: SetLastError_def set_selected_def sec_set_body_def upd_handle_id)
  ultimately show ?thesis by simp
qed

text \<open>
  Selecting an interface by number or index: if the tree has it, it becomes the selected one of
  this handle; if not, the call fails with \<open>ERROR_NO_MORE_ITEMS\<close>. Nothing else changes either way.
\<close>

theorem UsbStack_SelectInterface_spec:
  assumes "handle_ok w h d" "UsbStack (sec_body lens_DevK d w) = Some st" "n \<le> 0x7F"
  shows "UsbStack_SelectInterface h n is_index w =
     (case FindInterfaceEL st is_index (uint n) of
        None \<Rightarrow> Some (False, None, SetLastError ERROR_NO_MORE_ITEMS w)
      | Some i \<Rightarrow> Some (True, None, set_selected h (uint (Intf_Index (InterfaceList st ! i))) w))"
proof -
  note h = handle_okD [OF assms(1)]
  have st: "UsbStack (body (Handles (DevK w) ! d)) = Some st" using assms(2) by (simp add: sec_body_def)
  show ?thesis
  proof (cases "FindInterfaceEL st is_index (uint n)")
    case None
    then show ?thesis
      using assms(3) h(8) st unfolding UsbStack_SelectInterface_def require_def
      by (simp, intro with_UsbK_read [OF assms(1)]) (auto simp: fail_def)
  next
    case (Some i)
    then show ?thesis
      using assms(3) h(8) st unfolding UsbStack_SelectInterface_def require_def
      by (simp, intro with_UsbK_read [OF assms(1)]) auto
  qed
qed

theorem UsbStack_SelectInterface_spec_witness:
  "UsbStack_SelectInterface 0 3 False (example_libk 1) = Some (True, None, set_selected 0 0 (example_libk 1)) \<and>
   UsbStack_SelectInterface 0 4 False (example_libk 1) =
     Some (False, None, SetLastError ERROR_NO_MORE_ITEMS (example_libk 1))"
  using UsbStack_SelectInterface_spec [OF example_libk_ok(1), of _ 3 False]
    UsbStack_SelectInterface_spec [OF example_libk_ok(1), of _ 4 False]
  by (simp add: sec_body_def FindInterfaceEL_def) (simp add: example_libk_def example_kobj_def example_dev_def)

lemma unat_and_3: "unat (x AND 3 :: UCHAR) = unat x mod 4"
proof -
  have "x AND 3 = take_bit 2 x" by (simp add: take_bit_eq_mask mask_numeral)
  then show ?thesis by (simp add: take_bit_eq_mod unat_mod_distrib)
qed

lemma unat_packet_size:
  "unat (packet_size lo hi) =
     (unat lo + 256 * unat hi) mod 2048 * ((unat lo + 256 * unat hi) div 2048 mod 4 + 1)"
proof -
  let ?m = "unat lo + 256 * unat hi"
  have "?m mod 2048 * (?m div 2048 mod 4 + 1) \<le> 2047 * 4"
    by (intro mult_le_mono) auto
  then have "?m mod 2048 * (?m div 2048 mod 4 + 1) < 2 ^ 16" by simp
  then show ?thesis
    unfolding packet_size_def Let_def by (intro unat_word_of_nat) simp
qed

text \<open>
  Querying a pipe reports the fields of its endpoint descriptor; the packet size is the base
  size times the number of transactions per microframe, without overflow. The bytes per interval
  are those of the companion descriptor if it has them, otherwise one packet size. The state of
  the library does not change.
\<close>

theorem UsbStack_QueryPipeEx_spec:
  assumes "handle_ok w h d" "sec_body lens_DevK d w = dev" "UsbStack dev = Some st" "alt \<le> 0x7F" "idx \<le> 0x1F"
    and "find_pipe h alt idx w st = Some p" "read_bytes dev (Pipe_Descriptor p) 7 = Some bs"
    and "SuperSpeedCompanionDescriptor p = Some off" "read_bytes dev off 6 = Some c"
  shows "\<exists>info. UsbStack_QueryPipeEx h alt idx True w = Some (True, Some info, w) \<and>
     PipeId info = bs ! 2 \<and> Interval info = bs ! 6 \<and> PipeType info = unat (bs ! 3) mod 4 \<and>
     (let m = unat (bs ! 4) + 256 * unat (bs ! 5); bpi = unat (c ! 4) + 256 * unat (c ! 5) in
      unat (MaximumPacketSize info) = m mod 2048 * (m div 2048 mod 4 + 1) \<and>
      unat (MaximumBytesPerInterval info) = (if bpi = 0 then unat (MaximumPacketSize info) else bpi))"
proof -
  note h = handle_okD [OF assms(1)]
  let ?bpi = "unat (c ! 4) + 256 * unat (c ! 5)"
  let ?mps = "packet_size (bs ! 4) (bs ! 5)"
  let ?info = "\<lparr>PipeType = unat (bs ! 3 AND 3), PipeId = bs ! 2, MaximumPacketSize = ?mps,
       Interval = bs ! 6, MaximumBytesPerInterval = max_bytes ?mps (Some (word_of_nat ?bpi))\<rparr>"
  have fp: "find_pipe h alt idx (w\<lparr>UsbK := upd_handle h' (\<lambda>k. k\<lparr>Ref := r k\<rparr>) (UsbK w)\<rparr>) st = Some p" for h' r
    using assms(6) unfolding find_pipe_def by simp
  have st: "body (Handles (DevK w) ! d) = dev" using assms(2) by (simp add: sec_body_def)
  have run: "UsbStack_QueryPipeEx h alt idx True w = Some (True, Some ?info, w)"
    unfolding UsbStack_QueryPipeEx_def with_pipe_def require_def using assms(4,5)
    by (simp, intro with_UsbK_read [OF assms(1), where F = "\<lambda>w. w"])
      (use h(8) st assms(3,7-9) fp in \<open>simp_all add: Let_def\<close>)
  have b: "?bpi < 2 ^ 32"
    using unsigned_less [of "c ! 4", where ?'a = nat] unsigned_less [of "c ! 5", where ?'a = nat] by simp
  then have u: "unat (word_of_nat ?bpi :: ULONG) = ?bpi"
    by (intro unat_word_of_nat) simp
  have z: "(word_of_nat n = (0 :: ULONG)) = (n = 0)" if "unat (word_of_nat n :: ULONG) = n" for n
    using that by (cases "n = 0") auto
  have "unat (ucast ?mps :: ULONG) = unat ?mps"
    by (simp add: unsigned_ucast_eq take_bit_nat_eq_self unsigned_less [THEN less_le_trans])
  then have "unat (max_bytes ?mps (Some (word_of_nat ?bpi))) = (if ?bpi = 0 then unat ?mps else ?bpi)"
    unfolding max_bytes_def option.case z [OF u] using u by (simp only: if_distrib [where f = unat])
  then show ?thesis
    using run unat_packet_size unat_and_3 by (intro exI [of _ ?info]) (simp add: Let_def)
qed

theorem UsbStack_QueryPipeEx_spec_witness:
  "\<exists>info. UsbStack_QueryPipeEx 0 0 0 True (example_libk 1) = Some (True, Some info, example_libk 1) \<and>
     PipeId info = 0x81 \<and> unat (MaximumPacketSize info) = 1024"
proof -
  have dev: "sec_body lens_DevK 0 (example_libk 1) = example_dev"
    by (simp add: sec_body_def example_libk_def example_kobj_def)
  obtain st where st: "UsbStack example_dev = Some st" by (simp add: example_dev_def)
  have p: "find_pipe 0 0 0 (example_libk 1) st =
      Some \<lparr>Pipe_ID = 0x81, Pipe_Index = 0, Pipe_Descriptor = 18, SuperSpeedCompanionDescriptor = Some 25\<rparr>"
    using st by (auto simp: find_pipe_def FindInterfaceEL_def FindAltInterfaceEL_def FindPipeEL_def get_alt_def
      selected_def sec_body_def example_libk_def example_kobj_def example_usb_def example_dev_def)
  have r: "read_bytes example_dev 18 7 = Some [7, 5, 0x81, 2, 0, 4, 0]" "read_bytes example_dev 25 6 = Some [6, 0x30, 0, 0, 0, 0]"
    by (simp_all add: read_bytes_def example_dev_def example_config_def)
  show ?thesis
    using UsbStack_QueryPipeEx_spec [OF example_libk_ok(1) dev st _ _ p, of "[7, 5, 0x81, 2, 0, 4, 0]" 25 "[6, 0x30, 0, 0, 0, 0]"] r
    by (auto simp: Let_def)
qed

text \<open>
  When the memory block of a new device cannot be allocated, opening fails with
  \<open>ERROR_NOT_ENOUGH_MEMORY\<close> but does not release what it took: a slot of the device handles and
  a slot of the devices stay in use, with one reference nobody holds.
\<close>

theorem UsbStack_Init_leaks_without_memory:
  assumes "section_ok (UsbK w)" "\<exists>c < handle_count (UsbK w). slot_free (UsbK w) c"
    and "section_ok (DevK w)" "\<exists>c < handle_count (DevK w). slot_free (DevK w) c"
    and "IsHandleValid dh" "AllocPlan w = False # plan"
  shows "\<exists>h d w'. UsbStack_Init fuel l open_dev did use_cache dh None None cfg None cb_usb cb_dev w = Some (False, None, w') \<and>
     LastError w' = ERROR_NOT_ENOUGH_MEMORY \<and>
     slot_free (UsbK w) h \<and> \<not> slot_free (UsbK w') h \<and> Ref (Handles (UsbK w') ! h) = 1 \<and>
     slot_free (DevK w) d \<and> \<not> slot_free (DevK w') d \<and> Ref (Handles (DevK w') ! d) = 1"
proof -
  obtain h ix where h: "sec_acquire lens_UsbK Init_Handle_UsbK cb_usb w =
      (Some h, w\<lparr>UsbK := acquired Init_Handle_UsbK cb_usb h ((UsbK w)\<lparr>Index := ix\<rparr>)\<rparr>)"
    "h < handle_count (UsbK w)" "slot_free (UsbK w) h"
    using usbk.acquire_free [of w Init_Handle_UsbK cb_usb] assms(1,2) by auto
  let ?w1 = "w\<lparr>UsbK := acquired Init_Handle_UsbK cb_usb h ((UsbK w)\<lparr>Index := ix\<rparr>)\<rparr>"
  obtain d iy where d: "sec_acquire lens_DevK Init_Handle_DevK cb_dev ?w1 =
      (Some d, ?w1\<lparr>DevK := acquired Init_Handle_DevK cb_dev d ((DevK w)\<lparr>Index := iy\<rparr>)\<rparr>)"
    "d < handle_count (DevK w)" "slot_free (DevK w) d"
    using devk.acquire_free [of ?w1 Init_Handle_DevK cb_dev] assms(3,4) by auto
  have "u_Init_Handle None None cb_usb cb_dev w =
      (Some h, sec_set_body lens_UsbK h (\<lambda>u. u\<lparr>Device := Some d\<rparr>)
         (?w1\<lparr>DevK := acquired Init_Handle_DevK cb_dev d ((DevK w)\<lparr>Index := iy\<rparr>)\<rparr>))"
    by (simp add: u_Init_Handle_def h(1) d(1))
  then show ?thesis
    using h(2,3) d(2,3) assms(5,6)
    by (intro exI [of _ h] exI [of _ d] exI)
      (auto simp: UsbStack_Init_def dev_of_def sec_body_def sec_set_body_def acquired_def Mem_Alloc_def take_alloc_def
        SetLastError_def slot_free_def Let_def intro!: conjI)
qed

theorem UsbStack_Init_leaks_without_memory_witness:
  "\<exists>w'. UsbStack_Init 0 \<lparr>winusb_DLL = False, has_GetCurrentFrameNumber = False, has_ReadIsochPipe = False,
       has_WriteIsochPipe = False\<rparr> (\<lambda>_. 0) 0 False 44 None None (\<lambda>_ w. (True, w)) None None None
     ((example_libk 1)\<lparr>DevK := \<lparr>Index = 0, DefaultUserContext = 0, Handles = [example_kobj 0 0 k_Cleanup_DevK_cb example_dev]\<rparr>,
        AllocPlan := [False]\<rparr>) = Some (False, None, w')"
proof -
  let ?w = "(example_libk 1)\<lparr>DevK := \<lparr>Index = 0, DefaultUserContext = 0, Handles = [example_kobj 0 0 k_Cleanup_DevK_cb example_dev]\<rparr>,
        AllocPlan := [False]\<rparr>"
  have "section_ok (DevK ?w)" "\<exists>c < handle_count (DevK ?w). slot_free (DevK ?w) c"
    by (auto simp: section_ok_def locks_ok_def handle_count_def slot_free_def example_kobj_def)
  moreover have "IsHandleValid 44" by (simp add: IsHandleValid_def)
  ultimately show ?thesis
    using UsbStack_Init_leaks_without_memory [of ?w 44 "[]"] example_libk_ok(2,3) by fastforce
qed

end
