(* ===== verification/Backend_UsbK.thy ===== *)
theory Backend_UsbK
  imports Usb_Stack
begin

text \<open>
  The backend for the libusbK and libusb0 drivers, \<open>lusbk_bknd_libusbk.c\<close>: how a device is
  configured when it is opened, and the functions of the device interface. Each of these checks the
  handle, takes a reference, sends requests to the driver, keeps the library's own view up to date
  and drops the reference. Requests and answers are those of \<open>driver\<close> in \<open>LibK_State\<close>.
\<close>

section \<open>Fields of answers\<close>

text \<open>
  Answers are written over a zeroed request: bytes the driver did not write are zero. \<open>overlay\<close>
  writes an answer over the old contents of a buffer.
\<close>

definition get_byte :: "UCHAR list \<Rightarrow> nat \<Rightarrow> UCHAR" where
  "get_byte bs i = (if i < length bs then bs ! i else 0)"

definition le32 :: "UCHAR list \<Rightarrow> nat \<Rightarrow> UINT" where
  "le32 bs i = word_of_nat (unat (get_byte bs i) + 256 * unat (get_byte bs (i + 1)) +
     65536 * unat (get_byte bs (i + 2)) + 16777216 * unat (get_byte bs (i + 3)))"

definition overlay :: "UCHAR list \<Rightarrow> UCHAR list \<Rightarrow> UCHAR list" where
  "overlay new old = take (length old) new @ drop (length new) old"

section \<open>Configuring a device\<close>

definition zero_ctx :: bknd_context where
  "zero_ctx = \<lparr>PipePolicies = replicate 32 \<lparr>pol_timeout = 0, pol_isoasap = 0\<rparr>, Version_major = 0\<rparr>"

text \<open>
  The three functions below are called with a handle whose device is set, and \<open>k_Init_Config\<close> with
  its backend context allocated.
\<close>

definition k_Init_Version :: "driver \<Rightarrow> HANDLE \<Rightarrow> libk \<Rightarrow> UINT option \<times> libk" where
  "k_Init_Version drv dh w =
     (let (ok, data, _, w1) = Ioctl_Sync drv dh GET_VERSION w in
      if ok then (Some (le32 data 4), w1) else (None, w1))"

definition k_Init_Backend :: "nat \<Rightarrow> libk \<Rightarrow> bool \<times> libk" where
  "k_Init_Backend h w =
     (case dev_of h w of
        None \<Rightarrow> (False, w)
      | Some (d, _) \<Rightarrow>
          let (ok, w1) = Mem_Alloc w
          in (ok, sec_set_body lens_DevK d (\<lambda>v. v\<lparr>BackendCtx := (if ok then Some zero_ctx else None)\<rparr>) w1))"

text \<open>
  The search for the descriptor of the current configuration (0: any). The index is a \<open>UCHAR\<close> that
  is incremented before it is compared with its largest value. The result is the index and the
  bytes of the descriptor's header.
\<close>

function find_config ::
  "driver \<Rightarrow> HANDLE \<Rightarrow> UCHAR \<Rightarrow> nat \<Rightarrow> UCHAR \<Rightarrow> UCHAR list \<Rightarrow> libk \<Rightarrow> (nat \<times> UCHAR list) option \<times> libk" where
  "find_config drv dh cur idx last_value check w =
     (if idx + 1 \<ge> 255 then (None, SetLastError ERROR_NO_MORE_ITEMS w)
      else
        let (ok, data, _, w1) = Ioctl_Sync drv dh (GET_DESCRIPTOR 2 (word_of_nat idx) 0 9) w;
            check1 = overlay data check; v = get_byte check1 5
        in if \<not> ok then (None, w1)
           else if cur = 0 \<or> v = cur \<or> v = last_value then (Some (idx, check1), w1)
           else find_config drv dh cur (idx + 1) v check1 w1)"
  by pat_completeness auto
termination
  by (relation "measure (\<lambda>(drv, dh, cur, idx, last_value, check, w). 255 - idx)") auto

declare find_config.simps [simp del]

definition k_Init_Config :: "driver \<Rightarrow> nat \<Rightarrow> libk \<Rightarrow> bool \<times> libk" where
  "k_Init_Config drv h w =
     (case dev_of h w of
        None \<Rightarrow> (False, w)
      | Some (d, dev) \<Rightarrow>
          let dh = MasterDeviceHandle dev in
          (case k_Init_Version drv dh w of
             (None, w1) \<Rightarrow> (False, w1)
           | (Some major, w1) \<Rightarrow>
               let w2 = sec_set_body lens_DevK d
                          (\<lambda>v. v\<lparr>BackendCtx := map_option (\<lambda>c. c\<lparr>Version_major := major\<rparr>) (BackendCtx v)\<rparr>) w1;
                   (ok, data, transferred, w3) = Ioctl_Sync drv dh GET_CACHED_CONFIGURATION w2;
                   found = ok \<and> transferred \<noteq> 0 \<and> get_byte data 0 \<noteq> 0;
                   (ok4, w4) = (if found then (True, w3)
                                else let (ok, _, _, w) = Ioctl_Sync drv dh (SET_CONFIGURATION (- 1)) w3 in (ok, w))
               in if \<not> ok4 then (False, w4)
                  else
                    (case find_config drv dh (if found then get_byte data 0 else 0) 0 0 (replicate 9 0) w4 of
                       (None, w5) \<Rightarrow> (False, w5)
                     | (Some (idx, check), w5) \<Rightarrow>
                         let total = unat (get_byte check 2) + 256 * unat (get_byte check 3);
                             (ok6, w6) = Mem_Alloc w5
                         in if \<not> ok6
                            then (False, sec_set_body lens_DevK d (\<lambda>v. v\<lparr>ConfigDescriptor := None\<rparr>) w6)
                            else
                              let (ok7, data, _, w7) = Ioctl_Sync drv dh (GET_DESCRIPTOR 2 (word_of_nat idx) 0 total) w6
                              in (ok7, sec_set_body lens_DevK d (\<lambda>v. v\<lparr>ConfigDescriptor :=
                                    (if ok7 then Some (overlay data (replicate total 0)) else None)\<rparr>) w7))))"

section \<open>Opening and cloning\<close>

definition UsbK_Initialize ::
  "nat \<Rightarrow> driver \<Rightarrow> winusb_library \<Rightarrow> HANDLE \<Rightarrow> libk \<Rightarrow> (bool \<times> nat option \<times> libk) option" where
  "UsbK_Initialize fuel drv l dev_handle =
     UsbStack_Init fuel l (\<lambda>_. 0) KUSB_DRVID_LIBUSBK False dev_handle None None
       (k_Init_Config drv) (Some k_Init_Backend) (Some k_Cleanup_UsbK_cb) (Some k_Cleanup_DevK_cb)"

definition UsbK_Init ::
  "nat \<Rightarrow> driver \<Rightarrow> winusb_library \<Rightarrow> (string \<Rightarrow> HANDLE) \<Rightarrow> string \<times> int \<Rightarrow> libk \<Rightarrow> (bool \<times> nat option \<times> libk) option" where
  "UsbK_Init fuel drv l open_dev dev_info =
     UsbStack_Init fuel l open_dev KUSB_DRVID_LIBUSBK False 0 (Some dev_info) None
       (k_Init_Config drv) (Some k_Init_Backend) (Some k_Cleanup_UsbK_cb) (Some k_Cleanup_DevK_cb)"

definition UsbK_Clone :: "nat \<Rightarrow> libk \<Rightarrow> (bool \<times> nat option \<times> libk) option" where
  "UsbK_Clone h = UsbStack_CloneHandle h"

definition UsbK_GetAssociatedInterface :: "nat \<Rightarrow> UCHAR \<Rightarrow> libk \<Rightarrow> (bool \<times> nat option \<times> libk) option" where
  "UsbK_GetAssociatedInterface h i = UsbStack_GetAssociatedInterface h i"

section \<open>Configurations and descriptors\<close>

text \<open>A request to the device of a handle, whose success is the result of the function.\<close>

definition simple_request :: "driver \<Rightarrow> nat \<Rightarrow> kioctl \<Rightarrow> libk \<Rightarrow> (bool \<times> unit option \<times> libk) option" where
  "simple_request drv h code = with_UsbK h (\<lambda>w. do {
     (d, dev) \<leftarrow> dev_of h w;
     let (ok, _, _, w1) = Ioctl_Sync drv (MasterDeviceHandle dev) code w;
     Some (ok, None, w1) })"

definition UsbK_SetConfiguration :: "nat \<Rightarrow> driver \<Rightarrow> nat \<Rightarrow> UCHAR \<Rightarrow> libk \<Rightarrow> (bool \<times> unit option \<times> libk) option" where
  "UsbK_SetConfiguration fuel drv h n = with_UsbK h (\<lambda>w. do {
     (d, dev) \<leftarrow> dev_of h w;
     ctx \<leftarrow> BackendCtx dev;
     (if Version_major ctx > 2 then do {
        cfg \<leftarrow> ConfigDescriptor dev;
        v \<leftarrow> byte_at cfg 5;
        (if v \<noteq> n then fail ERROR_NO_MORE_ITEMS w else Some (True, None, w)) }
      else
        let (ok, _, _, w1) = Ioctl_Sync drv (MasterDeviceHandle dev) (SET_CONFIGURATION (ucast n)) w in
        if \<not> ok then Some (False, None, w1)
        else do {
          (r, w2) \<leftarrow> UsbStack_Rebuild fuel h (k_Init_Config drv) w1;
          Some (r, None, w2) }) })"

definition UsbK_GetConfiguration :: "nat \<Rightarrow> bool \<Rightarrow> libk \<Rightarrow> (bool \<times> UCHAR option \<times> libk) option" where
  "UsbK_GetConfiguration h out_valid =
     require out_valid ERROR_INVALID_PARAMETER (
     with_UsbK h (\<lambda>w. do {
       (d, dev) \<leftarrow> dev_of h w;
       (case ConfigDescriptor dev of
          None \<Rightarrow> Some (True, Some 0, w)
        | Some cfg \<Rightarrow> do { v \<leftarrow> byte_at cfg 5; Some (True, Some v, w) }) }))"

text \<open>Output buffers: what the driver wrote, and the transferred length.\<close>

definition UsbK_GetDescriptor ::
  "driver \<Rightarrow> nat \<Rightarrow> UCHAR \<Rightarrow> UCHAR \<Rightarrow> USHORT \<Rightarrow> nat \<Rightarrow> libk \<Rightarrow> (bool \<times> (UCHAR list \<times> UINT) option \<times> libk) option" where
  "UsbK_GetDescriptor drv h ty idx lang len = with_UsbK h (\<lambda>w. do {
     (d, dev) \<leftarrow> dev_of h w;
     let (ok, data, ret, w1) = Ioctl_Sync drv (MasterDeviceHandle dev) (GET_DESCRIPTOR ty idx lang len) w;
     Some (ok, Some (data, ret), w1) })"

definition UsbK_QueryDeviceInformation ::
  "driver \<Rightarrow> nat \<Rightarrow> UINT \<Rightarrow> nat \<Rightarrow> libk \<Rightarrow> (bool \<times> (UCHAR list \<times> UINT) option \<times> libk) option" where
  "UsbK_QueryDeviceInformation drv h ty len = with_UsbK h (\<lambda>w. do {
     (d, dev) \<leftarrow> dev_of h w;
     let (ok, data, ret, w1) = Ioctl_Sync drv (MasterDeviceHandle dev) (QUERY_DEVICE_INFORMATION ty len) w;
     Some (ok, Some (data, ret), w1) })"

definition UsbK_GetCurrentFrameNumber :: "driver \<Rightarrow> nat \<Rightarrow> libk \<Rightarrow> (bool \<times> UINT option \<times> libk) option" where
  "UsbK_GetCurrentFrameNumber drv h = with_UsbK h (\<lambda>w. do {
     (d, dev) \<leftarrow> dev_of h w;
     let (ok, data, _, w1) = Ioctl_Sync drv (MasterDeviceHandle dev) GET_CURRENTFRAME_NUMBER w;
     (if \<not> ok then Some (False, None, w1)
      else if length data < 4 then None
      else Some (True, Some (le32 data 0), w1)) })"

definition UsbK_ResetDevice :: "driver \<Rightarrow> nat \<Rightarrow> libk \<Rightarrow> (bool \<times> unit option \<times> libk) option" where
  "UsbK_ResetDevice drv h = simple_request drv h RESET_DEVICE"

section \<open>Interfaces and alternate settings\<close>

definition upd_shared :: "nat \<Rightarrow> nat \<Rightarrow> (shared_interface \<Rightarrow> shared_interface) \<Rightarrow> libk \<Rightarrow> libk" where
  "upd_shared d k f = sec_set_body lens_DevK d (\<lambda>v. v\<lparr>SharedInterfaces := (SharedInterfaces v)[k := f (SharedInterfaces v ! k)]\<rparr>)"

definition UsbK_SetCurrentAlternateSetting :: "driver \<Rightarrow> nat \<Rightarrow> UCHAR \<Rightarrow> libk \<Rightarrow> (bool \<times> unit option \<times> libk) option" where
  "UsbK_SetCurrentAlternateSetting drv h alt = with_UsbK h (\<lambda>w. do {
     (d, dev) \<leftarrow> dev_of h w;
     let k = shared_idx (selected h w);
     let (ok, _, _, w1) = Ioctl_Sync drv (MasterDeviceHandle dev) (SET_INTERFACE (SI_ID (SharedInterfaces dev ! k)) alt) w;
     (if \<not> ok then Some (False, None, w1)
      else Some (True, None, upd_shared d k (\<lambda>s. s\<lparr>CurrentAltSetting := uint alt\<rparr>) w1)) })"

definition UsbK_GetCurrentAlternateSetting :: "driver \<Rightarrow> nat \<Rightarrow> bool \<Rightarrow> libk \<Rightarrow> (bool \<times> UCHAR option \<times> libk) option" where
  "UsbK_GetCurrentAlternateSetting drv h out_valid =
     require out_valid ERROR_INVALID_PARAMETER (
     with_UsbK h (\<lambda>w. do {
       (d, dev) \<leftarrow> dev_of h w;
       let k = shared_idx (selected h w);
       let (ok, data, _, w1) = Ioctl_Sync drv (MasterDeviceHandle dev) (GET_INTERFACE (SI_ID (SharedInterfaces dev ! k))) w;
       (if \<not> ok then Some (False, None, w1)
        else Some (True, Some (ucast (le32 data 8)),
               upd_shared d k (\<lambda>s. s\<lparr>CurrentAltSetting := to_long (uint (le32 data 8))\<rparr>) w1)) }))"

text \<open>
  Claiming selects the interface. A claim that fails, and every release, marks the interface as
  not claimed.
\<close>

definition k_ClaimOrReleaseInterface ::
  "driver \<Rightarrow> nat \<Rightarrow> UCHAR \<Rightarrow> bool \<Rightarrow> bool \<Rightarrow> libk \<Rightarrow> (bool \<times> unit option \<times> libk) option" where
  "k_ClaimOrReleaseInterface drv h n is_claim is_index = with_UsbK h (\<lambda>w. do {
     (d, dev) \<leftarrow> dev_of h w;
     st \<leftarrow> UsbStack dev;
     (case FindInterfaceEL st is_index (uint n) of
        None \<Rightarrow> fail ERROR_RESOURCE_NOT_FOUND w
      | Some i \<Rightarrow>
          let el = InterfaceList st ! i; k = shared_idx (uint (Intf_Index el));
              code = (if is_claim then CLAIM_INTERFACE (Intf_ID el) else RELEASE_INTERFACE (Intf_ID el));
              (ok, _, _, w1) = Ioctl_Sync drv (MasterDeviceHandle dev) code w;
              w2 = (if is_claim \<and> ok
                    then set_selected h (uint (Intf_Index el)) (upd_shared d k (\<lambda>s. s\<lparr>Claimed := True\<rparr>) w1)
                    else upd_shared d k (\<lambda>s. s\<lparr>Claimed := False\<rparr>) w1)
          in Some (ok, None, w2)) })"

definition UsbK_ClaimInterface :: "driver \<Rightarrow> nat \<Rightarrow> UCHAR \<Rightarrow> bool \<Rightarrow> libk \<Rightarrow> (bool \<times> unit option \<times> libk) option" where
  "UsbK_ClaimInterface drv h n is_index = k_ClaimOrReleaseInterface drv h n True is_index"

definition UsbK_ReleaseInterface :: "driver \<Rightarrow> nat \<Rightarrow> UCHAR \<Rightarrow> bool \<Rightarrow> libk \<Rightarrow> (bool \<times> unit option \<times> libk) option" where
  "UsbK_ReleaseInterface drv h n is_index = k_ClaimOrReleaseInterface drv h n False is_index"

definition UsbK_SetAltInterface :: "driver \<Rightarrow> nat \<Rightarrow> UCHAR \<Rightarrow> bool \<Rightarrow> UCHAR \<Rightarrow> libk \<Rightarrow> (bool \<times> unit option \<times> libk) option" where
  "UsbK_SetAltInterface drv h n is_index alt = with_UsbK h (\<lambda>w. do {
     (d, dev) \<leftarrow> dev_of h w;
     st \<leftarrow> UsbStack dev;
     (case FindInterfaceEL st is_index (uint n) of
        None \<Rightarrow> fail ERROR_RESOURCE_NOT_FOUND w
      | Some i \<Rightarrow>
          let k = shared_idx (uint (Intf_Index (InterfaceList st ! i)));
              (ok, _, _, w1) = Ioctl_Sync drv (MasterDeviceHandle dev) (SET_INTERFACE (SI_ID (SharedInterfaces dev ! k)) alt) w
          in if \<not> ok then Some (False, None, w1)
             else Some (True, None, upd_shared d k (\<lambda>s. s\<lparr>CurrentAltSetting := uint alt\<rparr>) w1)) })"

definition UsbK_GetAltInterface :: "driver \<Rightarrow> nat \<Rightarrow> UCHAR \<Rightarrow> bool \<Rightarrow> bool \<Rightarrow> libk \<Rightarrow> (bool \<times> UCHAR option \<times> libk) option" where
  "UsbK_GetAltInterface drv h n is_index out_valid =
     require out_valid ERROR_INVALID_PARAMETER (
     with_UsbK h (\<lambda>w. do {
       (d, dev) \<leftarrow> dev_of h w;
       st \<leftarrow> UsbStack dev;
       (case FindInterfaceEL st is_index (uint n) of
          None \<Rightarrow> fail ERROR_NO_MORE_ITEMS w
        | Some i \<Rightarrow>
            let el = InterfaceList st ! i; k = shared_idx (uint (Intf_Index el));
                (ok, data, _, w1) = Ioctl_Sync drv (MasterDeviceHandle dev) (GET_INTERFACE (Intf_ID el)) w
            in if \<not> ok then Some (False, None, w1)
               else Some (True, Some (ucast (le32 data 8)),
                      upd_shared d k (\<lambda>s. s\<lparr>CurrentAltSetting := to_long (uint (le32 data 8))\<rparr>) w1)) }))"

section \<open>Pipe and power policies\<close>

text \<open>
  \<open>GetSetPipePolicy\<close> selects the cached policies of a pipe in the backend context. A caller's
  buffer is the list of its bytes, and \<open>None\<close> is the null pointer. A policy value that is sent is
  zero when there is no buffer; bytes behind the end of the buffer must not be read.
\<close>

abbreviation PIPE_TRANSFER_TIMEOUT :: UINT where "PIPE_TRANSFER_TIMEOUT \<equiv> 3"
abbreviation ISO_ALWAYS_START_ASAP :: UINT where "ISO_ALWAYS_START_ASAP \<equiv> 0x21"

definition pipe_policies :: "bknd_context \<Rightarrow> UCHAR \<Rightarrow> pipe_policy" where
  "pipe_policies ctx p = PipePolicies ctx ! PIPEID_TO_IDX p"

definition upd_policy :: "nat \<Rightarrow> UCHAR \<Rightarrow> (pipe_policy \<Rightarrow> pipe_policy) \<Rightarrow> libk \<Rightarrow> libk" where
  "upd_policy d p f = sec_set_body lens_DevK d (\<lambda>v. v\<lparr>BackendCtx := map_option
     (\<lambda>c. c\<lparr>PipePolicies := (PipePolicies c)[PIPEID_TO_IDX p := f (pipe_policies c p)]\<rparr>) (BackendCtx v)\<rparr>)"

definition request_data :: "UCHAR list option \<Rightarrow> UINT \<Rightarrow> UCHAR list option" where
  "request_data buf len =
     (case buf of
        None \<Rightarrow> Some (replicate (unat len) 0)
      | Some bs \<Rightarrow> if length bs < unat len then None else Some (take (unat len) bs))"

definition bytes32 :: "UINT \<Rightarrow> UCHAR list" where
  "bytes32 x = [ucast x, ucast (drop_bit 8 x), ucast (drop_bit 16 x), ucast (drop_bit 24 x)]"

text \<open>The values that are cached after the driver has accepted a policy.\<close>

definition cache_policy :: "nat \<Rightarrow> UCHAR \<Rightarrow> UINT \<Rightarrow> UCHAR list \<Rightarrow> libk \<Rightarrow> libk option" where
  "cache_policy d p ty bs w =
     (if ty = PIPE_TRANSFER_TIMEOUT
      then (if length bs < 4 then None else Some (upd_policy d p (\<lambda>q. q\<lparr>pol_timeout := le32 bs 0\<rparr>) w))
      else if ty = ISO_ALWAYS_START_ASAP
      then (if length bs < 1 then None else Some (upd_policy d p (\<lambda>q. q\<lparr>pol_isoasap := ucast (get_byte bs 0)\<rparr>) w))
      else Some w)"

definition UsbK_SetPipePolicy ::
  "driver \<Rightarrow> nat \<Rightarrow> UCHAR \<Rightarrow> UINT \<Rightarrow> UINT \<Rightarrow> UCHAR list option \<Rightarrow> libk \<Rightarrow> (bool \<times> unit option \<times> libk) option" where
  "UsbK_SetPipePolicy drv h p ty len buf = with_UsbK h (\<lambda>w0.
     let (mem, w) = Mem_Alloc w0 in
     if \<not> mem then fail ERROR_NOT_ENOUGH_MEMORY w
     else do {
       data \<leftarrow> request_data buf len;
       (d, dev) \<leftarrow> dev_of h w;
       ctx \<leftarrow> BackendCtx dev;
       (if Version_major ctx > 2 then
          let (ok, _, _, w1) = Ioctl_Sync drv (MasterDeviceHandle dev) (SET_PIPE_POLICY p ty data) w in
          (case buf of
             Some bs \<Rightarrow> if ok then do { w2 \<leftarrow> cache_policy d p ty bs w1; Some (True, None, w2) }
                        else Some (False, None, w1)
           | None \<Rightarrow> Some (ok, None, w1))
        else if p AND 0x0F = 0 then
          let (ok, _, _, w1) = Ioctl_Sync drv (MasterDeviceHandle dev) (SET_PIPE_POLICY p ty data) w in
          Some (ok, None, w1)
        else if ty = PIPE_TRANSFER_TIMEOUT then
          (case buf of
             Some bs \<Rightarrow> if 4 \<le> len then Some (True, None, upd_policy d p (\<lambda>q. q\<lparr>pol_timeout := le32 bs 0\<rparr>) w)
                        else Some (False, None, w)
           | None \<Rightarrow> Some (False, None, w))
        else fail ERROR_NOT_SUPPORTED w) })"

text \<open>
  The output is the new value of \<open>*ValueLength\<close> with the bytes written to the value, if
  \<open>*ValueLength\<close> is written at all. The value has room for the length that is passed in.
\<close>

definition UsbK_GetPipePolicy ::
  "driver \<Rightarrow> nat \<Rightarrow> UCHAR \<Rightarrow> UINT \<Rightarrow> UINT option \<Rightarrow> bool \<Rightarrow> libk \<Rightarrow> (bool \<times> (UCHAR list \<times> UINT) option \<times> libk) option" where
  "UsbK_GetPipePolicy drv h p ty len out_valid =
     require (len \<noteq> None \<and> len \<noteq> Some 0) ERROR_INVALID_PARAMETER (
     require out_valid ERROR_INVALID_PARAMETER (
     with_UsbK h (\<lambda>w. do {
       n \<leftarrow> len;
       (d, dev) \<leftarrow> dev_of h w;
       ctx \<leftarrow> BackendCtx dev;
       (if Version_major ctx > 1 \<or> p AND 0x0F = 0 then
          let (ok, data, ret, w1) = Ioctl_Sync drv (MasterDeviceHandle dev) (GET_PIPE_POLICY p ty (unat n)) w in
          Some (ok, Some (data, ret), w1)
        else if ty = PIPE_TRANSFER_TIMEOUT then
          (if 4 \<le> n then Some (True, Some (bytes32 (pol_timeout (pipe_policies ctx p)), 4), w)
           else Some (False, None, w))
        else fail ERROR_NOT_SUPPORTED w) })))"

definition UsbK_SetPowerPolicy ::
  "driver \<Rightarrow> nat \<Rightarrow> UINT \<Rightarrow> UINT \<Rightarrow> UCHAR list option \<Rightarrow> libk \<Rightarrow> (bool \<times> unit option \<times> libk) option" where
  "UsbK_SetPowerPolicy drv h ty len buf =
     require (len \<noteq> 0) ERROR_INVALID_PARAMETER (
     require (buf \<noteq> None) ERROR_INVALID_PARAMETER (
     with_UsbK h (\<lambda>w0.
       let (mem, w) = Mem_Alloc w0 in
       if \<not> mem then fail ERROR_NOT_ENOUGH_MEMORY w
       else do {
         data \<leftarrow> request_data buf len;
         (d, dev) \<leftarrow> dev_of h w;
         let (ok, _, _, w1) = Ioctl_Sync drv (MasterDeviceHandle dev) (SET_POWER_POLICY ty data) w;
         Some (ok, None, w1) })))"

definition UsbK_GetPowerPolicy ::
  "driver \<Rightarrow> nat \<Rightarrow> UINT \<Rightarrow> UINT option \<Rightarrow> bool \<Rightarrow> libk \<Rightarrow> (bool \<times> (UCHAR list \<times> UINT) option \<times> libk) option" where
  "UsbK_GetPowerPolicy drv h ty len out_valid =
     require (len \<noteq> None \<and> len \<noteq> Some 0) ERROR_INVALID_PARAMETER (
     require out_valid ERROR_INVALID_PARAMETER (
     with_UsbK h (\<lambda>w. do {
       n \<leftarrow> len;
       (d, dev) \<leftarrow> dev_of h w;
       let (ok, data, ret, w1) = Ioctl_Sync drv (MasterDeviceHandle dev) (GET_POWER_POLICY ty (unat n)) w;
       Some (ok, Some (data, ret), w1) })))"

section \<open>Transfers\<close>

text \<open>
  \<open>Overlapped\<close> is the address of the caller's structure, 0 for the null pointer: with it a request
  is only started. The output of a synchronous transfer is what the driver wrote to the buffer and
  the transferred length.
\<close>

definition UsbK_ControlTransfer ::
  "driver \<Rightarrow> nat \<Rightarrow> setup_packet \<Rightarrow> UCHAR list \<Rightarrow> addr \<Rightarrow> libk \<Rightarrow> (bool \<times> (UCHAR list \<times> UINT) option \<times> libk) option" where
  "UsbK_ControlTransfer drv h setup buf overlapped = with_UsbK h (\<lambda>w. do {
     (d, dev) \<leftarrow> dev_of h w;
     let device_to_host = (RequestType setup AND 0x80 \<noteq> 0);
     let code = (\<lambda>timeout. if device_to_host then CONTROL_READ setup timeout (length buf)
                            else CONTROL_WRITE setup timeout buf);
     (if overlapped \<noteq> NULL then
        let (ok, w1) = Ioctl_Async drv (MasterDeviceHandle dev) (code 0) True w in Some (ok, None, w1)
      else do {
        ctx \<leftarrow> BackendCtx dev;
        let timeout = pol_timeout (pipe_policies ctx (if device_to_host then 0x80 else 0x00));
        let (ok, data, ret, w1) = Ioctl_Sync drv (MasterDeviceHandle dev) (code timeout) w;
        Some (ok, Some (data, ret), w1) }) })"

text \<open>Whether the request is complete, and with which result, is asked of the system.\<close>

definition UsbK_GetOverlappedResult ::
  "(HANDLE \<Rightarrow> addr \<Rightarrow> bool \<Rightarrow> DWORD + UINT) \<Rightarrow> nat \<Rightarrow> addr \<Rightarrow> bool \<Rightarrow> libk \<Rightarrow> (bool \<times> UINT option \<times> libk) option" where
  "UsbK_GetOverlappedResult ask h overlapped wait = with_UsbK h (\<lambda>w. do {
     (d, dev) \<leftarrow> dev_of h w;
     (case ask (MasterDeviceHandle dev) overlapped wait of
        Inl e \<Rightarrow> fail e w
      | Inr n \<Rightarrow> Some (True, Some n, w)) })"

definition UsbK_ResetPipe :: "driver \<Rightarrow> nat \<Rightarrow> UCHAR \<Rightarrow> libk \<Rightarrow> (bool \<times> unit option \<times> libk) option" where
  "UsbK_ResetPipe drv h p = simple_request drv h (RESET_ENDPOINT p)"

definition UsbK_AbortPipe :: "driver \<Rightarrow> nat \<Rightarrow> UCHAR \<Rightarrow> libk \<Rightarrow> (bool \<times> unit option \<times> libk) option" where
  "UsbK_AbortPipe drv h p = simple_request drv h (ABORT_ENDPOINT p)"

definition UsbK_FlushPipe :: "driver \<Rightarrow> nat \<Rightarrow> UCHAR \<Rightarrow> libk \<Rightarrow> (bool \<times> unit option \<times> libk) option" where
  "UsbK_FlushPipe drv h p = simple_request drv h (FLUSH_PIPE p)"

text \<open>
  A read or a write: started with \<open>Overlapped\<close>, else done within the timeout of the pipe. The two
  functions of the source differ in the request only.
\<close>

definition pipe_transfer ::
  "driver \<Rightarrow> nat \<Rightarrow> UCHAR \<Rightarrow> kioctl \<Rightarrow> addr \<Rightarrow> libk \<Rightarrow> (bool \<times> (UCHAR list \<times> UINT) option \<times> libk) option" where
  "pipe_transfer drv h p code overlapped = with_UsbK h (\<lambda>w. do {
     (d, dev) \<leftarrow> dev_of h w;
     (if overlapped \<noteq> NULL then
        let (ok, w1) = Ioctl_Async drv (MasterDeviceHandle dev) code True w in Some (ok, None, w1)
      else do {
        ctx \<leftarrow> BackendCtx dev;
        let (ok, data, ret, w1) =
          Ioctl_SyncWithTimeout drv (MasterDeviceHandle dev) code (pol_timeout (pipe_policies ctx p)) p w;
        Some (ok, Some (data, ret), w1) }) })"

definition UsbK_ReadPipe ::
  "driver \<Rightarrow> nat \<Rightarrow> UCHAR \<Rightarrow> nat \<Rightarrow> addr \<Rightarrow> libk \<Rightarrow> (bool \<times> (UCHAR list \<times> UINT) option \<times> libk) option" where
  "UsbK_ReadPipe drv h p len overlapped = pipe_transfer drv h p (TRANSFER_READ p len) overlapped"

definition UsbK_WritePipe ::
  "driver \<Rightarrow> nat \<Rightarrow> UCHAR \<Rightarrow> UCHAR list \<Rightarrow> addr \<Rightarrow> libk \<Rightarrow> (bool \<times> (UCHAR list \<times> UINT) option \<times> libk) option" where
  "UsbK_WritePipe drv h p buf overlapped = pipe_transfer drv h p (TRANSFER_WRITE p buf) overlapped"

text \<open>
  Isochronous transfers are always started. The size of the context is computed in \<open>size_t\<close> and
  stored in a \<open>ULONG\<close>.
\<close>

definition iso_request :: "driver \<Rightarrow> nat \<Rightarrow> kioctl \<Rightarrow> addr \<Rightarrow> libk \<Rightarrow> (bool \<times> unit option \<times> libk) option" where
  "iso_request drv h code overlapped = with_UsbK h (\<lambda>w.
     if \<not> IsHandleValid overlapped then fail ERROR_INVALID_PARAMETER w
     else do {
       (d, dev) \<leftarrow> dev_of h w;
       let (ok, w1) = Ioctl_Async drv (MasterDeviceHandle dev) code True w;
       Some (ok, None, w1) })"

definition iso_context_size :: "iso_context \<Rightarrow> ULONG" where
  "iso_context_size ctx = word_of_nat (iso_alloc_size (NumberOfPackets ctx))"

definition UsbK_IsoReadPipe ::
  "driver \<Rightarrow> nat \<Rightarrow> UCHAR \<Rightarrow> nat \<Rightarrow> addr \<Rightarrow> iso_context option \<Rightarrow> libk \<Rightarrow> (bool \<times> unit option \<times> libk) option" where
  "UsbK_IsoReadPipe drv h p len overlapped ctx = iso_request drv h
     (case ctx of Some c \<Rightarrow> ISOEX_READ p c (iso_context_size c) len | None \<Rightarrow> AUTOISOEX_READ p len) overlapped"

definition UsbK_IsoWritePipe ::
  "driver \<Rightarrow> nat \<Rightarrow> UCHAR \<Rightarrow> nat \<Rightarrow> addr \<Rightarrow> iso_context option \<Rightarrow> libk \<Rightarrow> (bool \<times> unit option \<times> libk) option" where
  "UsbK_IsoWritePipe drv h p len overlapped ctx = iso_request drv h
     (case ctx of Some c \<Rightarrow> ISOEX_WRITE p c (iso_context_size c) len | None \<Rightarrow> AUTOISOEX_WRITE p len) overlapped"

text \<open>The value is the handle when it is written, with the size that is reported; 0 is \<open>KUSB_PROPERTY_DEVICE_FILE_HANDLE\<close>.\<close>

definition UsbK_GetProperty ::
  "nat \<Rightarrow> nat \<Rightarrow> UINT option \<Rightarrow> bool \<Rightarrow> libk \<Rightarrow> (bool \<times> (HANDLE option \<times> UINT) option \<times> libk) option" where
  "UsbK_GetProperty h ty sz out_valid w =
     (if \<not> ALLK_VALID_HANDLE h (UsbK w) then fail ERROR_INVALID_HANDLE w
      else require (sz \<noteq> None) ERROR_INVALID_PARAMETER (
        require out_valid ERROR_INVALID_PARAMETER (
        with_UsbK h (\<lambda>w. do {
          n \<leftarrow> sz;
          (d, dev) \<leftarrow> dev_of h w;
          (if ty = 0 then
             (if n < 8 then Some (False, Some (None, 8), SetLastError ERROR_MORE_DATA w)
              else Some (True, Some (Some (MasterDeviceHandle dev), 8), w))
           else Some (True, None, w)) }))) w)"

section \<open>What a request changes\<close>

text \<open>Requests to a driver and updates of a device do not look at the device handles.\<close>

lemma SetLastError_UsbK [libk_frame]: "SetLastError e (w\<lparr>UsbK := s\<rparr>) = (SetLastError e w)\<lparr>UsbK := s\<rparr>"
  by (simp add: SetLastError_def)

lemma send_UsbK [libk_frame]:
  "send drv dh c (w\<lparr>UsbK := s\<rparr>) = (case send drv dh c w of (a, v) \<Rightarrow> (a, v\<lparr>UsbK := s\<rparr>))"
  by (simp add: send_def log_event_def Let_def)

lemma Ioctl_Sync_UsbK [libk_frame]:
  "Ioctl_Sync drv dh c (w\<lparr>UsbK := s\<rparr>) =
     (case Ioctl_Sync drv dh c w of (ok, data, ret, v) \<Rightarrow> (ok, data, ret, v\<lparr>UsbK := s\<rparr>))"
  by (simp add: Ioctl_Sync_def libk_frame SetLastError_def split: prod.splits)

lemma Ioctl_SyncWithTimeout_UsbK [libk_frame]:
  "Ioctl_SyncWithTimeout drv dh c t p (w\<lparr>UsbK := s\<rparr>) =
     (case Ioctl_SyncWithTimeout drv dh c t p w of (ok, data, ret, v) \<Rightarrow> (ok, data, ret, v\<lparr>UsbK := s\<rparr>))"
  by (cases "send drv dh c w"; cases "Ioctl_Sync drv dh (ABORT_ENDPOINT p) (snd (send drv dh c w))")
    (simp add: Ioctl_SyncWithTimeout_def libk_frame)

lemma set_DevK_UsbK [libk_frame]:
  "sec_set_body lens_DevK d f (w\<lparr>UsbK := s\<rparr>) = (sec_set_body lens_DevK d f w)\<lparr>UsbK := s\<rparr>"
  by (simp add: sec_set_body_def)

lemma UsbK_set_DevK [libk_frame]: "UsbK (sec_set_body lens_DevK d f w) = UsbK w"
  by (simp add: sec_set_body_def)

lemma Mem_Alloc_UsbK [libk_frame]:
  "Mem_Alloc (w\<lparr>UsbK := s\<rparr>) = (case Mem_Alloc w of (ok, v) \<Rightarrow> (ok, v\<lparr>UsbK := s\<rparr>))"
  by (simp add: Mem_Alloc_def split: prod.splits)

lemma Ioctl_Sync_keeps:
  assumes "Ioctl_Sync drv dh c w = (ok, data, ret, v)"
  shows "UsbK v = UsbK w" "DevK v = DevK w" "AllocPlan v = AllocPlan w" "CurrentThreadId v = CurrentThreadId w"
  using assms by (auto simp: Ioctl_Sync_def send_def log_event_def SetLastError_def Let_def split: if_splits)

lemma Ioctl_SyncWithTimeout_keeps:
  assumes "Ioctl_SyncWithTimeout drv dh c t p w = (ok, data, ret, v)"
  shows "UsbK v = UsbK w"
proof -
  obtain a v1 ok2 data2 ret2 v2 where
    r: "send drv dh c w = (a, v1)" "Ioctl_Sync drv dh (ABORT_ENDPOINT p) v1 = (ok2, data2, ret2, v2)"
    by (metis prod.exhaust)
  moreover have "UsbK v1 = UsbK w" using r(1) by (auto simp: send_def log_event_def Let_def split: if_splits)
  ultimately show ?thesis
    using assms Ioctl_Sync_keeps(1) [OF r(2)]
    by (auto simp: Ioctl_SyncWithTimeout_def SetLastError_def split: if_splits)
qed

text \<open>A body that leaves the device handles alone, on a handle in use.\<close>

lemma with_UsbK_dev:
  assumes "handle_ok w h d" "UsbK v = UsbK w"
    and "bdy (w\<lparr>UsbK := upd_handle h (\<lambda>k. k\<lparr>Ref := Ref k + 1\<rparr>) (UsbK w)\<rparr>) =
       Some (r, out, v\<lparr>UsbK := upd_handle h (\<lambda>k. k\<lparr>Ref := Ref k + 1\<rparr>) (UsbK w)\<rparr>)"
  shows "with_UsbK h bdy w = Some (r, out, v)"
proof -
  let ?s = "upd_handle h (\<lambda>k. k\<lparr>Ref := Ref k + 1\<rparr>) (UsbK w)"
  have "Ref (Handles (UsbK w) ! h) < 2147483646" using assms(1) by (simp add: handle_ok_def)
  moreover have "v\<lparr>UsbK := UsbK w\<rparr> = v" using assms(2) by (cases v) simp
  ultimately show ?thesis
    using with_UsbK_frame [of w h bdy r out "v\<lparr>UsbK := ?s\<rparr>"] handle_okD(1) [OF assms(1)] assms(3) by simp
qed

lemma simple_request_spec:
  assumes "handle_ok w h d" "Ioctl_Sync drv (MasterDeviceHandle (sec_body lens_DevK d w)) c w = (ok, data, ret, v)"
  shows "simple_request drv h c w = Some (ok, None, v)"
  unfolding simple_request_def
  using assms(2) handle_okD(8) [OF assms(1)] Ioctl_Sync_keeps [OF assms(2)]
  by (intro with_UsbK_dev [OF assms(1)]) (simp_all add: sec_body_def libk_frame)

section \<open>Properties\<close>

text \<open>
  The library of \<open>Usb_Stack\<close> with a backend context, and drivers: one that accepts every request,
  one that never completes a transfer, one with two configurations.
\<close>

definition example_open :: "UINT \<Rightarrow> ULONG \<Rightarrow> libk" where
  "example_open major t = sec_set_body lens_DevK 0 (\<lambda>v. v\<lparr>BackendCtx := Some (zero_ctx\<lparr>Version_major := major,
     PipePolicies := (PipePolicies zero_ctx)[17 := \<lparr>pol_timeout = t, pol_isoasap = 0\<rparr>]\<rparr>)\<rparr>) (example_libk 1)"

definition accepted :: ioctl_answer where
  "accepted = \<lparr>io_event = True, io_pending = False, io_timed_out = False, io_ok = True, io_data = [], io_ret = 0, io_err = 0\<rparr>"

definition stalled_driver :: driver where
  "stalled_driver n dev code =
     (case code of TRANSFER_READ _ _ \<Rightarrow> accepted\<lparr>io_pending := True, io_timed_out := True\<rparr> | _ \<Rightarrow> accepted)"

definition two_configs :: "nat \<Rightarrow> UCHAR list" where
  "two_configs i = [9, 2, 32, 0, 1, if i = 0 then 1 else 2, 0, 0x80, 50]"

definition config_driver :: driver where
  "config_driver n dev code =
     (case code of GET_DESCRIPTOR ty i lang len \<Rightarrow> accepted\<lparr>io_data := two_configs (unat i), io_ret := 9\<rparr> | _ \<Rightarrow> accepted)"

lemma example_open_ok:
  "handle_ok (example_open m t) 0 0"
  "sec_body lens_DevK 0 (example_open m t) = example_dev\<lparr>BackendCtx := Some (zero_ctx\<lparr>Version_major := m,
     PipePolicies := (PipePolicies zero_ctx)[17 := \<lparr>pol_timeout = t, pol_isoasap = 0\<rparr>]\<rparr>)\<rparr>"
  "Ref (Handles (DevK (example_open m t)) ! 0) = 1"
  "UsbStack example_dev = UsbStack (sec_body lens_DevK 0 (example_open m t))"
proof -
  have n: "handle_count (DevK (example_libk 1)) = 1" by (simp add: example_libk_def handle_count_def)
  have b: "body (Handles (DevK (example_libk 1)) ! 0) = example_dev" "Ref (Handles (DevK (example_libk 1)) ! 0) = 1"
    by (simp_all add: example_libk_def example_kobj_def)
  show s: "sec_body lens_DevK 0 (example_open m t) = example_dev\<lparr>BackendCtx := Some (zero_ctx\<lparr>Version_major := m,
     PipePolicies := (PipePolicies zero_ctx)[17 := \<lparr>pol_timeout = t, pol_isoasap = 0\<rparr>]\<rparr>)\<rparr>"
    by (simp add: example_open_def sec_body_def sec_set_body_def n b)
  show "Ref (Handles (DevK (example_open m t)) ! 0) = 1"
    by (simp add: example_open_def sec_set_body_def n b)
  show "UsbStack example_dev = UsbStack (sec_body lens_DevK 0 (example_open m t))" by (simp add: s)
  show "handle_ok (example_open m t) 0 0"
    using example_libk_ok(1)
    by (simp add: handle_ok_def example_open_def sec_body_def sec_set_body_def alive_def n)
qed

text \<open>
  C20. Setting the alternate setting of an interface: the request names the interface by the number
  that was recorded for it, the result is the driver's, and the new setting is recorded when, and only
  when, the driver has accepted it.
\<close>

theorem UsbK_SetAltInterface_spec:
  assumes "handle_ok w h d" "UsbStack (sec_body lens_DevK d w) = Some st"
    and "FindInterfaceEL st is_index (uint n) = Some i"
    and "k = shared_idx (uint (Intf_Index (InterfaceList st ! i)))"
    and "Ioctl_Sync drv (MasterDeviceHandle (sec_body lens_DevK d w))
       (SET_INTERFACE (SI_ID (SharedInterfaces (sec_body lens_DevK d w) ! k)) alt) w = (ok, data, ret, v)"
  shows "UsbK_SetAltInterface drv h n is_index alt w =
     Some (ok, None, if ok then upd_shared d k (\<lambda>s. s\<lparr>CurrentAltSetting := uint alt\<rparr>) v else v)"
  unfolding UsbK_SetAltInterface_def
  using assms(2-) handle_okD(8) [OF assms(1)] Ioctl_Sync_keeps [OF assms(5)]
  by (intro with_UsbK_dev [OF assms(1)])
    (simp_all add: sec_body_def libk_frame upd_shared_def)

theorem UsbK_SetAltInterface_spec_witness:
  "\<exists>v. UsbK_SetAltInterface stalled_driver 0 3 False 1 (example_open 5 0) = Some (True, None, v) \<and>
     CurrentAltSetting (SharedInterfaces (sec_body lens_DevK 0 v) ! 0) = 1"
proof -
  let ?w = "example_open 5 0"
  let ?v = "?w\<lparr>IoCount := 1, Trace := [DeviceIo 44 (SET_INTERFACE 3 1)]\<rparr>"
  have io: "Ioctl_Sync stalled_driver 44 (SET_INTERFACE 3 1) ?w = (True, [], 0, ?v)"
    by (simp add: Ioctl_Sync_def send_def log_event_def stalled_driver_def accepted_def)
      (simp add: example_open_def sec_set_body_def example_libk_def)
  have "UsbK_SetAltInterface stalled_driver 0 3 False 1 ?w =
      Some (True, None, upd_shared 0 0 (\<lambda>s. s\<lparr>CurrentAltSetting := 1\<rparr>) ?v)"
    using UsbK_SetAltInterface_spec [OF example_open_ok(1) [of 5 0], of _ False 3 0 0 stalled_driver 1 True "[]" 0 ?v] io
    by (simp add: example_open_ok(2) example_dev_def FindInterfaceEL_def shared_idx_def)
  then show ?thesis
    using example_open_ok(2) [of 5 0] handle_okD(4) [OF example_open_ok(1), of 5 0]
    by (simp add: upd_shared_def sec_set_body_def sec_body_def example_dev_def)
qed

lemma with_UsbK_sel:
  assumes "handle_ok w h d" "UsbK v = UsbK w"
    and "bdy (w\<lparr>UsbK := upd_handle h (\<lambda>k. k\<lparr>Ref := Ref k + 1\<rparr>) (UsbK w)\<rparr>) =
       Some (r, out, set_selected h i (v\<lparr>UsbK := upd_handle h (\<lambda>k. k\<lparr>Ref := Ref k + 1\<rparr>) (UsbK w)\<rparr>))"
  shows "with_UsbK h bdy w = Some (r, out, set_selected h i v)"
proof -
  let ?v = "set_selected h i (v\<lparr>UsbK := upd_handle h (\<lambda>k. k\<lparr>Ref := Ref k + 1\<rparr>) (UsbK w)\<rparr>)"
  note h = handle_okD [OF assms(1)]
  have sel: "upd_handle h (\<lambda>k. k\<lparr>Ref := Ref k + 1, body := g (body k), Ref := Ref k\<rparr>) s =
      upd_handle h (\<lambda>k. k\<lparr>body := g (body k)\<rparr>) s" for g and s :: "(cleanup, usb_obj) ksection"
    by (rule upd_handle_cong) (cases "Handles s ! h", simp)
  have "alive (UsbK ?v) h" "1 < Ref (Handles (UsbK ?v) ! h)"
    using assms(1) h(2) by (auto simp: alive_def handle_ok_def set_selected_def sec_set_body_def)
  then have "with_UsbK h bdy w = Some (r, out, ?v\<lparr>UsbK := upd_handle h (\<lambda>k. k\<lparr>Ref := Ref k - 1\<rparr>) (UsbK ?v)\<rparr>)"
    using assms(3) by (intro with_UsbK_run h(1))
  moreover have "?v\<lparr>UsbK := upd_handle h (\<lambda>k. k\<lparr>Ref := Ref k - 1\<rparr>) (UsbK ?v)\<rparr> = set_selected h i v"
    using h(2) sel by (simp add: assms(2) set_selected_def sec_set_body_def)
  ultimately show ?thesis by simp
qed

text \<open>
  C19. Claiming an interface: on success it is marked as claimed and selected by this handle. In every
  other case the mark is cleared, also when a second claim of an interface that this process already
  holds is refused by the driver.
\<close>

theorem k_ClaimOrReleaseInterface_spec:
  assumes "handle_ok w h d" "UsbStack (sec_body lens_DevK d w) = Some st"
    and "FindInterfaceEL st is_index (uint n) = Some i"
    and "Ioctl_Sync drv (MasterDeviceHandle (sec_body lens_DevK d w))
       (if is_claim then CLAIM_INTERFACE (Intf_ID (InterfaceList st ! i))
        else RELEASE_INTERFACE (Intf_ID (InterfaceList st ! i))) w = (ok, data, ret, v)"
  shows "k_ClaimOrReleaseInterface drv h n is_claim is_index w =
     (let ix = Intf_Index (InterfaceList st ! i); k = shared_idx (uint ix) in
      Some (ok, None,
        if is_claim \<and> ok then set_selected h (uint ix) (upd_shared d k (\<lambda>s. s\<lparr>Claimed := True\<rparr>) v)
        else upd_shared d k (\<lambda>s. s\<lparr>Claimed := False\<rparr>) v))"
proof -
  note h = handle_okD [OF assms(1)]
  have st: "UsbStack (body (Handles (DevK w) ! d)) = Some st" using assms(2) by (simp add: sec_body_def)
  have io: "Ioctl_Sync drv (MasterDeviceHandle (body (Handles (DevK w) ! d)))
     (if is_claim then CLAIM_INTERFACE (Intf_ID (InterfaceList st ! i))
      else RELEASE_INTERFACE (Intf_ID (InterfaceList st ! i))) w = (ok, data, ret, v)"
    using assms(4) by (simp add: sec_body_def)
  have k: "UsbK v = UsbK w" "UsbK (upd_shared d k f v) = UsbK w" for k f
    using Ioctl_Sync_keeps [OF assms(4)] by (simp_all add: upd_shared_def sec_set_body_def)
  show ?thesis
  proof (cases "is_claim \<and> ok")
    case True
    show ?thesis unfolding k_ClaimOrReleaseInterface_def Let_def if_P [OF True]
      using True st assms(3) h(8) io
      by (intro with_UsbK_sel [OF assms(1)]) (simp_all add: k libk_frame upd_shared_def)
  next
    case False
    show ?thesis unfolding k_ClaimOrReleaseInterface_def Let_def if_not_P [OF False]
      using False st assms(3) h(8) io
      by (intro with_UsbK_dev [OF assms(1)]) (auto simp: k libk_frame upd_shared_def)
  qed
qed

theorem k_ClaimOrReleaseInterface_spec_witness:
  "\<exists>v. k_ClaimOrReleaseInterface stalled_driver 0 3 True False (example_open 5 0) = Some (True, None, v) \<and>
     Claimed (SharedInterfaces (sec_body lens_DevK 0 v) ! 0)"
proof -
  let ?w = "example_open 5 0"
  let ?v = "?w\<lparr>IoCount := 1, Trace := [DeviceIo 44 (CLAIM_INTERFACE 3)]\<rparr>"
  have io: "Ioctl_Sync stalled_driver 44 (CLAIM_INTERFACE 3) ?w = (True, [], 0, ?v)"
    by (simp add: Ioctl_Sync_def send_def log_event_def stalled_driver_def accepted_def)
      (simp add: example_open_def sec_set_body_def example_libk_def)
  have "k_ClaimOrReleaseInterface stalled_driver 0 3 True False ?w =
      Some (True, None, set_selected 0 0 (upd_shared 0 0 (\<lambda>s. s\<lparr>Claimed := True\<rparr>) ?v))"
    using k_ClaimOrReleaseInterface_spec [OF example_open_ok(1) [of 5 0], of _ False 3 0 stalled_driver True True "[]" 0 ?v] io
    by (simp add: example_open_ok(2) example_dev_def FindInterfaceEL_def shared_idx_def)
  then show ?thesis
    using example_open_ok(2) [of 5 0] handle_okD(4) [OF example_open_ok(1), of 5 0]
    by (simp add: upd_shared_def sec_set_body_def sec_body_def example_dev_def set_selected_def)
qed

text \<open>
  C33. A transfer that is still pending when the timeout of its pipe expires is aborted on that pipe,
  fails with \<open>ERROR_SEM_TIMEOUT\<close> and reports no bytes. A timeout of 0 never aborts: one request is
  sent and its result is the result of the call.
\<close>

theorem UsbK_ReadPipe_timeout:
  assumes "handle_ok w h d" "BackendCtx (sec_body lens_DevK d w) = Some ctx"
    and "dh = MasterDeviceHandle (sec_body lens_DevK d w)" "a = drv (IoCount w) dh (TRANSFER_READ p len)" "io_event a"
    and "b = drv (IoCount w + 1) dh (ABORT_ENDPOINT p)" "t = pol_timeout (pipe_policies ctx p)"
  shows "(t \<noteq> 0 \<and> io_pending a \<and> io_timed_out a \<and> io_event b \<and> io_ok b \<longrightarrow>
      UsbK_ReadPipe drv h p len NULL w = Some (False, Some ([], 0), w\<lparr>IoCount := IoCount w + 2,
        Trace := Trace w @ [DeviceIo dh (TRANSFER_READ p len), DeviceIo dh (ABORT_ENDPOINT p)],
        LastError := ERROR_SEM_TIMEOUT\<rparr>)) \<and>
    (t = 0 \<longrightarrow> UsbK_ReadPipe drv h p len NULL w =
       (let v = w\<lparr>IoCount := IoCount w + 1, Trace := Trace w @ [DeviceIo dh (TRANSFER_READ p len)]\<rparr> in
        if io_ok a then Some (True, Some (io_data a, io_ret a), v)
        else Some (False, Some ([], 0), SetLastError (io_err a) v)))"
proof -
  note h = handle_okD [OF assms(1)]
  have run: "UsbK_ReadPipe drv h p len NULL w = Some (ok, Some (data, ret), v)"
    if "Ioctl_SyncWithTimeout drv dh (TRANSFER_READ p len) t p w = (ok, data, ret, v)" for ok data ret v
    unfolding UsbK_ReadPipe_def pipe_transfer_def
    using that h(8) assms(2,3,7) Ioctl_SyncWithTimeout_keeps [OF that]
    by (intro with_UsbK_dev [OF assms(1)]) (simp_all add: sec_body_def libk_frame)
  have "UsbK_ReadPipe drv h p len NULL w = Some (False, Some ([], 0), w\<lparr>IoCount := IoCount w + 2,
        Trace := Trace w @ [DeviceIo dh (TRANSFER_READ p len), DeviceIo dh (ABORT_ENDPOINT p)],
        LastError := ERROR_SEM_TIMEOUT\<rparr>)"
    if "t \<noteq> 0" "io_pending a" "io_timed_out a" "io_event b" "io_ok b"
    by (rule run) (use assms(4,5,6) that in
      \<open>simp add: Ioctl_SyncWithTimeout_def Ioctl_Sync_def send_def log_event_def SetLastError_def\<close>)
  moreover have "UsbK_ReadPipe drv h p len NULL w =
        (let v = w\<lparr>IoCount := IoCount w + 1, Trace := Trace w @ [DeviceIo dh (TRANSFER_READ p len)]\<rparr> in
         if io_ok a then Some (True, Some (io_data a, io_ret a), v)
         else Some (False, Some ([], 0), SetLastError (io_err a) v))" if "t = 0"
    using run that assms(4,5)
    by (simp add: Ioctl_SyncWithTimeout_def send_def log_event_def Let_def)
  ultimately show ?thesis by blast
qed

theorem UsbK_ReadPipe_timeout_witness:
  "map_option (\<lambda>(r, out, v). (r, out, LastError v)) (UsbK_ReadPipe stalled_driver 0 0x81 64 NULL (example_open 5 100)) =
     Some (False, Some ([], 0), ERROR_SEM_TIMEOUT)"
proof -
  let ?ctx = "zero_ctx\<lparr>Version_major := 5, PipePolicies := (PipePolicies zero_ctx)[17 := \<lparr>pol_timeout = 100, pol_isoasap = 0\<rparr>]\<rparr>"
  have c: "BackendCtx (sec_body lens_DevK 0 (example_open 5 100)) = Some ?ctx" by (simp add: example_open_ok(2))
  have d: "44 = MasterDeviceHandle (sec_body lens_DevK 0 (example_open 5 100))"
    by (simp add: example_open_ok(2) example_dev_def)
  have t: "100 = pol_timeout (pipe_policies ?ctx 0x81)" by (simp add: pipe_policies_def PIPEID_TO_IDX_def zero_ctx_def)
  show ?thesis
    using UsbK_ReadPipe_timeout [OF example_open_ok(1) c d refl _ refl t, of stalled_driver 64]
    by (simp add: stalled_driver_def accepted_def)
qed

text \<open>
  On the libusb0 driver a handle without a clone cannot change the configuration: the driver
  accepts the request, then the tree is not rebuilt and the call fails with
  \<open>ERROR_RESOURCE_NOT_AVAILABLE\<close>, with the tree of the old configuration in place.
\<close>

theorem UsbK_SetConfiguration_libusb0:
  assumes "handle_ok w h d" "BackendCtx (sec_body lens_DevK d w) = Some ctx" "Version_major ctx \<le> 2"
    and "Ref (Handles (DevK w) ! d) = 1"
    and "Ioctl_Sync drv (MasterDeviceHandle (sec_body lens_DevK d w)) (SET_CONFIGURATION (ucast n)) w = (True, data, ret, v)"
  shows "UsbK_SetConfiguration fuel drv h n w = Some (False, None, SetLastError ERROR_RESOURCE_NOT_AVAILABLE v) \<and>
    DevK v = DevK w \<and> UsbK v = UsbK w"
proof -
  note h = handle_okD [OF assms(1)] and k = Ioctl_Sync_keeps [OF assms(5)]
  let ?s = "upd_handle h (\<lambda>k. k\<lparr>Ref := Ref k + 1\<rparr>) (UsbK w)"
  have "dev_of h v = dev_of h w" using k by (simp add: dev_of_def sec_body_def split: option.split)
  then have "dev_of h (v\<lparr>UsbK := ?s\<rparr>) = Some (d, body (Handles (DevK w) ! d))"
    using h(8) by (simp add: k(1) [symmetric])
  then have "UsbStack_Rebuild fuel h (k_Init_Config drv) (v\<lparr>UsbK := ?s\<rparr>) =
      Some (False, SetLastError ERROR_RESOURCE_NOT_AVAILABLE (v\<lparr>UsbK := ?s\<rparr>))"
    using h(4) assms(4) k(2) by (intro Rebuild_refused) (auto simp: is_long_def)
  moreover have "\<not> 2 < Version_major ctx" using assms(3) by (simp add: not_less)
  ultimately have "UsbK_SetConfiguration fuel drv h n w = Some (False, None, SetLastError ERROR_RESOURCE_NOT_AVAILABLE v)"
    unfolding UsbK_SetConfiguration_def
    using assms(2,5) h(8) k(1)
    by (intro with_UsbK_dev [OF assms(1)]) (simp_all add: sec_body_def libk_frame, simp add: SetLastError_def)
  with k show ?thesis by simp
qed

theorem UsbK_SetConfiguration_libusb0_witness:
  "map_option (\<lambda>(r, out, v). (r, LastError v, Trace v)) (UsbK_SetConfiguration 9 stalled_driver 0 2 (example_open 1 0)) =
     Some (False, ERROR_RESOURCE_NOT_AVAILABLE, [DeviceIo 44 (SET_CONFIGURATION 2)])"
proof -
  let ?w = "example_open 1 0"
  let ?v = "?w\<lparr>IoCount := 1, Trace := [DeviceIo 44 (SET_CONFIGURATION 2)]\<rparr>"
  have io: "Ioctl_Sync stalled_driver 44 (SET_CONFIGURATION 2) ?w = (True, [], 0, ?v)"
    by (simp add: Ioctl_Sync_def send_def log_event_def stalled_driver_def accepted_def)
      (simp add: example_open_def sec_set_body_def example_libk_def)
  show ?thesis
    using UsbK_SetConfiguration_libusb0 [OF example_open_ok(1) [of 1 0], of _ stalled_driver 2 "[]" 0 ?v 9] io example_open_ok(3) [of 1 0]
    by (simp add: example_open_ok(2) example_dev_def zero_ctx_def SetLastError_def)
qed

text \<open>
  The search for the current configuration on a device whose descriptors do not change. The value of
  descriptor 0 is compared with 0 for the one before it.
\<close>

definition config_matches :: "(nat \<Rightarrow> UCHAR list) \<Rightarrow> UCHAR \<Rightarrow> UCHAR \<Rightarrow> nat \<Rightarrow> nat \<Rightarrow> bool" where
  "config_matches hdr cur v0 i0 i \<longleftrightarrow> cur = 0 \<or> hdr i ! 5 = cur \<or> hdr i ! 5 = (if i = i0 then v0 else hdr (i - 1) ! 5)"

lemma find_config_search:
  assumes "\<And>n i. i < 254 \<Longrightarrow> io_event (drv n dh (GET_DESCRIPTOR 2 (word_of_nat i) 0 9)) \<and>
        io_ok (drv n dh (GET_DESCRIPTOR 2 (word_of_nat i) 0 9)) \<and>
        io_data (drv n dh (GET_DESCRIPTOR 2 (word_of_nat i) 0 9)) = hdr i \<and> length (hdr i) = 9"
    and "length check = 9" "idx \<le> 254"
  shows "\<exists>v. find_config drv dh cur idx lv check w =
       (map_option (\<lambda>i. (i, hdr i)) (find (config_matches hdr cur lv idx) [idx..<254]), v) \<and>
     IoCount v \<le> IoCount w + (254 - idx)"
  using assms(2,3)
proof (induction "254 - idx" arbitrary: idx lv check w)
  case 0
  then show ?case by (subst find_config.simps) (simp add: SetLastError_def)
next
  case (Suc k)
  then have i: "idx < 254" by simp
  obtain w1 r where io: "Ioctl_Sync drv dh (GET_DESCRIPTOR 2 (word_of_nat idx) 0 9) w = (True, hdr idx, r, w1)"
    and n: "IoCount w1 = IoCount w + 1"
    using assms(1) [OF i, of "IoCount w"] by (auto simp: Ioctl_Sync_def send_def log_event_def Let_def)
  have c: "overlay (hdr idx) check = hdr idx" "get_byte (hdr idx) 5 = hdr idx ! 5"
    using assms(1) [OF i] Suc.prems(1) by (simp_all add: overlay_def get_byte_def)
  show ?case
  proof (cases "config_matches hdr cur lv idx idx")
    case True
    then show ?thesis
      using i io n c by (subst find_config.simps) (simp add: config_matches_def upt_conv_Cons)
  next
    case False
    have s: "254 - (idx + 1) = k" "idx + 1 \<le> 254" using Suc.hyps(2) i by simp_all
    have "find (config_matches hdr cur lv idx) [idx + 1..<254] =
        find (config_matches hdr cur (hdr idx ! 5) (idx + 1)) [idx + 1..<254]"
      by (rule find_cong) (auto simp: config_matches_def)
    moreover obtain v where "find_config drv dh cur (idx + 1) (hdr idx ! 5) (hdr idx) w1 =
        (map_option (\<lambda>i. (i, hdr i)) (find (config_matches hdr cur (hdr idx ! 5) (idx + 1)) [idx + 1..<254]), v)"
      "IoCount v \<le> IoCount w1 + (254 - (idx + 1))"
      using Suc.hyps(1) [OF s(1) [symmetric] _ s(2), of "hdr idx"] assms(1) [OF i] by blast
    ultimately show ?thesis
      using i io n c False by (subst find_config.simps) (simp add: config_matches_def upt_conv_Cons)
  qed
qed



lemma unat_byte: "unat (ucast (drop_bit k (t :: UINT)) :: UCHAR) = unat t div 2 ^ k mod 256"
proof -
  have "unat t < 2 ^ LENGTH(32)" by (rule unsigned_less)
  then have "unat t mod 4294967296 = unat t" by simp
  then show ?thesis
    by (simp add: unsigned_ucast_eq take_bit_eq_mod unsigned_drop_bit_eq drop_bit_eq_div [of k "unat t"])
qed

lemma four_bytes:
  assumes "(n :: nat) < 4294967296"
  shows "n mod 256 + 256 * (n div 256 mod 256) + 65536 * (n div 65536 mod 256) + 16777216 * (n div 16777216 mod 256) = n"
proof -
  have "n mod 256 + 256 * (n div 256) = n" by (rule mod_mult_div_eq)
  moreover have "n div 256 mod 256 + 256 * (n div 65536) = n div 256"
    using mod_mult_div_eq [of "n div 256" 256] div_mult2_eq [of n 256 256] by simp
  moreover have "n div 65536 mod 256 + 256 * (n div 16777216) = n div 65536"
    using mod_mult_div_eq [of "n div 65536" 256] div_mult2_eq [of n 65536 256] by simp
  moreover have "n div 16777216 mod 256 = n div 16777216" using assms by (simp add: less_mult_imp_div_less)
  ultimately show ?thesis by linarith
qed

lemma le32_bytes32 [simp]: "le32 (bytes32 t) 0 = t"
proof -
  have "unat t < 2 ^ LENGTH(32)" by (rule unsigned_less)
  then have "unat t mod 256 + 256 * (unat t div 256 mod 256) + 65536 * (unat t div 65536 mod 256) +
      16777216 * (unat t div 16777216 mod 256) = unat t"
    by (intro four_bytes) simp
  moreover have "unat (ucast t :: UCHAR) = unat t mod 256" using unat_byte [of 0 t] by simp
  moreover have "word_of_nat (unat t) = t" by simp
  ultimately show ?thesis
    using unat_byte [of 8 t] unat_byte [of 16 t] unat_byte [of 24 t]
    by (simp only: le32_def bytes32_def get_byte_def) simp
qed

text \<open>Where a cached policy is found after one of a pipe was written.\<close>

lemma pipe_policies_upd:
  assumes "length (PipePolicies ctx) = 32"
  shows "pipe_policies (ctx\<lparr>PipePolicies := (PipePolicies ctx)[PIPEID_TO_IDX p := x]\<rparr>) q =
     (if PIPEID_TO_IDX q = PIPEID_TO_IDX p then x else pipe_policies ctx q)"
proof -
  have "PIPEID_TO_IDX r < 32" for r
  proof -
    have "unat (y AND 0x1F) \<le> unat (0x1F :: UCHAR)" for y :: UCHAR by (meson word_and_le1 word_le_nat_alt)
    then have "PIPEID_TO_IDX r \<le> unat (0x1F :: UCHAR)" by (simp only: PIPEID_TO_IDX_def)
    then show ?thesis by simp
  qed
  then show ?thesis using assms by (simp add: pipe_policies_def nth_list_update)
qed

lemma handle_ok_policy:
  assumes "handle_ok w h d" "BackendCtx (sec_body lens_DevK d w) = Some ctx"
  shows "handle_ok (upd_policy d p f w) h d" "UsbK (upd_policy d p f w) = UsbK w"
    "BackendCtx (sec_body lens_DevK d (upd_policy d p f w)) =
       Some (ctx\<lparr>PipePolicies := (PipePolicies ctx)[PIPEID_TO_IDX p := f (pipe_policies ctx p)]\<rparr>)"
  using assms handle_okD [OF assms(1)]
  by (auto simp: handle_ok_def upd_policy_def sec_set_body_def sec_body_def alive_def)

lemma GetPipePolicy_user:
  assumes "handle_ok w h d" "BackendCtx (sec_body lens_DevK d w) = Some ctx" "Version_major ctx \<le> 1" "q AND 0x0F \<noteq> 0"
  shows "UsbK_GetPipePolicy drv h q PIPE_TRANSFER_TIMEOUT (Some 4) True w =
     Some (True, Some (bytes32 (pol_timeout (pipe_policies ctx q)), 4), w)"
proof -
  have "\<not> 1 < Version_major ctx" using assms(3) by (simp add: not_less)
  then show ?thesis
    unfolding UsbK_GetPipePolicy_def require_def
    using assms(2,4) handle_okD(8) [OF assms(1)]
    by (simp, intro with_UsbK_dev [OF assms(1)]) (simp_all add: sec_body_def)
qed

lemma SetPipePolicy_user:
  assumes "handle_ok w h d" "BackendCtx (sec_body lens_DevK d w) = Some ctx" "Version_major ctx \<le> 2" "p AND 0x0F \<noteq> 0"
    and "fst (Mem_Alloc w)"
  shows "UsbK_SetPipePolicy drv h p PIPE_TRANSFER_TIMEOUT 4 (Some (bytes32 t)) w =
     Some (True, None, upd_policy d p (\<lambda>x. x\<lparr>pol_timeout := t\<rparr>) (snd (Mem_Alloc w)))"
proof -
  let ?s = "upd_handle h (\<lambda>k. k\<lparr>Ref := Ref k + 1\<rparr>) (UsbK w)"
  obtain v where v: "Mem_Alloc w = (True, v)" using assms(5) by (cases "Mem_Alloc w") auto
  then have u: "UsbK v = UsbK w" "DevK v = DevK w" by (auto simp: Mem_Alloc_def split: prod.splits)
  then have "dev_of h v = dev_of h w" by (simp add: dev_of_def sec_body_def split: option.split)
  then have "dev_of h (v\<lparr>UsbK := ?s\<rparr>) = Some (d, body (Handles (DevK w) ! d))"
    using handle_okD(8) [OF assms(1)] by (simp add: u(1) [symmetric])
  moreover have "\<not> 2 < Version_major ctx" using assms(3) by (simp add: not_less)
  ultimately show ?thesis
    unfolding UsbK_SetPipePolicy_def
    using assms(2,4) v u
    by (intro with_UsbK_dev [OF assms(1)])
      (simp_all add: sec_body_def libk_frame upd_policy_def request_data_def bytes32_def [of t, symmetric], simp add: bytes32_def)
qed



text \<open>
  Driver versions 2.x: setting a pipe timeout is done in the library, reading it back is left to
  the driver. The two functions compare the version with different bounds.
\<close>

theorem version_2_timeout_not_read_back:
  assumes "handle_ok w h d" "BackendCtx (sec_body lens_DevK d w) = Some ctx" "Version_major ctx = 2"
    and "p AND 0x0F \<noteq> 0" "fst (Mem_Alloc w)" "dh = MasterDeviceHandle (sec_body lens_DevK d w)"
    and "io_event (drv (IoCount w) dh (GET_PIPE_POLICY p PIPE_TRANSFER_TIMEOUT 4))"
      "\<not> io_ok (drv (IoCount w) dh (GET_PIPE_POLICY p PIPE_TRANSFER_TIMEOUT 4))"
  shows "\<exists>v v'. UsbK_SetPipePolicy drv h p PIPE_TRANSFER_TIMEOUT 4 (Some (bytes32 t)) w = Some (True, None, v) \<and>
     IoCount v = IoCount w \<and>
     UsbK_GetPipePolicy drv h p PIPE_TRANSFER_TIMEOUT (Some 4) True v = Some (False, Some ([], 0), v')"
proof -
  let ?m = "snd (Mem_Alloc w)" and ?f = "\<lambda>x. x\<lparr>pol_timeout := t\<rparr>"
  let ?v = "upd_policy d p ?f ?m"
  have m: "handle_ok ?m h d" "BackendCtx (sec_body lens_DevK d ?m) = Some ctx" "IoCount ?m = IoCount w"
    "MasterDeviceHandle (sec_body lens_DevK d ?m) = dh"
    using assms(1,2,6) by (auto simp: Mem_Alloc_def handle_ok_def sec_body_def split: prod.splits)
  have v: "IoCount ?v = IoCount w" "MasterDeviceHandle (sec_body lens_DevK d ?v) = dh"
    using m(3,4) handle_okD(4) [OF m(1)] by (simp_all add: upd_policy_def sec_set_body_def sec_body_def)
  have "UsbK_SetPipePolicy drv h p PIPE_TRANSFER_TIMEOUT 4 (Some (bytes32 t)) w = Some (True, None, ?v)"
    by (rule SetPipePolicy_user [OF assms(1,2) _ assms(4,5)]) (simp add: assms(3))
  moreover obtain v' where io: "Ioctl_Sync drv dh (GET_PIPE_POLICY p PIPE_TRANSFER_TIMEOUT 4) ?v = (False, [], 0, v')"
    using assms(7,8) by (simp add: Ioctl_Sync_def send_def Let_def v(1))
  have "UsbK_GetPipePolicy drv h p PIPE_TRANSFER_TIMEOUT (Some 4) True ?v = Some (False, Some ([], 0), v')"
    unfolding UsbK_GetPipePolicy_def require_def
    using handle_okD(8) [OF handle_ok_policy(1) [OF m(1,2)], of p ?f] handle_ok_policy(3) [OF m(1,2), of p ?f]
      io v Ioctl_Sync_keeps [OF io] assms(3)
    by (simp, intro with_UsbK_dev [OF handle_ok_policy(1) [OF m(1,2)]]) (simp_all add: sec_body_def libk_frame)
  with v(1) calculation show ?thesis by blast
qed

definition old_driver :: driver where
  "old_driver n dev code = (case code of GET_PIPE_POLICY _ _ _ \<Rightarrow> accepted\<lparr>io_ok := False, io_err := 1\<rparr> | _ \<Rightarrow> accepted)"

theorem version_2_timeout_not_read_back_witness:
  "\<exists>v v'. UsbK_SetPipePolicy old_driver 0 0x81 PIPE_TRANSFER_TIMEOUT 4 (Some (bytes32 1000)) (example_open 2 0) = Some (True, None, v) \<and>
     UsbK_GetPipePolicy old_driver 0 0x81 PIPE_TRANSFER_TIMEOUT (Some 4) True v = Some (False, Some ([], 0), v')"
proof -
  let ?ctx = "zero_ctx\<lparr>Version_major := 2, PipePolicies := (PipePolicies zero_ctx)[17 := \<lparr>pol_timeout = 0, pol_isoasap = 0\<rparr>]\<rparr>"
  have c: "BackendCtx (sec_body lens_DevK 0 (example_open 2 0)) = Some ?ctx" "Version_major ?ctx = 2"
    by (simp_all add: example_open_ok(2))
  have d: "44 = MasterDeviceHandle (sec_body lens_DevK 0 (example_open 2 0))"
    by (simp add: example_open_ok(2) example_dev_def)
  have m: "fst (Mem_Alloc (example_open 2 0))"
    by (simp add: Mem_Alloc_def take_alloc_def example_open_def sec_set_body_def example_libk_def)
  show ?thesis
    using version_2_timeout_not_read_back [OF example_open_ok(1) c _ m d, of "0x81" old_driver 1000]
    by (auto simp: old_driver_def accepted_def)
qed

end
