(* ===== verification/Ovl_Pool.thy ===== *)
theory Ovl_Pool
  imports Backend_UsbK "HOL-Library.Multiset"
begin

text \<open>
  Overlapped pools, \<open>lusbk_overlapped.c\<close>: a pool owns an array of list elements, each of which is
  on its list of released or of acquired elements (the \<open>DL_\<close> lists of \<open>Linked_List\<close>, in the store
  \<open>OvlHeap\<close>), and an overlapped handle is made for an element when it is first acquired.
  \<open>ovl_rep\<close> relates a pool to its two lists; the properties show what acquiring, releasing and
  waiting do to them.
\<close>

section \<open>Handles and their references\<close>

definition valid_handle ::
  "(libk, (cleanup, 'o) ksection) lens \<Rightarrow> nat \<Rightarrow> (libk \<Rightarrow> (bool \<times> 'r option \<times> libk) option) \<Rightarrow> libk
   \<Rightarrow> (bool \<times> 'r option \<times> libk) option" where
  "valid_handle L h k w =
     (if ALLK_VALID_HANDLE h (lget L w) then k w else Some (False, None, SetLastError ERROR_INVALID_HANDLE w))"

definition with_ref ::
  "(libk, (cleanup, 'o) ksection) lens \<Rightarrow> (nat \<Rightarrow> libk \<Rightarrow> bool \<times> libk) \<Rightarrow> DWORD \<Rightarrow> nat
   \<Rightarrow> (libk \<Rightarrow> (bool \<times> 'r option \<times> libk) option) \<Rightarrow> libk \<Rightarrow> (bool \<times> 'r option \<times> libk) option" where
  "with_ref L dec e h bdy w =
     (let (ok, w1) = sec_inc L h w in
      if \<not> ok then Some (False, None, SetLastError e w1)
      else case bdy w1 of
             None \<Rightarrow> None
           | Some (r, out, w2) \<Rightarrow> Some (r, out, snd (dec h w2)))"

abbreviation upd_ovl :: "nat \<Rightarrow> (ovl_obj \<Rightarrow> ovl_obj) \<Rightarrow> libk \<Rightarrow> libk" where
  "upd_ovl \<equiv> sec_set_body lens_OvlK"

abbreviation upd_pool :: "nat \<Rightarrow> (ovlpool_obj \<Rightarrow> ovlpool_obj) \<Rightarrow> libk \<Rightarrow> libk" where
  "upd_pool \<equiv> sec_set_body lens_OvlPoolK"

section \<open>Cleanup\<close>

definition SafeCloseEvent :: "HANDLE \<Rightarrow> libk \<Rightarrow> libk" where
  "SafeCloseEvent e w = (if e \<noteq> 0 then log_event (CloseHandle e) w else w)"

text \<open>
  The handle that brings the count of its pool to zero empties the pool. Memory that is freed is
  not touched in the store: only the pointer to it is cleared.
\<close>

definition Cleanup_OvlK :: "nat \<Rightarrow> libk \<Rightarrow> libk" where
  "Cleanup_OvlK h w =
     (let w1 = sec_dead lens_OvlK h w; v = sec_body lens_OvlK h w1; w2 = SafeCloseEvent (hEvent v) w1 in
      case Ovl_Pool v of
        None \<Rightarrow> w2
      | Some p \<Rightarrow>
          let c = to_long (MasterListCount (sec_body lens_OvlPoolK p w2) - 1);
              w3 = upd_pool p (\<lambda>q. q\<lparr>MasterListCount := c\<rparr>) w2;
              w4 = (if c = 0 then upd_pool p (\<lambda>q. q\<lparr>MasterArray := NULL, AcquiredList := NULL,
                                                    ReleasedList := NULL, MasterListCount := 0\<rparr>) w3
                    else w3)
          in upd_ovl h (\<lambda>v. v\<lparr>Ovl_Pool := None\<rparr>) w4)"

fun run_OvlK :: "cleanup \<Rightarrow> nat \<Rightarrow> libk \<Rightarrow> libk" where
  "run_OvlK Cleanup_OvlK_cb h w = Cleanup_OvlK h w"
| "run_OvlK _ h w = w"

definition Dec_OvlK :: "nat \<Rightarrow> libk \<Rightarrow> bool \<times> libk" where
  "Dec_OvlK h w = PoolHandle_Dec lens_OvlK run_OvlK (CurrentThreadId w) h w"

text \<open>
  The loop over the master array. The array is null only when the count has reached zero, which
  happens with the last element; reading it then would be an error of the code.
\<close>

fun release_elements :: "nat \<Rightarrow> nat \<Rightarrow> nat \<Rightarrow> libk \<Rightarrow> libk" where
  "release_elements p i 0 w = w"
| "release_elements p i (Suc n) w =
     (case OvlElHandle w (MasterArray (sec_body lens_OvlPoolK p w) + i) of
        None \<Rightarrow> release_elements p (i + 1) n w
      | Some h \<Rightarrow> release_elements p (i + 1) n (snd (Dec_OvlK h w)))"

definition Cleanup_OvlPoolK :: "nat \<Rightarrow> libk \<Rightarrow> libk" where
  "Cleanup_OvlPoolK p w =
     (let w1 = sec_dead lens_OvlPoolK p w;
          w2 = (case Pool_UsbHandle (sec_body lens_OvlPoolK p w1) of None \<Rightarrow> w1 | Some u \<Rightarrow> snd (Dec_UsbK u w1))
      in release_elements p 0 (nat (MasterListCount (sec_body lens_OvlPoolK p w2))) w2)"

fun run_OvlPoolK :: "cleanup \<Rightarrow> nat \<Rightarrow> libk \<Rightarrow> libk" where
  "run_OvlPoolK Cleanup_OvlPoolK_cb p w = Cleanup_OvlPoolK p w"
| "run_OvlPoolK _ p w = w"

definition Dec_OvlPoolK :: "nat \<Rightarrow> libk \<Rightarrow> bool \<times> libk" where
  "Dec_OvlPoolK p w = PoolHandle_Dec lens_OvlPoolK run_OvlPoolK (CurrentThreadId w) p w"

section \<open>Acquire and release\<close>

text \<open>Creating an event may fail like an allocation; the handle is then null.\<close>

definition o_Reuse :: "nat \<Rightarrow> libk \<Rightarrow> libk" where
  "o_Reuse h w =
     (let e = hEvent (sec_body lens_OvlK h w) in
      if e = 0 then
        (let (ok, w1) = Mem_Alloc w in
         if ok then upd_ovl h (\<lambda>v. v\<lparr>hEvent := NextEvent w1\<rparr>) (w1\<lparr>NextEvent := NextEvent w1 + 1\<rparr>) else w1)
      else log_event (ResetEvent e) w)"

text \<open>What is done to the handle that is handed out: a handle that is new becomes valid for the user.\<close>

definition hand_out :: "bool \<Rightarrow> nat \<Rightarrow> addr \<Rightarrow> nat \<Rightarrow> libk \<Rightarrow> libk" where
  "hand_out fresh p el h w =
     (let w1 = o_Reuse h (upd_ovl h (\<lambda>v. v\<lparr>MasterLink := el, Ovl_Pool := Some p\<rparr>) w);
          w2 = (if fresh then sec_live lens_OvlK h w1 else w1)
      in upd_ovl h (\<lambda>v. v\<lparr>IsAcquired := 1\<rparr>) w2)"

definition OvlK_Acquire :: "bool \<Rightarrow> nat \<Rightarrow> libk \<Rightarrow> (bool \<times> nat option \<times> libk) option" where
  "OvlK_Acquire out_valid p =
     require out_valid ERROR_INVALID_PARAMETER (
     valid_handle lens_OvlPoolK p (
     with_ref lens_OvlPoolK Dec_OvlPoolK ERROR_RESOURCE_NOT_AVAILABLE p (\<lambda>w.
       let el = ReleasedList (sec_body lens_OvlPoolK p w) in
       if el = NULL then fail ERROR_NO_MORE_ITEMS w
       else do {
         (hp, rl) \<leftarrow> DL_DELETE (OvlHeap w) el el;
         let w1 = upd_pool p (\<lambda>q. q\<lparr>ReleasedList := rl\<rparr>) (w\<lparr>OvlHeap := hp\<rparr>);
         let (h, fresh, w2) =
           (case OvlElHandle w1 el of
              Some h \<Rightarrow> (Some h, False, w1)
            | None \<Rightarrow> let (h, v) = sec_acquire lens_OvlK Init_Handle_OvlK (Some Cleanup_OvlK_cb) w1
                      in (h, True, v\<lparr>OvlElHandle := (OvlElHandle v)(el := h)\<rparr>));
         (case h of
            None \<Rightarrow> do {
              (hp, rl) \<leftarrow> DL_PREPEND (OvlHeap w2) (ReleasedList (sec_body lens_OvlPoolK p w2)) el;
              Some (False, None, upd_pool p (\<lambda>q. q\<lparr>ReleasedList := rl\<rparr>) (w2\<lparr>OvlHeap := hp\<rparr>)) }
          | Some h \<Rightarrow> do {
              let w3 = hand_out fresh p el h w2;
              (hp, al) \<leftarrow> DL_APPEND (OvlHeap w3) (AcquiredList (sec_body lens_OvlPoolK p w3)) el;
              Some (True, Some h, upd_pool p (\<lambda>q. q\<lparr>AcquiredList := al\<rparr>) (w3\<lparr>OvlHeap := hp\<rparr>)) }) })))"

definition OvlK_Release :: "nat \<Rightarrow> libk \<Rightarrow> (bool \<times> unit option \<times> libk) option" where
  "OvlK_Release h =
     valid_handle lens_OvlK h (
     with_ref lens_OvlK Dec_OvlK ERROR_INVALID_PARAMETER h (\<lambda>w.
       let v = sec_body lens_OvlK h w in
       case Ovl_Pool v of
         None \<Rightarrow> fail ERROR_ACCESS_DENIED w
       | Some p \<Rightarrow>
           let w1 = upd_ovl h (\<lambda>v. v\<lparr>IsAcquired := 0\<rparr>) w in
           if IsAcquired v = 0 then fail ERROR_ACCESS_DENIED w1
           else do {
             (hp1, al) \<leftarrow> DL_DELETE (OvlHeap w1) (AcquiredList (sec_body lens_OvlPoolK p w1)) (MasterLink v);
             let w2 = upd_pool p (\<lambda>q. q\<lparr>AcquiredList := al\<rparr>) (w1\<lparr>OvlHeap := hp1\<rparr>);
             (hp2, rl) \<leftarrow> DL_PREPEND (OvlHeap w2) (ReleasedList (sec_body lens_OvlPoolK p w2)) (MasterLink v);
             Some (True, None, upd_pool p (\<lambda>q. q\<lparr>ReleasedList := rl\<rparr>) (w2\<lparr>OvlHeap := hp2\<rparr>)) }))"

section \<open>Creating and freeing a pool\<close>

fun append_all :: "dl_heap \<Rightarrow> addr \<Rightarrow> addr list \<Rightarrow> (dl_heap \<times> addr) option" where
  "append_all h head [] = Some (h, head)"
| "append_all h head (a # as) = do { (h1, head1) \<leftarrow> DL_APPEND h head a; append_all h1 head1 as }"

text \<open>The master array is zeroed memory at fresh addresses.\<close>

definition alloc_cells :: "nat \<Rightarrow> libk \<Rightarrow> addr \<times> libk" where
  "alloc_cells n w =
     (let b = OvlBrk w; fresh = (\<lambda>a. b \<le> a \<and> a < b + n); hp = OvlHeap w in
      (b, w\<lparr>OvlBrk := b + n + 1,
            OvlHeap := \<lparr>nxt = (\<lambda>a. if fresh a then NULL else nxt hp a), prv = (\<lambda>a. if fresh a then NULL else prv hp a)\<rparr>,
            OvlElHandle := (\<lambda>a. if fresh a then None else OvlElHandle w a)\<rparr>))"

text \<open>
  \<open>*PoolHandle\<close> is written before the pointer is checked. The device handle is released twice when
  the array cannot be allocated: by the function and by the cleanup of the pool handle.
\<close>

definition OvlK_Init :: "bool \<Rightarrow> nat \<Rightarrow> int \<Rightarrow> UINT \<Rightarrow> libk \<Rightarrow> (bool \<times> nat option \<times> libk) option" where
  "OvlK_Init out_valid u n flags w0 =
     (if \<not> out_valid then None
      else require (n \<le> 256) ERROR_INVALID_PARAMETER (
        valid_handle lens_UsbK u (\<lambda>w.
          case sec_acquire lens_OvlPoolK Init_Handle_OvlPoolK (Some Cleanup_OvlPoolK_cb) w of
            (None, w1) \<Rightarrow> Some (False, None, w1)
          | (Some p, w1) \<Rightarrow>
              let w2 = upd_pool p (\<lambda>q. q\<lparr>Pool_Flags := flags\<rparr>) w1;
                  (inc, w3) = sec_inc lens_UsbK u w2
              in if \<not> inc
                 then Some (False, None, snd (Dec_OvlPoolK p (SetLastError ERROR_RESOURCE_NOT_AVAILABLE w3)))
                 else
                   let w4 = upd_pool p (\<lambda>q. q\<lparr>Pool_UsbHandle := Some u\<rparr>) w3;
                       (mem, w5) = Mem_Alloc w4
                   in if \<not> mem
                      then let w6 = upd_pool p (\<lambda>q. q\<lparr>MasterArray := NULL\<rparr>) w5
                           in Some (False, None, snd (Dec_OvlPoolK p (snd (Dec_UsbK u (SetLastError ERROR_NOT_ENOUGH_MEMORY w6)))))
                      else
                        let (b, w6) = alloc_cells (nat n) w5;
                            w7 = upd_pool p (\<lambda>q. q\<lparr>MasterArray := b, MasterListCount := n\<rparr>) w6
                        in do {
                          (hp, rl) \<leftarrow> append_all (OvlHeap w7) (ReleasedList (sec_body lens_OvlPoolK p w7)) [b..<b + nat n];
                          Some (True, Some p, sec_live lens_OvlPoolK p
                            (upd_pool p (\<lambda>q. q\<lparr>ReleasedList := rl, Pool_Flags := flags\<rparr>) (w7\<lparr>OvlHeap := hp\<rparr>))) })) w0)"

definition OvlK_Free :: "nat \<Rightarrow> libk \<Rightarrow> (bool \<times> unit option \<times> libk) option" where
  "OvlK_Free p =
     valid_handle lens_OvlPoolK p (\<lambda>w0.
       map_option (\<lambda>(r, out, w). (r, out, if r then snd (Dec_OvlPoolK p w) else w))
         (with_ref lens_OvlPoolK Dec_OvlPoolK ERROR_RESOURCE_NOT_AVAILABLE p (\<lambda>w. Some (True, None, w)) w0))"

definition OvlK_GetEventHandle :: "nat \<Rightarrow> libk \<Rightarrow> HANDLE \<times> libk" where
  "OvlK_GetEventHandle h w =
     (if ALLK_VALID_HANDLE h (OvlK w) then (hEvent (sec_body lens_OvlK h w), w)
      else (0, SetLastError ERROR_INVALID_HANDLE w))"

section \<open>Waiting\<close>

text \<open>
  What the system answers: the outcome of the first and of the second wait on an event, the result
  that the driver's \<open>GetOverlappedResult\<close> gives for a device handle and an overlapped handle (its
  error code, 0 for success, and the transferred length it writes), and the error code of the
  attempt to cancel the requests of a device (0 for success).
\<close>

datatype wait_answer = WAIT_OBJECT_0 | WAIT_TIMEOUT | WAIT_IO_COMPLETION | WAIT_FAILED DWORD

record wait_env =
  we_wait :: "bool \<Rightarrow> HANDLE \<Rightarrow> wait_answer"
  we_result :: "bool \<Rightarrow> nat \<Rightarrow> nat \<Rightarrow> DWORD \<times> UINT option"
  we_cancel :: "HANDLE \<Rightarrow> nat \<Rightarrow> DWORD"

abbreviation KOVL_WAIT_FLAG_RELEASE_ON_SUCCESS :: UINT where "KOVL_WAIT_FLAG_RELEASE_ON_SUCCESS \<equiv> 0x0001"
abbreviation KOVL_WAIT_FLAG_RELEASE_ON_FAIL :: UINT where "KOVL_WAIT_FLAG_RELEASE_ON_FAIL \<equiv> 0x0002"
abbreviation KOVL_WAIT_FLAG_CANCEL_ON_TIMEOUT :: UINT where "KOVL_WAIT_FLAG_CANCEL_ON_TIMEOUT \<equiv> 0x0004"
abbreviation KOVL_WAIT_FLAG_RELEASE_ON_TIMEOUT :: UINT where "KOVL_WAIT_FLAG_RELEASE_ON_TIMEOUT \<equiv> 0x000C"
abbreviation KOVL_WAIT_FLAG_RELEASE_ALWAYS :: UINT where "KOVL_WAIT_FLAG_RELEASE_ALWAYS \<equiv> 0x000F"
abbreviation KOVL_WAIT_FLAG_ALERTABLE :: UINT where "KOVL_WAIT_FLAG_ALERTABLE \<equiv> 0x0010"

definition release_if :: "bool \<Rightarrow> nat \<Rightarrow> libk \<Rightarrow> libk option" where
  "release_if c h w = (if c then map_option (\<lambda>(r, out, v). v) (OvlK_Release h w) else Some w)"

definition pool_device :: "nat \<Rightarrow> libk \<Rightarrow> (nat \<times> dev_obj) option" where
  "pool_device h w = do {
     p \<leftarrow> Ovl_Pool (sec_body lens_OvlK h w);
     u \<leftarrow> Pool_UsbHandle (sec_body lens_OvlPoolK p w);
     (d, dev) \<leftarrow> dev_of u w;
     Some (u, dev) }"

text \<open>
  The part of \<open>OvlK_Wait\<close> between the label \<open>CancelIoRetry\<close> and the end; going back to the label
  clears the flag that led there. The result is the error code and the transferred length.
\<close>

lemma clear_flag: "(f XOR 4) AND 4 = (f AND 4) XOR (4 :: UINT)"
  by (rule bit_word_eqI) (auto simp: bit_simps)

lemma bit_4: "bit (4 :: UINT) n \<longleftrightarrow> n = 2"
  using bit_exp_iff [where ?'a = "32 word", of 2 n] by auto

lemma flag_4: "(f AND 4 :: UINT) = 0 \<or> (f AND 4 :: UINT) = 4"
proof (cases "bit f 2")
  case True
  have "(f AND 4) = (4 :: UINT)" using True by (intro bit_word_eqI) (simp only: bit_and_iff bit_4, blast)
  then show ?thesis by simp
next
  case False
  have "(f AND 4) = (0 :: UINT)" using False by (intro bit_word_eqI) (simp only: bit_and_iff bit_4 bit_0_eq bot_apply bot_bool_def, blast)
  then show ?thesis by simp
qed

lemma flag_cleared: "f AND 4 \<noteq> 0 \<Longrightarrow> (f XOR 4) AND 4 = (0 :: UINT)"
  using flag_4 [of f] by (simp add: clear_flag)

function ovl_wait ::
  "wait_env \<Rightarrow> nat \<Rightarrow> bool \<Rightarrow> UINT \<Rightarrow> UINT option \<Rightarrow> libk \<Rightarrow> (DWORD \<times> UINT option \<times> libk) option" where
  "ovl_wait env h cancelled flags len w =
     (let v = sec_body lens_OvlK h w; ans = we_wait env cancelled (hEvent v);
          alertable = (flags AND KOVL_WAIT_FLAG_ALERTABLE \<noteq> 0 \<and> \<not> cancelled)
      in if alertable \<and> ans = WAIT_IO_COMPLETION then Some (192, len, w)
         else do {
           (e, len1) \<leftarrow>
             (case ans of
                WAIT_OBJECT_0 \<Rightarrow> do {
                  (u, dev) \<leftarrow> pool_device h w;
                  _ \<leftarrow> DriverAPI dev;
                  let (e, n) = we_result env cancelled u h;
                  Some (e, case n of None \<Rightarrow> len | Some _ \<Rightarrow> n) }
              | WAIT_TIMEOUT \<Rightarrow> Some (if cancelled then ERROR_CANCELLED else ERROR_IO_INCOMPLETE, len)
              | WAIT_IO_COMPLETION \<Rightarrow> Some (LastError w, len)
              | WAIT_FAILED e \<Rightarrow> Some (e, len));
           (if e = ERROR_SUCCESS then
              map_option (\<lambda>w1. (e, len1, w1)) (release_if (flags AND KOVL_WAIT_FLAG_RELEASE_ON_SUCCESS \<noteq> 0) h w)
            else if e = ERROR_IO_INCOMPLETE then
              (if flags AND KOVL_WAIT_FLAG_CANCEL_ON_TIMEOUT \<noteq> 0 then do {
                 (u, dev) \<leftarrow> pool_device h w;
                 let w1 = log_event (CancelIo (MasterDeviceHandle dev)) w;
                 let e2 = we_cancel env (MasterDeviceHandle dev) h;
                 (if e2 = ERROR_SUCCESS
                  then ovl_wait env h True (flags XOR KOVL_WAIT_FLAG_CANCEL_ON_TIMEOUT) len1 w1
                  else map_option (\<lambda>w2. (e2, len1, w2))
                         (release_if (flags AND KOVL_WAIT_FLAG_RELEASE_ON_TIMEOUT \<noteq> 0) h (log_event (SetEvent (hEvent v)) w1))) }
               else map_option (\<lambda>w1. (e, len1, w1)) (release_if (flags AND KOVL_WAIT_FLAG_RELEASE_ON_TIMEOUT \<noteq> 0) h w))
            else if e = ERROR_OPERATION_ABORTED \<or> e = ERROR_CANCELLED \<or> e = ERROR_SEM_TIMEOUT then
              map_option (\<lambda>w1. (if cancelled then ERROR_CANCELLED else ERROR_OPERATION_ABORTED, len1, w1))
                (release_if (flags AND KOVL_WAIT_FLAG_RELEASE_ON_FAIL \<noteq> 0) h w)
            else map_option (\<lambda>w1. (e, len1, w1)) (release_if (flags AND KOVL_WAIT_FLAG_RELEASE_ON_FAIL \<noteq> 0) h w)) })"
  by pat_completeness auto
termination
  by (relation "measure (\<lambda>(env, h, cancelled, flags, len, w). if flags AND 4 = 0 then 0 else 1)") (auto simp: flag_cleared)

declare ovl_wait.simps [simp del]

definition OvlK_Wait ::
  "wait_env \<Rightarrow> nat \<Rightarrow> UINT \<Rightarrow> bool \<Rightarrow> libk \<Rightarrow> (bool \<times> UINT option \<times> libk) option" where
  "OvlK_Wait env h flags out_valid =
     valid_handle lens_OvlK h (
     require out_valid ERROR_INVALID_PARAMETER (\<lambda>w.
     require (Ovl_Pool (sec_body lens_OvlK h w) \<noteq> None) ERROR_INVALID_PARAMETER (\<lambda>w0.
       map_option (\<lambda>(r, out, w).
           case out of
             None \<Rightarrow> (False, None, w)
           | Some (e, len) \<Rightarrow> let (ok, w1) = LusbwError e w in (ok, len, w1))
         (with_ref lens_OvlK Dec_OvlK ERROR_INVALID_PARAMETER h
            (\<lambda>w. map_option (\<lambda>(e, len, w1). (True, Some (e, len), w1)) (ovl_wait env h False flags None w)) w0)) w))"

definition OvlK_WaitOrCancel :: "wait_env \<Rightarrow> nat \<Rightarrow> bool \<Rightarrow> libk \<Rightarrow> (bool \<times> UINT option \<times> libk) option" where
  "OvlK_WaitOrCancel env h out_valid = OvlK_Wait env h KOVL_WAIT_FLAG_CANCEL_ON_TIMEOUT out_valid"

definition OvlK_WaitAndRelease :: "wait_env \<Rightarrow> nat \<Rightarrow> bool \<Rightarrow> libk \<Rightarrow> (bool \<times> UINT option \<times> libk) option" where
  "OvlK_WaitAndRelease env h out_valid = OvlK_Wait env h KOVL_WAIT_FLAG_RELEASE_ALWAYS out_valid"

text \<open>The oldest acquired handle, which is returned also when the wait fails.\<close>

definition OvlK_WaitOldest ::
  "wait_env \<Rightarrow> nat \<Rightarrow> UINT \<Rightarrow> bool \<Rightarrow> libk \<Rightarrow> (bool \<times> (nat option \<times> UINT option) option \<times> libk) option" where
  "OvlK_WaitOldest env p flags out_valid =
     valid_handle lens_OvlPoolK p (\<lambda>w.
       let el = AcquiredList (sec_body lens_OvlPoolK p w) in
       if el = NULL then fail ERROR_NO_MORE_ITEMS w
       else case OvlElHandle w el of
              None \<Rightarrow> Some (False, Some (None, None), SetLastError ERROR_INVALID_HANDLE w)
            | Some h \<Rightarrow> map_option (\<lambda>(r, len, w1). (r, Some (Some h, len), w1)) (OvlK_Wait env h flags out_valid w))"

definition OvlK_IsComplete :: "wait_env \<Rightarrow> nat \<Rightarrow> libk \<Rightarrow> bool \<times> libk" where
  "OvlK_IsComplete env h w =
     (if ALLK_VALID_HANDLE h (OvlK w) then (we_wait env False (hEvent (sec_body lens_OvlK h w)) \<noteq> WAIT_TIMEOUT, w)
      else (False, SetLastError ERROR_INVALID_HANDLE w))"

definition OvlK_ReUse :: "nat \<Rightarrow> libk \<Rightarrow> (bool \<times> unit option \<times> libk) option" where
  "OvlK_ReUse h =
     valid_handle lens_OvlK h (with_ref lens_OvlK Dec_OvlK ERROR_INVALID_HANDLE h (\<lambda>w. Some (True, None, o_Reuse h w)))"

section \<open>What the operations do to the lists\<close>

lemma valid_handle_run: "h < handle_count (lget L w) \<Longrightarrow> valid_handle L h k w = k w"
  by (simp add: valid_handle_def ALLK_VALID_HANDLE_iff)

context libk_pool
begin

text \<open>A reference that is taken and dropped around a body that keeps the handle in use.\<close>

lemma with_ref_run:
  assumes "\<And>h w. dec h w = PoolHandle_Dec L run (CurrentThreadId w) h w"
    and "alive (lget L w) h" "Ref (Handles (lget L w) ! h) < 2147483646"
    and "bdy (lput L (upd_handle h (\<lambda>k. k\<lparr>Ref := Ref k + 1\<rparr>) (lget L w)) w) = Some (r, out, v)"
    and "lget L v = upd_handle h (\<lambda>k. k\<lparr>Ref := Ref k + 1, body := f (body k)\<rparr>) (lget L w)"
  shows "with_ref L dec e h bdy w =
     Some (r, out, lput L (upd_handle h (\<lambda>k. k\<lparr>body := f (body k)\<rparr>) (lget L w)) v)"
proof -
  have h: "h < handle_count (lget L w)" using assms(2) by (simp add: alive_def)
  have "alive (lget L v) h" "1 < Ref (Handles (lget L v) ! h)"
    using assms(2,3) h by (auto simp: alive_def assms(5))
  then have "dec h v = (True, lput L (upd_handle h (\<lambda>k. k\<lparr>Ref := Ref k - 1\<rparr>) (lget L v)) v)"
    by (simp add: assms(1) dec_alive)
  moreover have "upd_handle h (\<lambda>k. k\<lparr>Ref := Ref k - 1\<rparr>) (lget L v) =
      upd_handle h (\<lambda>k. k\<lparr>body := f (body k)\<rparr>) (lget L w)"
    using h by (simp add: assms(5))
  ultimately show ?thesis
    using assms(4) inc_alive [OF assms(2)] by (simp add: with_ref_def)
qed

end

text \<open>
  The state of a pool, abstractly: the elements on its released and on its acquired list. A handle
  belongs to an element when it is in use and linked to it. \<open>rep\<close> is stated over the parts of the
  state that it depends on.
\<close>

definition owned :: "(cleanup, ovl_obj) ksection \<Rightarrow> nat \<Rightarrow> addr \<Rightarrow> LONG \<Rightarrow> nat \<Rightarrow> bool" where
  "owned s p a i h \<longleftrightarrow> alive s h \<and> Ref (Handles s ! h) < 2147483646 \<and> MasterLink (body (Handles s ! h)) = a \<and>
     Ovl_Pool (body (Handles s ! h)) = Some p \<and> IsAcquired (body (Handles s ! h)) = i"

definition rep ::
  "dl_heap \<Rightarrow> (addr \<Rightarrow> nat option) \<Rightarrow> (cleanup, ovl_obj) ksection \<Rightarrow> nat \<Rightarrow> ovlpool_obj \<Rightarrow> addr list \<Rightarrow> addr list \<Rightarrow> bool" where
  "rep hp E s p q rel acq \<longleftrightarrow>
     dl_rep hp (ReleasedList q) rel \<and> dl_rep hp (AcquiredList q) acq \<and> set rel \<inter> set acq = {} \<and>
     (\<forall>a \<in> set acq. \<exists>h. E a = Some h \<and> owned s p a 1 h) \<and>
     (\<forall>a \<in> set rel. \<forall>h. E a = Some h \<longrightarrow> owned s p a 0 h)"

definition ovl_rep :: "libk \<Rightarrow> nat \<Rightarrow> addr list \<Rightarrow> addr list \<Rightarrow> bool" where
  "ovl_rep w p rel acq \<longleftrightarrow>
     alive (OvlPoolK w) p \<and> Ref (Handles (OvlPoolK w) ! p) < 2147483646 \<and>
     rep (OvlHeap w) (OvlElHandle w) (OvlK w) p (body (Handles (OvlPoolK w) ! p)) rel acq"

lemma owned_upd:
  assumes "owned s p a i h" "g < handle_count s" "h \<noteq> g"
  shows "owned (upd_handle g f s) p a i h"
  using assms by (auto simp: owned_def alive_def)

lemma owned_unique: "owned s p a i h \<Longrightarrow> owned s p b j h \<Longrightarrow> a = b \<and> i = j"
  by (auto simp: owned_def)

text \<open>Moving an element from the acquired to the front of the released list.\<close>

lemma rep_release:
  assumes "rep hp E s p q rel acq" "a \<in> set acq" "E a = Some h"
  shows "\<exists>hp1 al hp2 rl. DL_DELETE hp (AcquiredList q) a = Some (hp1, al) \<and>
     DL_PREPEND hp1 (ReleasedList q) a = Some (hp2, rl) \<and>
     rep hp2 E (upd_handle h (\<lambda>k. k\<lparr>body := (body k)\<lparr>IsAcquired := 0\<rparr>\<rparr>) s) p
       (q\<lparr>AcquiredList := al, ReleasedList := rl\<rparr>) (a # rel) (remove1 a acq)"
proof -
  have d: "dl_rep hp (ReleasedList q) rel" "dl_rep hp (AcquiredList q) acq" "set rel \<inter> set acq = {}"
    and o: "\<forall>a \<in> set acq. \<exists>h. E a = Some h \<and> owned s p a 1 h" "\<forall>a \<in> set rel. \<forall>h. E a = Some h \<longrightarrow> owned s p a 0 h"
    using assms(1) by (auto simp: rep_def)
  have dist: "distinct acq" "a \<noteq> NULL" "a \<notin> set rel"
    using dl_repD(1,2) [OF d(2)] assms(2) d(3) by auto
  obtain hp1 al where 1: "DL_DELETE hp (AcquiredList q) a = Some (hp1, al)" "dl_rep hp1 al (remove1 a acq)"
    "\<forall>x. x \<notin> set (remove1 a acq) \<longrightarrow> nxt hp1 x = nxt hp x \<and> prv hp1 x = prv hp x"
    using DL_DELETE_rep [OF d(2) assms(2)] by blast
  have "dl_rep hp1 (ReleasedList q) rel"
    using 1(3) d(3) set_remove1_subset [of a acq] by (intro dl_rep_frame [OF d(1)]) blast
  then obtain hp2 where 2: "DL_PREPEND hp1 (ReleasedList q) a = Some (hp2, a)" "dl_rep hp2 a (a # rel)"
    "\<forall>x. x \<noteq> a \<and> x \<notin> set rel \<longrightarrow> nxt hp2 x = nxt hp1 x \<and> prv hp2 x = prv hp1 x"
    using DL_PREPEND_rep dist by blast
  have 3: "dl_rep hp2 al (remove1 a acq)"
    using 2(3) d(3) dist by (intro dl_rep_frame [OF 1(2)]) auto
  have h: "owned s p a 1 h" using o(1) assms(2,3) by fastforce
  then have c: "h < handle_count s" by (simp add: owned_def alive_def)
  let ?s = "upd_handle h (\<lambda>k. k\<lparr>body := (body k)\<lparr>IsAcquired := 0\<rparr>\<rparr>) s"
  have "owned ?s p a 0 h" using h c by (auto simp: owned_def alive_def)
  moreover have "\<exists>g. E b = Some g \<and> owned ?s p b 1 g" if "b \<in> set (remove1 a acq)" for b
  proof -
    have b: "b \<in> set acq" "b \<noteq> a" using that dist(1) by auto
    obtain g where g: "E b = Some g" "owned s p b 1 g" using o(1) b(1) by blast
    have "g \<noteq> h" using owned_unique [OF g(2)] h b(2) by blast
    then show ?thesis using owned_upd [OF g(2) c] g(1) by blast
  qed
  moreover have "owned ?s p b 0 g" if "b \<in> set rel" "E b = Some g" for b g
  proof -
    have g: "owned s p b 0 g" using that o(2) by blast
    have "g \<noteq> h" using owned_unique [OF g, of a 1] h by auto
    then show ?thesis by (rule owned_upd [OF g c])
  qed
  ultimately show ?thesis
    using 1(1) 2(1,2) 3 d(3) assms(3) dist by (intro exI [of _ hp1] exI [of _ al] exI [of _ hp2] exI [of _ a]) (auto simp: rep_def)
qed

text \<open>Moving the first released element to the end of the acquired list, for a handle that then belongs to it.\<close>

lemma rep_acquire:
  assumes "rep hp E s p q (a # rel) acq"
    and "owned s' p a 1 h" "\<And>b i g. b \<noteq> a \<Longrightarrow> owned s p b i g \<Longrightarrow> owned s' p b i g"
  shows "\<exists>hp1 rl hp2 al. ReleasedList q = a \<and> a \<noteq> NULL \<and> DL_DELETE hp a a = Some (hp1, rl) \<and>
     DL_APPEND hp1 (AcquiredList q) a = Some (hp2, al) \<and>
     rep hp2 (E(a := Some h)) s' p (q\<lparr>ReleasedList := rl, AcquiredList := al\<rparr>) rel (acq @ [a])"
proof -
  have d: "dl_rep hp (ReleasedList q) (a # rel)" "dl_rep hp (AcquiredList q) acq" "set (a # rel) \<inter> set acq = {}"
    and o: "\<forall>a \<in> set acq. \<exists>h. E a = Some h \<and> owned s p a 1 h" "\<forall>b \<in> set (a # rel). \<forall>h. E b = Some h \<longrightarrow> owned s p b 0 h"
    using assms(1) by (auto simp: rep_def)
  have hd: "ReleasedList q = a" "a \<noteq> NULL" "a \<notin> set rel" "a \<notin> set acq"
    using dl_repD [OF d(1)] d(1,3) by (auto simp: dl_rep_def)
  have r: "remove1 a (a # rel) = rel" "a \<in> set (a # rel)" by simp_all
  obtain hp1 rl where 1: "DL_DELETE hp a a = Some (hp1, rl)" "dl_rep hp1 rl rel"
    "\<forall>x. x \<notin> set rel \<longrightarrow> nxt hp1 x = nxt hp x \<and> prv hp1 x = prv hp x"
    using DL_DELETE_rep [OF d(1) r(2)] unfolding r hd(1) by blast
  have "dl_rep hp1 (AcquiredList q) acq"
    using 1(3) d(3) by (intro dl_rep_frame [OF d(2)]) auto
  then obtain hp2 al where 2: "DL_APPEND hp1 (AcquiredList q) a = Some (hp2, al)" "dl_rep hp2 al (acq @ [a])"
    "\<forall>x. x \<noteq> a \<and> x \<notin> set acq \<longrightarrow> nxt hp2 x = nxt hp1 x \<and> prv hp2 x = prv hp1 x"
    using DL_APPEND_rep hd(2,4) by blast
  have 3: "dl_rep hp2 rl rel"
    using 2(3) d(3) hd(3) by (intro dl_rep_frame [OF 1(2)]) auto
  have "\<exists>g. (E(a := Some h)) b = Some g \<and> owned s' p b 1 g" if "b \<in> set (acq @ [a])" for b
    using that o(1) assms(2,3) by (cases "b = a") auto
  moreover have "owned s' p b 0 g" if "b \<in> set rel" "(E(a := Some h)) b = Some g" for b g
  proof -
    have "b \<noteq> a" using that(1) hd(3) by auto
    then show ?thesis using that o(2) assms(3) by auto
  qed
  ultimately show ?thesis
    using hd 1(1) 2(1,2) 3 d(3) by (intro exI [of _ hp1] exI [of _ rl] exI [of _ hp2] exI [of _ al]) (auto simp: rep_def)
qed

definition released :: "nat \<Rightarrow> nat \<Rightarrow> dl_heap \<Rightarrow> addr \<Rightarrow> addr \<Rightarrow> libk \<Rightarrow> libk" where
  "released h p hp al rl w = w\<lparr>OvlHeap := hp, OvlK := upd_handle h (\<lambda>k. k\<lparr>body := (body k)\<lparr>IsAcquired := 0\<rparr>\<rparr>) (OvlK w),
     OvlPoolK := upd_handle p (\<lambda>k. k\<lparr>body := (body k)\<lparr>AcquiredList := al, ReleasedList := rl\<rparr>\<rparr>) (OvlPoolK w)\<rparr>"

lemma OvlK_Release_eq:
  assumes "owned (OvlK w) p a 1 h" "p < handle_count (OvlPoolK w)"
    and "DL_DELETE (OvlHeap w) (AcquiredList (body (Handles (OvlPoolK w) ! p))) a = Some (hp1, al)"
    and "DL_PREPEND hp1 (ReleasedList (body (Handles (OvlPoolK w) ! p))) a = Some (hp2, rl)"
  shows "OvlK_Release h w = Some (True, None, released h p hp2 al rl w)"
proof -
  let ?f = "\<lambda>v :: ovl_obj. v\<lparr>IsAcquired := 0\<rparr>"
  have hc: "h < handle_count (OvlK w)" "alive (OvlK w) h" "Ref (Handles (OvlK w) ! h) < 2147483646"
    using assms(1) by (auto simp: owned_def alive_def)
  let ?P = "upd_handle p (\<lambda>k. k\<lparr>body := (body k)\<lparr>AcquiredList := al, ReleasedList := rl\<rparr>\<rparr>) (OvlPoolK w)"
  have "OvlK_Release h w = Some (True, None, lput lens_OvlK (upd_handle h (\<lambda>k. k\<lparr>body := ?f (body k)\<rparr>) (lget lens_OvlK w))
     (w\<lparr>OvlHeap := hp2, OvlK := upd_handle h (\<lambda>k. k\<lparr>Ref := Ref k + 1, body := ?f (body k)\<rparr>) (OvlK w), OvlPoolK := ?P\<rparr>))"
    unfolding OvlK_Release_def valid_handle_run [OF hc(1) [folded lens_simps]]
    using assms hc
    by (intro ovlk.with_ref_run [where run = run_OvlK])
      (simp_all add: Dec_OvlK_def sec_body_def sec_set_body_def owned_def)
  then show ?thesis by (simp add: released_def)
qed

lemma OvlK_Release_run:
  assumes "ovl_rep w p rel acq" "a \<in> set acq" "OvlElHandle w a = Some h"
  shows "\<exists>hp1 al hp2 rl. DL_DELETE (OvlHeap w) (AcquiredList (body (Handles (OvlPoolK w) ! p))) a = Some (hp1, al) \<and>
     DL_PREPEND hp1 (ReleasedList (body (Handles (OvlPoolK w) ! p))) a = Some (hp2, rl) \<and>
     OvlK_Release h w = Some (True, None, released h p hp2 al rl w) \<and>
     ovl_rep (released h p hp2 al rl w) p (a # rel) (remove1 a acq)"
proof -
  have r: "rep (OvlHeap w) (OvlElHandle w) (OvlK w) p (body (Handles (OvlPoolK w) ! p)) rel acq"
    and p: "p < handle_count (OvlPoolK w)"
    using assms(1) by (auto simp: ovl_rep_def alive_def)
  have h: "owned (OvlK w) p a 1 h" using r assms(2,3) by (fastforce simp: rep_def)
  obtain hp1 al hp2 rl where s: "DL_DELETE (OvlHeap w) (AcquiredList (body (Handles (OvlPoolK w) ! p))) a = Some (hp1, al)"
    "DL_PREPEND hp1 (ReleasedList (body (Handles (OvlPoolK w) ! p))) a = Some (hp2, rl)"
    "rep hp2 (OvlElHandle w) (upd_handle h (\<lambda>k. k\<lparr>body := (body k)\<lparr>IsAcquired := 0\<rparr>\<rparr>) (OvlK w)) p
       ((body (Handles (OvlPoolK w) ! p))\<lparr>AcquiredList := al, ReleasedList := rl\<rparr>) (a # rel) (remove1 a acq)"
    using rep_release [OF r assms(2,3)] by blast
  have "ovl_rep (released h p hp2 al rl w) p (a # rel) (remove1 a acq)"
    using s(3) assms(1) p by (simp add: released_def ovl_rep_def alive_def)
  then show ?thesis using s OvlK_Release_eq [OF h p s(1,2)] by blast
qed

text \<open>Only one handle of a section is touched.\<close>

definition touched :: "nat \<Rightarrow> ('c, 'o) ksection \<Rightarrow> ('c, 'o) ksection \<Rightarrow> bool" where
  "touched h s s' \<longleftrightarrow> handle_count s' = handle_count s \<and> (\<forall>g. g \<noteq> h \<longrightarrow> Handles s' ! g = Handles s ! g)"

lemma owned_touched: "touched h s s' \<Longrightarrow> owned s p b i g \<Longrightarrow> g \<noteq> h \<Longrightarrow> owned s' p b i g"
  by (simp add: touched_def owned_def alive_def)

lemma hand_out_keeps:
  assumes "h < handle_count (OvlK w)" "v = hand_out fresh p a h w" "k = Handles (OvlK w) ! h"
  shows "OvlHeap v = OvlHeap w" "OvlPoolK v = OvlPoolK w" "OvlElHandle v = OvlElHandle w" "touched h (OvlK w) (OvlK v)"
    and "alive (OvlK w) h \<Longrightarrow> Ref k < 2147483646 \<Longrightarrow> owned (OvlK v) p a 1 h"
  using assms(1)
  by (auto simp: assms(2,3) hand_out_def o_Reuse_def sec_set_body_def sec_body_def sec_live_def PoolHandle_Live_def
      log_event_def Let_def Mem_Alloc_def touched_def owned_def alive_def split: prod.splits)

lemma acquired_keeps:
  assumes "h < handle_count s"
  shows "touched h s (acquired ini cb h (s\<lparr>Index := ix\<rparr>))" "alive (acquired ini cb h (s\<lparr>Index := ix\<rparr>)) h"
    "Ref (Handles (acquired ini cb h (s\<lparr>Index := ix\<rparr>)) ! h) = 1"
  using assms by (simp_all add: acquired_def touched_def alive_def upd_handle_def handle_count_def)

lemma touched_trans: "touched h s t \<Longrightarrow> touched h t u \<Longrightarrow> touched h s u"
  by (simp add: touched_def)

text \<open>The section of overlapped handles stays sound.\<close>

lemma section_ok_touched:
  assumes "section_ok s" "touched h s s'" "alive s' h"
  shows "section_ok s'"
proof -
  have n: "length (Handles s') = length (Handles s)" using assms(2) by (simp add: touched_def handle_count_def)
  have "Use k = 0 \<or> Use k = SPINLOCK_HELD" if k: "k \<in> set (Handles s')" for k
  proof -
    obtain i where i: "i < length (Handles s)" "k = Handles s' ! i" using k n by (auto simp: in_set_conv_nth)
    show ?thesis
      using i assms by (cases "i = h") (auto simp: touched_def alive_def section_ok_def locks_ok_def)
  qed
  then show ?thesis using assms(1,2) by (auto simp: section_ok_def locks_ok_def touched_def)
qed

text \<open>The handle of an element: the one it has, or a new one from the pool of handles.\<close>

lemma element_handle:
  assumes "OvlElHandle w a = Some h0 \<and> owned (OvlK w) p a 0 h0 \<or>
     OvlElHandle w a = None \<and> section_ok (OvlK w) \<and> (\<exists>h < handle_count (OvlK w). slot_free (OvlK w) h)"
  shows "\<exists>h fresh w2. (case OvlElHandle w a of
              Some h \<Rightarrow> (Some h, False, w)
            | None \<Rightarrow> let (h, v) = sec_acquire lens_OvlK Init_Handle_OvlK (Some Cleanup_OvlK_cb) w
                      in (h, True, v\<lparr>OvlElHandle := (OvlElHandle v)(a := h)\<rparr>)) = (Some h, fresh, w2) \<and>
     OvlHeap w2 = OvlHeap w \<and> OvlPoolK w2 = OvlPoolK w \<and> OvlElHandle w2 = (OvlElHandle w)(a := Some h) \<and>
     touched h (OvlK w) (OvlK w2) \<and> alive (OvlK w2) h \<and> Ref (Handles (OvlK w2) ! h) < 2147483646 \<and>
     (\<forall>b i g. b \<noteq> a \<longrightarrow> owned (OvlK w) p b i g \<longrightarrow> g \<noteq> h)"
proof (cases "OvlElHandle w a")
  case None
  then obtain h ix where h: "sec_acquire lens_OvlK Init_Handle_OvlK (Some Cleanup_OvlK_cb) w =
      (Some h, w\<lparr>OvlK := acquired Init_Handle_OvlK (Some Cleanup_OvlK_cb) h ((OvlK w)\<lparr>Index := ix\<rparr>)\<rparr>)"
      "h < handle_count (OvlK w)" "slot_free (OvlK w) h"
    using assms ovlk.acquire_free [of w Init_Handle_OvlK "Some Cleanup_OvlK_cb"] by auto
  then have "\<forall>b i g. owned (OvlK w) p b i g \<longrightarrow> g \<noteq> h" using slot_free_alive by (auto simp: owned_def)
  then show ?thesis
    using None h acquired_keeps [OF h(2)] by (intro exI [of _ h] exI [of _ True]) simp
next
  case (Some h)
  then have "owned (OvlK w) p a 0 h" using assms by simp
  then have "touched h (OvlK w) (OvlK w)" "alive (OvlK w) h" "Ref (Handles (OvlK w) ! h) < 2147483646"
    "\<forall>b i g. b \<noteq> a \<longrightarrow> owned (OvlK w) p b i g \<longrightarrow> g \<noteq> h"
    by (auto simp: touched_def owned_def)
  moreover have "(OvlElHandle w)(a := Some h) = OvlElHandle w" using Some by auto
  ultimately show ?thesis using Some by (intro exI [of _ h] exI [of _ False]) simp
qed

lemma OvlK_Acquire_run:
  assumes "ovl_rep w p (a # rel) acq" "section_ok (OvlK w)"
    and "OvlElHandle w a \<noteq> None \<or> (\<exists>h < handle_count (OvlK w). slot_free (OvlK w) h)"
  shows "\<exists>h w'. OvlK_Acquire True p w = Some (True, Some h, w') \<and> ovl_rep w' p rel (acq @ [a]) \<and>
     OvlElHandle w' = (OvlElHandle w)(a := Some h) \<and> section_ok (OvlK w')"
proof -
  let ?q = "body (Handles (OvlPoolK w) ! p)"
  have r: "rep (OvlHeap w) (OvlElHandle w) (OvlK w) p ?q (a # rel) acq" and p: "alive (OvlPoolK w) p"
    "Ref (Handles (OvlPoolK w) ! p) < 2147483646"
    using assms(1) by (auto simp: ovl_rep_def)
  have pc: "p < handle_count (OvlPoolK w)" using p by (simp add: alive_def)
  have rl: "ReleasedList ?q = a" "a \<noteq> NULL" using r by (auto simp: rep_def dl_rep_def)
  obtain hp1 rl' where d: "DL_DELETE (OvlHeap w) a a = Some (hp1, rl')"
    using DL_DELETE_rep [of "OvlHeap w" a "a # rel" a] r rl(1) by (auto simp: rep_def)
  let ?w1 = "w\<lparr>OvlPoolK := upd_handle p (\<lambda>k. k\<lparr>Ref := Ref k + 1\<rparr>) (OvlPoolK w)\<rparr>"
  let ?w2 = "upd_pool p (\<lambda>q. q\<lparr>ReleasedList := rl'\<rparr>) (?w1\<lparr>OvlHeap := hp1\<rparr>)"
  have "OvlElHandle w a = Some h0 \<Longrightarrow> owned (OvlK w) p a 0 h0" for h0 using r by (auto simp: rep_def)
  then have "OvlElHandle ?w2 a = Some h0 \<and> owned (OvlK ?w2) p a 0 h0 \<or>
     OvlElHandle ?w2 a = None \<and> section_ok (OvlK ?w2) \<and> (\<exists>h < handle_count (OvlK ?w2). slot_free (OvlK ?w2) h)"
    if "OvlElHandle w a = Some h0 \<or> OvlElHandle w a = None" for h0
    using that assms(2,3) by (auto simp: sec_set_body_def)
  moreover obtain h0 where "OvlElHandle w a = Some h0 \<or> OvlElHandle w a = None" by blast
  ultimately obtain h fresh w2 where e: "(case OvlElHandle ?w2 a of
              Some h \<Rightarrow> (Some h, False, ?w2)
            | None \<Rightarrow> let (h, v) = sec_acquire lens_OvlK Init_Handle_OvlK (Some Cleanup_OvlK_cb) ?w2
                      in (h, True, v\<lparr>OvlElHandle := (OvlElHandle v)(a := h)\<rparr>)) = (Some h, fresh, w2)"
     "OvlHeap w2 = OvlHeap ?w2" "OvlPoolK w2 = OvlPoolK ?w2" "OvlElHandle w2 = (OvlElHandle ?w2)(a := Some h)"
     "touched h (OvlK ?w2) (OvlK w2)" "alive (OvlK w2) h" "Ref (Handles (OvlK w2) ! h) < 2147483646"
     "\<forall>b i g. b \<noteq> a \<longrightarrow> owned (OvlK ?w2) p b i g \<longrightarrow> g \<noteq> h"
    using element_handle [of ?w2 a _ p] by blast
  have hc: "h < handle_count (OvlK w2)" using e(6) by (simp add: alive_def)
  note k = hand_out_keeps [OF hc refl refl, of fresh p a]
  let ?w3 = "hand_out fresh p a h w2"
  have S: "OvlK ?w2 = OvlK w" "OvlElHandle ?w2 = OvlElHandle w" by (simp_all add: sec_set_body_def)
  have "owned (OvlK ?w3) p b i g" if "b \<noteq> a" "owned (OvlK w) p b i g" for b i g
    using that e(8) owned_touched [OF k(4) owned_touched [OF e(5)]] by (auto simp: S)
  then obtain hp2 al where f: "DL_APPEND hp1 (AcquiredList ?q) a = Some (hp2, al)"
     "rep hp2 ((OvlElHandle w)(a := Some h)) (OvlK ?w3) p (?q\<lparr>ReleasedList := rl', AcquiredList := al\<rparr>) rel (acq @ [a])"
    using rep_acquire [OF r k(5) [OF e(6,7)]] d by auto
  have hp: "OvlHeap ?w3 = hp1" "OvlPoolK ?w3 = upd_handle p (\<lambda>k. k\<lparr>Ref := Ref k + 1, body := (body k)\<lparr>ReleasedList := rl'\<rparr>\<rparr>) (OvlPoolK w)"
    "OvlElHandle ?w3 = (OvlElHandle w)(a := Some h)"
    using pc by (simp_all add: k e(2,3,4) S, simp_all add: sec_set_body_def)
  let ?f = "\<lambda>q :: ovlpool_obj. q\<lparr>ReleasedList := rl', AcquiredList := al\<rparr>"
  let ?w4 = "upd_pool p (\<lambda>q. q\<lparr>AcquiredList := al\<rparr>) (?w3\<lparr>OvlHeap := hp2\<rparr>)"
  have b: "ReleasedList (sec_body lens_OvlPoolK p ?w1) = a" "DL_DELETE (OvlHeap ?w1) a a = Some (hp1, rl')"
      "DL_APPEND (OvlHeap ?w3) (AcquiredList (sec_body lens_OvlPoolK p ?w3)) a = Some (hp2, al)"
    using pc rl(1) d f(1) hp by (simp_all add: sec_body_def sec_set_body_def)
  have "OvlK_Acquire True p w =
     Some (True, Some h, lput lens_OvlPoolK (upd_handle p (\<lambda>k. k\<lparr>body := ?f (body k)\<rparr>) (lget lens_OvlPoolK w)) ?w4)"
    unfolding OvlK_Acquire_def require_def if_P [OF TrueI] valid_handle_run [OF pc [folded lens_simps]]
    using p pc b e(1)
    by (intro ovlpoolk.with_ref_run [where run = run_OvlPoolK])
      (simp_all add: Dec_OvlPoolK_def rl(2) hp, simp_all add: sec_set_body_def hp)
  moreover have "section_ok (OvlK ?w3)"
    using section_ok_touched [OF assms(2) touched_trans [OF e(5) [unfolded S] k(4)]] k(5) [OF e(6,7)] by (simp add: owned_def)
  ultimately show ?thesis
    using f(2) assms(1) pc hp(3)
    by (intro exI [of _ h] exI) (auto simp: ovl_rep_def alive_def sec_set_body_def)
qed

lemma ovl_repD:
  assumes "ovl_rep w p rel acq"
  shows "alive (OvlPoolK w) p" "p < handle_count (OvlPoolK w)" "Ref (Handles (OvlPoolK w) ! p) < 2147483646"
    "rep (OvlHeap w) (OvlElHandle w) (OvlK w) p (body (Handles (OvlPoolK w) ! p)) rel acq"
  using assms by (auto simp: ovl_rep_def alive_def)

lemma upd_body_id: "h < handle_count s \<Longrightarrow> f (body (Handles s ! h)) = body (Handles s ! h) \<Longrightarrow>
   upd_handle h (\<lambda>k. k\<lparr>body := f (body k)\<rparr>) s = s"
  by (rule upd_handle_id) (cases "Handles s ! h", simp)

lemma OvlK_Acquire_empty:
  assumes "ovl_rep w p [] acq"
  shows "OvlK_Acquire True p w = Some (False, None, SetLastError ERROR_NO_MORE_ITEMS w)"
proof -
  note p = ovl_repD [OF assms]
  have "ReleasedList (body (Handles (OvlPoolK w) ! p)) = NULL" using p(4) by (simp add: rep_def)
  then have "OvlK_Acquire True p w =
     Some (False, None, lput lens_OvlPoolK (upd_handle p (\<lambda>k. k\<lparr>body := id (body k)\<rparr>) (lget lens_OvlPoolK w))
       (SetLastError ERROR_NO_MORE_ITEMS (w\<lparr>OvlPoolK := upd_handle p (\<lambda>k. k\<lparr>Ref := Ref k + 1\<rparr>) (OvlPoolK w)\<rparr>)))"
    unfolding OvlK_Acquire_def require_def if_P [OF TrueI] valid_handle_run [OF p(2) [folded lens_simps]]
    using p by (intro ovlpoolk.with_ref_run [where run = run_OvlPoolK])
      (simp_all add: Dec_OvlPoolK_def sec_body_def fail_def SetLastError_def)
  then show ?thesis using upd_body_id [OF p(2), of id] by (simp add: SetLastError_def)
qed

lemma OvlK_Acquire_full:
  assumes "ovl_rep w p (a # rel) acq" "section_ok (OvlK w)" "OvlElHandle w a = None"
    and "\<forall>h < handle_count (OvlK w). \<not> slot_free (OvlK w) h"
  shows "\<exists>w'. OvlK_Acquire True p w = Some (False, None, w') \<and> ovl_rep w' p (a # rel) acq \<and>
     OvlElHandle w' = OvlElHandle w \<and> section_ok (OvlK w')"
proof -
  note p = ovl_repD [OF assms(1)]
  let ?q = "body (Handles (OvlPoolK w) ! p)"
  have r: "dl_rep (OvlHeap w) (ReleasedList ?q) (a # rel)" "dl_rep (OvlHeap w) (AcquiredList ?q) acq"
    "set (a # rel) \<inter> set acq = {}" "ReleasedList ?q = a" "a \<noteq> NULL" "a \<notin> set rel"
    using p(4) by (auto simp: rep_def dl_rep_def)
  obtain hp1 rl' where d: "DL_DELETE (OvlHeap w) a a = Some (hp1, rl')" "dl_rep hp1 rl' rel"
    "\<forall>x. x \<notin> set rel \<longrightarrow> nxt hp1 x = nxt (OvlHeap w) x \<and> prv hp1 x = prv (OvlHeap w) x"
    using DL_DELETE_rep [OF r(1), of a] r(4) by auto
  obtain hp2 where f: "DL_PREPEND hp1 rl' a = Some (hp2, a)" "dl_rep hp2 a (a # rel)"
    "\<forall>x. x \<noteq> a \<and> x \<notin> set rel \<longrightarrow> nxt hp2 x = nxt hp1 x \<and> prv hp2 x = prv hp1 x"
    using DL_PREPEND_rep [OF d(2) r(6,5)] by blast
  have acq: "dl_rep hp2 (AcquiredList ?q) acq"
    using d(3) f(3) r(3) by (intro dl_rep_frame [OF r(2)]) auto
  let ?w1 = "w\<lparr>OvlPoolK := upd_handle p (\<lambda>k. k\<lparr>Ref := Ref k + 1\<rparr>) (OvlPoolK w)\<rparr>"
  let ?w2 = "upd_pool p (\<lambda>q. q\<lparr>ReleasedList := rl'\<rparr>) (?w1\<lparr>OvlHeap := hp1\<rparr>)"
  obtain ix where e: "sec_acquire lens_OvlK Init_Handle_OvlK (Some Cleanup_OvlK_cb) ?w2 =
      (None, SetLastError ERROR_OUT_OF_STRUCTURES (?w2\<lparr>OvlK := (OvlK w)\<lparr>Index := ix\<rparr>\<rparr>))"
    using ovlk.acquire_full [of ?w2 Init_Handle_OvlK "Some Cleanup_OvlK_cb"] assms(2,4) by (auto simp: sec_set_body_def)
  let ?v = "SetLastError ERROR_OUT_OF_STRUCTURES (?w2\<lparr>OvlK := (OvlK w)\<lparr>Index := ix\<rparr>\<rparr>)"
  have E: "(OvlElHandle ?v)(a := None) = OvlElHandle w" "OvlElHandle ?w2 a = None"
    using assms(3) by (auto simp: SetLastError_def sec_set_body_def)
  have b: "ReleasedList (sec_body lens_OvlPoolK p ?w1) = a"
    "ReleasedList (sec_body lens_OvlPoolK p (?v\<lparr>OvlElHandle := OvlElHandle w\<rparr>)) = rl'"
    using p(2) r(4) by (simp_all add: sec_body_def SetLastError_def sec_set_body_def)
  let ?w3 = "upd_pool p (\<lambda>q. q\<lparr>ReleasedList := a\<rparr>) (?v\<lparr>OvlElHandle := OvlElHandle w, OvlHeap := hp2\<rparr>)"
  have "OvlK_Acquire True p w =
     Some (False, None, lput lens_OvlPoolK (upd_handle p (\<lambda>k. k\<lparr>body := (\<lambda>q. q\<lparr>ReleasedList := a\<rparr>) (body k)\<rparr>) (lget lens_OvlPoolK w)) ?w3)"
    unfolding OvlK_Acquire_def require_def if_P [OF TrueI] valid_handle_run [OF p(2) [folded lens_simps]]
    using p r(5) d(1) f(1) b e E
    by (intro ovlpoolk.with_ref_run [where run = run_OvlPoolK])
      (simp_all add: Dec_OvlPoolK_def, simp_all add: sec_set_body_def SetLastError_def)
  moreover have "rep hp2 (OvlElHandle w) ((OvlK w)\<lparr>Index := ix\<rparr>) p (?q\<lparr>ReleasedList := a\<rparr>) (a # rel) acq"
    using p(4) f(2) acq by (auto simp: rep_def owned_def alive_def)
  ultimately show ?thesis
    using p(1,2,3) assms(2)
    by (simp add: ovl_rep_def alive_def sec_set_body_def SetLastError_def section_ok_def locks_ok_def)
qed

text \<open>A handle that is not acquired is not released again.\<close>

lemma OvlK_Release_denied:
  assumes "owned (OvlK w) p a 0 h"
  shows "OvlK_Release h w = Some (False, None, SetLastError ERROR_ACCESS_DENIED w)"
proof -
  have h: "alive (OvlK w) h" "Ref (Handles (OvlK w) ! h) < 2147483646" "h < handle_count (OvlK w)"
    using assms by (auto simp: owned_def alive_def)
  let ?f = "\<lambda>v :: ovl_obj. v\<lparr>IsAcquired := 0\<rparr>"
  have "OvlK_Release h w =
     Some (False, None, lput lens_OvlK (upd_handle h (\<lambda>k. k\<lparr>body := ?f (body k)\<rparr>) (lget lens_OvlK w))
       (SetLastError ERROR_ACCESS_DENIED (w\<lparr>OvlK := upd_handle h (\<lambda>k. k\<lparr>Ref := Ref k + 1, body := ?f (body k)\<rparr>) (OvlK w)\<rparr>)))"
    unfolding OvlK_Release_def valid_handle_run [OF h(3) [folded lens_simps]]
    using h assms by (intro ovlk.with_ref_run [where run = run_OvlK])
      (simp_all add: Dec_OvlK_def sec_body_def fail_def SetLastError_def owned_def sec_set_body_def)
  moreover have "?f (body (Handles (OvlK w) ! h)) = body (Handles (OvlK w) ! h)"
    using assms by (cases "body (Handles (OvlK w) ! h)") (simp add: owned_def)
  ultimately show ?thesis using upd_body_id [OF h(3), of ?f] by (simp add: SetLastError_def)
qed

text \<open>
  Sequences of calls on one pool: acquiring, and releasing the handle of any of its elements, with
  whatever result.
\<close>

inductive pool_calls :: "nat \<Rightarrow> addr set \<Rightarrow> libk \<Rightarrow> libk \<Rightarrow> bool" for p :: nat and A :: "addr set" and w0 :: libk where
  start: "pool_calls p A w0 w0"
| acquire: "pool_calls p A w0 w \<Longrightarrow> OvlK_Acquire True p w = Some (r, out, w') \<Longrightarrow> pool_calls p A w0 w'"
| release: "pool_calls p A w0 w \<Longrightarrow> a \<in> A \<Longrightarrow> OvlElHandle w a = Some h \<Longrightarrow>
     OvlK_Release h w = Some (r, out, w') \<Longrightarrow> pool_calls p A w0 w'"

definition ovl_inv :: "nat \<Rightarrow> addr multiset \<Rightarrow> libk \<Rightarrow> bool" where
  "ovl_inv p M w \<longleftrightarrow> section_ok (OvlK w) \<and> (\<exists>rel acq. ovl_rep w p rel acq \<and> mset rel + mset acq = M)"

lemma ovl_invI: "section_ok (OvlK w) \<Longrightarrow> ovl_rep w p rel acq \<Longrightarrow> mset rel + mset acq = M \<Longrightarrow> ovl_inv p M w"
  by (auto simp: ovl_inv_def)

lemma ovl_inv_acquire:
  assumes "ovl_inv p M w"
  shows "\<exists>r out w'. OvlK_Acquire True p w = Some (r, out, w') \<and> ovl_inv p M w'"
proof -
  obtain rel acq where s: "section_ok (OvlK w)" "ovl_rep w p rel acq" "mset rel + mset acq = M"
    using assms by (auto simp: ovl_inv_def)
  show ?thesis
  proof (cases rel)
    case Nil
    then have "ovl_rep (SetLastError ERROR_NO_MORE_ITEMS w) p rel acq" "section_ok (OvlK (SetLastError ERROR_NO_MORE_ITEMS w))"
      using s by (simp_all add: ovl_rep_def SetLastError_def)
    then show ?thesis using Nil s OvlK_Acquire_empty [of w p acq] by (blast intro: ovl_invI)
  next
    case (Cons a rel')
    show ?thesis
    proof (cases "OvlElHandle w a \<noteq> None \<or> (\<exists>h < handle_count (OvlK w). slot_free (OvlK w) h)")
      case True
      then obtain h w' where w': "OvlK_Acquire True p w = Some (True, Some h, w')" "ovl_rep w' p rel' (acq @ [a])"
        "section_ok (OvlK w')"
        using OvlK_Acquire_run [of w p a rel' acq] s Cons by blast
      moreover have "ovl_inv p M w'" by (rule ovl_invI [OF w'(3,2)]) (use s(3) Cons in simp)
      ultimately show ?thesis by blast
    next
      case False
      then show ?thesis
        using OvlK_Acquire_full [of w p a rel' acq] s Cons by (blast intro: ovl_invI)
    qed
  qed
qed

lemma ovl_inv_release:
  assumes "ovl_inv p M w" "a \<in># M" "OvlElHandle w a = Some h"
  shows "\<exists>r out w'. OvlK_Release h w = Some (r, out, w') \<and> ovl_inv p M w'"
proof -
  obtain rel acq where s: "section_ok (OvlK w)" "ovl_rep w p rel acq" "mset rel + mset acq = M"
    using assms(1) by (auto simp: ovl_inv_def)
  show ?thesis
  proof (cases "a \<in> set acq")
    case True
    let ?S = "upd_handle h (\<lambda>k. k\<lparr>body := (body k)\<lparr>IsAcquired := 0\<rparr>\<rparr>) (OvlK w)"
    have "owned (OvlK w) p a 1 h" using ovl_repD(4) [OF s(2)] True assms(3) by (fastforce simp: rep_def)
    then have "alive ?S h" "touched h (OvlK w) ?S" by (auto simp: owned_def alive_def touched_def)
    then have "section_ok ?S" using section_ok_touched s(1) by blast
    then show ?thesis
      using OvlK_Release_run [OF s(2) True assms(3)] s(3) True
      by (auto simp: released_def intro!: ovl_invI [where rel = "a # rel" and acq = "remove1 a acq"])
  next
    case False
    then have "a \<in> set rel" using assms(2) s(3) by auto
    then have "owned (OvlK w) p a 0 h" using ovl_repD(4) [OF s(2)] assms(3) by (auto simp: rep_def)
    then have "OvlK_Release h w = Some (False, None, SetLastError ERROR_ACCESS_DENIED w)" by (rule OvlK_Release_denied)
    moreover have "ovl_rep (SetLastError ERROR_ACCESS_DENIED w) p rel acq" "section_ok (OvlK (SetLastError ERROR_ACCESS_DENIED w))"
      using s by (simp_all add: ovl_rep_def SetLastError_def)
    ultimately show ?thesis using s(3) by (blast intro: ovl_invI)
  qed
qed

lemma pool_calls_inv:
  assumes "pool_calls p A w0 w" "ovl_inv p M w0" "A \<subseteq> set_mset M"
  shows "ovl_inv p M w"
  using assms
proof (induction rule: pool_calls.induct)
  case (acquire w r out w')
  then show ?case using ovl_inv_acquire [of p M w] by auto
next
  case (release w a h r out w')
  then show ?case using ovl_inv_release [of p M w a h] by auto
qed simp

section \<open>Properties\<close>

text \<open>
  C4. Acquiring: the first released element moves to the end of the acquired list, and its handle (the
  one it has, or a new one when a slot is free) is returned.
\<close>

theorem OvlK_Acquire_refines:
  assumes "ovl_rep w p (a # rel) acq" "section_ok (OvlK w)"
    and "OvlElHandle w a \<noteq> None \<or> (\<exists>h < handle_count (OvlK w). slot_free (OvlK w) h)"
  shows "\<exists>h w'. OvlK_Acquire True p w = Some (True, Some h, w') \<and> ovl_rep w' p rel (acq @ [a]) \<and>
     OvlElHandle w' = (OvlElHandle w)(a := Some h)"
  using OvlK_Acquire_run [OF assms] by blast

text \<open>
  C5. Releasing: an acquired handle goes back to the front of the released list, from any position of
  the acquired one; a handle that is not acquired is refused with \<open>ERROR_ACCESS_DENIED\<close> and nothing
  changes, so a second release is harmless.
\<close>

theorem OvlK_Release_refines:
  assumes "ovl_rep w p rel acq" "OvlElHandle w a = Some h" "a \<in> set rel \<union> set acq"
  shows "if a \<in> set acq
         then \<exists>w'. OvlK_Release h w = Some (True, None, w') \<and> ovl_rep w' p (a # rel) (remove1 a acq)
         else OvlK_Release h w = Some (False, None, SetLastError ERROR_ACCESS_DENIED w)"
proof (cases "a \<in> set acq")
  case True
  then show ?thesis using OvlK_Release_run [OF assms(1) True assms(2)] by auto
next
  case False
  then have "owned (OvlK w) p a 0 h" using ovl_repD(4) [OF assms(1)] assms(2,3) by (auto simp: rep_def)
  with False show ?thesis by (simp add: OvlK_Release_denied)
qed

text \<open>
  C3. However a pool is used: after any sequence of acquires and releases (also of handles that are not
  acquired) its elements are the original ones, each on exactly one of the two lists, no handle is
  shared, and the next acquire and the next release return.
\<close>

theorem ovl_pool_invariant:
  assumes "pool_calls p (set (rel0 @ acq0)) w0 w" "ovl_rep w0 p rel0 acq0" "section_ok (OvlK w0)"
  shows "(\<exists>rel acq. ovl_rep w p rel acq \<and> mset rel + mset acq = mset rel0 + mset acq0) \<and>
     OvlK_Acquire True p w \<noteq> None \<and>
     (\<forall>a \<in> set (rel0 @ acq0). \<forall>h. OvlElHandle w a = Some h \<longrightarrow> OvlK_Release h w \<noteq> None)"
proof -
  let ?M = "mset rel0 + mset acq0"
  have "ovl_inv p ?M w"
    using assms by (intro pool_calls_inv [OF assms(1)]) (auto simp: ovl_inv_def)
  then show ?thesis
    using ovl_inv_acquire [of p ?M w] ovl_inv_release [of p ?M w] by (fastforce simp: ovl_inv_def)
qed

lemma pool_device_cong:
  assumes "sec_body lens_OvlK h v = sec_body lens_OvlK h w" "OvlPoolK v = OvlPoolK w" "UsbK v = UsbK w" "DevK v = DevK w"
  shows "pool_device h v = pool_device h w"
  using assms by (simp add: pool_device_def dev_of_def sec_body_def cong: option.case_cong)

text \<open>Waiting on an acquired handle, in terms of the loop.\<close>

lemma OvlK_Wait_run:
  assumes "owned (OvlK w) p a i h"
    and "ovl_wait env h False flags None (w\<lparr>OvlK := upd_handle h (\<lambda>k. k\<lparr>Ref := Ref k + 1\<rparr>) (OvlK w)\<rparr>) = Some (e, len, v)"
    and "OvlK v = upd_handle h (\<lambda>k. k\<lparr>Ref := Ref k + 1, body := f (body k)\<rparr>) (OvlK w)"
  shows "OvlK_Wait env h flags True w =
     (let v' = v\<lparr>OvlK := upd_handle h (\<lambda>k. k\<lparr>body := f (body k)\<rparr>) (OvlK w)\<rparr> in
      Some (e = ERROR_SUCCESS, len, if e = ERROR_SUCCESS then v' else SetLastError e v'))"
proof -
  have h: "alive (OvlK w) h" "Ref (Handles (OvlK w) ! h) < 2147483646" "h < handle_count (OvlK w)"
    "Ovl_Pool (sec_body lens_OvlK h w) \<noteq> None"
    using assms(1) by (auto simp: owned_def alive_def sec_body_def)
  have "with_ref lens_OvlK Dec_OvlK ERROR_INVALID_PARAMETER h
            (\<lambda>w. map_option (\<lambda>(e, len, w1). (True, Some (e, len), w1)) (ovl_wait env h False flags None w)) w =
      Some (True, Some (e, len), lput lens_OvlK (upd_handle h (\<lambda>k. k\<lparr>body := f (body k)\<rparr>) (lget lens_OvlK w)) v)"
    using h assms(2,3) by (intro ovlk.with_ref_run [where run = run_OvlK]) (simp_all add: Dec_OvlK_def)
  then show ?thesis
    unfolding OvlK_Wait_def valid_handle_run [OF h(3) [folded lens_simps]]
    using h(4) by (simp add: require_def LusbwError_def Let_def)
qed

text \<open>
  Waiting for a transfer that has completed: the call succeeds with the transferred length, and the
  handle is released exactly when the flag for it is set.
\<close>

theorem OvlK_Wait_completed:
  assumes "ovl_rep w p rel acq" "a \<in> set acq" "OvlElHandle w a = Some h" "Ref (Handles (OvlK w) ! h) < 2147483645"
    and "pool_device h w = Some (u, dev)" "DriverAPI dev \<noteq> None"
    and "we_wait env False (hEvent (sec_body lens_OvlK h w)) = WAIT_OBJECT_0" "we_result env False u h = (ERROR_SUCCESS, n)"
  shows "\<exists>w'. OvlK_Wait env h flags True w = Some (True, n, w') \<and>
     (if flags AND KOVL_WAIT_FLAG_RELEASE_ON_SUCCESS \<noteq> 0 then ovl_rep w' p (a # rel) (remove1 a acq) else w' = w)"
proof -
  have o: "owned (OvlK w) p a 1 h" using ovl_repD(4) [OF assms(1)] assms(2,3) by (fastforce simp: rep_def)
  then have h: "h < handle_count (OvlK w)" by (auto simp: owned_def alive_def)
  note p = ovl_repD(2) [OF assms(1)]
  let ?w1 = "w\<lparr>OvlK := upd_handle h (\<lambda>k. k\<lparr>Ref := Ref k + 1\<rparr>) (OvlK w)\<rparr>"
  obtain hp1 al hp2 rl where d: "DL_DELETE (OvlHeap w) (AcquiredList (body (Handles (OvlPoolK w) ! p))) a = Some (hp1, al)"
     "DL_PREPEND hp1 (ReleasedList (body (Handles (OvlPoolK w) ! p))) a = Some (hp2, rl)"
     "ovl_rep (released h p hp2 al rl w) p (a # rel) (remove1 a acq)"
    using OvlK_Release_run [OF assms(1-3)] by blast
  have "owned (OvlK ?w1) p a 1 h" using o h assms(4) by (auto simp: owned_def alive_def)
  then have "OvlK_Release h ?w1 = Some (True, None, released h p hp2 al rl ?w1)"
    using p d by (intro OvlK_Release_eq) simp_all
  then have loop: "ovl_wait env h False flags None ?w1 = Some (ERROR_SUCCESS, n,
      if flags AND KOVL_WAIT_FLAG_RELEASE_ON_SUCCESS \<noteq> 0 then released h p hp2 al rl ?w1 else ?w1)"
    using assms(5-8) h pool_device_cong [of h ?w1 w]
    by (subst ovl_wait.simps) (auto simp: release_if_def sec_body_def split: option.splits)
  show ?thesis
  proof (cases "flags AND KOVL_WAIT_FLAG_RELEASE_ON_SUCCESS \<noteq> 0")
    case True
    then have "OvlK_Wait env h flags True w = Some (True, n, released h p hp2 al rl w)"
      using OvlK_Wait_run [OF o loop, of "\<lambda>v. v\<lparr>IsAcquired := 0\<rparr>"] h by (simp add: released_def)
    with True d(3) show ?thesis by simp
  next
    case False
    then have "OvlK_Wait env h flags True w = Some (True, n, w)"
      using OvlK_Wait_run [OF o loop, of id] upd_body_id [OF h, of id] by simp
    with False show ?thesis by simp
  qed
qed

text \<open>
  A wait that times out with the cancel flag cancels the requests of the device and waits once
  more, without time. When the request has then been aborted, the result is \<open>ERROR_CANCELLED\<close>, and
  the handle stays acquired unless \<open>RELEASE_ON_FAIL\<close> is set: \<open>RELEASE_ON_TIMEOUT\<close> alone, whose
  documentation promises to cancel and to release, never releases a handle it has cancelled.
\<close>

theorem OvlK_Wait_cancelled:
  assumes "owned (OvlK w) p a i h" "pool_device h w = Some (u, dev)" "DriverAPI dev \<noteq> None"
    and "flags AND KOVL_WAIT_FLAG_CANCEL_ON_TIMEOUT \<noteq> 0" "flags AND KOVL_WAIT_FLAG_RELEASE_ON_FAIL = 0"
    and "we_wait env False (hEvent (sec_body lens_OvlK h w)) = WAIT_TIMEOUT" "we_cancel env (MasterDeviceHandle dev) h = ERROR_SUCCESS"
    and "we_wait env True (hEvent (sec_body lens_OvlK h w)) = WAIT_OBJECT_0" "we_result env True u h = (ERROR_OPERATION_ABORTED, n)"
  shows "OvlK_Wait env h flags True w =
     Some (False, n, SetLastError ERROR_CANCELLED (log_event (CancelIo (MasterDeviceHandle dev)) w))"
proof -
  have h: "h < handle_count (OvlK w)" using assms(1) by (auto simp: owned_def alive_def)
  let ?w1 = "w\<lparr>OvlK := upd_handle h (\<lambda>k. k\<lparr>Ref := Ref k + 1\<rparr>) (OvlK w)\<rparr>"
  let ?w2 = "log_event (CancelIo (MasterDeviceHandle dev)) ?w1"
  have "(4 AND 2 :: UINT) = 0" by simp
  then have f: "(flags XOR 4) AND 2 = 0" using assms(5) by (simp add: bit.conj_xor_distrib2)
  have b: "sec_body lens_OvlK h ?w1 = sec_body lens_OvlK h w" "sec_body lens_OvlK h ?w2 = sec_body lens_OvlK h w"
    using h by (simp_all add: sec_body_def log_event_def)
  moreover have "pool_device h ?w1 = Some (u, dev)" "pool_device h ?w2 = Some (u, dev)"
    using assms(2) pool_device_cong [OF b(1)] pool_device_cong [OF b(2)] by (simp_all add: log_event_def)
  ultimately have "ovl_wait env h True (flags XOR 4) None ?w2 = Some (ERROR_CANCELLED, n, ?w2)"
    "ovl_wait env h False flags None ?w1 = ovl_wait env h True (flags XOR 4) None ?w2"
    using assms(2-) f
    by (subst ovl_wait.simps, auto simp: release_if_def split: option.splits)+
  then have "ovl_wait env h False flags None ?w1 = Some (ERROR_CANCELLED, n, ?w2)" by simp
  from OvlK_Wait_run [OF assms(1) this, of id] show ?thesis
    using upd_body_id [OF h, of id] by (simp add: log_event_def)
qed

text \<open>Filling a list with fresh cells.\<close>

lemma append_all_rep:
  "dl_rep h head xs \<Longrightarrow> distinct as \<Longrightarrow> set as \<inter> set xs = {} \<Longrightarrow> NULL \<notin> set as \<Longrightarrow>
   \<exists>h' head'. append_all h head as = Some (h', head') \<and> dl_rep h' head' (xs @ as)"
proof (induction as arbitrary: h head xs)
  case (Cons a as)
  obtain h1 head1 where 1: "DL_APPEND h head a = Some (h1, head1)" "dl_rep h1 head1 (xs @ [a])"
    using DL_APPEND_rep [OF Cons.prems(1), of a] Cons.prems(3,4) by auto
  then show ?case using Cons.IH [OF 1(2)] Cons.prems by auto
qed auto

text \<open>What freeing a pool without handles leaves behind: the lists of the slot are as they were.\<close>

lemma release_elements_none:
  "\<forall>j < n. OvlElHandle w (MasterArray (sec_body lens_OvlPoolK p w) + i + j) = None \<Longrightarrow> release_elements p i n w = w"
proof (induction n arbitrary: i)
  case (Suc n)
  have "OvlElHandle w (MasterArray (sec_body lens_OvlPoolK p w) + i) = None" using Suc.prems [rule_format, of 0] by simp
  moreover have "\<forall>j < n. OvlElHandle w (MasterArray (sec_body lens_OvlPoolK p w) + (i + 1) + j) = None"
    using Suc.prems [rule_format, of "Suc _"] by simp
  ultimately show ?case using Suc.IH [of "i + 1"] by simp
qed simp

definition unused_pool :: "libk \<Rightarrow> nat \<Rightarrow> nat \<Rightarrow> bool" where
  "unused_pool w p u \<longleftrightarrow>
     (let k = Handles (OvlPoolK w) ! p; q = body k in
      alive (OvlPoolK w) p \<and> Ref k = 1 \<and> EvtCleanup k = Some Cleanup_OvlPoolK_cb \<and> Pool_UsbHandle q = Some u \<and>
      alive (UsbK w) u \<and> 1 < Ref (Handles (UsbK w) ! u) \<and>
      (\<forall>j < nat (MasterListCount q). OvlElHandle w (MasterArray q + j) = None))"

lemma OvlK_Free_run:
  assumes "unused_pool w p u"
  shows "\<exists>es f. OvlK_Free p w = Some (True, None,
       w\<lparr>UsbK := upd_handle u (\<lambda>k. k\<lparr>Ref := Ref k - 1\<rparr>) (UsbK w), Trace := Trace w @ es, OvlPoolK := upd_handle p f (OvlPoolK w)\<rparr>) \<and>
     (\<forall>k. Use (f k) = 0 \<and> body (f k) = body k)"
proof -
  let ?k = "Handles (OvlPoolK w) ! p"
  have a: "alive (OvlPoolK w) p" "Ref ?k = 1" "EvtCleanup ?k = Some Cleanup_OvlPoolK_cb" "Pool_UsbHandle (body ?k) = Some u"
    "alive (UsbK w) u" "1 < Ref (Handles (UsbK w) ! u)"
    "\<forall>j < nat (MasterListCount (body ?k)). OvlElHandle w (MasterArray (body ?k) + j) = None"
    using assms by (auto simp: unused_pool_def Let_def)
  have p: "p < handle_count (OvlPoolK w)" using a(1) by (simp add: alive_def)
  have "with_ref lens_OvlPoolK Dec_OvlPoolK ERROR_RESOURCE_NOT_AVAILABLE p (\<lambda>w. Some (True, None :: unit option, w)) w =
      Some (True, None, lput lens_OvlPoolK (upd_handle p (\<lambda>k. k\<lparr>body := id (body k)\<rparr>) (lget lens_OvlPoolK w))
        (w\<lparr>OvlPoolK := upd_handle p (\<lambda>k. k\<lparr>Ref := Ref k + 1\<rparr>) (OvlPoolK w)\<rparr>))"
    using a by (intro ovlpoolk.with_ref_run [where run = run_OvlPoolK]) (simp_all add: Dec_OvlPoolK_def)
  then have free: "OvlK_Free p w = Some (True, None, snd (Dec_OvlPoolK p w))"
    unfolding OvlK_Free_def valid_handle_run [OF p [folded lens_simps]]
    using upd_body_id [OF p, of id] by simp
  let ?S = "upd_handle p (\<lambda>k. k\<lparr>Ref := 0, Disposing := CurrentThreadId w\<rparr>) (OvlPoolK w)"
  let ?w1 = "w\<lparr>OvlPoolK := ?S\<rparr>"
  have disp: "ovlpoolk.disposing (CurrentThreadId w) p w = ?w1" by (simp add: ovlpoolk.disposing_def)
  obtain es where dead: "sec_dead lens_OvlPoolK p ?w1 =
      ?w1\<lparr>Trace := Trace w @ es, OvlPoolK := upd_handle p dead_kobj ?S\<rparr>"
    using ovlpoolk.dead_eq [of p ?w1] p by (auto simp: log_events)
  let ?w2 = "w\<lparr>UsbK := upd_handle u (\<lambda>k. k\<lparr>Ref := Ref k - 1\<rparr>) (UsbK w), Trace := Trace w @ es, OvlPoolK := upd_handle p dead_kobj ?S\<rparr>"
  have "snd (Dec_UsbK u (sec_dead lens_OvlPoolK p ?w1)) = ?w2"
    using usbk.dec_alive [of "sec_dead lens_OvlPoolK p ?w1" u run_UsbK] a(5,6)
    by (simp add: Dec_UsbK_def dead)
  moreover have "Pool_UsbHandle (sec_body lens_OvlPoolK p (sec_dead lens_OvlPoolK p ?w1)) = Some u"
    using a(4) p by (simp add: dead sec_body_def)
  moreover have "release_elements p 0 (nat (MasterListCount (sec_body lens_OvlPoolK p ?w2))) ?w2 = ?w2"
    using a(7) p by (intro release_elements_none) (simp add: sec_body_def)
  ultimately have clean: "Cleanup_OvlPoolK p ?w1 = ?w2" by (simp add: Cleanup_OvlPoolK_def Let_def)
  have "PoolHandle_Dec lens_OvlPoolK run_OvlPoolK (CurrentThreadId w) p w = (False, ovlpoolk.freed p ?w2)"
    using ovlpoolk.dec_last [of w p Cleanup_OvlPoolK_cb run_OvlPoolK "CurrentThreadId w"] a(1-3) p by (simp add: disp clean)
  then have "OvlK_Free p w = Some (True, None, w\<lparr>UsbK := upd_handle u (\<lambda>k. k\<lparr>Ref := Ref k - 1\<rparr>) (UsbK w), Trace := Trace w @ es,
      OvlPoolK := upd_handle p (\<lambda>k. (dead_kobj (k\<lparr>Ref := 0, Disposing := CurrentThreadId w\<rparr>))\<lparr>EvtCleanup := None, Use := 0\<rparr>) (OvlPoolK w)\<rparr>)"
    using p by (simp add: free Dec_OvlPoolK_def ovlpoolk.freed_def)
  then show ?thesis
    by (intro exI [of _ es] exI [of _ "\<lambda>k. (dead_kobj (k\<lparr>Ref := 0, Disposing := CurrentThreadId w\<rparr>))\<lparr>EvtCleanup := None, Use := 0\<rparr>"]) simp
qed

text \<open>Creating a pool in the only free slot.\<close>

lemma OvlK_Init_run:
  assumes "section_ok (OvlPoolK w)" "p < handle_count (OvlPoolK w)"
    and "\<And>h. h < handle_count (OvlPoolK w) \<Longrightarrow> slot_free (OvlPoolK w) h \<longleftrightarrow> h = p"
    and "alive (UsbK w) u" "fst (Mem_Alloc w)" "0 \<le> n" "n \<le> 256"
    and "dl_rep (OvlHeap w) (ReleasedList (body (Handles (OvlPoolK w) ! p))) xs" "\<forall>a \<in> set xs. a < OvlBrk w" "0 < OvlBrk w"
  shows "\<exists>v. OvlK_Init True u n flags w = Some (True, Some p, v) \<and>
     dl_rep (OvlHeap v) (ReleasedList (body (Handles (OvlPoolK v) ! p))) (xs @ [OvlBrk w..<OvlBrk w + nat n]) \<and>
     AcquiredList (body (Handles (OvlPoolK v) ! p)) = AcquiredList (body (Handles (OvlPoolK w) ! p)) \<and>
     (\<forall>a < OvlBrk w. OvlElHandle v a = OvlElHandle w a)"
proof -
  have slot: "\<exists>h < handle_count (lget lens_OvlPoolK w). slot_free (lget lens_OvlPoolK w) h" using assms(2,3) by auto
  obtain h ix where "sec_acquire lens_OvlPoolK Init_Handle_OvlPoolK (Some Cleanup_OvlPoolK_cb) w =
      (Some h, w\<lparr>OvlPoolK := acquired Init_Handle_OvlPoolK (Some Cleanup_OvlPoolK_cb) h ((OvlPoolK w)\<lparr>Index := ix\<rparr>)\<rparr>)"
      "h < handle_count (OvlPoolK w)" "slot_free (OvlPoolK w) h"
    using ovlpoolk.acquire_free [OF _ slot, of Init_Handle_OvlPoolK "Some Cleanup_OvlPoolK_cb"] assms(1) by auto
  then have acq: "sec_acquire lens_OvlPoolK Init_Handle_OvlPoolK (Some Cleanup_OvlPoolK_cb) w =
      (Some p, w\<lparr>OvlPoolK := acquired Init_Handle_OvlPoolK (Some Cleanup_OvlPoolK_cb) p ((OvlPoolK w)\<lparr>Index := ix\<rparr>)\<rparr>)"
    using assms(3) by simp
  obtain plan where m: "take_alloc (AllocPlan w) = (True, plan)" using assms(5)
    by (cases "take_alloc (AllocPlan w)") (auto simp: Mem_Alloc_def)
  let ?b = "OvlBrk w" and ?q = "body (Handles (OvlPoolK w) ! p)"
  let ?fresh = "\<lambda>a. ?b \<le> a \<and> a < ?b + nat n"
  let ?H = "\<lparr>nxt = (\<lambda>a. if ?fresh a then NULL else nxt (OvlHeap w) a), prv = (\<lambda>a. if ?fresh a then NULL else prv (OvlHeap w) a)\<rparr>"
  have "dl_rep ?H (ReleasedList ?q) xs" using assms(9) by (intro dl_rep_frame [OF assms(8)]) auto
  moreover have "set [?b..<?b + nat n] \<inter> set xs = {}" using assms(9) by fastforce
  ultimately obtain hp rl where l: "append_all ?H (ReleasedList ?q) [?b..<?b + nat n] = Some (hp, rl)"
    "dl_rep hp rl (xs @ [?b..<?b + nat n])"
    using append_all_rep [of ?H "ReleasedList ?q" xs "[?b..<?b + nat n]"] assms(10) by fastforce
  have inc: "\<And>v. UsbK v = UsbK w \<Longrightarrow>
      sec_inc lens_UsbK u v = (True, v\<lparr>UsbK := upd_handle u (\<lambda>k. k\<lparr>Ref := Ref k + 1\<rparr>) (UsbK w)\<rparr>)"
    using usbk.inc_alive assms(4) by simp
  have u: "u < handle_count (lget lens_UsbK w)" using assms(4) by (simp add: alive_def)
  show ?thesis
    unfolding OvlK_Init_def
    using assms(2,6,7) acq l m
    by (simp add: require_def valid_handle_run [OF u] inc sec_set_body_def sec_body_def Mem_Alloc_def alloc_cells_def Let_def
        acquired_def Init_Handle_OvlPoolK_def sec_live_def PoolHandle_Live_def cong: if_cong)
qed

text \<open>
  A pool that is freed before it has handed out any handle leaves its elements on the released list
  of its slot, because the lists are emptied only by the cleanup of the last handle and are not reset
  when the slot is used again. The next pool in this slot starts with the old elements before its own:
  it does not have the number of handles that was asked for.
\<close>

theorem freed_elements_come_back:
  assumes "unused_pool w p u" "dl_rep (OvlHeap w) (ReleasedList (body (Handles (OvlPoolK w) ! p))) xs"
    and "section_ok (OvlPoolK w)" "\<And>h. h < handle_count (OvlPoolK w) \<Longrightarrow> h \<noteq> p \<Longrightarrow> \<not> slot_free (OvlPoolK w) h"
    and "\<forall>a \<in> set xs. a < OvlBrk w" "0 < OvlBrk w" "fst (Mem_Alloc w)" "0 \<le> n" "n \<le> 256"
  shows "\<exists>w1 w2. OvlK_Free p w = Some (True, None, w1) \<and> OvlK_Init True u n flags w1 = Some (True, Some p, w2) \<and>
     dl_rep (OvlHeap w2) (ReleasedList (body (Handles (OvlPoolK w2) ! p))) (xs @ [OvlBrk w..<OvlBrk w + nat n])"
proof -
  have a: "p < handle_count (OvlPoolK w)" "alive (UsbK w) u" "1 < Ref (Handles (UsbK w) ! u)"
    using assms(1) by (auto simp: unused_pool_def Let_def alive_def)
  obtain es f where f: "OvlK_Free p w = Some (True, None,
       w\<lparr>UsbK := upd_handle u (\<lambda>k. k\<lparr>Ref := Ref k - 1\<rparr>) (UsbK w), Trace := Trace w @ es, OvlPoolK := upd_handle p f (OvlPoolK w)\<rparr>)"
     "\<And>k. Use (f k) = 0" "\<And>k. body (f k) = body k"
    using OvlK_Free_run [OF assms(1)] by blast
  let ?w1 = "w\<lparr>UsbK := upd_handle u (\<lambda>k. k\<lparr>Ref := Ref k - 1\<rparr>) (UsbK w), Trace := Trace w @ es, OvlPoolK := upd_handle p f (OvlPoolK w)\<rparr>"
  have "slot_free (OvlPoolK ?w1) h \<longleftrightarrow> h = p" if "h < handle_count (OvlPoolK ?w1)" for h
    using that a(1) assms(4) f(2) by (cases "h = p") (auto simp: slot_free_def)
  moreover have "section_ok (OvlPoolK ?w1)" using assms(3) a(1) f(2) by (simp add: section_ok_upd)
  moreover have "alive (UsbK ?w1) u" using a(2,3) by (auto simp: alive_def)
  moreover have "fst (Mem_Alloc ?w1)" using assms(7) by (auto simp: Mem_Alloc_def split: prod.splits)
  ultimately show ?thesis
    using OvlK_Init_run [of ?w1 p u n xs flags] f a(1) assms(2,5,6,8,9) by auto
qed

text \<open>
  A library with one overlapped pool of two elements: element 3 is acquired and has handle 0,
  element 2 is released and has none; handle 1 is free.
\<close>

definition example_ovl :: "nat \<Rightarrow> ovl_obj" where
  "example_ovl h = \<lparr>hEvent = 5, Ovl_Pool = Some 0, IsAcquired = (if h = 0 then 1 else 0), MasterLink = 3\<rparr>"

definition example_pool :: libk where
  "example_pool = (example_open 5 0)\<lparr>
     OvlHeap := \<lparr>nxt = (\<lambda>_. NULL), prv = (\<lambda>a. a)\<rparr>, OvlElHandle := (\<lambda>a. if a = 3 then Some 0 else None), OvlBrk := 9,
     OvlK := \<lparr>Index = 0, DefaultUserContext = 0, Handles =
        [example_kobj SPINLOCK_HELD 1 Cleanup_OvlK_cb (example_ovl 0), example_kobj 0 0 Cleanup_OvlK_cb (example_ovl 1)]\<rparr>,
     OvlPoolK := \<lparr>Index = 0, DefaultUserContext = 0, Handles =
        [example_kobj SPINLOCK_HELD 1 Cleanup_OvlPoolK_cb
          \<lparr>MasterListCount = 2, MasterArray = 2, AcquiredList = 3, ReleasedList = 2, Pool_Flags = 0, Pool_UsbHandle = Some 0\<rparr>]\<rparr>\<rparr>"

lemma example_pool_rep:
  "ovl_rep example_pool 0 [2] [3]" "section_ok (OvlK example_pool)" "OvlElHandle example_pool 3 = Some 0"
  "OvlElHandle example_pool 2 = None" "\<exists>h < handle_count (OvlK example_pool). slot_free (OvlK example_pool) h"
  "owned (OvlK example_pool) 0 3 1 0" "Ref (Handles (OvlK example_pool) ! 0) = 1" "hEvent (sec_body lens_OvlK 0 example_pool) = 5"
proof -
  have n: "handle_count (OvlK example_pool) = 2" "handle_count (OvlPoolK example_pool) = 1"
    by (simp_all add: example_pool_def handle_count_def)
  show o: "owned (OvlK example_pool) 0 3 1 0"
    by (simp add: owned_def alive_def n, simp add: example_pool_def example_kobj_def example_ovl_def)
  show e: "OvlElHandle example_pool 3 = Some 0" "OvlElHandle example_pool 2 = None"
    "Ref (Handles (OvlK example_pool) ! 0) = 1" "hEvent (sec_body lens_OvlK 0 example_pool) = 5"
    by (simp_all add: example_pool_def example_kobj_def sec_body_def example_ovl_def)
  show "ovl_rep example_pool 0 [2] [3]"
    using o e by (simp add: ovl_rep_def rep_def alive_def n, simp add: example_pool_def example_kobj_def dl_rep_def)
  show "section_ok (OvlK example_pool)"
    by (simp add: section_ok_def n) (simp add: locks_ok_def example_pool_def example_kobj_def)
  show "\<exists>h < handle_count (OvlK example_pool). slot_free (OvlK example_pool) h"
    by (rule exI [of _ 1], simp add: n, simp add: slot_free_def example_pool_def example_kobj_def)
qed

theorem OvlK_Acquire_refines_witness:
  "\<exists>h w'. OvlK_Acquire True 0 example_pool = Some (True, Some h, w') \<and> ovl_rep w' 0 [] [3, 2]"
  using OvlK_Acquire_refines [of example_pool 0 2 "[]" "[3]"] example_pool_rep(1,2,5) by auto

theorem OvlK_Release_refines_witness:
  "\<exists>w'. OvlK_Release 0 example_pool = Some (True, None, w') \<and> ovl_rep w' 0 [3, 2] []"
  using OvlK_Release_refines [OF example_pool_rep(1,3)] by simp

theorem ovl_pool_invariant_witness:
  "\<exists>w' rel acq. pool_calls 0 {2, 3} example_pool w' \<and> ovl_rep w' 0 rel acq \<and> mset rel + mset acq = {#3, 2#} \<and>
     w' \<noteq> example_pool"
proof -
  obtain w' where w': "OvlK_Release 0 example_pool = Some (True, None, w')" "ovl_rep w' 0 [3, 2] []"
    using OvlK_Release_run [OF example_pool_rep(1), of 3 0] example_pool_rep(3) by auto
  then have c: "pool_calls 0 (set ([2] @ [3])) example_pool w'"
    by (intro pool_calls.release [OF pool_calls.start _ example_pool_rep(3)]) auto
  have "w' \<noteq> example_pool"
  proof
    assume "w' = example_pool"
    with w'(2) example_pool_rep(1) have "dl_rep (OvlHeap example_pool) (AcquiredList (body (Handles (OvlPoolK example_pool) ! 0))) []"
      "dl_rep (OvlHeap example_pool) (AcquiredList (body (Handles (OvlPoolK example_pool) ! 0))) [3]"
      by (simp_all add: ovl_rep_def rep_def)
    then show False by (auto simp: dl_rep_def)
  qed
  moreover obtain rel acq where "ovl_rep w' 0 rel acq" "mset rel + mset acq = {#3, 2#}"
    using ovl_pool_invariant [OF c example_pool_rep(1,2)] by auto
  ultimately show ?thesis using c by auto
qed

theorem freed_elements_come_back_witness:
  "\<exists>w w1 w2 p. OvlK_Free 0 w = Some (True, None, w1) \<and> OvlK_Init True 0 1 0 w1 = Some (True, Some 0, w2) \<and>
     dl_rep (OvlHeap w2) p [2, 9]"
proof -
  let ?w = "example_pool\<lparr>OvlElHandle := (\<lambda>_. None), UsbK := upd_handle 0 (\<lambda>k. k\<lparr>Ref := 2\<rparr>) (UsbK example_pool)\<rparr>"
  have n: "handle_count (OvlPoolK example_pool) = 1" "handle_count (UsbK example_pool) = 2"
    by (simp_all add: example_pool_def handle_count_def example_open_def sec_set_body_def example_libk_def)
  have "alive (UsbK ?w) 0"
    by (simp add: alive_def n) (simp add: example_pool_def example_open_def sec_set_body_def example_libk_def example_kobj_def)
  moreover have "alive (OvlPoolK ?w) 0" using ovl_repD(1) [OF example_pool_rep(1)] by simp
  ultimately have "unused_pool ?w 0 0"
    by (simp add: unused_pool_def n) (simp add: example_pool_def example_kobj_def)
  moreover have "dl_rep (OvlHeap ?w) (ReleasedList (body (Handles (OvlPoolK ?w) ! 0))) [2]"
    using ovl_repD(4) [OF example_pool_rep(1)] by (simp add: rep_def)
  moreover have "section_ok (OvlPoolK ?w)"
    by (simp add: section_ok_def n) (simp add: locks_ok_def example_pool_def example_kobj_def)
  moreover have "OvlBrk ?w = 9" "fst (Mem_Alloc ?w)"
    by (simp_all add: example_pool_def Mem_Alloc_def take_alloc_def example_open_def sec_set_body_def example_libk_def)
  ultimately show ?thesis
    using freed_elements_come_back [of ?w 0 0 "[2]" 1 0] by (auto simp: n)
qed

definition example_wait :: "DWORD \<Rightarrow> wait_env" where
  "example_wait e = \<lparr>we_wait = (\<lambda>second h. if second \<or> e = 0 then WAIT_OBJECT_0 else WAIT_TIMEOUT),
     we_result = (\<lambda>second u h. (e, Some 64)), we_cancel = (\<lambda>_ _. 0)\<rparr>"

lemma example_pool_device:
  "pool_device 0 example_pool = Some (0, sec_body lens_DevK 0 (example_open 5 0))" "DriverAPI (sec_body lens_DevK 0 (example_open 5 0)) \<noteq> None"
  "MasterDeviceHandle (sec_body lens_DevK 0 (example_open 5 0)) = 44"
proof -
  have "dev_of 0 example_pool = Some (0, sec_body lens_DevK 0 (example_open 5 0))"
    using handle_okD(8) [OF example_open_ok(1), of 5 0]
    by (simp add: dev_of_def sec_body_def example_pool_def cong: option.case_cong)
  then show "pool_device 0 example_pool = Some (0, sec_body lens_DevK 0 (example_open 5 0))"
    by (simp add: pool_device_def) (simp add: sec_body_def example_pool_def example_kobj_def example_ovl_def)
  show "DriverAPI (sec_body lens_DevK 0 (example_open 5 0)) \<noteq> None" "MasterDeviceHandle (sec_body lens_DevK 0 (example_open 5 0)) = 44"
    by (simp_all add: example_open_ok(2) example_dev_def)
qed

theorem OvlK_Wait_completed_witness:
  "\<exists>w'. OvlK_Wait (example_wait 0) 0 KOVL_WAIT_FLAG_RELEASE_ALWAYS True example_pool = Some (True, Some 64, w') \<and>
     ovl_rep w' 0 [3, 2] []"
  using OvlK_Wait_completed [OF example_pool_rep(1) _ example_pool_rep(3) _ example_pool_device(1,2), of "example_wait 0" "Some 64"
      KOVL_WAIT_FLAG_RELEASE_ALWAYS] example_pool_rep(7)
  by (simp add: example_wait_def)

theorem OvlK_Wait_cancelled_witness:
  "OvlK_Wait (example_wait ERROR_OPERATION_ABORTED) 0 KOVL_WAIT_FLAG_RELEASE_ON_TIMEOUT True example_pool =
     Some (False, Some 64, SetLastError ERROR_CANCELLED (log_event (CancelIo 44) example_pool))"
  using OvlK_Wait_cancelled [OF example_pool_rep(6) example_pool_device(1,2), of KOVL_WAIT_FLAG_RELEASE_ON_TIMEOUT
      "example_wait ERROR_OPERATION_ABORTED" "Some 64"] example_pool_device(3)
  by (simp add: example_wait_def)

end
