(* ===== verification/Queued_Stream.thy ===== *)
theory Queued_Stream
  imports Ovl_Pool
begin

text \<open>
  The user's side of streams, \<open>lusbk_queued_stream.c\<close>: creating, starting, stopping and freeing a
  stream, and the two operations \<open>StmK_Read\<close> and \<open>StmK_Write\<close>, which exchange finished transfers
  for queued ones. The parts of the two that run under the lock of the finished list are functions
  on the stream (\<open>stm_read\<close>, \<open>stm_write\<close>); the exported functions wrap them in the checks of the
  handle. The stream thread is in \<open>Stream_Thread\<close>.
\<close>

section \<open>Parts that are shared\<close>

abbreviation (input) KSTM_THREADSTATE_STOPPED :: LONG where "KSTM_THREADSTATE_STOPPED \<equiv> 0"
abbreviation (input) KSTM_THREADSTATE_STARTED :: LONG where "KSTM_THREADSTATE_STARTED \<equiv> 1"
abbreviation (input) KSTM_THREADSTATE_STARTING :: LONG where "KSTM_THREADSTATE_STARTING \<equiv> 2"
abbreviation (input) KSTM_THREADSTATE_STOPPING :: LONG where "KSTM_THREADSTATE_STOPPING \<equiv> 4"

abbreviation (input) KSTM_FLAG_NO_PARTIAL_XFERS :: UINT where "KSTM_FLAG_NO_PARTIAL_XFERS \<equiv> 0x00100000"
abbreviation (input) KSTM_FLAG_USE_TIMEOUT :: UINT where "KSTM_FLAG_USE_TIMEOUT \<equiv> 0x80000000"
abbreviation (input) KSTM_FLAG_TIMEOUT_MASK :: UINT where "KSTM_FLAG_TIMEOUT_MASK \<equiv> 0x0001FFFF"

definition USB_ENDPOINT_DIRECTION_IN :: "UCHAR \<Rightarrow> bool" where
  "USB_ENDPOINT_DIRECTION_IN p \<longleftrightarrow> p AND 0x80 \<noteq> 0"

definition upd_xfer :: "nat \<Rightarrow> (kstm_xfer \<Rightarrow> kstm_xfer) \<Rightarrow> kstm \<Rightarrow> kstm" where
  "upd_xfer x f h = h\<lparr>XferItems := (XferItems h)[x := f (XferItems h ! x)]\<rparr>"

text \<open>A semaphore is released by a number that fits under its maximum, or not at all.\<close>

definition sem_max :: "kstm \<Rightarrow> nat" where
  "sem_max h = (case Info h of None \<Rightarrow> 0 | Some i \<Rightarrow> nat (I_MaxPendingTransfers i))"

definition ReleaseSemaphore :: "nat \<Rightarrow> kstm \<Rightarrow> kstm" where
  "ReleaseSemaphore n h =
     (if SemReady h \<noteq> 0 \<and> SemCount h + n \<le> sem_max h then h\<lparr>SemCount := SemCount h + n\<rparr> else h)"

text \<open>A wait with timeout 0, only made when there is a semaphore.\<close>

definition sem_try :: "kstm \<Rightarrow> bool \<times> kstm" where
  "sem_try h =
     (if SemReady h = 0 then (True, h)
      else if SemCount h = 0 then (False, h)
      else (True, h\<lparr>SemCount := SemCount h - 1\<rparr>))"

definition IncLock :: "LONG \<Rightarrow> LONG" where "IncLock v = to_long (v + 1)"
definition DecLock :: "LONG \<Rightarrow> LONG" where "DecLock v = to_long (v - 1)"

text \<open>
  \<open>mStm_SpinLockForTransferRequest\<close>: the error code 0 means that a transfer is ready. A wait for a
  semaphore that is not released in this step ends with the timeout; without a timeout it does not
  end, which is \<open>None\<close>.
\<close>

definition wait_for_transfer :: "kstm \<Rightarrow> (DWORD \<times> kstm) option" where
  "wait_for_transfer h =
     (if SemReady h \<noteq> 0 then
        (if SemCount h = 0 then (if WaitTimeout h = -1 then None else Some (ERROR_NO_MORE_ITEMS, h))
         else
           let h1 = h\<lparr>SemCount := SemCount h - 1\<rparr> in
           if Finished h1 = [] then Some (ERROR_NO_MORE_ITEMS, ReleaseSemaphore 1 h1)
           else Some (ERROR_SUCCESS, h1))
      else if Finished h = [] then Some (ERROR_NO_MORE_ITEMS, h)
      else Some (ERROR_SUCCESS, h))"

text \<open>\<open>mStm_CheckPartialTransfer\<close>\<close>

definition partial_allowed :: "kstm \<Rightarrow> LONG \<Rightarrow> bool \<Rightarrow> bool" where
  "partial_allowed h len out_valid \<longleftrightarrow>
     \<not> (0 < len \<and> (Stm_Flags h AND KSTM_FLAG_NO_PARTIAL_XFERS \<noteq> 0 \<or> \<not> out_valid))"

text \<open>
  \<open>mStm_QueueTransferList\<close>, up to the increment of \<open>APCTransferQueueCount\<close>, which other threads can
  come before: the result is the error code, whether the count is still to be incremented, and the
  stream. \<open>apc\<close> is the error code of \<open>QueueUserAPC\<close>.
\<close>

definition queue_transfer_list :: "DWORD \<Rightarrow> nat list \<Rightarrow> kstm \<Rightarrow> DWORD \<times> bool \<times> kstm" where
  "queue_transfer_list apc sub h =
     (if sub \<noteq> [] \<and> Thread_State h = KSTM_THREADSTATE_STARTED then
        (if apc \<noteq> ERROR_SUCCESS then (apc, False, h)
         else (ERROR_SUCCESS, True, h\<lparr>Thread_APCs := Thread_APCs h @ [TransferListAPC sub]\<rparr>))
      else (ERROR_SUCCESS, False, h\<lparr>Queued := Queued h @ sub\<rparr>))"

definition count_apc :: "kstm \<Rightarrow> kstm" where
  "count_apc h = h\<lparr>APCTransferQueueCount := IncLock (APCTransferQueueCount h)\<rparr>"

text \<open>
  The elements that were taken off the finished list are put back one by one at its front, on the
  way out of a failed operation.
\<close>

definition restore_transfers :: "nat list \<Rightarrow> (nat \<times> kstm_public) option \<Rightarrow> kstm \<Rightarrow> kstm" where
  "restore_transfers sub backup h =
     (if sub = [] then h
      else
        let h1 = (case backup of None \<Rightarrow> h | Some (x, pub) \<Rightarrow> upd_xfer x (\<lambda>xf. xf\<lparr>Public := pub\<rparr>) h);
            h2 = h1\<lparr>Finished := fold (#) sub (Finished h1)\<rparr>
        in ReleaseSemaphore (length sub) h2)"

section \<open>Staging data\<close>

record staging =
  st_h :: kstm
  st_len :: LONG
  st_total :: UINT
  st_off :: LONG
  st_buf :: "UCHAR list"
  st_sub :: "nat list"
  st_backup :: "(nat \<times> kstm_public) option"

text \<open>\<open>memcpy\<close> between lists of bytes; an access outside of one is \<open>None\<close>.\<close>

definition copy_bytes :: "UCHAR list \<Rightarrow> int \<Rightarrow> UCHAR list \<Rightarrow> int \<Rightarrow> int \<Rightarrow> UCHAR list option" where
  "copy_bytes dst d src s n =
     (if 0 \<le> n \<and> 0 \<le> d \<and> d + n \<le> int (length dst) \<and> 0 \<le> s \<and> s + n \<le> int (length src)
      then Some (take (nat d) dst @ take (nat n) (drop (nat s) src) @ drop (nat (d + n)) dst)
      else None)"

text \<open>The caller of a loop has taken the semaphore for the first transfer.\<close>

definition take_slot :: "bool \<Rightarrow> kstm \<Rightarrow> bool \<times> kstm" where
  "take_slot first h = (if first then (True, h) else sem_try h)"

text \<open>
  The loop of \<open>StmK_Read\<close> over the finished list. A transfer that is not read to its end stays on
  the list with its window moved; it is remembered for the case of an error.
\<close>

fun read_loop :: "bool \<Rightarrow> nat list \<Rightarrow> staging \<Rightarrow> staging option" where
  "read_loop first [] s = Some s"
| "read_loop first (x # xs) s =
     (let (ok, h) = take_slot first (st_h s) in
      if \<not> ok then Some s
      else do {
        let pub = Public (XferItems h ! x);
        let stage = (if st_len s > XC_TransferLength pub then XC_TransferLength pub else st_len s);
        buf \<leftarrow> copy_bytes (st_buf s) (st_off s) (X_Buffer (XferItems h ! x)) (int (XC_Buffer pub)) stage;
        let s1 = s\<lparr>st_len := st_len s - stage, st_total := st_total s + word_of_int stage, st_buf := buf,
                   st_off := to_long (st_off s + stage)\<rparr>;
        (if XC_TransferLength pub - stage \<noteq> 0 then
           Some (s1\<lparr>st_backup := Some (x, pub),
                    st_h := ReleaseSemaphore 1 (upd_xfer x (\<lambda>xf. xf\<lparr>Public :=
                      pub\<lparr>XC_TransferLength := XC_TransferLength pub - stage, XC_Buffer := XC_Buffer pub + nat stage,
                          XC_BufferSize := XC_BufferSize pub - stage\<rparr>\<rparr>) h)\<rparr>)
         else
           let s2 = s1\<lparr>st_h := h\<lparr>Finished := remove1 x (Finished h)\<rparr>, st_sub := st_sub s @ [x]\<rparr> in
           if st_len s2 = 0 then Some s2 else read_loop False xs s2) })"

text \<open>The loop of \<open>StmK_Write\<close>.\<close>

fun write_loop :: "bool \<Rightarrow> nat list \<Rightarrow> staging \<Rightarrow> staging option" where
  "write_loop first [] s = Some s"
| "write_loop first (x # xs) s =
     (let (ok, h) = take_slot first (st_h s) in
      if \<not> ok then Some s
      else do {
        let xf = XferItems h ! x;
        let stage = (if st_len s > X_BufferSize xf then X_BufferSize xf else st_len s);
        buf \<leftarrow> copy_bytes (X_Buffer xf) 0 (st_buf s) (st_off s) stage;
        let h1 = upd_xfer x (\<lambda>xf. xf\<lparr>Public := (Public xf)\<lparr>XC_TransferLength := stage\<rparr>, X_Buffer := buf\<rparr>) h;
        let s2 = s\<lparr>st_len := st_len s - stage, st_total := st_total s + word_of_int stage,
                   st_off := to_long (st_off s + stage),
                   st_h := h1\<lparr>Finished := remove1 x (Finished h1)\<rparr>, st_sub := st_sub s @ [x]\<rparr>;
        (if st_len s2 = 0 then Some s2 else write_loop False xs s2) })"

text \<open>
  The body of the two operations: the error code, the transferred length and the buffer, whether the
  count of queued transfer lists is to be incremented, and the stream. \<open>None\<close> is an access outside a
  buffer or a wait that does not end.
\<close>

definition stm_transfer ::
  "(bool \<Rightarrow> nat list \<Rightarrow> staging \<Rightarrow> staging option) \<Rightarrow> bool \<Rightarrow> DWORD \<Rightarrow> UCHAR list \<Rightarrow> LONG \<Rightarrow> LONG \<Rightarrow> bool \<Rightarrow> kstm
   \<Rightarrow> (DWORD \<times> (UINT \<times> UCHAR list) \<times> bool \<times> kstm) option" where
  "stm_transfer loop dir_ok apc buf off len out_valid h =
     (if \<not> dir_ok then Some (ERROR_ACCESS_DENIED, (0, buf), False, h)
      else if KSTM_THREADSTATE_STARTED < Thread_State h then Some (ERROR_ACCESS_DENIED, (0, buf), False, h)
      else do {
        (e, h1) \<leftarrow> wait_for_transfer h;
        (if e \<noteq> ERROR_SUCCESS then Some (e, (0, buf), False, h1)
         else do {
           s \<leftarrow> loop True (Finished h1)
                 \<lparr>st_h = h1, st_len = len, st_total = 0, st_off = off, st_buf = buf, st_sub = [], st_backup = None\<rparr>;
           let failed = (\<lambda>e h. Some (e, (0, st_buf s), False, restore_transfers (st_sub s) (st_backup s) h));
           (if \<not> partial_allowed (st_h s) (st_len s) out_valid then failed ERROR_NO_MORE_ITEMS (st_h s)
            else
              let (e, counted, h2) = queue_transfer_list apc (st_sub s) (st_h s) in
              if e \<noteq> ERROR_SUCCESS then failed e h2
              else Some (ERROR_SUCCESS, (st_total s, st_buf s), counted, h2)) }) })"

definition pipe_in :: "kstm \<Rightarrow> bool option" where
  "pipe_in h = map_option (\<lambda>i. USB_ENDPOINT_DIRECTION_IN (I_PipeID i)) (Info h)"

definition stm_read ::
  "DWORD \<Rightarrow> UCHAR list \<Rightarrow> LONG \<Rightarrow> LONG \<Rightarrow> kstm \<Rightarrow> (DWORD \<times> (UINT \<times> UCHAR list) \<times> bool \<times> kstm) option" where
  "stm_read apc buf off len h = do { d \<leftarrow> pipe_in h; stm_transfer read_loop d apc buf off len True h }"

definition stm_write ::
  "DWORD \<Rightarrow> UCHAR list \<Rightarrow> LONG \<Rightarrow> LONG \<Rightarrow> bool \<Rightarrow> kstm \<Rightarrow> (DWORD \<times> (UINT \<times> UCHAR list) \<times> bool \<times> kstm) option" where
  "stm_write apc buf off len out_valid h =
     do { d \<leftarrow> pipe_in h; stm_transfer write_loop (\<not> d) apc buf off len out_valid h }"

section \<open>Stream handles\<close>

definition Stm_Cleanup :: "nat \<Rightarrow> libk \<Rightarrow> libk" where
  "Stm_Cleanup h w =
     (let w1 = sec_dead lens_StmK h w;
          w2 = (case Info (sec_body lens_StmK h w1) of
                  None \<Rightarrow> w1
                | Some i \<Rightarrow> (case I_UsbHandle i of None \<Rightarrow> w1 | Some u \<Rightarrow> snd (Dec_UsbK u w1)));
          s = sec_body lens_StmK h w2;
          w3 = (if SemReady s \<noteq> 0 then log_event (CloseHandle (SemReady s)) w2 else w2)
      in if Heap s \<noteq> 0 then sec_set_body lens_StmK h (\<lambda>s. s\<lparr>Heap := 0\<rparr>) w3 else w3)"

fun run_StmK :: "cleanup \<Rightarrow> nat \<Rightarrow> libk \<Rightarrow> libk" where
  "run_StmK Stm_Cleanup_cb h w = Stm_Cleanup h w"
| "run_StmK _ h w = w"

definition Dec_StmK :: "nat \<Rightarrow> libk \<Rightarrow> bool \<times> libk" where
  "Dec_StmK h w = PoolHandle_Dec lens_StmK run_StmK (CurrentThreadId w) h w"

abbreviation upd_stm :: "nat \<Rightarrow> (kstm \<Rightarrow> kstm) \<Rightarrow> libk \<Rightarrow> libk" where
  "upd_stm \<equiv> sec_set_body lens_StmK"

definition transfer_result ::
  "nat \<Rightarrow> bool \<Rightarrow> (kstm \<Rightarrow> (DWORD \<times> (UINT \<times> UCHAR list) \<times> bool \<times> kstm) option)
   \<Rightarrow> libk \<Rightarrow> (bool \<times> (UINT \<times> UCHAR list) option \<times> libk) option" where
  "transfer_result h out_valid op w = do {
     (e, out, counted, s) \<leftarrow> op (sec_body lens_StmK h w);
     let w1 = upd_stm h (\<lambda>_. if counted then count_apc s else s) w;
     (if e = ERROR_SUCCESS then Some (True, Some out, w1)
      else if out_valid then Some (False, Some out, SetLastError e w1) else None) }"

definition StmK_Read ::
  "nat \<Rightarrow> DWORD \<Rightarrow> UCHAR list option \<Rightarrow> LONG \<Rightarrow> LONG \<Rightarrow> bool \<Rightarrow> libk
   \<Rightarrow> (bool \<times> (UINT \<times> UCHAR list) option \<times> libk) option" where
  "StmK_Read h apc buf off len out_valid =
     valid_handle lens_StmK h (
     require (buf \<noteq> None) ERROR_INVALID_PARAMETER (
     require (0 \<le> off) ERROR_INVALID_PARAMETER (
     require (0 < len) ERROR_INVALID_PARAMETER (
     require out_valid ERROR_INVALID_PARAMETER (
     with_ref lens_StmK Dec_StmK ERROR_RESOURCE_NOT_AVAILABLE h (
       transfer_result h True (stm_read apc (the buf) off len)))))))"

text \<open>
  \<open>StmK_Write\<close> accepts a null pointer for the transferred length, and then writes through it on the
  way out of a failed operation.
\<close>

definition StmK_Write ::
  "nat \<Rightarrow> DWORD \<Rightarrow> UCHAR list option \<Rightarrow> LONG \<Rightarrow> LONG \<Rightarrow> bool \<Rightarrow> libk
   \<Rightarrow> (bool \<times> (UINT \<times> UCHAR list) option \<times> libk) option" where
  "StmK_Write h apc buf off len out_valid =
     valid_handle lens_StmK h (
     require (buf \<noteq> None) ERROR_INVALID_PARAMETER (
     require (0 \<le> off) ERROR_INVALID_PARAMETER (
     require (0 < len) ERROR_INVALID_PARAMETER (
     with_ref lens_StmK Dec_StmK ERROR_RESOURCE_NOT_AVAILABLE h (
       transfer_result h out_valid (stm_write apc (the buf) off len out_valid))))))"

section \<open>Creating a stream\<close>

text \<open>A system object, whose handle is fresh; creating it may fail like an allocation.\<close>

definition CreateObject :: "libk \<Rightarrow> HANDLE \<times> libk" where
  "CreateObject w =
     (let (ok, w1) = Mem_Alloc w in
      if ok then (NextEvent w1, w1\<lparr>NextEvent := NextEvent w1 + 1\<rparr>) else (0, w1))"

definition new_xfer :: "LONG \<Rightarrow> nat \<Rightarrow> kstm_xfer" where
  "new_xfer sz i =
     \<lparr>X_Overlapped = NULL, Public = \<lparr>XC_Buffer = 0, XC_BufferSize = sz, XC_TransferLength = 0\<rparr>,
      X_Index = int i, X_BufferSize = sz, X_Buffer = replicate (nat sz) 0\<rparr>"

text \<open>
  The transfers start on the queued list of a read pipe and on the finished list of a write pipe.
  \<open>XferItemsCount\<close> is not set.
\<close>

definition init_transfers :: "UCHAR \<Rightarrow> LONG \<Rightarrow> LONG \<Rightarrow> kstm \<Rightarrow> kstm" where
  "init_transfers pipe sz n s =
     (let s1 = s\<lparr>XferItems := map (new_xfer sz) [0..<nat n]\<rparr> in
      if USB_ENDPOINT_DIRECTION_IN pipe then s1\<lparr>Queued := Queued s1 @ [0..<nat n]\<rparr>
      else s1\<lparr>Finished := Finished s1 @ [0..<nat n]\<rparr>)"

text \<open>The information is allocated zeroed, so until it is filled in it has no device handle.\<close>

definition empty_info :: kstm_info where
  "empty_info = \<lparr>I_UsbHandle = None, I_PipeID = 0, I_MaxPendingTransfers = 0, I_MaxTransferSize = 0, I_MaxPendingIO = 0,
     I_EndpointDescriptor = [], I_DriverAPI = None, I_DeviceHandle = 0\<rparr>"

text \<open>
  The four blocks allocated on the heap: the information, the callbacks, the transfers and their
  buffers. The size of the buffers is an \<open>int\<close> product; an overflow of it is undefined, and a
  negative size is more than can be allocated.
\<close>

definition heap_blocks :: "nat \<Rightarrow> LONG \<Rightarrow> libk \<Rightarrow> bool \<times> libk" where
  "heap_blocks h nbytes w =
     (let (a, w1) = Mem_Alloc w in
      if \<not> a then (False, w1)
      else let (b, w2) = Mem_Alloc (upd_stm h (\<lambda>s. s\<lparr>Info := Some empty_info\<rparr>) w1) in
           if \<not> b then (False, w2)
           else let (c, w3) = Mem_Alloc w2 in
                if \<not> c then (False, w3)
                else if nbytes < 0 then (False, w3) else Mem_Alloc w3)"

definition wait_timeout :: "UINT \<Rightarrow> LONG" where
  "wait_timeout flags =
     (if flags AND KSTM_FLAG_TIMEOUT_MASK = KSTM_FLAG_TIMEOUT_MASK then -1 else uint (flags AND KSTM_FLAG_TIMEOUT_MASK))"

text \<open>The semaphore of a write pipe starts with every transfer ready.\<close>

definition semaphore_for :: "nat \<Rightarrow> UCHAR \<Rightarrow> LONG \<Rightarrow> UINT \<Rightarrow> libk \<Rightarrow> bool \<times> libk" where
  "semaphore_for h pipe n flags w =
     (if flags AND KSTM_FLAG_USE_TIMEOUT \<noteq> 0 then
        let (e, w1) = CreateObject w;
            w2 = upd_stm h (\<lambda>s. s\<lparr>SemReady := e, SemCount := (if USB_ENDPOINT_DIRECTION_IN pipe then 0 else nat n)\<rparr>) w1
        in if e = 0 then (False, w2) else (True, upd_stm h (\<lambda>s. s\<lparr>WaitTimeout := wait_timeout flags\<rparr>) w2)
      else (True, upd_stm h (\<lambda>s. s\<lparr>SemReady := 0\<rparr>) w))"

definition StmK_Init ::
  "nat \<Rightarrow> UCHAR \<Rightarrow> LONG \<Rightarrow> LONG \<Rightarrow> LONG \<Rightarrow> UINT \<Rightarrow> libk \<Rightarrow> (bool \<times> nat option \<times> libk) option" where
  "StmK_Init u pipe sz n io flags =
     require (pipe AND 0x8F \<noteq> 0) ERROR_INVALID_PARAMETER (
     require (1 \<le> io) ERROR_INVALID_PARAMETER (
     require (io \<le> n) ERROR_INVALID_PARAMETER (\<lambda>w0. do {
       (ok, ep, w) \<leftarrow> UsbStack_QuerySelectedEndpoint u pipe False True w0;
       (case ep of
          None \<Rightarrow> Some (False, None, w)
        | Some ep \<Rightarrow>
          if \<not> ok then Some (False, None, w)
          else
            let mps = int (unat (ep ! 4)) + 256 * int (unat (ep ! 5)) in
            require (mps \<noteq> 0) ERROR_INVALID_PARAMETER (
            require (\<not> 0 < sgn sz * (\<bar>sz\<bar> mod mps)) ERROR_INVALID_PARAMETER (\<lambda>w.
              case sec_acquire lens_StmK Init_Handle_StmK (Some Stm_Cleanup_cb) w of
                (None, w1) \<Rightarrow> Some (False, None, w1)
              | (Some h, w1) \<Rightarrow>
                  let failed = (\<lambda>w. Some (False, None, snd (Dec_StmK h w)));
                      (hp, w2) = CreateObject w1;
                      w3 = upd_stm h (\<lambda>s. s\<lparr>Heap := hp\<rparr>) w2
                  in if hp = 0 then failed w3
                     else if \<not> is_long (sz * n) then None
                     else
                       let (mem, w5) = heap_blocks h (sz * n) w3 in
                       if \<not> mem then failed (SetLastError ERROR_NOT_ENOUGH_MEMORY w5)
                          else
                            let (sem, w6) = semaphore_for h pipe n flags w5 in
                            if \<not> sem then failed w6
                            else
                              let w7 = upd_stm h (\<lambda>s. s\<lparr>Stm_Flags := flags\<rparr>) w6;
                                  (inc, w8) = sec_inc lens_UsbK u w7
                              in if \<not> inc then failed (SetLastError ERROR_RESOURCE_NOT_AVAILABLE w8)
                                 else do {
                                   (d, dev) \<leftarrow> dev_of u w8;
                                   api \<leftarrow> DriverAPI dev;
                                   let info = \<lparr>I_UsbHandle = Some u, I_PipeID = pipe, I_MaxPendingTransfers = n,
                                       I_MaxTransferSize = sz, I_MaxPendingIO = io, I_EndpointDescriptor = ep,
                                       I_DriverAPI = Some api, I_DeviceHandle = MasterDeviceHandle dev\<rparr>;
                                   Some (True, Some h, sec_live lens_StmK h (upd_stm h
                                     (\<lambda>s. init_transfers pipe sz n (s\<lparr>Info := Some info, TimeoutCancelMS := 1\<rparr>)) w8)) })) w) })))"

section \<open>Starting, stopping and freeing\<close>

text \<open>
  \<open>Stm_StopInternal\<close> asks the thread to stop and waits until it has; what the thread does
  meanwhile is the argument \<open>thread\<close>, which gives the stream in the state in which the thread has
  stopped, or \<open>None\<close> when it never does.
\<close>

definition Stm_StopInternal :: "(kstm \<Rightarrow> kstm option) \<Rightarrow> nat \<Rightarrow> DWORD \<Rightarrow> libk \<Rightarrow> (bool \<times> libk) option" where
  "Stm_StopInternal thread h apc w =
     (let s = sec_body lens_StmK h w in
      if Thread_State s \<noteq> KSTM_THREADSTATE_STARTED then Some (False, SetLastError ERROR_ACCESS_DENIED w)
      else
        let s1 = s\<lparr>Thread_State := KSTM_THREADSTATE_STOPPING\<rparr> in
        if apc \<noteq> ERROR_SUCCESS then Some (False, SetLastError apc (upd_stm h (\<lambda>_. s1) w))
        else case thread (s1\<lparr>Thread_APCs := Thread_APCs s1 @ [StopAPC]\<rparr>) of
               None \<Rightarrow> None
             | Some s2 \<Rightarrow> Some (True, upd_stm h (\<lambda>_. s2) w))"

definition StmK_Free :: "(kstm \<Rightarrow> kstm option) \<Rightarrow> nat \<Rightarrow> DWORD \<Rightarrow> libk \<Rightarrow> (bool \<times> unit option \<times> libk) option" where
  "StmK_Free thread h apc =
     valid_handle lens_StmK h (\<lambda>w.
       let (ok, w1) = sec_inc lens_StmK h w in
       if \<not> ok then fail ERROR_RESOURCE_NOT_AVAILABLE w1
       else map_option (\<lambda>(_, w2). (True, None, snd (Dec_StmK h (snd (Dec_StmK h w2))))) (Stm_StopInternal thread h apc w1))"

text \<open>
  \<open>StmK_Start\<close>: creating and resuming the thread may fail with the error codes \<open>create\<close> and
  \<open>resume\<close>; a new thread has no procedure calls queued. The thread then sets the state to started; \<open>thread\<close> gives the stream in that state.
\<close>

definition StmK_Start ::
  "(kstm \<Rightarrow> kstm option) \<Rightarrow> DWORD \<Rightarrow> DWORD \<Rightarrow> nat \<Rightarrow> libk \<Rightarrow> (bool \<times> unit option \<times> libk) option" where
  "StmK_Start thread create resume h =
     valid_handle lens_StmK h (
     with_ref lens_StmK Dec_StmK ERROR_RESOURCE_NOT_AVAILABLE h (\<lambda>w.
       let s = sec_body lens_StmK h w in
       if Thread_State s \<noteq> KSTM_THREADSTATE_STOPPED then fail ERROR_ACCESS_DENIED w
       else
         let s1 = s\<lparr>Thread_State := KSTM_THREADSTATE_STARTING, Thread_APCs := []\<rparr>;
             stopped = upd_stm h (\<lambda>_. s1\<lparr>Thread_State := KSTM_THREADSTATE_STOPPED\<rparr>) w
         in if create \<noteq> ERROR_SUCCESS then fail create stopped
            else if resume \<noteq> ERROR_SUCCESS then fail resume stopped
            else case thread s1 of
                   None \<Rightarrow> None
                 | Some s2 \<Rightarrow> Some (True, None, upd_stm h (\<lambda>_. s2) w)))"

definition StmK_Stop ::
  "(kstm \<Rightarrow> kstm option) \<Rightarrow> nat \<Rightarrow> LONG \<Rightarrow> DWORD \<Rightarrow> libk \<Rightarrow> (bool \<times> unit option \<times> libk) option" where
  "StmK_Stop thread h timeout apc =
     valid_handle lens_StmK h (
     with_ref lens_StmK Dec_StmK ERROR_RESOURCE_NOT_AVAILABLE h (\<lambda>w.
       case Stm_StopInternal thread h apc (upd_stm h (\<lambda>s. s\<lparr>TimeoutCancelMS := word_of_int timeout\<rparr>) w) of
         None \<Rightarrow> None
       | Some (True, w1) \<Rightarrow> Some (True, None, w1)
       | Some (False, w1) \<Rightarrow> fail ERROR_ACCESS_DENIED w1))"

section \<open>What the operations keep\<close>

text \<open>
  The transfers of a stream that the user's side holds, by the lists they are on and the procedure
  calls they are an argument of. The semaphore counts the finished transfers.
\<close>

fun apc_list :: "stm_apc \<Rightarrow> nat list" where
  "apc_list (TransferListAPC sub) = sub"
| "apc_list StopAPC = []"

definition apc_transfers :: "kstm \<Rightarrow> nat list" where
  "apc_transfers h = concat (map apc_list (Thread_APCs h))"

definition apc_count :: "kstm \<Rightarrow> nat" where
  "apc_count h = length (filter (\<lambda>a. a \<noteq> StopAPC) (Thread_APCs h))"

definition stock :: "kstm \<Rightarrow> nat multiset" where
  "stock h = mset (Queued h) + mset (Finished h) + mset (FinishedTemp h) + mset (apc_transfers h)"

definition sem_ok :: "kstm \<Rightarrow> bool" where
  "sem_ok h \<longleftrightarrow> (SemReady h \<noteq> 0 \<longrightarrow> SemCount h = length (Finished h))"

definition apcs_ok :: "kstm \<Rightarrow> bool" where
  "apcs_ok h \<longleftrightarrow> TransferListAPC [] \<notin> set (Thread_APCs h)"

text \<open>The part of a stream that staging data does not touch.\<close>

definition same_stream :: "kstm \<Rightarrow> kstm \<Rightarrow> bool" where
  "same_stream h h' \<longleftrightarrow>
     h' = h\<lparr>Finished := Finished h', XferItems := XferItems h', SemCount := SemCount h'\<rparr> \<and>
     map X_Overlapped (XferItems h') = map X_Overlapped (XferItems h)"

lemma same_stream_refl [simp]: "same_stream h h"
  by (simp add: same_stream_def)

lemma same_stream_trans: "same_stream h h1 \<Longrightarrow> same_stream h1 h2 \<Longrightarrow> same_stream h h2"
  by (cases h; cases h1; cases h2) (auto simp: same_stream_def)

lemma same_streamD:
  assumes "same_stream h h'"
  shows "Queued h' = Queued h" "FinishedTemp h' = FinishedTemp h" "Thread_APCs h' = Thread_APCs h" "SemReady h' = SemReady h"
    "Info h' = Info h" "PendingIO h' = PendingIO h" "APCTransferQueueCount h' = APCTransferQueueCount h"
    "Thread_State h' = Thread_State h" "length (XferItems h') = length (XferItems h)" "Stm_Flags h' = Stm_Flags h"
    "sem_max h' = sem_max h" "TimeoutCancelMS h' = TimeoutCancelMS h"
    "map X_Overlapped (XferItems h') = map X_Overlapped (XferItems h)"
proof -
  show "length (XferItems h') = length (XferItems h)"
    using assms unfolding same_stream_def by (metis length_map)
  show "map X_Overlapped (XferItems h') = map X_Overlapped (XferItems h)"
    using assms by (simp add: same_stream_def)
qed (use assms in \<open>cases h; cases h'; simp add: same_stream_def sem_max_def\<close>)+

lemma overlapped_upd_xfer:
  "(\<And>xf. X_Overlapped (f xf) = X_Overlapped xf) \<Longrightarrow>
   map X_Overlapped (XferItems (upd_xfer x f h)) = map X_Overlapped (XferItems h)"
  by (cases "x < length (XferItems h)")
    (simp_all add: upd_xfer_def map_update list_update_same_conv list_update_beyond)

lemma same_stream_upd_xfer [simp]:
  "(\<And>xf. X_Overlapped (f xf) = X_Overlapped xf) \<Longrightarrow> same_stream h (upd_xfer x f h)"
  using overlapped_upd_xfer [of f x h] by (simp add: same_stream_def) (simp add: upd_xfer_def)

lemma same_stream_upd [simp]:
  "same_stream h (h\<lparr>Finished := l\<rparr>)" "same_stream h (ReleaseSemaphore n h)"
  "same_stream h (snd (sem_try h))" "same_stream h (h\<lparr>SemCount := m\<rparr>)"
  by (simp_all add: same_stream_def upd_xfer_def ReleaseSemaphore_def sem_try_def)

lemma upd_xfer_simps [simp]:
  "Finished (upd_xfer x f h) = Finished h" "SemReady (upd_xfer x f h) = SemReady h" "SemCount (upd_xfer x f h) = SemCount h"
  "sem_max (upd_xfer x f h) = sem_max h" "Queued (upd_xfer x f h) = Queued h"
  by (simp_all add: upd_xfer_def sem_max_def)

lemma ReleaseSemaphore_simps [simp]:
  "Finished (ReleaseSemaphore n h) = Finished h" "SemReady (ReleaseSemaphore n h) = SemReady h"
  "XferItems (ReleaseSemaphore n h) = XferItems h" "Queued (ReleaseSemaphore n h) = Queued h"
  by (simp_all add: ReleaseSemaphore_def)

lemma ReleaseSemaphore_count:
  "SemReady h \<noteq> 0 \<Longrightarrow> SemCount h + n \<le> sem_max h \<Longrightarrow> SemCount (ReleaseSemaphore n h) = SemCount h + n"
  by (simp add: ReleaseSemaphore_def)

lemma upd_xfer_items: "XferItems (upd_xfer x f h) = (XferItems h)[x := f (XferItems h ! x)]"
  by (simp add: upd_xfer_def)

lemma sem_max_upd [simp]:
  "sem_max (h\<lparr>Finished := l\<rparr>) = sem_max h" "sem_max (h\<lparr>SemCount := m\<rparr>) = sem_max h"
  by (simp_all add: sem_max_def)

text \<open>
  What a staging loop does to a stream: it moves transfers from the front of the finished list to
  the list it submits, and takes the semaphore once for each of them (the caller has taken it for
  the first).
\<close>

definition staged :: "bool \<Rightarrow> staging \<Rightarrow> staging \<Rightarrow> bool" where
  "staged first s s' \<longleftrightarrow>
     same_stream (st_h s) (st_h s') \<and> st_sub s' @ Finished (st_h s') = st_sub s @ Finished (st_h s) \<and>
     (SemReady (st_h s) \<noteq> 0 \<longrightarrow> length (Finished (st_h s)) \<le> sem_max (st_h s) \<longrightarrow>
        SemCount (st_h s) + of_bool first = length (Finished (st_h s)) \<longrightarrow>
        SemCount (st_h s') = length (Finished (st_h s')))"

lemma staged_step:
  assumes "Finished (st_h s) = x # xs" "same_stream (st_h s) (st_h s2)" "Finished (st_h s2) = xs" "st_sub s2 = st_sub s @ [x]"
    and "SemReady (st_h s) \<noteq> 0 \<longrightarrow> SemCount (st_h s2) + of_bool (\<not> first) = SemCount (st_h s)" "staged False s2 s'"
  shows "staged first s s'"
  using assms same_stream_trans [OF assms(2), of "st_h s'"] same_streamD [OF assms(2)]
  by (cases first) (auto simp: staged_def)

lemma staged_end:
  assumes "Finished (st_h s) = x # xs" "same_stream (st_h s) (st_h s2)" "Finished (st_h s2) = xs" "st_sub s2 = st_sub s @ [x]"
    and "SemReady (st_h s) \<noteq> 0 \<longrightarrow> SemCount (st_h s2) + of_bool (\<not> first) = SemCount (st_h s)"
  shows "staged first s s2"
  using assms by (cases first) (auto simp: staged_def)

lemma sem_try_eq:
  "sem_try h = (ok, h') \<Longrightarrow> ok \<Longrightarrow> same_stream h h' \<and> Finished h' = Finished h \<and> XferItems h' = XferItems h \<and>
     (SemReady h \<noteq> 0 \<longrightarrow> SemCount h' + 1 = SemCount h)"
  by (auto simp: sem_try_def split: if_splits)

lemma sem_try_fails: "sem_try h = (False, h') \<Longrightarrow> SemReady h \<noteq> 0 \<and> SemCount h = 0"
  by (auto simp: sem_try_def split: if_splits)

lemma take_slot_eq:
  "take_slot first h = (True, h') \<Longrightarrow> same_stream h h' \<and> Finished h' = Finished h \<and> XferItems h' = XferItems h \<and>
     (SemReady h \<noteq> 0 \<longrightarrow> SemCount h' + of_bool (\<not> first) = SemCount h)"
  by (auto simp: take_slot_def dest: sem_try_eq split: if_splits)

lemma staged_part:
  assumes "Finished (st_h s) = x # xs" "same_stream (st_h s) h" "Finished h = Finished (st_h s)"
    and "SemReady (st_h s) \<noteq> 0 \<longrightarrow> SemCount h + of_bool (\<not> first) = SemCount (st_h s)"
    and "st_h s' = ReleaseSemaphore 1 (upd_xfer x f h)" "st_sub s' = st_sub s" "\<And>xf. X_Overlapped (f xf) = X_Overlapped xf"
  shows "staged first s s'"
proof -
  have m: "sem_max h = sem_max (st_h s)" "SemReady h = SemReady (st_h s)" using same_streamD [OF assms(2)] by auto
  have "same_stream (st_h s) (st_h s')"
    unfolding assms(5) by (rule same_stream_trans [OF assms(2)], rule same_stream_trans [of _ "upd_xfer x f h"])
      (simp_all add: assms(7))
  moreover have "SemCount (st_h s') = length (Finished (st_h s'))"
    if "SemReady (st_h s) \<noteq> 0" "length (Finished (st_h s)) \<le> sem_max (st_h s)"
      "SemCount (st_h s) + of_bool first = length (Finished (st_h s))"
    using that assms(1,3,4) m by (cases first) (simp_all add: assms(5) ReleaseSemaphore_count)
  ultimately show ?thesis using assms(3,5,6) by (simp add: staged_def)
qed

lemma read_loop_staged:
  "read_loop first xs s = Some s' \<Longrightarrow> Finished (st_h s) = xs \<Longrightarrow> (first \<Longrightarrow> xs \<noteq> []) \<Longrightarrow> staged first s s'"
proof (induction xs arbitrary: first s)
  case Nil
  then show ?case by (auto simp: staged_def)
next
  case (Cons x xs)
  obtain ok h where slot: "take_slot first (st_h s) = (ok, h)" by (cases "take_slot first (st_h s)")
  show ?case
  proof (cases ok)
    case False
    then have "\<not> first" "SemReady (st_h s) \<noteq> 0 \<and> SemCount (st_h s) = 0"
      using slot by (auto simp: take_slot_def dest: sem_try_fails split: if_splits)
    then show ?thesis using Cons.prems slot False by (auto simp: staged_def)
  next
    case True
    note h = take_slot_eq [OF slot [unfolded eqTrueI [OF True]]]
    let ?pub = "Public (XferItems h ! x)"
    let ?n = "if st_len s > XC_TransferLength ?pub then XC_TransferLength ?pub else st_len s"
    obtain buf where buf: "copy_bytes (st_buf s) (st_off s) (X_Buffer (XferItems h ! x)) (int (XC_Buffer ?pub)) ?n = Some buf"
      using Cons.prems(1) slot True by (auto simp: Let_def elim: bind_SomeE)
    let ?s2 = "s\<lparr>st_len := st_len s - ?n, st_total := st_total s + word_of_int ?n, st_buf := buf,
       st_off := to_long (st_off s + ?n), st_h := h\<lparr>Finished := remove1 x (Finished h)\<rparr>, st_sub := st_sub s @ [x]\<rparr>"
    have s2: "same_stream (st_h s) (st_h ?s2)" "Finished (st_h ?s2) = xs" "st_sub ?s2 = st_sub s @ [x]"
      "SemReady (st_h s) \<noteq> 0 \<longrightarrow> SemCount (st_h ?s2) + of_bool (\<not> first) = SemCount (st_h s)"
      using h Cons.prems(2) same_stream_trans [of "st_h s" h] by auto
    consider (part) "XC_TransferLength ?pub - ?n \<noteq> 0" | (last) "XC_TransferLength ?pub - ?n = 0" "st_len ?s2 = 0"
      | (more) "XC_TransferLength ?pub - ?n = 0" "st_len ?s2 \<noteq> 0" by blast
    then show ?thesis
    proof cases
      case part
      have "\<exists>f. st_h s' = ReleaseSemaphore 1 (upd_xfer x f h) \<and> (\<forall>xf. X_Overlapped (f xf) = X_Overlapped xf)" "st_sub s' = st_sub s"
        using Cons.prems(1) slot True buf part by (auto simp: Let_def)
      then show ?thesis using staged_part [OF Cons.prems(2), of h] h by blast
    next
      case last
      then have "s' = ?s2" using Cons.prems(1) slot True buf by (auto simp: Let_def)
      with staged_end [OF Cons.prems(2) s2] show ?thesis by simp
    next
      case more
      then have r: "read_loop False xs ?s2 = Some s'" using Cons.prems(1) slot True buf by (simp add: Let_def)
      have "staged False ?s2 s'"
        using Cons.IH [OF r] s2(2) by simp
      with staged_step [OF Cons.prems(2) s2] show ?thesis .
    qed
  qed
qed


text \<open>The loop over the transfers of a write pipe stages in the same way.\<close>

lemma write_loop_staged:
  "write_loop first xs s = Some s' \<Longrightarrow> Finished (st_h s) = xs \<Longrightarrow> (first \<Longrightarrow> xs \<noteq> []) \<Longrightarrow> staged first s s'"
proof (induction xs arbitrary: first s)
  case Nil
  then show ?case by (auto simp: staged_def)
next
  case (Cons x xs)
  obtain ok h where slot: "take_slot first (st_h s) = (ok, h)" by (cases "take_slot first (st_h s)")
  show ?case
  proof (cases ok)
    case False
    then have "\<not> first" "SemReady (st_h s) \<noteq> 0 \<and> SemCount (st_h s) = 0"
      using slot by (auto simp: take_slot_def dest: sem_try_fails split: if_splits)
    then show ?thesis using Cons.prems slot False by (auto simp: staged_def)
  next
    case True
    note h = take_slot_eq [OF slot [unfolded eqTrueI [OF True]]]
    let ?xf = "XferItems h ! x"
    let ?n = "if st_len s > X_BufferSize ?xf then X_BufferSize ?xf else st_len s"
    obtain buf where buf: "copy_bytes (X_Buffer ?xf) 0 (st_buf s) (st_off s) ?n = Some buf"
      using Cons.prems(1) slot True by (auto simp: Let_def elim: bind_SomeE)
    let ?h1 = "upd_xfer x (\<lambda>xf. xf\<lparr>Public := (Public xf)\<lparr>XC_TransferLength := ?n\<rparr>, X_Buffer := buf\<rparr>) h"
    let ?s2 = "s\<lparr>st_len := st_len s - ?n, st_total := st_total s + word_of_int ?n, st_off := to_long (st_off s + ?n),
       st_h := ?h1\<lparr>Finished := remove1 x (Finished ?h1)\<rparr>, st_sub := st_sub s @ [x]\<rparr>"
    have s2: "same_stream (st_h s) (st_h ?s2)" "Finished (st_h ?s2) = xs" "st_sub ?s2 = st_sub s @ [x]"
      "SemReady (st_h s) \<noteq> 0 \<longrightarrow> SemCount (st_h ?s2) + of_bool (\<not> first) = SemCount (st_h s)"
      using h Cons.prems(2) same_stream_trans [of "st_h s" h] same_stream_trans [of h ?h1] by auto
    show ?thesis
    proof (cases "st_len ?s2 = 0")
      case last: True
      then have "s' = ?s2" using Cons.prems(1) slot True buf by (auto simp: Let_def)
      with staged_end [OF Cons.prems(2) s2] show ?thesis by simp
    next
      case more: False
      then have r: "write_loop False xs ?s2 = Some s'" using Cons.prems(1) slot True buf by (simp add: Let_def)
      have "staged False ?s2 s'"
        using Cons.IH [OF r] s2(2) by simp
      with staged_step [OF Cons.prems(2) s2] show ?thesis .
    qed
  qed
qed

section \<open>What a read or a write keeps\<close>

definition kept :: "bool \<Rightarrow> kstm \<Rightarrow> kstm \<Rightarrow> bool" where
  "kept counted h h' \<longleftrightarrow>
     stock h' = stock h \<and> sem_ok h' \<and> apcs_ok h' \<and> apc_count h' = apc_count h + of_bool counted \<and>
     FinishedTemp h' = FinishedTemp h \<and> PendingIO h' = PendingIO h \<and>
     APCTransferQueueCount h' = APCTransferQueueCount h \<and> Thread_State h' = Thread_State h \<and> Info h' = Info h \<and>
     SemReady h' = SemReady h \<and> length (XferItems h') = length (XferItems h) \<and>
     map X_Overlapped (XferItems h') = map X_Overlapped (XferItems h) \<and> (\<exists>l. Thread_APCs h' = Thread_APCs h @ l)"

lemma stock_same:
  "same_stream h h' \<Longrightarrow> mset (Finished h') = mset (Finished h) \<Longrightarrow> stock h' = stock h"
  by (simp add: stock_def apc_transfers_def same_streamD)

lemma kept_same:
  assumes "same_stream h h'" "mset (Finished h') = mset (Finished h)" "sem_ok h'" "apcs_ok h"
  shows "kept False h h'"
  using assms by (simp add: kept_def stock_same apcs_ok_def apc_count_def same_streamD)

lemma finished_le_stock: "length (Finished h) \<le> size (stock h)"
  by (simp add: stock_def)

lemma wait_for_transfer_eq:
  assumes "wait_for_transfer h = Some (e, h1)" "sem_ok h" "size (stock h) \<le> sem_max h"
  shows "same_stream h h1" "Finished h1 = Finished h" "e \<noteq> 0 \<Longrightarrow> sem_ok h1"
    "e = 0 \<Longrightarrow> Finished h \<noteq> [] \<and> (SemReady h \<noteq> 0 \<longrightarrow> SemCount h1 + 1 = length (Finished h))"
  using assms same_stream_trans [of h "h\<lparr>SemCount := SemCount h - 1\<rparr>"]
  by (auto simp: wait_for_transfer_def sem_ok_def Let_def split: if_splits)

lemma fold_Cons: "fold (#) sub l = rev sub @ l"
  by (induction sub arbitrary: l) auto

lemma restore_transfers_kept:
  assumes "same_stream h h1" "sub @ Finished h1 = Finished h" "SemReady h \<noteq> 0 \<longrightarrow> SemCount h1 = length (Finished h1)"
    and "apcs_ok h" "size (stock h) \<le> sem_max h"
  shows "kept False h (restore_transfers sub backup h1)" "Finished (restore_transfers sub backup h1) = rev sub @ Finished h1"
proof -
  define h2 where "h2 = (case backup of None \<Rightarrow> h1 | Some (x, pub) \<Rightarrow> upd_xfer x (\<lambda>xf. xf\<lparr>Public := pub\<rparr>) h1)"
  have h2: "same_stream h1 h2" "Finished h2 = Finished h1" "SemCount h2 = SemCount h1"
    by (auto simp: h2_def split: option.splits)
  have m: "SemReady h2 = SemReady h" "sem_max h2 = sem_max h"
    using same_streamD [OF assms(1)] same_streamD [OF h2(1)] by auto
  have len: "length sub + length (Finished h1) = length (Finished h)"
    using arg_cong [OF assms(2), of length] by simp
  define h3 where "h3 = h2\<lparr>Finished := fold (#) sub (Finished h2)\<rparr>"
  have r: "restore_transfers sub backup h1 = (if sub = [] then h1 else ReleaseSemaphore (length sub) h3)"
    by (simp add: restore_transfers_def h2_def h3_def Let_def)
  have "same_stream h h3"
    unfolding h3_def by (rule same_stream_trans [OF same_stream_trans [OF assms(1) h2(1)]]) simp
  then have "same_stream h (ReleaseSemaphore (length sub) h3)"
    by (rule same_stream_trans) simp
  then have "same_stream h (restore_transfers sub backup h1)"
    using assms(1) by (simp add: r)
  moreover show f: "Finished (restore_transfers sub backup h1) = rev sub @ Finished h1"
    by (simp add: r h3_def h2(2) fold_Cons)
  moreover have "sem_ok (restore_transfers sub backup h1)"
    using assms(3,5) len m h2(2,3) finished_le_stock [of h] same_streamD(4) [OF assms(1)]
    by (simp add: r h3_def sem_ok_def ReleaseSemaphore_count fold_Cons)
  moreover have "mset (Finished h) = mset sub + mset (Finished h1)" by (simp flip: assms(2))
  ultimately show "kept False h (restore_transfers sub backup h1)"
    using assms(4) by (intro kept_same) simp_all
qed

lemma queue_transfer_list_kept:
  assumes "same_stream h h1" "sub @ Finished h1 = Finished h" "SemReady h \<noteq> 0 \<longrightarrow> SemCount h1 = length (Finished h1)"
    and "apcs_ok h" "queue_transfer_list apc sub h1 = (0, counted, h2)"
  shows "kept counted h h2"
proof -
  have "mset (Finished h) = mset sub + mset (Finished h1)" by (simp flip: assms(2))
  then show ?thesis
    using assms(3-5) same_streamD [OF assms(1)]
    by (auto simp: queue_transfer_list_def kept_def stock_def apc_transfers_def apcs_ok_def apc_count_def sem_ok_def
        split: if_splits)
qed

text \<open>What \<open>stm_transfer\<close> relies on from the loop that stages the data.\<close>

locale staging_loop =
  fixes loop :: "bool \<Rightarrow> nat list \<Rightarrow> staging \<Rightarrow> staging option"
  assumes loop_staged:
    "loop first xs s = Some s' \<Longrightarrow> Finished (st_h s) = xs \<Longrightarrow> (first \<Longrightarrow> xs \<noteq> []) \<Longrightarrow> staged first s s'"
begin

lemma transfer_kept:
  assumes "stm_transfer loop d apc buf off len ov h = Some (e, out, counted, h')"
    and "sem_ok h" "apcs_ok h" "size (stock h) \<le> sem_max h"
  shows "kept counted h h'"
proof -
  have refl: "kept False h h" using assms(2,3) by (simp add: kept_same)
  show ?thesis
  proof (cases "d \<and> Thread_State h \<le> 1")
    case False
    then show ?thesis using assms(1) refl by (auto simp: stm_transfer_def split: if_splits)
  next
    case True
    then obtain e1 h1 where w: "wait_for_transfer h = Some (e1, h1)"
      using assms(1) by (auto simp: stm_transfer_def elim: bind_SomeE)
    note W = wait_for_transfer_eq [OF w assms(2,4)]
    show ?thesis
    proof (cases "e1 = 0")
      case False
      then show ?thesis using assms(1,3) True w W by (auto simp: stm_transfer_def intro: kept_same)
    next
      case e1: True
      let ?s = "\<lparr>st_h = h1, st_len = len, st_total = 0, st_off = off, st_buf = buf, st_sub = [], st_backup = None\<rparr>"
      obtain s where s: "loop True (Finished h1) ?s = Some s"
        using assms(1) True w e1 by (auto simp: stm_transfer_def elim: bind_SomeE)
      have "staged True ?s s" using loop_staged [OF s] W(2,4) e1 by simp
      then have S: "same_stream h (st_h s)" "st_sub s @ Finished (st_h s) = Finished h"
        "SemReady h \<noteq> 0 \<longrightarrow> SemCount (st_h s) = length (Finished (st_h s))"
        using W e1 same_stream_trans [OF W(1)] same_streamD [OF W(1)] assms(4) finished_le_stock [of h]
        by (auto simp: staged_def)
      note R = restore_transfers_kept(1) [OF S assms(3,4)]
      show ?thesis
      proof (cases "partial_allowed (st_h s) (st_len s) ov")
        case False
        then show ?thesis using assms(1) True w e1 s R by (auto simp: stm_transfer_def Let_def)
      next
        case pa: True
        obtain e2 c h2 where q: "queue_transfer_list apc (st_sub s) (st_h s) = (e2, c, h2)"
          by (cases "queue_transfer_list apc (st_sub s) (st_h s)")
        show ?thesis
        proof (cases "e2 = 0")
          case True
          then show ?thesis using assms(1) \<open>d \<and> _\<close> w e1 s pa q queue_transfer_list_kept [OF S assms(3), of apc c h2]
            by (auto simp: stm_transfer_def Let_def)
        next
          case False
          then have "h2 = st_h s" using q by (auto simp: queue_transfer_list_def split: if_splits)
          then show ?thesis using assms(1) \<open>d \<and> _\<close> w e1 s pa q R False by (auto simp: stm_transfer_def Let_def)
        qed
      qed
    qed
  qed
qed

end

interpretation reading: staging_loop read_loop
  by unfold_locales (rule read_loop_staged)

interpretation writing: staging_loop write_loop
  by unfold_locales (rule write_loop_staged)

lemma stm_read_kept:
  "stm_read apc buf off len h = Some (e, out, counted, h') \<Longrightarrow> sem_ok h \<Longrightarrow> apcs_ok h \<Longrightarrow> size (stock h) \<le> sem_max h \<Longrightarrow>
   kept counted h h'"
  by (auto simp: stm_read_def elim!: bind_SomeE dest: reading.transfer_kept)

lemma stm_write_kept:
  "stm_write apc buf off len ov h = Some (e, out, counted, h') \<Longrightarrow> sem_ok h \<Longrightarrow> apcs_ok h \<Longrightarrow> size (stock h) \<le> sem_max h \<Longrightarrow>
   kept counted h h'"
  by (auto simp: stm_write_def elim!: bind_SomeE dest: writing.transfer_kept)

section \<open>A read stream is a queue of bytes\<close>

definition overwrite :: "'a list \<Rightarrow> nat \<Rightarrow> 'a list \<Rightarrow> 'a list" where
  "overwrite l i ys = take i l @ ys @ drop (i + length ys) l"

lemma overwrite_Nil [simp]: "overwrite l i [] = l"
  by (simp add: overwrite_def)

lemma length_overwrite [simp]: "i + length ys \<le> length l \<Longrightarrow> length (overwrite l i ys) = length l"
  by (simp add: overwrite_def)

lemma overwrite_append:
  "i \<le> length l \<Longrightarrow> overwrite (overwrite l i ys) (i + length ys) zs = overwrite l i (ys @ zs)"
  by (simp add: overwrite_def ac_simps)

lemma copy_bytes_eq:
  assumes "0 \<le> n" "0 \<le> d" "d + n \<le> int (length dst)" "s + nat n \<le> length src"
  shows "copy_bytes dst d src (int s) n = Some (overwrite dst (nat d) (take (nat n) (drop s src)))"
proof -
  have "length (take (nat n) (drop s src)) = nat n" using assms(4) by simp
  moreover have "int s + n \<le> int (length src)" using assms(1,4) by linarith
  ultimately show ?thesis
    using assms(1-3) by (simp add: copy_bytes_def overwrite_def nat_add_distrib)
qed

definition window :: "kstm_xfer \<Rightarrow> UCHAR list" where
  "window xf = take (nat (XC_TransferLength (Public xf))) (drop (XC_Buffer (Public xf)) (X_Buffer xf))"

definition valid_xfer :: "kstm_xfer \<Rightarrow> bool" where
  "valid_xfer xf \<longleftrightarrow> 0 \<le> XC_TransferLength (Public xf) \<and>
     XC_Buffer (Public xf) + nat (XC_TransferLength (Public xf)) \<le> length (X_Buffer xf)"

definition windows :: "kstm \<Rightarrow> nat list \<Rightarrow> UCHAR list" where
  "windows h xs = concat (map (\<lambda>x. window (XferItems h ! x)) xs)"

lemma windows_simps [simp]:
  "windows h [] = []" "windows h (x # xs) = window (XferItems h ! x) @ windows h xs"
  by (simp_all add: windows_def)

lemma windows_cong: "(\<And>x. x \<in> set xs \<Longrightarrow> XferItems h' ! x = XferItems h ! x) \<Longrightarrow> windows h' xs = windows h xs"
  by (simp add: windows_def cong: map_cong)

lemma length_window: "valid_xfer xf \<Longrightarrow> int (length (window xf)) = XC_TransferLength (Public xf)"
  by (auto simp: window_def valid_xfer_def)

definition staging_ready :: "bool \<Rightarrow> nat list \<Rightarrow> staging \<Rightarrow> bool" where
  "staging_ready first xs s \<longleftrightarrow>
     Finished (st_h s) = xs \<and> distinct xs \<and> (\<forall>x \<in> set xs. x < length (XferItems (st_h s)) \<and> valid_xfer (XferItems (st_h s) ! x)) \<and>
     0 \<le> st_off s \<and> 0 < st_len s \<and> st_off s + st_len s \<le> int (length (st_buf s)) \<and> length (st_buf s) < 2147483648 \<and>
     (SemReady (st_h s) \<noteq> 0 \<longrightarrow> SemCount (st_h s) + of_bool first = length xs)"

lemma ready_slot:
  assumes "staging_ready first (x # xs) s"
  obtains h where "take_slot first (st_h s) = (True, h)" "Finished h = x # xs" "XferItems h = XferItems (st_h s)"
    "SemReady h = SemReady (st_h s)" "SemReady h \<noteq> 0 \<longrightarrow> SemCount h = length xs"
  using assms by (cases first; cases "SemReady (st_h s) = 0") (fastforce simp: staging_ready_def take_slot_def sem_try_def)+

lemma read_loop_Cons:
  assumes "take_slot first (st_h s) = (True, h)"
    and "n = (if st_len s > XC_TransferLength (Public (XferItems h ! x)) then XC_TransferLength (Public (XferItems h ! x)) else st_len s)"
    and "copy_bytes (st_buf s) (st_off s) (X_Buffer (XferItems h ! x)) (int (XC_Buffer (Public (XferItems h ! x)))) n = Some buf"
  shows "read_loop first (x # xs) s =
    (let pub = Public (XferItems h ! x);
         s1 = s\<lparr>st_len := st_len s - n, st_total := st_total s + word_of_int n, st_buf := buf, st_off := to_long (st_off s + n)\<rparr>;
         s2 = s1\<lparr>st_h := h\<lparr>Finished := remove1 x (Finished h)\<rparr>, st_sub := st_sub s @ [x]\<rparr>
     in if XC_TransferLength pub - n \<noteq> 0 then
          Some (s1\<lparr>st_backup := Some (x, pub),
                   st_h := ReleaseSemaphore 1 (upd_xfer x (\<lambda>xf. xf\<lparr>Public :=
                     pub\<lparr>XC_TransferLength := XC_TransferLength pub - n, XC_Buffer := XC_Buffer pub + nat n,
                         XC_BufferSize := XC_BufferSize pub - n\<rparr>\<rparr>) h)\<rparr>)
        else if st_len s - n = 0 then Some s2 else read_loop False xs s2)"
  using assms(3)
  by (simp only: read_loop.simps assms(1) Let_def prod.case not_True_eq_False if_False assms(2) [symmetric])
    (simp del: read_loop.simps)

lemma read_loop_data:
  "staging_ready first xs s \<Longrightarrow>
   \<exists>s'. read_loop first xs s = Some s' \<and>
     (let D = windows (st_h s) xs; n = min (nat (st_len s)) (length D) in
      st_len s' = st_len s - int n \<and> st_total s' = st_total s + word_of_nat n \<and>
      st_buf s' = overwrite (st_buf s) (nat (st_off s)) (take n D) \<and>
      windows (st_h s') (Finished (st_h s')) = drop n D \<and>
      (length D < nat (st_len s) \<longrightarrow>
         Finished (st_h s') = [] \<and> XferItems (st_h s') = XferItems (st_h s) \<and> st_backup s' = st_backup s))"
proof (induction xs arbitrary: first s)
  case Nil
  then show ?case by (simp add: staging_ready_def)
next
  case (Cons x xs)
  obtain h where slot: "take_slot first (st_h s) = (True, h)" and h: "Finished h = x # xs" "XferItems h = XferItems (st_h s)"
    "SemReady h = SemReady (st_h s)" "SemReady h \<noteq> 0 \<longrightarrow> SemCount h = length xs"
    using ready_slot [OF Cons.prems] by metis
  note R = Cons.prems [unfolded staging_ready_def]
  let ?xf = "XferItems h ! x"
  let ?pub = "Public ?xf"
  let ?W = "window ?xf"
  define n where "n = (if st_len s > XC_TransferLength ?pub then XC_TransferLength ?pub else st_len s)"
  have v: "valid_xfer ?xf" "x < length (XferItems h)" using R h(2) by auto
  have L: "int (length ?W) = XC_TransferLength ?pub" by (rule length_window [OF v(1)])
  have n: "0 \<le> n" "n \<le> st_len s" "n \<le> int (length ?W)" "nat n = min (nat (st_len s)) (length ?W)"
    using L v(1) R by (auto simp: n_def valid_xfer_def)
  let ?buf = "overwrite (st_buf s) (nat (st_off s)) (take (nat n) ?W)"
  have tk: "take (nat n) (drop (XC_Buffer ?pub) (X_Buffer ?xf)) = take (nat n) ?W"
    using n(3) L by (simp add: window_def min_def)
  have buf: "copy_bytes (st_buf s) (st_off s) (X_Buffer ?xf) (int (XC_Buffer ?pub)) n = Some ?buf"
    using copy_bytes_eq [of n "st_off s" "st_buf s" "XC_Buffer ?pub" "X_Buffer ?xf"] n L v(1) R
    unfolding tk by (auto simp: valid_xfer_def)
  have off: "to_long (st_off s + n) = st_off s + n" using n R by (intro to_long_id is_long_small) auto
  have D: "windows (st_h s) (x # xs) = ?W @ windows h xs"
    using h(2) by (simp add: windows_def)
  let ?s2 = "s\<lparr>st_len := st_len s - n, st_total := st_total s + word_of_int n, st_buf := ?buf,
     st_off := to_long (st_off s + n), st_h := h\<lparr>Finished := remove1 x (Finished h)\<rparr>, st_sub := st_sub s @ [x]\<rparr>"
  note step = read_loop_Cons [OF slot n_def buf, of xs]
  have n_int: "word_of_int n = (word_of_nat (nat n) :: UINT)" using n(1) by simp
  consider (part) "int (length ?W) > st_len s" | (last) "int (length ?W) = st_len s" | (more) "int (length ?W) < st_len s" by linarith
  then show ?case
  proof cases
    case part
    then have nn: "n = st_len s" "nat n < length ?W" "XC_TransferLength ?pub - n \<noteq> 0" using L R by (auto simp: n_def)
    have w: "windows (upd_xfer x f h) xs = windows h xs" for f
      using R by (intro windows_cong) (metis distinct.simps(2) nth_list_update_neq upd_xfer_items)
    have win: "window (?xf\<lparr>Public := ?pub\<lparr>XC_TransferLength := XC_TransferLength ?pub - n,
          XC_Buffer := XC_Buffer ?pub + nat n, XC_BufferSize := XC_BufferSize ?pub - n\<rparr>\<rparr>) = drop (nat n) ?W"
      using n(1,3) L by (simp add: window_def drop_take nat_diff_distrib add.commute)
    let ?s' = "s\<lparr>st_len := st_len s - n, st_total := st_total s + word_of_int n, st_buf := ?buf,
       st_off := to_long (st_off s + n), st_backup := Some (x, ?pub),
       st_h := ReleaseSemaphore 1 (upd_xfer x (\<lambda>xf. xf\<lparr>Public := ?pub\<lparr>XC_TransferLength := XC_TransferLength ?pub - n,
          XC_Buffer := XC_Buffer ?pub + nat n, XC_BufferSize := XC_BufferSize ?pub - n\<rparr>\<rparr>) h)\<rparr>"
    have s': "read_loop first (x # xs) s = Some ?s'" using step nn(3) by (simp add: Let_def del: read_loop.simps)
    have "windows (st_h ?s') (Finished (st_h ?s')) = drop (nat n) ?W @ windows h xs"
      using h(1) v(2) w win by (simp add: windows_def upd_xfer_items)
    moreover have "min (nat (st_len s)) (length (?W @ windows h xs)) = nat n" using nn by simp
    ultimately show ?thesis
      using nn n D by (simp add: s' Let_def del: read_loop.simps)
  next
    case last
    then have nn: "n = st_len s" "XC_TransferLength ?pub - n = 0" "nat n = length ?W" "st_len s - n = 0" using L by (auto simp: n_def)
    have "windows (st_h ?s2) (Finished (st_h ?s2)) = windows h xs"
      using h(1) by (simp add: windows_def)
    moreover have "read_loop first (x # xs) s = Some ?s2" using step nn by (simp add: Let_def del: read_loop.simps)
    moreover have "min (nat (st_len s)) (length (?W @ windows h xs)) = nat n" using nn by simp
    moreover have "n = int (length ?W)" using nn(3) n(1) by linarith
    then have "n = int (length ?W)" "word_of_int n = (word_of_nat (length ?W) :: UINT)" by simp_all
    ultimately show ?thesis using nn(1,3,4) D by (simp add: Let_def del: read_loop.simps)
  next
    case more
    then have nn: "n = int (length ?W)" "XC_TransferLength ?pub - n = 0" "nat n = length ?W" "st_len s - n \<noteq> 0" using L by (auto simp: n_def)
    have r: "read_loop first (x # xs) s = read_loop False xs ?s2"
      using step nn by (simp add: Let_def del: read_loop.simps)
    have off': "to_long (st_off s + int (length ?W)) = st_off s + int (length ?W)" using off nn(1) by simp
    have "staging_ready False xs ?s2"
      using R h nn more off' by (auto simp: staging_ready_def)
    from Cons.IH [OF this] obtain s' where s': "read_loop False xs ?s2 = Some s'"
      "(let D = windows (st_h ?s2) xs; n = min (nat (st_len ?s2)) (length D) in
      st_len s' = st_len ?s2 - int n \<and> st_total s' = st_total ?s2 + word_of_nat n \<and>
      st_buf s' = overwrite (st_buf ?s2) (nat (st_off ?s2)) (take n D) \<and>
      windows (st_h s') (Finished (st_h s')) = drop n D \<and>
      (length D < nat (st_len ?s2) \<longrightarrow>
         Finished (st_h s') = [] \<and> XferItems (st_h s') = XferItems (st_h ?s2) \<and> st_backup s' = st_backup ?s2))" by blast
    have w2: "windows (st_h ?s2) xs = windows h xs" by (simp add: windows_def)
    let ?m = "min (nat (st_len s - n)) (length (windows h xs))"
    have m: "min (nat (st_len s)) (length (?W @ windows h xs)) = length ?W + ?m"
      using more nn by (auto simp: min_def nat_diff_distrib)
    have o: "nat (st_off s + int (length ?W)) = nat (st_off s) + length ?W"
      using R by (simp add: nat_add_distrib)
    have "overwrite ?buf (nat (st_off s) + length ?W) (take ?m (windows h xs)) =
        overwrite (st_buf s) (nat (st_off s)) (?W @ take ?m (windows h xs))"
      using overwrite_append [of "nat (st_off s)" "st_buf s" ?W] nn(3) R by (simp add: nat_le_iff)
    moreover have "length (?W @ windows h xs) < nat (st_len s) \<Longrightarrow> length (windows h xs) < nat (st_len s - n)"
      using more nn(1) by (simp add: nat_diff_distrib)
    ultimately show ?thesis
      using s' unfolding D m r w2 Let_def
      by (simp add: nn(1,2) off' o del: read_loop.simps) (simp add: h(2) nat_diff_distrib)
  qed
qed

text \<open>
  A stream that can be read: it is a read stream that is stopped or started, with finished transfers
  that are valid. Its data are the windows of the finished transfers, in their order.
\<close>

definition stream_data :: "kstm \<Rightarrow> UCHAR list" where
  "stream_data s = windows s (Finished s)"

definition stream_ok :: "kstm \<Rightarrow> bool" where
  "stream_ok s \<longleftrightarrow> sem_ok s \<and> apcs_ok s \<and> size (stock s) \<le> sem_max s \<and>
     distinct (Finished s) \<and> (\<forall>x \<in> set (Finished s). x < length (XferItems s))"

definition readable :: "kstm \<Rightarrow> bool" where
  "readable s \<longleftrightarrow> pipe_in s = Some True \<and> Thread_State s \<le> KSTM_THREADSTATE_STARTED \<and> stream_ok s \<and>
     Finished s \<noteq> [] \<and> (\<forall>x \<in> set (Finished s). valid_xfer (XferItems s ! x))"

definition fits :: "UCHAR list \<Rightarrow> LONG \<Rightarrow> LONG \<Rightarrow> bool" where
  "fits buf off len \<longleftrightarrow> 0 \<le> off \<and> 0 < len \<and> off + len \<le> int (length buf) \<and> length buf < 2147483648"

lemma wait_for_transfer_run:
  assumes "stream_ok s" "Finished s \<noteq> []"
  shows "\<exists>h1. wait_for_transfer s = Some (0, h1) \<and> same_stream s h1 \<and> Finished h1 = Finished s \<and> XferItems h1 = XferItems s \<and>
     (SemReady h1 \<noteq> 0 \<longrightarrow> SemCount h1 + 1 = length (Finished s))"
  using assms by (cases "SemReady s = 0") (auto simp: stream_ok_def sem_ok_def wait_for_transfer_def Let_def)

lemma queue_transfer_list_same:
  "\<exists>c h'. queue_transfer_list 0 sub h = (0, c, h') \<and> Finished h' = Finished h \<and> XferItems h' = XferItems h"
  by (auto simp: queue_transfer_list_def)

lemma windows_items: "XferItems h' = XferItems h \<Longrightarrow> windows h' xs = windows h xs"
  by (simp add: windows_def)

lemma stm_read_staged:
  assumes "readable s" "fits buf off len"
  shows "\<exists>h1 s'. wait_for_transfer s = Some (0, h1) \<and>
     read_loop True (Finished h1) \<lparr>st_h = h1, st_len = len, st_total = 0, st_off = off, st_buf = buf, st_sub = [], st_backup = None\<rparr> = Some s' \<and>
     same_stream s (st_h s') \<and> st_sub s' @ Finished (st_h s') = Finished s \<and>
     (let D = stream_data s; n = min (nat len) (length D) in
      st_len s' = len - int n \<and> st_total s' = word_of_nat n \<and> st_buf s' = overwrite buf (nat off) (take n D) \<and>
      stream_data (st_h s') = drop n D \<and>
      (length D < nat len \<longrightarrow> Finished (st_h s') = [] \<and> XferItems (st_h s') = XferItems s \<and> st_backup s' = None))"
proof -
  obtain h1 where h1: "wait_for_transfer s = Some (0, h1)" "same_stream s h1" "Finished h1 = Finished s" "XferItems h1 = XferItems s"
    "SemReady h1 \<noteq> 0 \<longrightarrow> SemCount h1 + 1 = length (Finished s)"
    using wait_for_transfer_run [of s] assms(1) by (auto simp: readable_def)
  let ?s = "\<lparr>st_h = h1, st_len = len, st_total = 0, st_off = off, st_buf = buf, st_sub = [], st_backup = None\<rparr>"
  have r: "staging_ready True (Finished h1) ?s"
    using assms h1 by (auto simp: staging_ready_def readable_def stream_ok_def fits_def)
  have D: "windows h1 (Finished h1) = stream_data s"
    using h1(3) by (simp add: stream_data_def windows_items [OF h1(4)])
  obtain s' where s': "read_loop True (Finished h1) ?s = Some s'"
    "let D = stream_data s; n = min (nat len) (length D) in
      st_len s' = len - int n \<and> st_total s' = word_of_nat n \<and> st_buf s' = overwrite buf (nat off) (take n D) \<and>
      stream_data (st_h s') = drop n D \<and>
      (length D < nat len \<longrightarrow> Finished (st_h s') = [] \<and> XferItems (st_h s') = XferItems s \<and> st_backup s' = None)"
    using read_loop_data [OF r] unfolding stream_data_def [of "st_h _", symmetric]
    by (simp add: D h1(4)) (simp add: stream_data_def, blast)
  have "staged True ?s s'"
    using read_loop_staged [OF s'(1)] h1(3) assms(1) by (simp add: readable_def)
  then have S: "same_stream h1 (st_h s')" "st_sub s' @ Finished (st_h s') = Finished s"
    using h1(3) by (simp_all add: staged_def)
  show ?thesis
    using h1(1) s' same_stream_trans [OF h1(2) S(1)] S(2) by blast
qed

lemma stm_read_run:
  assumes "readable s" "fits buf off len" "D = stream_data s" "n = min (nat len) (length D)"
    and "Stm_Flags s AND KSTM_FLAG_NO_PARTIAL_XFERS = 0 \<or> len \<le> int (length D)"
  shows "\<exists>c s'. stm_read 0 buf off len s = Some (0, (word_of_nat n, overwrite buf (nat off) (take n D)), c, s') \<and>
     stream_data s' = drop n D \<and> kept c s s'"
proof -
  obtain h1 st where a: "wait_for_transfer s = Some (0, h1)"
     "read_loop True (Finished h1) \<lparr>st_h = h1, st_len = len, st_total = 0, st_off = off, st_buf = buf, st_sub = [], st_backup = None\<rparr> = Some st"
     "same_stream s (st_h st)" "st_len st = len - int n" "st_total st = word_of_nat n" "st_buf st = overwrite buf (nat off) (take n D)"
     "stream_data (st_h st) = drop n D"
    using stm_read_staged [OF assms(1,2)] assms(3,4) by (auto simp: Let_def)
  obtain c s' where q: "queue_transfer_list 0 (st_sub st) (st_h st) = (0, c, s')" "Finished s' = Finished (st_h st)"
    "XferItems s' = XferItems (st_h st)"
    using queue_transfer_list_same by blast
  have "len \<le> int (length D) \<Longrightarrow> st_len st = 0" using assms(2,4) a(4) by (simp add: fits_def)
  then have "partial_allowed (st_h st) (st_len st) True"
    using assms(5) same_streamD(10) [OF a(3)] by (auto simp: partial_allowed_def)
  then have run: "stm_read 0 buf off len s = Some (0, (word_of_nat n, overwrite buf (nat off) (take n D)), c, s')"
    using assms(1) a q by (simp add: stm_read_def stm_transfer_def readable_def not_less)
  moreover have "stream_data s' = drop n D" using a(7) q(2) by (simp add: stream_data_def windows_items [OF q(3)])
  moreover have "kept c s s'" using stm_read_kept [OF run] assms(1) by (simp add: readable_def stream_ok_def)
  ultimately show ?thesis by blast
qed

lemma stm_read_fails:
  assumes "readable s" "fits buf off len" "D = stream_data s"
    and "Stm_Flags s AND KSTM_FLAG_NO_PARTIAL_XFERS \<noteq> 0" "int (length D) < len"
  shows "\<exists>s'. stm_read apc buf off len s = Some (ERROR_NO_MORE_ITEMS, (0, overwrite buf (nat off) D), False, s') \<and>
     Finished s' = rev (Finished s) \<and> XferItems s' = XferItems s \<and> kept False s s'"
proof -
  obtain h1 st where a: "wait_for_transfer s = Some (0, h1)"
     "read_loop True (Finished h1) \<lparr>st_h = h1, st_len = len, st_total = 0, st_off = off, st_buf = buf, st_sub = [], st_backup = None\<rparr> = Some st"
     "same_stream s (st_h st)" "st_len st = len - int (length D)" "st_buf st = overwrite buf (nat off) D"
     "st_sub st = Finished s" "Finished (st_h st) = []" "XferItems (st_h st) = XferItems s" "st_backup st = None"
    using stm_read_staged [OF assms(1,2)] assms(3,5) by (auto simp: Let_def)
  have "\<not> partial_allowed (st_h st) (st_len st) True"
    using assms(4,5) a(4) same_streamD(10) [OF a(3)] by (simp add: partial_allowed_def)
  then have run: "stm_read apc buf off len s = Some (ERROR_NO_MORE_ITEMS, (0, overwrite buf (nat off) D), False,
      restore_transfers (Finished s) None (st_h st))"
    using assms(1) a by (simp add: stm_read_def stm_transfer_def readable_def not_less)
  moreover have "kept False s (restore_transfers (Finished s) None (st_h st))"
    using stm_read_kept [OF run] assms(1) by (simp add: readable_def stream_ok_def)
  ultimately show ?thesis
    using a(7,8) by (auto simp: restore_transfers_def fold_Cons Let_def)
qed

section \<open>The exported functions\<close>

lemma StmK_Read_run:
  assumes "alive (StmK w) h" "Ref (Handles (StmK w) ! h) < 2147483646" "0 \<le> off" "0 < len"
    and "stm_read apc buf off len (sec_body lens_StmK h w) = Some (e, out, c, s')"
  shows "StmK_Read h apc (Some buf) off len True w =
     Some (e = 0, Some out, (if e = 0 then id else SetLastError e) (upd_stm h (\<lambda>_. if c then count_apc s' else s') w))"
proof -
  have h: "h < handle_count (StmK w)" using assms(1) by (simp add: alive_def)
  let ?f = "\<lambda>_ :: kstm. if c then count_apc s' else s'"
  let ?w = "w\<lparr>StmK := upd_handle h (\<lambda>k. k\<lparr>Ref := Ref k + 1\<rparr>) (StmK w)\<rparr>"
  let ?v = "(if e = 0 then id else SetLastError e) (upd_stm h ?f ?w)"
  have "with_ref lens_StmK Dec_StmK ERROR_RESOURCE_NOT_AVAILABLE h (transfer_result h True (stm_read apc buf off len)) w =
      Some (e = 0, Some out, lput lens_StmK (upd_handle h (\<lambda>k. k\<lparr>body := ?f (body k)\<rparr>) (lget lens_StmK w)) ?v)"
    using assms h
    by (intro stmk.with_ref_run [where run = run_StmK])
      (auto simp: Dec_StmK_def transfer_result_def sec_body_def sec_set_body_def SetLastError_def)
  then show ?thesis
    using assms(3,4) h
    by (simp add: StmK_Read_def valid_handle_def ALLK_VALID_HANDLE_iff require_def sec_set_body_def SetLastError_def)
qed

text \<open>
  C23. A read stream is a queue of bytes: a read of a stream whose finished transfers hold the data D
  returns the first bytes of D, as many as were asked for or are there, at the given offset of the
  buffer and in the order in which the transfers finished; what is left of D is the data of the stream
  afterwards, and no transfer is lost. (A stream that refuses partial transfers is asked for no more
  than it has.)
\<close>

theorem StmK_Read_spec:
  assumes "alive (StmK w) h" "Ref (Handles (StmK w) ! h) < 2147483646"
    and "readable (sec_body lens_StmK h w)" "fits buf off len" "D = stream_data (sec_body lens_StmK h w)" "n = min (nat len) (length D)"
    and "Stm_Flags (sec_body lens_StmK h w) AND KSTM_FLAG_NO_PARTIAL_XFERS = 0 \<or> len \<le> int (length D)"
  shows "\<exists>s'. StmK_Read h 0 (Some buf) off len True w =
       Some (True, Some (word_of_nat n, take (nat off) buf @ take n D @ drop (nat off + n) buf), upd_stm h (\<lambda>_. s') w) \<and>
     stream_data s' = drop n D \<and> stock s' = stock (sec_body lens_StmK h w)"
proof -
  obtain c s' where s': "stm_read 0 buf off len (sec_body lens_StmK h w) = Some (0, (word_of_nat n, overwrite buf (nat off) (take n D)), c, s')"
    "stream_data s' = drop n D" "kept c (sec_body lens_StmK h w) s'"
    using stm_read_run [OF assms(3-7)] by blast
  have "overwrite buf (nat off) (take n D) = take (nat off) buf @ take n D @ drop (nat off + n) buf"
    using assms(6) by (simp add: overwrite_def)
  moreover have "stream_data (count_apc s') = stream_data s'" "stock (count_apc s') = stock s'"
    by (simp_all add: stream_data_def windows_def count_apc_def stock_def apc_transfers_def)
  moreover have "0 \<le> off" "0 < len" using assms(4) by (auto simp: fits_def)
  ultimately show ?thesis
    using StmK_Read_run [OF assms(1,2) _ _ s'(1)] s'(2,3)
    by (intro exI [of _ "if c then count_apc s' else s'"]) (simp add: kept_def)
qed

text \<open>
  A read that fails because the stream refuses partial transfers and has too little data leaves
  the finished transfers in the reverse order: they are put back one by one at the front of the list.
  The data that a later read returns are those of the same transfers in the wrong order. (No transfer
  is lost, and the caller's buffer has been written all the same.)
\<close>

theorem failed_StmK_Read_reverses:
  assumes "alive (StmK w) h" "Ref (Handles (StmK w) ! h) < 2147483646"
    and "readable (sec_body lens_StmK h w)" "fits buf off len" "D = stream_data (sec_body lens_StmK h w)"
    and "Stm_Flags (sec_body lens_StmK h w) AND KSTM_FLAG_NO_PARTIAL_XFERS \<noteq> 0" "int (length D) < len"
  shows "\<exists>s'. StmK_Read h apc (Some buf) off len True w =
       Some (False, Some (0, take (nat off) buf @ D @ drop (nat off + length D) buf), SetLastError ERROR_NO_MORE_ITEMS (upd_stm h (\<lambda>_. s') w)) \<and>
     Finished s' = rev (Finished (sec_body lens_StmK h w)) \<and> stock s' = stock (sec_body lens_StmK h w) \<and>
     stream_data s' = windows (sec_body lens_StmK h w) (rev (Finished (sec_body lens_StmK h w)))"
proof -
  obtain s' where s': "stm_read apc buf off len (sec_body lens_StmK h w) = Some (ERROR_NO_MORE_ITEMS, (0, overwrite buf (nat off) D), False, s')"
    "Finished s' = rev (Finished (sec_body lens_StmK h w))" "XferItems s' = XferItems (sec_body lens_StmK h w)"
    "kept False (sec_body lens_StmK h w) s'"
    using stm_read_fails [OF assms(3-7)] by blast
  moreover have "0 \<le> off" "0 < len" using assms(4) by (auto simp: fits_def)
  ultimately show ?thesis
    using StmK_Read_run [OF assms(1,2) _ _ s'(1)]
    by (intro exI [of _ s']) (simp add: kept_def overwrite_def stream_data_def windows_items [OF s'(3)])
qed

section \<open>Writing\<close>

text \<open>The bytes of a transfer that are sent, and the space of transfers.\<close>

definition payloads :: "kstm \<Rightarrow> nat list \<Rightarrow> UCHAR list" where
  "payloads h xs = concat (map (\<lambda>x. take (nat (XC_TransferLength (Public (XferItems h ! x)))) (X_Buffer (XferItems h ! x))) xs)"

definition capacity :: "kstm \<Rightarrow> nat list \<Rightarrow> nat" where
  "capacity h xs = sum_list (map (\<lambda>x. length (X_Buffer (XferItems h ! x))) xs)"

lemma payloads_simps [simp]:
  "payloads h [] = []"
  "payloads h (x # xs) = take (nat (XC_TransferLength (Public (XferItems h ! x)))) (X_Buffer (XferItems h ! x)) @ payloads h xs"
  by (simp_all add: payloads_def)

lemma capacity_simps [simp]:
  "capacity h [] = 0" "capacity h (x # xs) = length (X_Buffer (XferItems h ! x)) + capacity h xs"
  by (simp_all add: capacity_def)

lemma capacity_cong: "(\<And>x. x \<in> set xs \<Longrightarrow> XferItems h' ! x = XferItems h ! x) \<Longrightarrow> capacity h' xs = capacity h xs"
  by (simp add: capacity_def cong: map_cong)

definition writing_ready :: "bool \<Rightarrow> nat list \<Rightarrow> staging \<Rightarrow> bool" where
  "writing_ready first xs s \<longleftrightarrow>
     Finished (st_h s) = xs \<and> distinct xs \<and>
     (\<forall>x \<in> set xs. x < length (XferItems (st_h s)) \<and>
        X_BufferSize (XferItems (st_h s) ! x) = int (length (X_Buffer (XferItems (st_h s) ! x)))) \<and>
     0 \<le> st_off s \<and> 0 < st_len s \<and> st_off s + st_len s \<le> int (length (st_buf s)) \<and> length (st_buf s) < 2147483648 \<and>
     (SemReady (st_h s) \<noteq> 0 \<longrightarrow> SemCount (st_h s) + of_bool first = length xs)"

lemma write_slot:
  assumes "writing_ready first (x # xs) s"
  obtains h where "take_slot first (st_h s) = (True, h)" "Finished h = x # xs" "XferItems h = XferItems (st_h s)"
    "SemReady h = SemReady (st_h s)" "SemReady h \<noteq> 0 \<longrightarrow> SemCount h = length xs"
  using assms by (cases first; cases "SemReady (st_h s) = 0") (fastforce simp: writing_ready_def take_slot_def sem_try_def)+

definition wrote :: "nat \<Rightarrow> UCHAR list \<Rightarrow> kstm_xfer \<Rightarrow> kstm_xfer" where
  "wrote n buf xf = xf\<lparr>Public := (Public xf)\<lparr>XC_TransferLength := int n\<rparr>, X_Buffer := buf\<rparr>"

lemma write_loop_Cons:
  assumes "take_slot first (st_h s) = (True, h)"
    and "int n = (if st_len s > X_BufferSize (XferItems h ! x) then X_BufferSize (XferItems h ! x) else st_len s)"
    and "copy_bytes (X_Buffer (XferItems h ! x)) 0 (st_buf s) (st_off s) (int n) = Some buf"
  shows "write_loop first (x # xs) s =
    (let h1 = upd_xfer x (wrote n buf) h;
         s2 = s\<lparr>st_len := st_len s - int n, st_total := st_total s + word_of_nat n, st_off := to_long (st_off s + int n),
               st_h := h1\<lparr>Finished := remove1 x (Finished h1)\<rparr>, st_sub := st_sub s @ [x]\<rparr>
     in if st_len s - int n = 0 then Some s2 else write_loop False xs s2)"
  using assms(3)
  by (simp only: write_loop.simps assms(1) Let_def prod.case not_True_eq_False if_False assms(2) [symmetric])
    (simp add: wrote_def [abs_def] cong: if_cong del: write_loop.simps)

lemma write_loop_data:
  "writing_ready first xs s \<Longrightarrow>
   \<exists>s' ys. write_loop first xs s = Some s' \<and> (xs \<noteq> [] \<longrightarrow> ys \<noteq> []) \<and>
     (let n = min (nat (st_len s)) (capacity (st_h s) xs) in
      st_len s' = st_len s - int n \<and> st_total s' = st_total s + word_of_nat n \<and> st_buf s' = st_buf s \<and>
      st_sub s' = st_sub s @ ys \<and> xs = ys @ Finished (st_h s') \<and>
      payloads (st_h s') ys = take n (drop (nat (st_off s)) (st_buf s)) \<and>
      (\<forall>x. x \<notin> set ys \<longrightarrow> XferItems (st_h s') ! x = XferItems (st_h s) ! x))"
proof (induction xs arbitrary: first s)
  case Nil
  then show ?case by (simp add: writing_ready_def)
next
  case (Cons x xs)
  obtain h where slot: "take_slot first (st_h s) = (True, h)" and h: "Finished h = x # xs" "XferItems h = XferItems (st_h s)"
    "SemReady h = SemReady (st_h s)" "SemReady h \<noteq> 0 \<longrightarrow> SemCount h = length xs"
    using write_slot [OF Cons.prems] by metis
  note R = Cons.prems [unfolded writing_ready_def]
  let ?xf = "XferItems h ! x"
  define n where "n = min (nat (st_len s)) (length (X_Buffer ?xf))"
  have v: "x < length (XferItems h)" "X_BufferSize ?xf = int (length (X_Buffer ?xf))" using R h(2) by auto
  have n: "int n = (if st_len s > X_BufferSize ?xf then X_BufferSize ?xf else st_len s)"
    using v R by (auto simp: n_def)
  have nle: "n \<le> length (X_Buffer ?xf)" "int n \<le> st_len s" "nat (st_off s) + n \<le> length (st_buf s)"
    using R by (auto simp: n_def min_def)
  define data where "data = take n (drop (nat (st_off s)) (st_buf s))"
  have ld: "length data = n" using nle(3) by (simp add: data_def)
  let ?b = "overwrite (X_Buffer ?xf) 0 data"
  have buf: "copy_bytes (X_Buffer ?xf) 0 (st_buf s) (st_off s) (int n) = Some ?b"
    using copy_bytes_eq [of "int n" 0 "X_Buffer ?xf" "nat (st_off s)" "st_buf s"] nle R by (simp add: data_def)
  have off: "to_long (st_off s + int n) = st_off s + int n"
    using nle R by (intro to_long_id is_long_small) auto
  note step = write_loop_Cons [OF slot n buf, of xs]
  let ?h1 = "upd_xfer x (wrote n ?b) h"
  let ?s2 = "s\<lparr>st_len := st_len s - int n, st_total := st_total s + word_of_nat n, st_off := to_long (st_off s + int n),
       st_h := ?h1\<lparr>Finished := remove1 x (Finished ?h1)\<rparr>, st_sub := st_sub s @ [x]\<rparr>"
  have items: "XferItems (st_h ?s2) ! x = wrote n ?b ?xf" "\<And>y. y \<noteq> x \<Longrightarrow> XferItems (st_h ?s2) ! y = XferItems (st_h s) ! y"
    using v(1) h(2) by (simp_all add: upd_xfer_items)
  have pay: "take n ?b = data" using ld by (simp add: overwrite_def)
  have nx: "x \<notin> set xs" using R by auto
  then have ne: "\<And>y v. y \<in> set xs \<Longrightarrow> (XferItems h)[x := v] ! y = XferItems h ! y" by (metis nth_list_update_neq)
  show ?case
  proof (cases "st_len s - int n = 0")
    case True
    then have run: "write_loop first (x # xs) s = Some ?s2" using step by (simp add: Let_def del: write_loop.simps)
    have "min (nat (st_len s)) (capacity (st_h s) (x # xs)) = n" using True nle h(2) by simp
    moreover have "payloads (st_h ?s2) [x] = data" using items(1) pay by (simp add: wrote_def)
    ultimately show ?thesis
      using run items(2) h(1) True by (intro exI [of _ ?s2] exI [of _ "[x]"]) (auto simp: Let_def data_def)
  next
    case False
    then have full: "n = length (X_Buffer ?xf)" using n v(2) by (auto split: if_splits)
    have run: "write_loop first (x # xs) s = write_loop False xs ?s2" using step False by (simp add: Let_def del: write_loop.simps)
    have "writing_ready False xs ?s2"
      using R h nle False ne [unfolded h(2)] by (auto simp: writing_ready_def off upd_xfer_items)
    from Cons.IH [OF this] obtain s' ys where s': "write_loop False xs ?s2 = Some s'"
      "let m = min (nat (st_len ?s2)) (capacity (st_h ?s2) xs) in
       st_len s' = st_len ?s2 - int m \<and> st_total s' = st_total ?s2 + word_of_nat m \<and> st_buf s' = st_buf ?s2 \<and>
       st_sub s' = st_sub ?s2 @ ys \<and> xs = ys @ Finished (st_h s') \<and>
       payloads (st_h s') ys = take m (drop (nat (st_off ?s2)) (st_buf ?s2)) \<and>
       (\<forall>x. x \<notin> set ys \<longrightarrow> XferItems (st_h s') ! x = XferItems (st_h ?s2) ! x)" by blast
    have cap: "capacity (st_h ?s2) xs = capacity (st_h s) xs" using items(2) nx by (intro capacity_cong) metis
    let ?m = "min (nat (st_len s - int n)) (capacity (st_h s) xs)"
    have m: "min (nat (st_len s)) (capacity (st_h s) (x # xs)) = n + ?m"
      using full h(2) nle(2) by (auto simp: min_def nat_diff_distrib)
    have ys: "x \<notin> set ys" using s'(2) nx by (auto simp: Let_def)
    have "XferItems (st_h s') ! x = wrote n ?b ?xf" using s'(2) ys items(1) by (simp add: Let_def)
    moreover note s2 = s'(2) [unfolded Let_def cap]
    have "payloads (st_h s') ys = take ?m (drop (nat (st_off s) + n) (st_buf s))"
      using s2 R by (simp add: off nat_add_distrib)
    ultimately have p: "payloads (st_h s') (x # ys) = take (n + ?m) (drop (nat (st_off s)) (st_buf s))"
      using pay by (simp add: wrote_def data_def take_add add.commute)
    show ?thesis
      unfolding run s'(1) m Let_def
      using s2 p items(2) ys by (intro exI [of _ s'] exI [of _ "x # ys"]) simp
  qed
qed

definition writable :: "kstm \<Rightarrow> bool" where
  "writable s \<longleftrightarrow> pipe_in s = Some False \<and> Thread_State s \<le> KSTM_THREADSTATE_STARTED \<and> stream_ok s \<and> Finished s \<noteq> [] \<and>
     (\<forall>x \<in> set (Finished s). X_BufferSize (XferItems s ! x) = int (length (X_Buffer (XferItems s ! x))))"

text \<open>What submitting a list of transfers does: it goes to the thread, or is queued when there is none.\<close>

definition submitted_to :: "nat list \<Rightarrow> kstm \<Rightarrow> kstm \<Rightarrow> bool" where
  "submitted_to ys s s' \<longleftrightarrow>
     (if Thread_State s = KSTM_THREADSTATE_STARTED
      then Thread_APCs s' = Thread_APCs s @ [TransferListAPC ys] \<and> Queued s' = Queued s
      else Thread_APCs s' = Thread_APCs s \<and> Queued s' = Queued s @ ys)"

lemma stm_write_run:
  assumes "writable s" "fits buf off len" "n = min (nat len) (capacity s (Finished s))"
    and "out_valid \<and> Stm_Flags s AND KSTM_FLAG_NO_PARTIAL_XFERS = 0 \<or> len \<le> int (capacity s (Finished s))"
  shows "\<exists>c s' ys. stm_write 0 buf off len out_valid s = Some (0, (word_of_nat n, buf), c, s') \<and> kept c s s' \<and>
     Finished s = ys @ Finished s' \<and> payloads s' ys = take n (drop (nat off) buf) \<and> submitted_to ys s s'"
proof -
  obtain h1 where h1: "wait_for_transfer s = Some (0, h1)" "same_stream s h1" "Finished h1 = Finished s" "XferItems h1 = XferItems s"
    "SemReady h1 \<noteq> 0 \<longrightarrow> SemCount h1 + 1 = length (Finished s)"
    using wait_for_transfer_run [of s] assms(1) by (auto simp: writable_def)
  let ?s = "\<lparr>st_h = h1, st_len = len, st_total = 0, st_off = off, st_buf = buf, st_sub = [], st_backup = None\<rparr>"
  have r: "writing_ready True (Finished h1) ?s"
    using assms h1 by (auto simp: writing_ready_def writable_def stream_ok_def fits_def)
  have cap: "capacity h1 (Finished h1) = capacity s (Finished s)" using h1 by (simp add: capacity_def)
  obtain st ys where st: "write_loop True (Finished h1) ?s = Some st" "st_len st = len - int n" "st_total st = word_of_nat n"
    "st_buf st = buf" "st_sub st = ys" "Finished s = ys @ Finished (st_h st)" "payloads (st_h st) ys = take n (drop (nat off) buf)"
    "ys \<noteq> []"
    using write_loop_data [OF r] h1(3) assms(1) cap unfolding assms(3) by (simp add: Let_def writable_def) metis
  have "staged True ?s st" using write_loop_staged [OF st(1)] h1(3) assms(1) by (simp add: writable_def)
  then have same: "same_stream s (st_h st)" using same_stream_trans [OF h1(2)] by (simp add: staged_def)
  obtain c s' where q: "queue_transfer_list 0 ys (st_h st) = (0, c, s')" "Finished s' = Finished (st_h st)"
    "XferItems s' = XferItems (st_h st)"
    using queue_transfer_list_same by blast
  have sub: "submitted_to ys s s'"
    using q(1) st(8) same_streamD [OF same] by (auto simp: queue_transfer_list_def submitted_to_def split: if_splits)
  have "len \<le> int (capacity s (Finished s)) \<Longrightarrow> st_len st = 0" using assms(2,3) st(2) by (simp add: fits_def)
  then have "partial_allowed (st_h st) (st_len st) out_valid"
    using assms(4) same_streamD(10) [OF same] by (auto simp: partial_allowed_def)
  then have run: "stm_write 0 buf off len out_valid s = Some (0, (word_of_nat n, buf), c, s')"
    using assms(1) h1(1) st q by (simp add: stm_write_def stm_transfer_def writable_def not_less)
  moreover have "kept c s s'" using stm_write_kept [OF run] assms(1) by (simp add: writable_def stream_ok_def)
  moreover have "payloads s' ys = take n (drop (nat off) buf)" using st(7) q(3) by (simp add: payloads_def)
  ultimately show ?thesis using st(6) q(2) sub by auto
qed

lemma StmK_Write_run:
  assumes "alive (StmK w) h" "Ref (Handles (StmK w) ! h) < 2147483646" "0 \<le> off" "0 < len"
    and "stm_write apc buf off len ov (sec_body lens_StmK h w) = Some (e, out, c, s')"
  shows "StmK_Write h apc (Some buf) off len ov w =
     (if e \<noteq> 0 \<and> \<not> ov then None
      else Some (e = 0, Some out, (if e = 0 then id else SetLastError e) (upd_stm h (\<lambda>_. if c then count_apc s' else s') w)))"
proof -
  have h: "h < handle_count (StmK w)" using assms(1) by (simp add: alive_def)
  let ?f = "\<lambda>_ :: kstm. if c then count_apc s' else s'"
  let ?w = "w\<lparr>StmK := upd_handle h (\<lambda>k. k\<lparr>Ref := Ref k + 1\<rparr>) (StmK w)\<rparr>"
  let ?v = "(if e = 0 then id else SetLastError e) (upd_stm h ?f ?w)"
  have enter: "StmK_Write h apc (Some buf) off len ov w =
      with_ref lens_StmK Dec_StmK ERROR_RESOURCE_NOT_AVAILABLE h (transfer_result h ov (stm_write apc buf off len ov)) w"
    using assms(3,4) h by (simp add: StmK_Write_def valid_handle_def ALLK_VALID_HANDLE_iff require_def)
  show ?thesis
  proof (cases "e \<noteq> 0 \<and> \<not> ov")
    case True
    then show ?thesis
      unfolding enter using assms(5) h stmk.inc_alive [of w h] assms(1)
      by (simp add: with_ref_def transfer_result_def sec_body_def)
  next
    case False
    then have "with_ref lens_StmK Dec_StmK ERROR_RESOURCE_NOT_AVAILABLE h (transfer_result h ov (stm_write apc buf off len ov)) w =
        Some (e = 0, Some out, lput lens_StmK (upd_handle h (\<lambda>k. k\<lparr>body := ?f (body k)\<rparr>) (lget lens_StmK w)) ?v)"
      using assms h
      by (intro stmk.with_ref_run [where run = run_StmK])
        (auto simp: Dec_StmK_def transfer_result_def sec_body_def sec_set_body_def SetLastError_def)
    then show ?thesis
      using False h by (simp add: enter sec_set_body_def SetLastError_def)
  qed
qed

text \<open>
  C24. A write to a stream copies the data, from the given offset, into the buffers of the finished
  transfers in their order, as far as there is space, and submits exactly the transfers it used: to the
  thread when the stream is started, else onto the queued list. The bytes that these transfers send
  are the first n bytes of the data, and no transfer is lost.
\<close>

theorem StmK_Write_spec:
  assumes "alive (StmK w) h" "Ref (Handles (StmK w) ! h) < 2147483646"
    and "s = sec_body lens_StmK h w" "writable s" "fits buf off len" "n = min (nat len) (capacity s (Finished s))"
    and "out_valid \<and> Stm_Flags s AND KSTM_FLAG_NO_PARTIAL_XFERS = 0 \<or> len \<le> int (capacity s (Finished s))"
  shows "\<exists>s' ys. StmK_Write h 0 (Some buf) off len out_valid w = Some (True, Some (word_of_nat n, buf), upd_stm h (\<lambda>_. s') w) \<and>
     Finished s = ys @ Finished s' \<and> submitted_to ys s s' \<and> payloads s' ys = take n (drop (nat off) buf) \<and> stock s' = stock s"
proof -
  obtain c s' ys where s': "stm_write 0 buf off len out_valid s = Some (0, (word_of_nat n, buf), c, s')" "kept c s s'"
     "Finished s = ys @ Finished s'" "payloads s' ys = take n (drop (nat off) buf)" "submitted_to ys s s'"
    using stm_write_run [OF assms(4-7)] by blast
  let ?s' = "if c then count_apc s' else s'"
  have "Finished ?s' = Finished s'" "submitted_to ys s ?s' = submitted_to ys s s'" "payloads ?s' ys = payloads s' ys"
    "stock ?s' = stock s'"
    by (simp_all add: payloads_def count_apc_def stock_def apc_transfers_def submitted_to_def)
  moreover have "0 \<le> off" "0 < len" using assms(5) by (auto simp: fits_def)
  ultimately show ?thesis
    using StmK_Write_run [OF assms(1,2) _ _ s'(1) [unfolded assms(3)]] s'(2-5)
    by (intro exI [of _ ?s'] exI [of _ ys]) (simp add: kept_def)
qed

text \<open>
  A write for which no transfer is ready fails with \<open>ERROR_NO_MORE_ITEMS\<close> and a transferred length of 0;
  when the caller passed a null pointer for the length, which the function accepts, it writes through
  the null pointer instead.
\<close>

theorem StmK_Write_without_length:
  assumes "alive (StmK w) h" "Ref (Handles (StmK w) ! h) < 2147483646" "0 \<le> off" "0 < len"
    and "s = sec_body lens_StmK h w" "pipe_in s = Some False" "Thread_State s \<le> KSTM_THREADSTATE_STARTED"
    and "SemReady s = 0" "Finished s = []"
  shows "StmK_Write h apc (Some buf) off len True w = Some (False, Some (0, buf), SetLastError ERROR_NO_MORE_ITEMS w) \<and>
     StmK_Write h apc (Some buf) off len False w = None"
proof -
  have h: "h < handle_count (StmK w)" using assms(1) by (simp add: alive_def)
  have run: "stm_write apc buf off len ov (sec_body lens_StmK h w) = Some (ERROR_NO_MORE_ITEMS, (0, buf), False, s)" for ov
    using assms(6-9) by (simp add: assms(5) stm_write_def stm_transfer_def wait_for_transfer_def not_less)
  have "upd_handle h (\<lambda>k. k\<lparr>body := s\<rparr>) (StmK w) = StmK w"
    by (intro upd_handle_id) (simp add: assms(5) sec_body_def)
  then have "upd_stm h (\<lambda>_. s) w = w" by (simp add: sec_set_body_def)
  then show ?thesis
    using StmK_Write_run [OF assms(1-4) run, of True] StmK_Write_run [OF assms(1-4) run, of False] by simp
qed

section \<open>A stream\<close>

text \<open>A stream with three transfers of four bytes, all of them finished.\<close>

definition example_info :: "UCHAR \<Rightarrow> LONG \<Rightarrow> kstm_info" where
  "example_info p io = \<lparr>I_UsbHandle = Some 0, I_PipeID = p, I_MaxPendingTransfers = 3, I_MaxTransferSize = 4, I_MaxPendingIO = io,
     I_EndpointDescriptor = [], I_DriverAPI = None, I_DeviceHandle = 44\<rparr>"

definition example_xfer :: "UCHAR \<Rightarrow> LONG \<Rightarrow> kstm_xfer" where
  "example_xfer b i = \<lparr>X_Overlapped = NULL, Public = \<lparr>XC_Buffer = 0, XC_BufferSize = 4, XC_TransferLength = 4\<rparr>,
     X_Index = i, X_BufferSize = 4, X_Buffer = [b, b, b, b]\<rparr>"

definition example_kstm :: "UCHAR \<Rightarrow> UINT \<Rightarrow> kstm" where
  "example_kstm p flags = \<lparr>Heap = 6, Info = Some (example_info p 1), Stm_Flags = flags, PendingIO = 0, APCTransferQueueCount = 0,
     TimeoutCancelMS = 1, SemReady = 0, SemCount = 0, WaitTimeout = 0, Thread_State = 0, Thread_APCs = [],
     Finished = [0, 1, 2], FinishedTemp = [], Queued = [],
     XferItems = [example_xfer 1 0, example_xfer 2 1, example_xfer 3 2], XferItemsCount = 0\<rparr>"

definition example_streams :: "kstm \<Rightarrow> libk" where
  "example_streams s = (example_open 5 0)\<lparr>StmK := \<lparr>Index = 0, DefaultUserContext = 0, Handles =
     [example_kobj SPINLOCK_HELD 1 Stm_Cleanup_cb s]\<rparr>\<rparr>"

lemma example_streams_ok:
  "alive (StmK (example_streams s)) 0" "Ref (Handles (StmK (example_streams s)) ! 0) = 1"
  "sec_body lens_StmK 0 (example_streams s) = s"
  by (simp_all add: example_streams_def alive_def handle_count_def example_kobj_def sec_body_def)

lemma example_kstm_ok: "stream_ok (example_kstm p flags)"
  by (simp add: stream_ok_def sem_ok_def apcs_ok_def stock_def apc_transfers_def sem_max_def example_kstm_def example_info_def)

lemma example_readable: "readable (example_kstm 0x81 flags)"
  using example_kstm_ok [of "0x81" flags]
  by (simp add: readable_def) (simp add: pipe_in_def USB_ENDPOINT_DIRECTION_IN_def example_kstm_def example_info_def valid_xfer_def example_xfer_def)

lemma example_writable: "writable (example_kstm 2 flags)"
  using example_kstm_ok [of 2 flags]
  by (simp add: writable_def) (simp add: pipe_in_def USB_ENDPOINT_DIRECTION_IN_def example_kstm_def example_info_def example_xfer_def)

lemma example_data:
  "stream_data (example_kstm p flags) = [1, 1, 1, 1, 2, 2, 2, 2, 3, 3, 3, 3]"
  "windows (example_kstm p flags) (rev (Finished (example_kstm p flags))) = [3, 3, 3, 3, 2, 2, 2, 2, 1, 1, 1, 1]"
  "capacity (example_kstm p flags) (Finished (example_kstm p flags)) = 12"
  by (simp_all add: stream_data_def window_def example_kstm_def example_xfer_def)

theorem StmK_Read_spec_witness:
  "\<exists>s'. StmK_Read 0 0 (Some (replicate 8 0)) 1 6 True (example_streams (example_kstm 0x81 0)) =
       Some (True, Some (6, [0, 1, 1, 1, 1, 2, 2, 0]), upd_stm 0 (\<lambda>_. s') (example_streams (example_kstm 0x81 0))) \<and>
     stream_data s' = [2, 2, 3, 3, 3, 3]"
  using StmK_Read_spec [of "example_streams (example_kstm 0x81 0)" 0 "replicate 8 0" 1 6 "stream_data (example_kstm 0x81 0)" 6]
  by (simp add: example_streams_ok example_readable example_data fits_def) (force simp: numeral_eq_Suc)

theorem failed_StmK_Read_reverses_witness:
  "\<exists>s'. StmK_Read 0 0 (Some (replicate 13 0)) 0 13 True (example_streams (example_kstm 0x81 KSTM_FLAG_NO_PARTIAL_XFERS)) =
       Some (False, Some (0, [1, 1, 1, 1, 2, 2, 2, 2, 3, 3, 3, 3, 0]), SetLastError ERROR_NO_MORE_ITEMS
         (upd_stm 0 (\<lambda>_. s') (example_streams (example_kstm 0x81 KSTM_FLAG_NO_PARTIAL_XFERS)))) \<and>
     stream_data s' = [3, 3, 3, 3, 2, 2, 2, 2, 1, 1, 1, 1]"
  using failed_StmK_Read_reverses [of "example_streams (example_kstm 0x81 KSTM_FLAG_NO_PARTIAL_XFERS)" 0 "replicate 13 0" 0 13
      "stream_data (example_kstm 0x81 KSTM_FLAG_NO_PARTIAL_XFERS)" 0]
  by (simp add: example_streams_ok example_readable example_data fits_def) (force simp: example_kstm_def)

theorem StmK_Write_spec_witness:
  "\<exists>s' ys. StmK_Write 0 0 (Some [7, 8, 9, 10, 11, 12]) 1 5 True (example_streams (example_kstm 2 0)) =
       Some (True, Some (5, [7, 8, 9, 10, 11, 12]), upd_stm 0 (\<lambda>_. s') (example_streams (example_kstm 2 0))) \<and>
     payloads s' ys = [8, 9, 10, 11, 12]"
  using StmK_Write_spec [of "example_streams (example_kstm 2 0)" 0 "example_kstm 2 0" "[7, 8, 9, 10, 11, 12]" 1 5 5 True]
  by (simp add: example_streams_ok example_writable example_data fits_def) force

theorem StmK_Write_without_length_witness:
  "StmK_Write 0 0 (Some [7]) 0 1 False (example_streams ((example_kstm 2 0)\<lparr>Finished := []\<rparr>)) = None"
  using StmK_Write_without_length [of "example_streams ((example_kstm 2 0)\<lparr>Finished := []\<rparr>)" 0 0 1 "(example_kstm 2 0)\<lparr>Finished := []\<rparr>" 0 "[7]"]
  by (simp add: example_streams_ok) (simp add: pipe_in_def USB_ENDPOINT_DIRECTION_IN_def example_kstm_def example_info_def)

end
