(* ===== verification/Stream_Thread.thy ===== *)
theory Stream_Thread
  imports Queued_Stream
begin

text \<open>
  The stream thread of \<open>lusbk_queued_stream.c\<close>: the operations on queued and pending transfers, the
  loop of the thread as a step function over its control points, and a step relation in which the
  thread runs against readers, writers and a stop request. The list of free overlapped structures
  is kept in an explicit store, because the code unlinks elements from it that are not on it.
\<close>

section \<open>The state of the thread\<close>

text \<open>
  \<open>KSTM_THREAD_INTERNAL\<close>, with the stream it points to. Fields that only carry a value inside one
  function are local there. \<open>signaled\<close> is the state of the event of each overlapped structure.
\<close>

record stm_thread =
  handle :: kstm
  signaled :: "addr \<Rightarrow> bool"
  ovlHeap :: dl_heap
  ovlList :: addr
  pendingList :: "nat list"
  errorCode :: DWORD
  success :: bool
  NoWaiting :: bool

text \<open>The callbacks of the user. A callback may change the public context of the transfer.\<close>

record stm_callbacks =
  cb_Submit :: "kstm_public \<Rightarrow> LONG \<Rightarrow> addr \<Rightarrow> DWORD \<times> kstm_public"
  cb_Error :: "(kstm_public \<Rightarrow> LONG \<Rightarrow> DWORD \<Rightarrow> DWORD \<times> kstm_public) option"
  cb_BeforeComplete :: "(kstm_public \<Rightarrow> LONG \<Rightarrow> DWORD \<Rightarrow> bool \<times> DWORD \<times> kstm_public) option"
  cb_Complete :: "(kstm_public \<Rightarrow> LONG \<Rightarrow> DWORD \<Rightarrow> DWORD \<times> kstm_public) option"

text \<open>
  What the system answers to one pass of the thread: the outcomes of the waits on the event of the
  oldest pending transfer, the result of \<open>GetOverlappedResult\<close> (error code and transferred length),
  and whether the lock of the finished list was free when the thread tried it, the first and the
  second time.
\<close>

record stm_env =
  se_waits :: "wait_answer list"
  se_result :: "DWORD \<times> UINT option"
  se_sync_free :: bool
  se_lock_free :: bool

section \<open>Allocation of the overlapped structures\<close>

text \<open>The elements are at the addresses from 1; the plan says which allocations fail, the event array first.\<close>

fun alloc_ovl_loop :: "nat \<Rightarrow> nat \<Rightarrow> bool list \<Rightarrow> DWORD \<Rightarrow> stm_thread \<Rightarrow> (bool \<times> stm_thread) option" where
  "alloc_ovl_loop pos 0 plan e t = Some (True, t)"
| "alloc_ovl_loop pos (Suc n) plan e t =
     (let (ok, plan1) = take_alloc plan in
      if \<not> ok then Some (False, t\<lparr>errorCode := e\<rparr>)
      else do {
        (hp, ol) \<leftarrow> DL_APPEND (ovlHeap t) (ovlList t) (pos + 1);
        alloc_ovl_loop (pos + 1) n plan1 e (t\<lparr>ovlHeap := hp, ovlList := ol, signaled := (signaled t)(pos + 1 := True)\<rparr>) })"

definition Stm_Thread_Alloc_Ovl :: "bool list \<Rightarrow> DWORD \<Rightarrow> stm_thread \<Rightarrow> (bool \<times> stm_thread) option" where
  "Stm_Thread_Alloc_Ovl plan e t = do {
     info \<leftarrow> Info (handle t);
     let (ok, plan1) = take_alloc plan;
     (if \<not> ok then Some (False, t\<lparr>errorCode := e\<rparr>)
      else alloc_ovl_loop 0 (nat (I_MaxPendingIO info)) plan1 e t) }"

text \<open>
  The loop that frees the elements: an element that is met again has been freed, and reading it is
  an access to freed memory. The fuel is one more than the number of elements, which is enough for
  elements that are met once.
\<close>

fun free_ovl_loop :: "nat \<Rightarrow> addr list \<Rightarrow> dl_heap \<Rightarrow> addr \<Rightarrow> addr \<Rightarrow> (dl_heap \<times> addr) option" where
  "free_ovl_loop 0 freed hp head el = None"
| "free_ovl_loop (Suc fuel) freed hp head el =
     (if el = NULL then Some (hp, head)
      else if el \<in> set freed then None
      else do {
        let tmp = nxt hp el;
        (hp1, head1) \<leftarrow> DL_DELETE hp head el;
        free_ovl_loop fuel (el # freed) hp1 head1 tmp })"

definition Stm_Thread_Free_Ovl :: "stm_thread \<Rightarrow> stm_thread option" where
  "Stm_Thread_Free_Ovl t = do {
     info \<leftarrow> Info (handle t);
     (hp, ol) \<leftarrow> free_ovl_loop (Suc (nat (I_MaxPendingIO info))) [] (ovlHeap t) (ovlList t) (ovlList t);
     Some (t\<lparr>ovlHeap := hp, ovlList := ol\<rparr>) }"

section \<open>Finished transfers\<close>

definition Stm_SynchronizeFinishedList :: "bool \<Rightarrow> bool \<Rightarrow> nat option \<Rightarrow> kstm \<Rightarrow> bool \<times> kstm" where
  "Stm_SynchronizeFinishedList force lock_free item h =
     (if \<not> force \<and> \<not> lock_free then (False, h)
      else
        let n = length (FinishedTemp h) + (case item of None \<Rightarrow> 0 | Some _ \<Rightarrow> 1);
            h1 = h\<lparr>Finished := Finished h @ FinishedTemp h, FinishedTemp := []\<rparr>;
            h2 = (case item of None \<Rightarrow> h1 | Some x \<Rightarrow> h1\<lparr>Finished := Finished h1 @ [x]\<rparr>)
        in (True, ReleaseSemaphore n h2))"

section \<open>Procedure calls\<close>

definition Stm_TransferListAPC :: "nat list \<Rightarrow> kstm \<Rightarrow> kstm" where
  "Stm_TransferListAPC sub h =
     (if sub \<noteq> [] then h\<lparr>Queued := Queued h @ sub, APCTransferQueueCount := DecLock (APCTransferQueueCount h)\<rparr> else h)"

fun run_apc :: "kstm \<Rightarrow> stm_apc \<Rightarrow> kstm" where
  "run_apc h (TransferListAPC sub) = Stm_TransferListAPC sub h"
| "run_apc h StopAPC = h"

text \<open>An alertable wait runs every procedure call that is queued to the thread.\<close>

definition run_apcs :: "kstm \<Rightarrow> kstm" where
  "run_apcs h = foldl run_apc (h\<lparr>Thread_APCs := []\<rparr>) (Thread_APCs h)"

section \<open>Submitting and completing\<close>

datatype KSTM_THREAD_RESULT = ITEM_PROCESSED | OVERLAPPED_EMPTY | QUEUE_EMPTY | SUBMIT_ERROR

definition submitted :: "kstm_info \<Rightarrow> addr \<Rightarrow> kstm_xfer \<Rightarrow> kstm_xfer" where
  "submitted info ovl xf =
     xf\<lparr>X_Overlapped := ovl,
        Public := (Public xf)\<lparr>XC_Buffer := 0, XC_BufferSize := X_BufferSize xf,
          XC_TransferLength := (if USB_ENDPOINT_DIRECTION_IN (I_PipeID info) then X_BufferSize xf
                                else XC_TransferLength (Public xf))\<rparr>\<rparr>"

definition Stm_Thread_ProcessQueued :: "stm_callbacks \<Rightarrow> stm_thread \<Rightarrow> (KSTM_THREAD_RESULT \<times> stm_thread) option" where
  "Stm_Thread_ProcessQueued cb t =
     (if ovlList t = NULL then Some (OVERLAPPED_EMPTY, t)
      else case Queued (handle t) of
        [] \<Rightarrow> Some (QUEUE_EMPTY, t)
      | x # xs \<Rightarrow> do {
          info \<leftarrow> Info (handle t);
          let ovl = ovlList t;
          (hp, ol) \<leftarrow> DL_DELETE (ovlHeap t) ovl ovl;
          let xf = submitted info ovl (XferItems (handle t) ! x);
          let (e, pub) = cb_Submit cb (Public xf) (X_Index xf) ovl;
          let h1 = upd_xfer x (\<lambda>_. xf\<lparr>Public := pub\<rparr>) ((handle t)\<lparr>Queued := xs\<rparr>);
          let t1 = t\<lparr>ovlHeap := hp, ovlList := ol, signaled := (signaled t)(ovl := False), errorCode := e\<rparr>;
          (if e \<noteq> ERROR_IO_PENDING \<and> e \<noteq> ERROR_SUCCESS then do {
             (hp2, ol2) \<leftarrow> DL_PREPEND hp ol ovl;
             Some (SUBMIT_ERROR, t1\<lparr>ovlHeap := hp2, ovlList := ol2, signaled := (signaled t1)(ovl := True),
                     handle := h1\<lparr>Queued := x # Queued h1\<rparr>\<rparr>) }
           else Some (ITEM_PROCESSED, t1\<lparr>handle := h1\<lparr>PendingIO := IncLock (PendingIO h1)\<rparr>,
                     pendingList := pendingList t @ [x]\<rparr>)) })"

text \<open>
  The wait for the oldest pending transfer: 0, \<open>ERROR_IO_INCOMPLETE\<close> or \<open>STATUS_USER_APC\<close>. After a
  wait that failed the code waits again.
\<close>

abbreviation (input) STATUS_USER_APC :: DWORD where "STATUS_USER_APC \<equiv> 192"

fun pending_wait :: "wait_answer list \<Rightarrow> DWORD option" where
  "pending_wait [] = None"
| "pending_wait (WAIT_OBJECT_0 # _) = Some ERROR_SUCCESS"
| "pending_wait (WAIT_TIMEOUT # _) = Some ERROR_IO_INCOMPLETE"
| "pending_wait (WAIT_IO_COMPLETION # _) = Some STATUS_USER_APC"
| "pending_wait (WAIT_FAILED _ # ws) = pending_wait ws"

definition await_pending :: "wait_answer list \<Rightarrow> stm_thread \<Rightarrow> (bool \<times> stm_thread) option" where
  "await_pending ws t =
     (if NoWaiting t then Some (True, t\<lparr>success := True\<rparr>)
      else do {
        a \<leftarrow> pending_wait ws;
        Some (if a = ERROR_SUCCESS then (True, t\<lparr>success := True, errorCode := ERROR_SUCCESS\<rparr>)
              else if a = STATUS_USER_APC then
                (False, t\<lparr>success := False, errorCode := STATUS_USER_APC, handle := run_apcs (handle t)\<rparr>)
              else (False, t\<lparr>success := False, errorCode := ERROR_IO_INCOMPLETE\<rparr>)) })"

text \<open>
  What the result of the transfer and the callbacks before completion make of it: whether it is
  valid, whether it succeeded, the error code and the public context.
\<close>

definition transfer_outcome :: "stm_callbacks \<Rightarrow> DWORD \<times> UINT option \<Rightarrow> kstm_xfer \<Rightarrow> bool \<times> bool \<times> DWORD \<times> kstm_public" where
  "transfer_outcome cb result xf =
     (let (e, n) = result;
          pub0 = (case n of None \<Rightarrow> Public xf | Some n \<Rightarrow> (Public xf)\<lparr>XC_TransferLength := sint n\<rparr>);
          ok0 = (e = ERROR_SUCCESS \<or> e = ERROR_OPERATION_ABORTED \<or> e = ERROR_CANCELLED);
          (ok1, e1, pub1) =
            (case cb_Error cb of
               None \<Rightarrow> (ok0, e, pub0)
             | Some f \<Rightarrow> if ok0 then (ok0, e, pub0)
                         else let (e', p) = f pub0 (X_Index xf) e in (e' = ERROR_SUCCESS, e', p))
      in case cb_BeforeComplete cb of
           None \<Rightarrow> (True, ok1, e1, pub1)
         | Some f \<Rightarrow> let (valid, e2, p) = f pub1 (X_Index xf) e1 in (valid, valid \<and> ok1, e2, p))"

definition complete_transfer :: "stm_callbacks \<Rightarrow> bool \<Rightarrow> nat \<Rightarrow> bool \<times> bool \<times> DWORD \<times> kstm_public \<Rightarrow> stm_thread \<Rightarrow> stm_thread" where
  "complete_transfer cb lock_free x outcome t =
     (let (valid, ok, e, pub) = outcome;
          h1 = upd_xfer x (\<lambda>xf. xf\<lparr>Public := pub\<rparr>) (handle t)
      in if \<not> valid then
           t\<lparr>handle := h1\<lparr>Queued := Queued h1 @ [x], PendingIO := DecLock (PendingIO h1)\<rparr>, success := ok, errorCode := e\<rparr>
         else
           let (fin, h2) = Stm_SynchronizeFinishedList False lock_free (Some x) h1;
               h3 = (if fin then h2 else h2\<lparr>FinishedTemp := FinishedTemp h2 @ [x]\<rparr>);
               h4 = h3\<lparr>PendingIO := DecLock (PendingIO h3)\<rparr>
           in case cb_Complete cb of
                None \<Rightarrow> t\<lparr>handle := h4, success := ok, errorCode := e\<rparr>
              | Some f \<Rightarrow>
                  let (e2, p) = f (Public (XferItems h4 ! x)) (X_Index (XferItems h4 ! x)) e
                  in t\<lparr>handle := upd_xfer x (\<lambda>xf. xf\<lparr>Public := p\<rparr>) h4, success := (e2 = ERROR_SUCCESS), errorCode := e2\<rparr>)"

definition Stm_Thread_ProcessPending :: "stm_callbacks \<Rightarrow> stm_env \<Rightarrow> stm_thread \<Rightarrow> (bool \<times> stm_thread) option" where
  "Stm_Thread_ProcessPending cb env t =
     (case pendingList t of
        [] \<Rightarrow> Some (False, t\<lparr>errorCode := ERROR_NO_MORE_ITEMS\<rparr>)
      | x # xs \<Rightarrow> do {
          let ovl = X_Overlapped (XferItems (handle t) ! x);
          (go, t1) \<leftarrow> await_pending (se_waits env) t;
          (if \<not> go then Some (False, t1)
           else do {
             (hp1, ol1) \<leftarrow> DL_DELETE (ovlHeap t1) (ovlList t1) ovl;
             let outcome = transfer_outcome cb (se_result env) (XferItems (handle t1) ! x);
             let e = fst (se_result env);
             let set_event = (e \<noteq> ERROR_SUCCESS \<and> e \<noteq> ERROR_OPERATION_ABORTED \<and> e \<noteq> ERROR_CANCELLED);
             (hp2, ol2) \<leftarrow> DL_APPEND hp1 ol1 ovl;
             let t2 = complete_transfer cb (se_lock_free env) x outcome
               (t1\<lparr>pendingList := xs, ovlHeap := hp2, ovlList := ol2,
                   signaled := (if set_event then (signaled t1)(ovl := True) else signaled t1)\<rparr>);
             Some (success t2, t2) }) })"

text \<open>The submit callback of a stream without one, for the libusbK backend.\<close>

definition Stm_SubmitRead :: "driver \<Rightarrow> kstm_info \<Rightarrow> kstm_public \<Rightarrow> addr \<Rightarrow> libk \<Rightarrow> (DWORD \<times> libk) option" where
  "Stm_SubmitRead drv info pub ovl w = do {
     u \<leftarrow> I_UsbHandle info;
     (_, _, w1) \<leftarrow> UsbK_ReadPipe drv u (I_PipeID info) (nat (XC_BufferSize pub)) ovl w;
     Some (LastError w1, w1) }"

definition Stm_SubmitWrite :: "driver \<Rightarrow> kstm_info \<Rightarrow> UCHAR list \<Rightarrow> kstm_public \<Rightarrow> addr \<Rightarrow> libk \<Rightarrow> (DWORD \<times> libk) option" where
  "Stm_SubmitWrite drv info buf pub ovl w = do {
     u \<leftarrow> I_UsbHandle info;
     (_, _, w1) \<leftarrow> UsbK_WritePipe drv u (I_PipeID info) (take (nat (XC_TransferLength pub)) (drop (XC_Buffer pub) buf)) ovl w;
     Some (LastError w1, w1) }"

section \<open>The loop of the thread\<close>

text \<open>
  The inner loop over the queued transfers; every pass takes one off the list, so its fuel is one
  more than their number (\<open>process_all_Some\<close>).
\<close>

fun process_all :: "nat \<Rightarrow> stm_callbacks \<Rightarrow> stm_thread \<Rightarrow> (KSTM_THREAD_RESULT \<times> stm_thread) option" where
  "process_all 0 cb t = None"
| "process_all (Suc fuel) cb t = do {
     (r, t1) \<leftarrow> Stm_Thread_ProcessQueued cb t;
     (if r = ITEM_PROCESSED then process_all fuel cb t1 else Some (r, t1)) }"

text \<open>
  The control points: the test of the outer loop with the exit code so far, the sleep of a thread
  without pending transfers, the test of the loop that waits for what is outstanding, its sleep,
  and the end. A sleep runs the procedure calls that are queued; it ends only when there is one.
\<close>

datatype stm_pc = P_Loop DWORD | P_Sleep | P_Drain | P_DrainSleep | P_Exited

definition loop_pass :: "stm_callbacks \<Rightarrow> stm_env \<Rightarrow> stm_thread \<Rightarrow> (stm_pc \<times> stm_thread) option" where
  "loop_pass cb env t = do {
     let t0 = (if FinishedTemp (handle t) = [] then t
               else t\<lparr>handle := snd (Stm_SynchronizeFinishedList False (se_sync_free env) None (handle t))\<rparr>);
     (r, t1) \<leftarrow> process_all (Suc (length (Queued (handle t0)))) cb t0;
     (case r of
        SUBMIT_ERROR \<Rightarrow> Some (P_Loop (errorCode t1), t1)
      | _ \<Rightarrow> do {
          (ok, t2) \<leftarrow> Stm_Thread_ProcessPending cb env t1;
          Some (if ok \<or> errorCode t2 = STATUS_USER_APC \<or> errorCode t2 = ERROR_IO_INCOMPLETE then (P_Loop ERROR_SUCCESS, t2)
                else if errorCode t2 = ERROR_NO_MORE_ITEMS then (P_Sleep, t2)
                else (P_Loop (errorCode t2), t2)) }) }"

definition enter_drain :: "stm_thread \<Rightarrow> stm_thread" where
  "enter_drain t =
     (let h1 = (handle t)\<lparr>Thread_State := KSTM_THREADSTATE_STOPPING\<rparr>;
          h2 = snd (Stm_SynchronizeFinishedList True True None h1)
      in t\<lparr>handle := h2\<lparr>TimeoutCancelMS := 0\<rparr>\<rparr>)"

definition drain_pass :: "stm_callbacks \<Rightarrow> stm_env \<Rightarrow> stm_thread \<Rightarrow> (stm_pc \<times> stm_thread) option" where
  "drain_pass cb env t =
     (let h = handle t in
      if 0 < PendingIO h \<or> 0 < APCTransferQueueCount h then
        (if PendingIO h \<le> 0 then Some (P_DrainSleep, t)
         else do {
           (ok, t1) \<leftarrow> Stm_Thread_ProcessPending cb env (t\<lparr>handle := run_apcs h\<rparr>);
           Some (P_Drain, if \<not> ok \<and> errorCode t1 = ERROR_IO_INCOMPLETE then t1\<lparr>NoWaiting := True\<rparr> else t1) })
      else do {
        t1 \<leftarrow> Stm_Thread_Free_Ovl t;
        Some (P_Exited, t1\<lparr>handle := (handle t1)\<lparr>Thread_State := KSTM_THREADSTATE_STOPPED\<rparr>\<rparr>) })"

fun thread_step :: "stm_callbacks \<Rightarrow> stm_env \<Rightarrow> stm_pc \<Rightarrow> stm_thread \<Rightarrow> (stm_pc \<times> stm_thread) option" where
  "thread_step cb env (P_Loop e) t =
     (if Thread_State (handle t) = KSTM_THREADSTATE_STARTED \<and> e = ERROR_SUCCESS then loop_pass cb env t
      else Some (P_Drain, enter_drain t))"
| "thread_step cb env P_Sleep t = Some (P_Loop ERROR_SUCCESS, t\<lparr>handle := run_apcs (handle t)\<rparr>)"
| "thread_step cb env P_Drain t = drain_pass cb env t"
| "thread_step cb env P_DrainSleep t = Some (P_Drain, t\<lparr>handle := run_apcs (handle t)\<rparr>)"
| "thread_step cb env P_Exited t = Some (P_Exited, t)"

text \<open>
  The start of the thread. A thread that cannot allocate its overlapped structures goes straight to
  the end. (\<open>Started\<close> and \<open>Stopped\<close> run for the first \<open>XferItemsCount\<close> transfers, which is none.)
\<close>

definition thread_start :: "bool list \<Rightarrow> DWORD \<Rightarrow> kstm \<Rightarrow> (stm_pc \<times> stm_thread) option" where
  "thread_start plan e h = do {
     (ok, t) \<leftarrow> Stm_Thread_Alloc_Ovl plan e
       \<lparr>handle = h, signaled = (\<lambda>_. False), ovlHeap = \<lparr>nxt = (\<lambda>_. NULL), prv = (\<lambda>_. NULL)\<rparr>, ovlList = NULL,
        pendingList = [], errorCode = 0, success = False, NoWaiting = False\<rparr>;
     Some (if \<not> ok then (P_Drain, enter_drain t)
           else (P_Loop ERROR_SUCCESS, t\<lparr>handle := (handle t)\<lparr>Thread_State := KSTM_THREADSTATE_STARTED\<rparr>\<rparr>)) }"

end
