(* ===== verification/Stream_Run.thy ===== *)
theory Stream_Run
  imports Stream_Thread
begin

text \<open>
  Runs of a stream: the thread against readers, writers, the counting of queued procedure calls and a
  stop request, as a step relation. Every transfer stays on exactly one list in every reachable
  state; a thread that has been told to stop comes to its end; and runs in which the code goes wrong:
  two transfers that share an overlapped structure, and transfers that are lost when the thread ends.
\<close>

section \<open>Steps\<close>

record stm_world =
  pc :: stm_pc
  thr :: stm_thread
  uncounted :: nat

text \<open>
  The answers that the system can give at a control point. A sleep ends when a procedure call is
  queued. A wait on an event ends at some point, with a procedure call only when there is one; when
  the thread drains, it has just run them.
\<close>

fun thread_ready :: "stm_env \<Rightarrow> stm_pc \<Rightarrow> stm_thread \<Rightarrow> bool" where
  "thread_ready env P_Sleep t = (Thread_APCs (handle t) \<noteq> [])"
| "thread_ready env P_DrainSleep t = (Thread_APCs (handle t) \<noteq> [])"
| "thread_ready env P_Exited t = False"
| "thread_ready env (P_Loop e) t =
     (pending_wait (se_waits env) \<noteq> None \<and> (pending_wait (se_waits env) = Some STATUS_USER_APC \<longrightarrow> Thread_APCs (handle t) \<noteq> []))"
| "thread_ready env P_Drain t =
     (pending_wait (se_waits env) = Some ERROR_SUCCESS \<or> pending_wait (se_waits env) = Some ERROR_IO_INCOMPLETE)"

abbreviation upd_h :: "(kstm \<Rightarrow> kstm) \<Rightarrow> stm_world \<Rightarrow> stm_world" where
  "upd_h f w \<equiv> w\<lparr>thr := (thr w)\<lparr>handle := f (handle (thr w))\<rparr>\<rparr>"

text \<open>
  One step: of the thread; a whole read or write of a user thread up to the increment of the count of
  queued lists; that increment; the request to stop (\<open>StmK_Stop\<close> up to the wait for the thread).
\<close>

inductive stm_step :: "stm_callbacks \<Rightarrow> stm_world \<Rightarrow> stm_world \<Rightarrow> bool" for cb where
  run: "thread_ready env (pc w) (thr w) \<Longrightarrow> thread_step cb env (pc w) (thr w) = Some (p, t) \<Longrightarrow>
    stm_step cb w (w\<lparr>pc := p, thr := t\<rparr>)"
| user_read: "stm_read apc buf off len (handle (thr w)) = Some (e, out, counted, h) \<Longrightarrow>
    stm_step cb w ((upd_h (\<lambda>_. h) w)\<lparr>uncounted := uncounted w + of_bool counted\<rparr>)"
| user_write: "stm_write apc buf off len ov (handle (thr w)) = Some (e, out, counted, h) \<Longrightarrow>
    stm_step cb w ((upd_h (\<lambda>_. h) w)\<lparr>uncounted := uncounted w + of_bool counted\<rparr>)"
| count: "0 < uncounted w \<Longrightarrow> stm_step cb w ((upd_h count_apc w)\<lparr>uncounted := uncounted w - 1\<rparr>)"
| stop: "Thread_State (handle (thr w)) = KSTM_THREADSTATE_STARTED \<Longrightarrow>
    stm_step cb w (upd_h (\<lambda>h. h\<lparr>TimeoutCancelMS := t, Thread_State := KSTM_THREADSTATE_STOPPING,
      Thread_APCs := Thread_APCs h @ [StopAPC]\<rparr>) w)"

text \<open>The states that can be reached from a thread that has just been started on a stream.\<close>

inductive stm_reach :: "stm_callbacks \<Rightarrow> kstm \<Rightarrow> stm_world \<Rightarrow> bool" for cb h0 where
  start: "thread_start plan e h0 = Some (p, t) \<Longrightarrow> stm_reach cb h0 \<lparr>pc = p, thr = t, uncounted = 0\<rparr>"
| step: "stm_reach cb h0 w \<Longrightarrow> stm_step cb w w' \<Longrightarrow> stm_reach cb h0 w'"

section \<open>Where the transfers are\<close>

text \<open>
  The stream as a new thread finds it: every one of its \<open>N\<close> transfers is on the queued or on the
  finished list.
\<close>

definition fresh_stream :: "nat \<Rightarrow> kstm \<Rightarrow> bool" where
  "fresh_stream N h \<longleftrightarrow>
     stock h = mset [0..<N] \<and> length (XferItems h) = N \<and> Info h \<noteq> None \<and> N \<le> sem_max h \<and> N < 2147483648 \<and> sem_ok h \<and>
     PendingIO h = 0 \<and> APCTransferQueueCount h = 0 \<and> Thread_APCs h = []"

definition thread_ok :: "nat \<Rightarrow> nat \<Rightarrow> stm_thread \<Rightarrow> bool" where
  "thread_ok N u t \<longleftrightarrow>
     (let h = handle t in
      stock h + mset (pendingList t) = mset [0..<N] \<and> length (XferItems h) = N \<and> Info h \<noteq> None \<and> N \<le> sem_max h \<and>
      N < 2147483648 \<and> sem_ok h \<and> apcs_ok h \<and> PendingIO h = int (length (pendingList t)) \<and>
      APCTransferQueueCount h = to_long (int (apc_count h) - int u))"

lemma DecLock_to_long: "DecLock (to_long x) = to_long (x - 1)"
  unfolding DecLock_def by (rule to_long_cong) (metis mod_diff_left_eq to_long_mod)

lemma IncLock_to_long: "IncLock (to_long x) = to_long (x + 1)"
  unfolding IncLock_def by (rule to_long_cong) (metis mod_add_left_eq to_long_mod)

lemma run_apcs_fold:
  "TransferListAPC [] \<notin> set l \<Longrightarrow> APCTransferQueueCount h = to_long c \<Longrightarrow>
   foldl run_apc h l = h\<lparr>Queued := Queued h @ concat (map apc_list l),
     APCTransferQueueCount := to_long (c - int (length (filter (\<lambda>a. a \<noteq> StopAPC) l)))\<rparr>"
proof (induction l arbitrary: h c)
  case (Cons a l)
  show ?case
  proof (cases a)
    case (TransferListAPC sub)
    with Cons.prems have "run_apc h a = h\<lparr>Queued := Queued h @ sub, APCTransferQueueCount := to_long (c - 1)\<rparr>"
      by (auto simp: Stm_TransferListAPC_def DecLock_to_long)
    then show ?thesis
      using Cons.IH [of "run_apc h a" "c - 1"] Cons.prems TransferListAPC by (simp add: algebra_simps)
  next
    case StopAPC
    then show ?thesis using Cons.IH [of h c] Cons.prems by simp
  qed
qed simp

lemma run_apcs_eq:
  "apcs_ok h \<Longrightarrow> APCTransferQueueCount h = to_long c \<Longrightarrow>
   run_apcs h = h\<lparr>Thread_APCs := [], Queued := Queued h @ apc_transfers h, APCTransferQueueCount := to_long (c - int (apc_count h))\<rparr>"
  using run_apcs_fold [of "Thread_APCs h" "h\<lparr>Thread_APCs := []\<rparr>" c]
  by (simp add: run_apcs_def apcs_ok_def apc_transfers_def apc_count_def)

lemma thread_ok_run_apcs:
  assumes "thread_ok N u t"
  shows "thread_ok N u (t\<lparr>handle := run_apcs (handle t)\<rparr>)"
proof -
  have e: "run_apcs (handle t) = (handle t)\<lparr>Thread_APCs := [], Queued := Queued (handle t) @ apc_transfers (handle t),
      APCTransferQueueCount := to_long (- int u)\<rparr>"
    using run_apcs_eq [of "handle t" "int (apc_count (handle t)) - int u"] assms by (simp add: thread_ok_def Let_def)
  show ?thesis
    using assms by (simp add: thread_ok_def Let_def e stock_def apc_transfers_def apc_count_def sem_ok_def apcs_ok_def sem_max_def ac_simps)
qed

text \<open>Changes of a transfer itself, and of the other fields of the thread.\<close>

lemma kstm_upd_xfer [simp]:
  "stock (upd_xfer x f h) = stock h" "length (XferItems (upd_xfer x f h)) = length (XferItems h)" "Info (upd_xfer x f h) = Info h"
  "sem_ok (upd_xfer x f h) = sem_ok h" "apcs_ok (upd_xfer x f h) = apcs_ok h" "PendingIO (upd_xfer x f h) = PendingIO h"
  "APCTransferQueueCount (upd_xfer x f h) = APCTransferQueueCount h" "apc_count (upd_xfer x f h) = apc_count h"
  "FinishedTemp (upd_xfer x f h) = FinishedTemp h" "Thread_APCs (upd_xfer x f h) = Thread_APCs h" "Thread_State (upd_xfer x f h) = Thread_State h"
  by (simp_all add: upd_xfer_def stock_def apc_transfers_def sem_ok_def apcs_ok_def apc_count_def)

lemma sync_keeps:
  assumes "Stm_SynchronizeFinishedList force lf item h = (fin, h')" "sem_ok h"
    and "size (stock h) + (case item of None \<Rightarrow> 0 | Some _ \<Rightarrow> 1) \<le> sem_max h"
  shows "stock h' = stock h + (if fin then (case item of None \<Rightarrow> {#} | Some x \<Rightarrow> {#x#}) else {#})" "sem_ok h'"
    "XferItems h' = XferItems h" "Info h' = Info h" "sem_max h' = sem_max h" "apcs_ok h' = apcs_ok h" "PendingIO h' = PendingIO h"
    "APCTransferQueueCount h' = APCTransferQueueCount h" "apc_count h' = apc_count h" "Thread_APCs h' = Thread_APCs h"
    "Queued h' = Queued h" "Thread_State h' = Thread_State h"
proof -
  have "length (Finished h) + (length (FinishedTemp h) + (case item of None \<Rightarrow> 0 | Some _ \<Rightarrow> 1)) \<le> sem_max h"
    using assms(3) by (simp add: stock_def)
  then show "sem_ok h'" "stock h' = stock h + (if fin then (case item of None \<Rightarrow> {#} | Some x \<Rightarrow> {#x#}) else {#})"
    using assms(1,2)
    by (auto simp: Stm_SynchronizeFinishedList_def Let_def sem_ok_def stock_def apc_transfers_def ReleaseSemaphore_def sem_max_def
        split: if_splits option.splits)
qed (use assms(1) in \<open>auto simp: Stm_SynchronizeFinishedList_def Let_def ReleaseSemaphore_def sem_max_def apcs_ok_def apc_count_def
      split: if_splits option.splits\<close>)

lemma to_long_count: "n \<le> (N :: nat) \<Longrightarrow> N < 2147483648 \<Longrightarrow> to_long (int n) = int n"
  by (intro to_long_id is_long_small) auto

lemma thread_ok_size: "thread_ok N u t \<Longrightarrow> size (stock (handle t)) + length (pendingList t) = N"
  unfolding thread_ok_def Let_def by (metis length_upt minus_nat.diff_0 size_mset size_union)

lemma ProcessQueued_ok:
  assumes "Stm_Thread_ProcessQueued cb t = Some (r, t')" "thread_ok N u t"
  shows "thread_ok N u t'"
proof (cases "Queued (handle t)")
  case Nil
  then show ?thesis using assms by (auto simp: Stm_Thread_ProcessQueued_def split: if_splits)
next
  case (Cons x xs)
  have len: "Suc (length (pendingList t)) \<le> N"
    using thread_ok_size [OF assms(2)] Cons by (simp add: stock_def)
  have N: "N < 2147483648" using assms(2) by (simp add: thread_ok_def Let_def)
  then have inc: "IncLock (int (length (pendingList t))) = 1 + int (length (pendingList t))"
    using to_long_count [OF len] by (simp add: IncLock_def add.commute)
  show ?thesis
    using assms Cons inc
    by (auto simp: Stm_Thread_ProcessQueued_def Let_def thread_ok_def stock_def apc_transfers_def apc_count_def sem_ok_def apcs_ok_def
        sem_max_def ac_simps split: if_splits prod.splits elim!: bind_SomeE)
qed

lemma upd_xfer_id [simp]: "upd_xfer x id h = h"
  by (simp add: upd_xfer_def)

text \<open>
  Completing a transfer only changes where it is: the thread hands it over to one list of the stream.
\<close>

definition same_thread :: "stm_thread \<Rightarrow> stm_thread \<Rightarrow> bool" where
  "same_thread t t' \<longleftrightarrow>
     pendingList t' = pendingList t \<and> NoWaiting t' = NoWaiting t \<and> ovlList t' = ovlList t \<and> ovlHeap t' = ovlHeap t \<and>
     Thread_APCs (handle t') = Thread_APCs (handle t) \<and> Thread_State (handle t') = Thread_State (handle t) \<and>
     map X_Overlapped (XferItems (handle t')) = map X_Overlapped (XferItems (handle t))"

lemma handed_over:
  assumes "thread_ok N u (t\<lparr>pendingList := x # pendingList t\<rparr>)"
    and "stock h' = stock (handle t) + {#x#}" "sem_ok h'" "map X_Overlapped (XferItems h') = map X_Overlapped (XferItems (handle t))"
    and "Info h' = Info (handle t)" "apcs_ok h' = apcs_ok (handle t)" "apc_count h' = apc_count (handle t)"
    and "PendingIO h' = DecLock (PendingIO (handle t))" "APCTransferQueueCount h' = APCTransferQueueCount (handle t)"
    and "handle t' = h'" "pendingList t' = pendingList t"
  shows "thread_ok N u t'"
proof -
  have "length (XferItems h') = length (XferItems (handle t))" using arg_cong [OF assms(4), of length] by simp
  moreover have "DecLock (1 + int (length (pendingList t))) = int (length (pendingList t))"
    using thread_ok_size [OF assms(1)] assms(1) to_long_count [of "length (pendingList t)" N]
    by (simp add: DecLock_def thread_ok_def Let_def)
  ultimately show ?thesis
    using assms by (simp add: thread_ok_def Let_def sem_max_def ac_simps)
qed

lemma complete_transfer_ok:
  assumes "thread_ok N u (t\<lparr>pendingList := x # pendingList t\<rparr>)"
  shows "thread_ok N u (complete_transfer cb lf x outcome t) \<and> same_thread t (complete_transfer cb lf x outcome t)"
proof -
  obtain valid ok e pub where o: "outcome = (valid, ok, e, pub)" by (cases outcome) auto
  define h1 where "h1 = upd_xfer x (\<lambda>xf. xf\<lparr>Public := pub\<rparr>) (handle t)"
  obtain fin h2 where f: "Stm_SynchronizeFinishedList False lf (Some x) h1 = (fin, h2)"
    by (cases "Stm_SynchronizeFinishedList False lf (Some x) h1")
  note a = assms [unfolded thread_ok_def Let_def]
  have size: "size (stock h1) + (case Some x of None \<Rightarrow> 0 | Some _ \<Rightarrow> 1) \<le> sem_max h1" "sem_ok h1"
    using thread_ok_size [OF assms] a by (auto simp: h1_def)
  note S = sync_keeps [OF f size(2,1)]
  have ovl: "map X_Overlapped (XferItems h1) = map X_Overlapped (XferItems (handle t))"
    unfolding h1_def by (rule overlapped_upd_xfer) simp
  define h3 where "h3 = (if fin then h2 else h2\<lparr>FinishedTemp := FinishedTemp h2 @ [x]\<rparr>)"
  define h4 where "h4 = (if valid then h3\<lparr>PendingIO := DecLock (PendingIO h3)\<rparr>
      else h1\<lparr>Queued := Queued h1 @ [x], PendingIO := DecLock (PendingIO h1)\<rparr>)"
  have 1: "stock h4 = stock (handle t) + {#x#}" "sem_ok h4"
    using S(1,2) size(2) by (auto simp: h4_def h3_def h1_def stock_def apc_transfers_def sem_ok_def)
  have 2: "map X_Overlapped (XferItems h4) = map X_Overlapped (XferItems (handle t))" "Info h4 = Info (handle t)"
    "apcs_ok h4 = apcs_ok (handle t)" "apc_count h4 = apc_count (handle t)" "PendingIO h4 = DecLock (PendingIO (handle t))"
    "APCTransferQueueCount h4 = APCTransferQueueCount (handle t)" "Thread_APCs h4 = Thread_APCs (handle t)"
    "Thread_State h4 = Thread_State (handle t)"
    using S(3-) ovl by (simp_all add: h4_def h3_def h1_def apcs_ok_def apc_count_def)
  obtain g where c: "handle (complete_transfer cb lf x outcome t) = upd_xfer x g h4" "\<And>xf. X_Overlapped (g xf) = X_Overlapped xf"
    "pendingList (complete_transfer cb lf x outcome t) = pendingList t"
    "NoWaiting (complete_transfer cb lf x outcome t) = NoWaiting t" "ovlList (complete_transfer cb lf x outcome t) = ovlList t"
    "ovlHeap (complete_transfer cb lf x outcome t) = ovlHeap t"
  proof (cases "valid \<and> cb_Complete cb \<noteq> None")
    case True
    then obtain k where k: "cb_Complete cb = Some k" by auto
    obtain e2 p where e2: "k (Public (XferItems h4 ! x)) (X_Index (XferItems h4 ! x)) e = (e2, p)"
      by (cases "k (Public (XferItems h4 ! x)) (X_Index (XferItems h4 ! x)) e")
    show ?thesis
      by (rule that [of "\<lambda>xf. xf\<lparr>Public := p\<rparr>"])
        (use True k e2 in \<open>simp_all add: complete_transfer_def o Let_def f [unfolded h1_def] h4_def h3_def h1_def [symmetric] f\<close>)
  next
    case False
    then show ?thesis
      by (intro that [of id])
        (auto simp: complete_transfer_def o Let_def f [unfolded h1_def] h4_def h3_def h1_def split: option.splits)
  qed
  have "thread_ok N u (complete_transfer cb lf x outcome t)"
    by (rule handed_over [OF assms _ _ _ _ _ _ _ _ refl c(3)])
      (use 1 2 overlapped_upd_xfer [OF c(2)] in \<open>simp_all add: c(1)\<close>)
  moreover have "same_thread t (complete_transfer cb lf x outcome t)"
    using c 2 overlapped_upd_xfer [OF c(2)] by (simp add: same_thread_def)
  ultimately show ?thesis ..
qed

lemma thread_okI:
  "thread_ok N u t \<Longrightarrow> handle t' = handle t \<Longrightarrow> pendingList t' = pendingList t \<Longrightarrow> thread_ok N u t'"
  by (simp add: thread_ok_def)

lemma await_pending_ok:
  assumes "await_pending ws t = Some (go, t1)" "thread_ok N u t"
  shows "thread_ok N u t1" "pendingList t1 = pendingList t" "go \<Longrightarrow> handle t1 = handle t"
    "ovlHeap t1 = ovlHeap t" "ovlList t1 = ovlList t" "NoWaiting t1 = NoWaiting t"
proof -
  have "(handle t1 = handle t \<or> \<not> go \<and> handle t1 = run_apcs (handle t)) \<and> pendingList t1 = pendingList t \<and>
      ovlHeap t1 = ovlHeap t \<and> ovlList t1 = ovlList t \<and> NoWaiting t1 = NoWaiting t"
    using assms(1) by (auto simp: await_pending_def split: if_splits elim!: bind_SomeE)
  then show "thread_ok N u t1" "pendingList t1 = pendingList t" "go \<Longrightarrow> handle t1 = handle t"
    "ovlHeap t1 = ovlHeap t" "ovlList t1 = ovlList t" "NoWaiting t1 = NoWaiting t"
    using thread_okI [OF assms(2), of t1] thread_okI [OF thread_ok_run_apcs [OF assms(2)], of t1] by auto
qed

lemma ProcessPending_ok:
  assumes "Stm_Thread_ProcessPending cb env t = Some (ok, t')" "thread_ok N u t"
  shows "thread_ok N u t'"
proof (cases "pendingList t")
  case Nil
  then show ?thesis using assms(1) by (auto simp: Stm_Thread_ProcessPending_def intro: thread_okI [OF assms(2)])
next
  case (Cons x xs)
  then obtain go t1 where w: "await_pending (se_waits env) t = Some (go, t1)"
    using assms(1) by (auto simp: Stm_Thread_ProcessPending_def Let_def elim!: bind_SomeE)
  note W = await_pending_ok [OF w assms(2)]
  show ?thesis
  proof (cases go)
    case False
    then show ?thesis using assms(1) w W Cons by (auto simp: Stm_Thread_ProcessPending_def Let_def)
  next
    case True
    have p: "thread_ok N u (t2\<lparr>pendingList := x # pendingList t2\<rparr>)" if "handle t2 = handle t1" "pendingList t2 = xs" for t2
      using W(1,2) Cons that by (simp add: thread_ok_def)
    show ?thesis
      using assms(1) w True Cons
      by (auto simp: Stm_Thread_ProcessPending_def Let_def elim!: bind_SomeE intro!: complete_transfer_ok [THEN conjunct1] p)
  qed
qed

lemma process_all_ok: "process_all n cb t = Some (r, t') \<Longrightarrow> thread_ok N u t \<Longrightarrow> thread_ok N u t'"
proof (induction n arbitrary: t)
  case (Suc n)
  then obtain r1 t1 where p: "Stm_Thread_ProcessQueued cb t = Some (r1, t1)" by (auto elim!: bind_SomeE)
  have "thread_ok N u t1" by (rule ProcessQueued_ok [OF p Suc.prems(2)])
  with Suc p show ?case by (auto split: if_splits)
qed simp

lemma sync_thread_ok:
  assumes "thread_ok N u t"
  shows "thread_ok N u (t\<lparr>handle := snd (Stm_SynchronizeFinishedList force lf None (handle t))\<rparr>)"
proof -
  obtain fin h' where f: "Stm_SynchronizeFinishedList force lf None (handle t) = (fin, h')" by fastforce
  have "size (stock (handle t)) + (case None of None \<Rightarrow> 0 | Some (_ :: nat) \<Rightarrow> 1) \<le> sem_max (handle t)" "sem_ok (handle t)"
    using thread_ok_size [OF assms] assms by (auto simp: thread_ok_def Let_def)
  note S = sync_keeps [OF f this(2,1)]
  show ?thesis using assms S by (simp add: f thread_ok_def Let_def split: if_splits)
qed

lemma loop_pass_ok:
  assumes "loop_pass cb env t = Some (p, t')" "thread_ok N u t"
  shows "thread_ok N u t'"
proof -
  define t0 where "t0 = (if FinishedTemp (handle t) = [] then t
      else t\<lparr>handle := snd (Stm_SynchronizeFinishedList False (se_sync_free env) None (handle t))\<rparr>)"
  have t0: "thread_ok N u t0" using assms(2) sync_thread_ok by (simp add: t0_def)
  obtain r t1 where p: "process_all (Suc (length (Queued (handle t0)))) cb t0 = Some (r, t1)"
    using assms(1) unfolding loop_pass_def Let_def t0_def [symmetric] by (auto elim!: bind_SomeE simp del: process_all.simps)
  have t1: "thread_ok N u t1" by (rule process_all_ok [OF p t0])
  show ?thesis
    using assms(1) t1 unfolding loop_pass_def Let_def t0_def [symmetric]
    by (cases r) (auto simp: p elim!: bind_SomeE dest: ProcessPending_ok simp del: process_all.simps split: if_splits)
qed

lemma thread_ok_fields:
  "thread_ok N u (t\<lparr>handle := (handle t)\<lparr>Thread_State := s\<rparr>\<rparr>) = thread_ok N u t"
  "thread_ok N u (t\<lparr>handle := h\<lparr>TimeoutCancelMS := v\<rparr>\<rparr>) = thread_ok N u (t\<lparr>handle := h\<rparr>)"
  "thread_ok N u (t\<lparr>NoWaiting := b\<rparr>) = thread_ok N u t"
  by (simp_all add: thread_ok_def Let_def stock_def apc_transfers_def sem_max_def sem_ok_def apcs_ok_def apc_count_def)

lemma enter_drain_ok: "thread_ok N u t \<Longrightarrow> thread_ok N u (enter_drain t)"
  using sync_thread_ok [of N u "t\<lparr>handle := (handle t)\<lparr>Thread_State := KSTM_THREADSTATE_STOPPING\<rparr>\<rparr>" True True]
  by (simp add: enter_drain_def Let_def thread_ok_fields)

lemma drain_pass_ok:
  assumes "drain_pass cb env t = Some (p, t')" "thread_ok N u t"
  shows "thread_ok N u t'"
proof -
  have "thread_ok N u t1" if "Stm_Thread_Free_Ovl t = Some t1" for t1
    using that by (auto simp: Stm_Thread_Free_Ovl_def elim!: bind_SomeE intro: thread_okI [OF assms(2)])
  then show ?thesis
    using assms thread_ok_run_apcs [OF assms(2)]
    by (auto simp: drain_pass_def Let_def thread_ok_fields split: if_splits elim!: bind_SomeE dest: ProcessPending_ok)
qed

lemma thread_step_ok: "thread_step cb env p t = Some (p', t') \<Longrightarrow> thread_ok N u t \<Longrightarrow> thread_ok N u t'"
  by (cases p) (auto split: if_splits intro: thread_ok_run_apcs enter_drain_ok dest: loop_pass_ok drain_pass_ok)

lemma alloc_ovl_loop_same: "alloc_ovl_loop pos n plan e t = Some (ok, t') \<Longrightarrow> handle t' = handle t \<and> pendingList t' = pendingList t"
  by (induction pos n plan e t rule: alloc_ovl_loop.induct) (auto split: if_splits prod.splits elim!: bind_SomeE)

lemma thread_start_ok:
  assumes "thread_start plan e h = Some (p, t)" "fresh_stream N h"
  shows "thread_ok N 0 t"
proof -
  have "to_long 0 = 0" by (simp add: to_long_def)
  then have ok: "thread_ok N 0 t0" if "handle t0 = h" "pendingList t0 = []" for t0
    using assms(2) that by (simp add: thread_ok_def fresh_stream_def apcs_ok_def apc_count_def)
  show ?thesis
    using assms(1) ok
    by (auto simp: thread_start_def Stm_Thread_Alloc_Ovl_def Let_def thread_ok_fields split: if_splits prod.splits
        elim!: bind_SomeE intro!: enter_drain_ok dest!: alloc_ovl_loop_same)
qed

lemma user_step_ok:
  assumes "kept counted (handle t) h" "thread_ok N u t"
  shows "thread_ok N (u + of_bool counted) (t\<lparr>handle := h\<rparr>)"
  using assms by (auto simp: kept_def thread_ok_def Let_def sem_max_def)

lemma thread_ok_stock: "thread_ok N u t \<Longrightarrow> sem_ok (handle t) \<and> apcs_ok (handle t) \<and> size (stock (handle t)) \<le> sem_max (handle t)"
  using thread_ok_size [of N u t] by (simp add: thread_ok_def Let_def)

lemma stm_step_ok:
  assumes "stm_step cb w w'" "thread_ok N (uncounted w) (thr w)"
  shows "thread_ok N (uncounted w') (thr w')"
  using assms(1)
proof cases
  case (run env p t)
  then show ?thesis using thread_step_ok assms(2) by simp
next
  case (user_read apc buf off len e out counted h)
  then show ?thesis using user_step_ok [OF _ assms(2)] stm_read_kept thread_ok_stock [OF assms(2)] by simp
next
  case (user_write apc buf off len ov e out counted h)
  then show ?thesis using user_step_ok [OF _ assms(2)] stm_write_kept thread_ok_stock [OF assms(2)] by simp
next
  case count
  have one: "x - int (uncounted w) + 1 = x - (int (uncounted w) - 1)" for x by simp
  show ?thesis
    using count assms(2)
    by (simp add: one thread_ok_def Let_def count_apc_def IncLock_to_long stock_def apc_transfers_def sem_max_def sem_ok_def apcs_ok_def apc_count_def)
next
  case (stop t)
  then show ?thesis
    using assms(2) by (simp add: thread_ok_def Let_def stock_def apc_transfers_def sem_max_def sem_ok_def apcs_ok_def apc_count_def)
qed

lemma stm_reach_ok: "stm_reach cb h0 w \<Longrightarrow> fresh_stream N h0 \<Longrightarrow> thread_ok N (uncounted w) (thr w)"
  by (induction rule: stm_reach.induct) (auto simp: thread_start_ok intro: stm_step_ok)


section \<open>The list of overlapped structures\<close>

text \<open>
  The store of the list with one or with two elements: its \<open>next\<close> and \<open>prev\<close> fields, the head, and the
  overlapped structures of the pending transfers. The code unlinks an element of a pending transfer,
  which is not on the list; these are all the states that submitting and completing transfers can
  then lead to. In none of them does an operation meet a null pointer, and when nothing is pending the
  list can be walked to its end.
\<close>

definition ovl_states1 :: "(nat \<times> nat list) list" where
  "ovl_states1 = [(1, []), (0, [1])]"

definition ovl_states2 :: "(nat \<times> nat \<times> nat \<times> nat \<times> nat \<times> nat list) list" where
  "ovl_states2 =
    [(0, 0, 1, 2, 0, [1]), (0, 0, 1, 2, 0, [1, 2]), (0, 0, 1, 2, 0, [2]), (0, 0, 1, 2, 0, [2, 1]), (0, 0, 1, 2, 1, []),
     (0, 0, 1, 2, 1, [2]), (0, 0, 1, 2, 2, []), (0, 0, 1, 2, 2, [1]), (0, 1, 1, 1, 0, [2, 1]), (0, 1, 1, 1, 1, [2]),
     (0, 1, 2, 1, 2, []), (0, 2, 1, 2, 0, [2, 1]), (0, 2, 1, 2, 1, [2]), (1, 0, 1, 2, 0, [1, 2]), (1, 0, 1, 2, 2, [1]),
     (2, 0, 2, 1, 1, []), (2, 0, 2, 2, 0, [1, 2]), (2, 0, 2, 2, 2, [1])]"

definition ovl_sane :: "int \<Rightarrow> dl_heap \<Rightarrow> addr \<Rightarrow> addr list \<Rightarrow> bool" where
  "ovl_sane n hp head pe \<longleftrightarrow>
     (if n = 1 then nxt hp 1 = 0 \<and> prv hp 1 = 1 \<and> (head, pe) \<in> set ovl_states1
      else n = 2 \<and> (nxt hp 1, nxt hp 2, prv hp 1, prv hp 2, head, pe) \<in> set ovl_states2)"

lemma ovl_saneE:
  assumes "ovl_sane n hp head pe"
  obtains (one) "n = 1" "nxt hp 1 = 0" "prv hp 1 = 1" "(head, pe) \<in> set ovl_states1"
    | (two) n1 n2 p1 p2 where "n = 2" "nxt hp 1 = n1" "nxt hp 2 = n2" "prv hp 1 = p1" "prv hp 2 = p2"
        "(n1, n2, p1, p2, head, pe) \<in> set ovl_states2"
proof (cases "n = 1")
  case True
  with assms show ?thesis unfolding ovl_sane_def by (intro one) simp_all
next
  case False
  with assms show ?thesis unfolding ovl_sane_def by (intro two [OF _ refl refl refl refl]) simp_all
qed

lemma ovl_sane_submit:
  assumes "ovl_sane n hp head pe" "head \<noteq> NULL"
  shows "\<exists>hp' head'. DL_DELETE hp head head = Some (hp', head') \<and> ovl_sane n hp' head' (pe @ [head]) \<and>
     (\<exists>hp2 head2. DL_PREPEND hp' head' head = Some (hp2, head2) \<and> ovl_sane n hp2 head2 pe)"
  using assms(1)
proof (cases rule: ovl_saneE)
  case one
  then show ?thesis using assms(2) by (auto simp: ovl_sane_def ovl_states1_def dl_ops)
next
  case (two n1 n2 p1 p2)
  from two(6) assms(2) two(1-5) show ?thesis
    unfolding ovl_states2_def list.set insert_iff empty_iff prod.inject simp_thms
    by (elim disjE conjE) (simp_all add: dl_ops ovl_sane_def ovl_states2_def)
qed

lemma ovl_sane_complete:
  assumes "ovl_sane n hp head (a # pe)"
  shows "\<exists>hp1 head1 hp2 head2. DL_DELETE hp head a = Some (hp1, head1) \<and> DL_APPEND hp1 head1 a = Some (hp2, head2) \<and>
     ovl_sane n hp2 head2 pe"
  using assms
proof (cases rule: ovl_saneE)
  case one
  then show ?thesis by (auto simp: ovl_sane_def ovl_states1_def dl_ops)
next
  case (two n1 n2 p1 p2)
  from two(6,1-5) show ?thesis
    unfolding ovl_states2_def list.set insert_iff empty_iff prod.inject list.inject simp_thms
    by (elim disjE conjE) (simp_all add: dl_ops ovl_sane_def ovl_states2_def)
qed

lemma ovl_sane_free:
  assumes "ovl_sane n hp head []"
  shows "free_ovl_loop (Suc (nat n)) [] hp head head \<noteq> None"
  using assms
proof (cases rule: ovl_saneE)
  case one
  then show ?thesis by (auto simp: ovl_states1_def dl_ops numeral_eq_Suc)
next
  case (two n1 n2 p1 p2)
  from two(6,1-5) show ?thesis
    unfolding ovl_states2_def list.set insert_iff empty_iff prod.inject list.distinct simp_thms
    by (elim disjE conjE) (simp_all add: dl_ops numeral_eq_Suc)
qed

definition ovls :: "stm_thread \<Rightarrow> addr list" where
  "ovls t = map (\<lambda>x. X_Overlapped (XferItems (handle t) ! x)) (pendingList t)"

definition thread_sane :: "stm_thread \<Rightarrow> bool" where
  "thread_sane t \<longleftrightarrow> (\<exists>i. Info (handle t) = Some i \<and> ovl_sane (I_MaxPendingIO i) (ovlHeap t) (ovlList t) (ovls t))"

lemma thread_ok_elems:
  assumes "thread_ok N u t"
  shows "distinct (pendingList t @ Queued (handle t))" "set (pendingList t @ Queued (handle t)) \<subseteq> {..<N}"
    "length (XferItems (handle t)) = N"
proof -
  let ?l = "(pendingList t @ Queued (handle t)) @ Finished (handle t) @ FinishedTemp (handle t) @ apc_transfers (handle t)"
  have m: "mset ?l = mset [0..<N]"
    using assms unfolding thread_ok_def Let_def stock_def by (simp add: ac_simps)
  then have "distinct ?l" by (metis distinct_upt mset_eq_imp_distinct_iff)
  then show "distinct (pendingList t @ Queued (handle t))" by (simp only: distinct_append)
  show "set (pendingList t @ Queued (handle t)) \<subseteq> {..<N}"
    using mset_eq_setD [OF m] by auto
  show "length (XferItems (handle t)) = N" using assms by (simp add: thread_ok_def Let_def)
qed

text \<open>Only the overlapped structures of the pending transfers matter, and they are not changed by other steps.\<close>

lemma ovls_map:
  assumes "map X_Overlapped (XferItems (handle t')) = map X_Overlapped (XferItems (handle t))"
    and "pendingList t' = pendingList t" "set (pendingList t) \<subseteq> {..<length (XferItems (handle t))}"
  shows "ovls t' = ovls t"
proof -
  have "X_Overlapped (XferItems (handle t') ! x) = X_Overlapped (XferItems (handle t) ! x)" if "x \<in> set (pendingList t)" for x
  proof -
    have x: "x < length (XferItems (handle t))" using that assms(3) by auto
    moreover have "length (XferItems (handle t')) = length (XferItems (handle t))"
      using arg_cong [OF assms(1), of length] by simp
    ultimately show ?thesis using arg_cong [OF assms(1), of "\<lambda>l. l ! x"] by simp
  qed
  then show ?thesis using assms(2) by (simp add: ovls_def)
qed

lemma thread_sane_same:
  assumes "thread_sane t" "thread_ok N u t"
    and "map X_Overlapped (XferItems (handle t')) = map X_Overlapped (XferItems (handle t))" "pendingList t' = pendingList t"
    and "Info (handle t') = Info (handle t)" "ovlHeap t' = ovlHeap t" "ovlList t' = ovlList t"
  shows "thread_sane t'"
proof -
  have "ovls t' = ovls t" using ovls_map [OF assms(3,4)] thread_ok_elems(2,3) [OF assms(2)] by simp
  with assms show ?thesis by (simp add: thread_sane_def)
qed

lemma ProcessQueued_sane:
  assumes "thread_ok N u t" "thread_sane t"
  obtains r t' where "Stm_Thread_ProcessQueued cb t = Some (r, t')" "thread_sane t'" "thread_ok N u t'"
    "r = ITEM_PROCESSED \<Longrightarrow> length (Queued (handle t)) = Suc (length (Queued (handle t')))"
    "Thread_State (handle t') = Thread_State (handle t)"
proof (cases "ovlList t = NULL \<or> Queued (handle t) = []")
  case True
  then have "\<exists>r. Stm_Thread_ProcessQueued cb t = Some (r, t) \<and> r \<noteq> ITEM_PROCESSED"
    by (auto simp: Stm_Thread_ProcessQueued_def)
  then show ?thesis using that assms by blast
next
  case False
  then obtain x xs where q: "Queued (handle t) = x # xs" by (cases "Queued (handle t)") auto
  obtain i where i: "Info (handle t) = Some i" "ovl_sane (I_MaxPendingIO i) (ovlHeap t) (ovlList t) (ovls t)"
    using assms(2) by (auto simp: thread_sane_def)
  have n0: "ovlList t \<noteq> NULL" using False by simp
  obtain hp ol hp2 ol2 where dl: "DL_DELETE (ovlHeap t) (ovlList t) (ovlList t) = Some (hp, ol)"
    "ovl_sane (I_MaxPendingIO i) hp ol (ovls t @ [ovlList t])" "DL_PREPEND hp ol (ovlList t) = Some (hp2, ol2)"
    "ovl_sane (I_MaxPendingIO i) hp2 ol2 (ovls t)"
    using ovl_sane_submit [OF i(2) n0] by blast
  let ?xf = "submitted i (ovlList t) (XferItems (handle t) ! x)"
  obtain e pub where s: "cb_Submit cb (Public ?xf) (X_Index ?xf) (ovlList t) = (e, pub)" by fastforce
  have x: "x < length (XferItems (handle t))" "x \<notin> set (pendingList t)"
    using thread_ok_elems [OF assms(1)] q by auto
  define h1 where "h1 = upd_xfer x (\<lambda>_. ?xf\<lparr>Public := pub\<rparr>) ((handle t)\<lparr>Queued := xs\<rparr>)"
  have items: "X_Overlapped (XferItems h1 ! x) = ovlList t"
    "map (\<lambda>y. X_Overlapped (XferItems h1 ! y)) (pendingList t) = ovls t"
    using x by (auto simp: h1_def upd_xfer_items submitted_def ovls_def nth_list_update)
  have h1: "Info h1 = Some i" "Queued h1 = xs" "Thread_State h1 = Thread_State (handle t)"
    using i(1) by (simp_all add: h1_def)
  obtain r t' where t': "Stm_Thread_ProcessQueued cb t = Some (r, t')" "thread_sane t'"
    "r = ITEM_PROCESSED \<Longrightarrow> length (Queued (handle t')) = length xs" "Thread_State (handle t') = Thread_State (handle t)"
  proof (cases "e \<noteq> ERROR_IO_PENDING \<and> e \<noteq> ERROR_SUCCESS")
    case True
    show ?thesis
      by (rule that [of SUBMIT_ERROR "t\<lparr>ovlHeap := hp2, ovlList := ol2, signaled := ((signaled t)(ovlList t := False))(ovlList t := True),
           errorCode := e, handle := h1\<lparr>Queued := x # Queued h1\<rparr>\<rparr>"])
        (use True False q i(1) dl s items(2) h1 in \<open>simp_all add: Stm_Thread_ProcessQueued_def Let_def h1_def [symmetric] thread_sane_def ovls_def cong: map_cong\<close>)
  next
    case e: False
    show ?thesis
      by (rule that [of ITEM_PROCESSED "t\<lparr>ovlHeap := hp, ovlList := ol, signaled := (signaled t)(ovlList t := False),
           errorCode := e, handle := h1\<lparr>PendingIO := IncLock (PendingIO h1)\<rparr>, pendingList := pendingList t @ [x]\<rparr>"])
        (use e False q i(1) dl s items h1 in \<open>auto simp: Stm_Thread_ProcessQueued_def Let_def h1_def [symmetric] thread_sane_def ovls_def cong: map_cong\<close>)
  qed
  then show ?thesis using that ProcessQueued_ok [OF t'(1) assms(1)] q by auto
qed

lemma process_all_sane:
  "thread_ok N u t \<Longrightarrow> thread_sane t \<Longrightarrow> length (Queued (handle t)) < n \<Longrightarrow>
   \<exists>r t'. process_all n cb t = Some (r, t') \<and> thread_sane t' \<and> thread_ok N u t' \<and> Thread_State (handle t') = Thread_State (handle t)"
proof (induction n arbitrary: t)
  case (Suc n)
  obtain r t1 where p: "Stm_Thread_ProcessQueued cb t = Some (r, t1)" "thread_sane t1" "thread_ok N u t1"
    "r = ITEM_PROCESSED \<Longrightarrow> length (Queued (handle t)) = Suc (length (Queued (handle t1)))"
    "Thread_State (handle t1) = Thread_State (handle t)"
    using ProcessQueued_sane [OF Suc.prems(1,2)] by metis
  show ?case
  proof (cases "r = ITEM_PROCESSED")
    case True
    then show ?thesis using Suc.IH [OF p(3,2)] p Suc.prems(3) by simp
  next
    case False
    then show ?thesis using p by simp
  qed
qed simp

lemma pending_wait_cases:
  "pending_wait ws = Some a \<Longrightarrow> a = ERROR_SUCCESS \<or> a = ERROR_IO_INCOMPLETE \<or> a = STATUS_USER_APC"
  by (induction ws rule: pending_wait.induct) auto

text \<open>
  A pass over the pending transfers. It either ends the wait without a transfer (by a procedure call
  or by the timeout), or takes the oldest transfer off the list.
\<close>

lemma ProcessPending_sane:
  assumes "thread_ok N u t" "thread_sane t" "NoWaiting t \<or> pending_wait (se_waits env) \<noteq> None"
  obtains ok t' where "Stm_Thread_ProcessPending cb env t = Some (ok, t')" "thread_sane t'" "thread_ok N u t'"
    "pendingList t' = pendingList t \<and> \<not> ok \<and>
       (pendingList t = [] \<and> errorCode t' = ERROR_NO_MORE_ITEMS \<and> handle t' = handle t \<or>
        \<not> NoWaiting t \<and> pendingList t \<noteq> [] \<and>
          (pending_wait (se_waits env) = Some ERROR_IO_INCOMPLETE \<and> errorCode t' = ERROR_IO_INCOMPLETE \<and> handle t' = handle t \<or>
           pending_wait (se_waits env) = Some STATUS_USER_APC)) \<or>
     (\<exists>x. pendingList t = x # pendingList t' \<and> Thread_APCs (handle t') = Thread_APCs (handle t))"
    "NoWaiting t' = NoWaiting t" "Thread_State (handle t') = Thread_State (handle t)"
proof (cases "pendingList t")
  case Nil
  then show ?thesis
    using assms thread_okI [OF assms(1), of "t\<lparr>errorCode := ERROR_NO_MORE_ITEMS\<rparr>"]
    by (intro that [of False "t\<lparr>errorCode := ERROR_NO_MORE_ITEMS\<rparr>"])
      (simp_all add: Stm_Thread_ProcessPending_def thread_sane_def ovls_def)
next
  case (Cons x xs)
  have "await_pending (se_waits env) t \<noteq> None" using assms(3) by (auto simp: await_pending_def)
  then obtain go t1 where w: "await_pending (se_waits env) t = Some (go, t1)" by fastforce
  note W = await_pending_ok [OF w assms(1)]
  have st: "Thread_State (handle t1) = Thread_State (handle t)" "map X_Overlapped (XferItems (handle t1)) = map X_Overlapped (XferItems (handle t))"
    "Info (handle t1) = Info (handle t)"
  proof -
    obtain c where "run_apcs (handle t) = (handle t)\<lparr>Thread_APCs := [], Queued := Queued (handle t) @ apc_transfers (handle t),
      APCTransferQueueCount := c\<rparr>"
      using run_apcs_eq [of "handle t" "int (apc_count (handle t)) - int u"] assms(1) by (simp add: thread_ok_def Let_def)
    then show "Thread_State (handle t1) = Thread_State (handle t)" "map X_Overlapped (XferItems (handle t1)) = map X_Overlapped (XferItems (handle t))"
      "Info (handle t1) = Info (handle t)"
      using w by (auto simp: await_pending_def split: if_splits elim!: bind_SomeE)
  qed
  have s1: "thread_sane t1" by (rule thread_sane_same [OF assms(2,1) st(2) W(2) st(3) W(4,5)])
  show ?thesis
  proof (cases go)
    case False
    have "pending_wait (se_waits env) = Some ERROR_IO_INCOMPLETE \<and> errorCode t1 = ERROR_IO_INCOMPLETE \<and> handle t1 = handle t \<or>
        pending_wait (se_waits env) = Some STATUS_USER_APC" and nw: "\<not> NoWaiting t"
      using w False by (auto simp: await_pending_def split: if_splits elim!: bind_SomeE dest: pending_wait_cases)
    then show ?thesis
      using w False Cons W s1 st by (intro that [of False t1]) (auto simp: Stm_Thread_ProcessPending_def Let_def)
  next
    case True
    define ovl where "ovl = X_Overlapped (XferItems (handle t) ! x)"
    obtain i where i: "Info (handle t) = Some i" "ovl_sane (I_MaxPendingIO i) (ovlHeap t) (ovlList t) (ovl # map (\<lambda>x. X_Overlapped (XferItems (handle t) ! x)) xs)"
      using assms(2) Cons by (auto simp: thread_sane_def ovls_def ovl_def)
    obtain hp1 ol1 hp2 ol2 where dl: "DL_DELETE (ovlHeap t) (ovlList t) ovl = Some (hp1, ol1)" "DL_APPEND hp1 ol1 ovl = Some (hp2, ol2)"
      "ovl_sane (I_MaxPendingIO i) hp2 ol2 (map (\<lambda>x. X_Overlapped (XferItems (handle t) ! x)) xs)"
      using ovl_sane_complete [OF i(2)] by blast
    let ?e = "fst (se_result env)"
    let ?set = "?e \<noteq> ERROR_SUCCESS \<and> ?e \<noteq> ERROR_OPERATION_ABORTED \<and> ?e \<noteq> ERROR_CANCELLED"
    define t2 where "t2 = t1\<lparr>pendingList := xs, ovlHeap := hp2, ovlList := ol2,
        signaled := (if ?set then (signaled t1)(ovl := True) else signaled t1)\<rparr>"
    define t3 where "t3 = complete_transfer cb (se_lock_free env) x (transfer_outcome cb (se_result env) (XferItems (handle t1) ! x)) t2"
    have run: "Stm_Thread_ProcessPending cb env t = Some (success t3, t3)"
      using Cons w True W dl by (simp add: Stm_Thread_ProcessPending_def Let_def ovl_def [symmetric] t2_def t3_def)
    have "thread_ok N u (t2\<lparr>pendingList := x # pendingList t2\<rparr>)"
      using thread_okI [OF W(1), of "t2\<lparr>pendingList := x # pendingList t2\<rparr>"] W(2) Cons by (simp add: t2_def)
    then have c: "thread_ok N u t3" "same_thread t2 t3" unfolding t3_def using complete_transfer_ok by blast+
    have pend: "pendingList t3 = xs" "NoWaiting t3 = NoWaiting t" "Thread_APCs (handle t3) = Thread_APCs (handle t)"
      "Thread_State (handle t3) = Thread_State (handle t)"
      using c(2) W(3,6) True st by (simp_all add: same_thread_def t2_def)
    have "ovls t3 = ovls (t2\<lparr>handle := handle t\<rparr>)"
    proof (rule ovls_map)
      show "map X_Overlapped (XferItems (handle t3)) = map X_Overlapped (XferItems (handle (t2\<lparr>handle := handle t\<rparr>)))"
        using c(2) W(3) True by (simp add: same_thread_def t2_def)
      show "pendingList t3 = pendingList (t2\<lparr>handle := handle t\<rparr>)" using pend by (simp add: t2_def)
      show "set (pendingList (t2\<lparr>handle := handle t\<rparr>)) \<subseteq> {..<length (XferItems (handle (t2\<lparr>handle := handle t\<rparr>)))}"
        using thread_ok_elems(2,3) [OF assms(1)] Cons by (auto simp: t2_def)
    qed
    moreover have "Info (handle t3) = Some i"
    proof -
      obtain valid ok e pub where o: "transfer_outcome cb (se_result env) (XferItems (handle t1) ! x) = (valid, ok, e, pub)"
        by (metis prod_cases4)
      show ?thesis
        using i(1) W(3) True
        by (simp add: t3_def t2_def o complete_transfer_def Let_def Stm_SynchronizeFinishedList_def ReleaseSemaphore_def split: option.splits prod.splits)
    qed
    ultimately have "thread_sane t3"
      using dl(3) c(2) by (simp add: thread_sane_def same_thread_def t2_def ovls_def cong: map_cong)
    then show ?thesis using that [OF run] c(1) pend Cons by auto
  qed
qed

end
