(* ===== verification/Stream_Live.thy ===== *)
theory Stream_Live
  imports Stream_Run
begin

text \<open>
  Stopping a stream: the invariant of the runs of a stream with one or two transfers in flight, from
  which a thread that has been told to stop comes to its end.
\<close>

section \<open>The thread that is told to stop\<close>

lemma run_apcs_same:
  assumes "thread_ok N u t"
  shows "Thread_State (run_apcs (handle t)) = Thread_State (handle t)" "Info (run_apcs (handle t)) = Info (handle t)"
    "XferItems (run_apcs (handle t)) = XferItems (handle t)" "Thread_APCs (run_apcs (handle t)) = []"
    "PendingIO (run_apcs (handle t)) = PendingIO (handle t)" "apc_count (run_apcs (handle t)) = 0"
  using run_apcs_eq [of "handle t" "int (apc_count (handle t)) - int u"] assms by (simp_all add: thread_ok_def Let_def apc_count_def)

lemma thread_sane_run_apcs:
  "thread_ok N u t \<Longrightarrow> thread_sane t \<Longrightarrow> thread_sane (t\<lparr>handle := run_apcs (handle t)\<rparr>)"
  using thread_sane_same [of t N u "t\<lparr>handle := run_apcs (handle t)\<rparr>"] run_apcs_same [of N u t] by simp

lemma sync_same:
  assumes "thread_ok N u t"
  shows "Thread_State (snd (Stm_SynchronizeFinishedList force lf None (handle t))) = Thread_State (handle t)"
    "Info (snd (Stm_SynchronizeFinishedList force lf None (handle t))) = Info (handle t)"
    "XferItems (snd (Stm_SynchronizeFinishedList force lf None (handle t))) = XferItems (handle t)"
    "Queued (snd (Stm_SynchronizeFinishedList force lf None (handle t))) = Queued (handle t)"
proof -
  obtain fin h' where f: "Stm_SynchronizeFinishedList force lf None (handle t) = (fin, h')" by fastforce
  have "size (stock (handle t)) + (case None of None \<Rightarrow> 0 | Some (_ :: nat) \<Rightarrow> 1) \<le> sem_max (handle t)" "sem_ok (handle t)"
    using thread_ok_size [OF assms] assms by (auto simp: thread_ok_def Let_def)
  note S = sync_keeps [OF f this(2,1)]
  show "Thread_State (snd (Stm_SynchronizeFinishedList force lf None (handle t))) = Thread_State (handle t)"
    "Info (snd (Stm_SynchronizeFinishedList force lf None (handle t))) = Info (handle t)"
    "XferItems (snd (Stm_SynchronizeFinishedList force lf None (handle t))) = XferItems (handle t)"
    "Queued (snd (Stm_SynchronizeFinishedList force lf None (handle t))) = Queued (handle t)"
    using S by (simp_all add: f)
qed

lemma loop_pass_sane:
  assumes "thread_ok N u t" "thread_sane t" "loop_pass cb env t = Some (p, t')" "pending_wait (se_waits env) \<noteq> None"
  shows "thread_sane t'" "Thread_State (handle t') = Thread_State (handle t)" "p = P_Sleep \<or> (\<exists>e. p = P_Loop e)"
proof -
  define t0 where "t0 = (if FinishedTemp (handle t) = [] then t
      else t\<lparr>handle := snd (Stm_SynchronizeFinishedList False (se_sync_free env) None (handle t))\<rparr>)"
  have t0: "thread_ok N u t0" "thread_sane t0" "Thread_State (handle t0) = Thread_State (handle t)"
    using assms(1,2) sync_thread_ok sync_same [OF assms(1)]
      thread_sane_same [OF assms(2,1), of "t\<lparr>handle := snd (Stm_SynchronizeFinishedList False (se_sync_free env) None (handle t))\<rparr>"]
    by (simp_all add: t0_def)
  obtain r t1 where q: "process_all (Suc (length (Queued (handle t0)))) cb t0 = Some (r, t1)" "thread_sane t1" "thread_ok N u t1"
    "Thread_State (handle t1) = Thread_State (handle t0)"
    using process_all_sane [OF t0(1,2), of "Suc (length (Queued (handle t0)))" cb] by auto
  have "thread_sane t' \<and> Thread_State (handle t') = Thread_State (handle t) \<and> (p = P_Sleep \<or> (\<exists>e. p = P_Loop e))"
  proof (cases "r = SUBMIT_ERROR")
    case True
    then show ?thesis
      using assms(3) q t0 unfolding loop_pass_def Let_def t0_def [symmetric] by (auto simp del: process_all.simps)
  next
    case False
    obtain ok t2 where "Stm_Thread_ProcessPending cb env t1 = Some (ok, t2)" "thread_sane t2"
      "Thread_State (handle t2) = Thread_State (handle t1)"
      using ProcessPending_sane [OF q(3,2), of env cb thesis] assms(4) by blast
    then show ?thesis
      using assms(3) q t0 False unfolding loop_pass_def Let_def t0_def [symmetric]
      by (cases r) (auto simp del: process_all.simps split: if_splits)
  qed
  then show "thread_sane t'" "Thread_State (handle t') = Thread_State (handle t)" "p = P_Sleep \<or> (\<exists>e. p = P_Loop e)" by auto
qed

lemma Free_Ovl_iff:
  "Stm_Thread_Free_Ovl t \<noteq> None \<longleftrightarrow>
   (\<exists>i. Info (handle t) = Some i \<and> free_ovl_loop (Suc (nat (I_MaxPendingIO i))) [] (ovlHeap t) (ovlList t) (ovlList t) \<noteq> None)"
  by (cases "Info (handle t)") (auto simp: Stm_Thread_Free_Ovl_def bind_eq_None_conv simp del: free_ovl_loop.simps)

lemma Free_Ovl_cong:
  "Info (handle t') = Info (handle t) \<Longrightarrow> ovlHeap t' = ovlHeap t \<Longrightarrow> ovlList t' = ovlList t \<Longrightarrow>
   Stm_Thread_Free_Ovl t \<noteq> None \<Longrightarrow> Stm_Thread_Free_Ovl t' \<noteq> None"
  unfolding Free_Ovl_iff by simp

lemma enter_drain_sane:
  assumes "thread_ok N u t"
  shows "thread_sane t \<Longrightarrow> thread_sane (enter_drain t)" "Thread_State (handle (enter_drain t)) = KSTM_THREADSTATE_STOPPING"
    "pendingList (enter_drain t) = pendingList t" "Stm_Thread_Free_Ovl t \<noteq> None \<Longrightarrow> Stm_Thread_Free_Ovl (enter_drain t) \<noteq> None"
    "NoWaiting (enter_drain t) = NoWaiting t"
proof -
  let ?t = "t\<lparr>handle := (handle t)\<lparr>Thread_State := KSTM_THREADSTATE_STOPPING\<rparr>\<rparr>"
  have ok: "thread_ok N u ?t" using assms thread_ok_fields(1) by simp
  note s = sync_same [OF ok, of True True]
  show "thread_sane (enter_drain t)" if "thread_sane t"
    using thread_sane_same [OF that assms, of "enter_drain t"] s by (simp add: enter_drain_def Let_def)
  show "Thread_State (handle (enter_drain t)) = KSTM_THREADSTATE_STOPPING" using s by (simp add: enter_drain_def Let_def)
  show "pendingList (enter_drain t) = pendingList t" "NoWaiting (enter_drain t) = NoWaiting t" by (simp_all add: enter_drain_def Let_def)
  show "Stm_Thread_Free_Ovl (enter_drain t) \<noteq> None" if "Stm_Thread_Free_Ovl t \<noteq> None"
    by (rule Free_Ovl_cong [OF _ _ _ that]) (use s in \<open>simp_all add: enter_drain_def Let_def\<close>)
qed

lemma Free_Ovl_sane:
  assumes "thread_sane t" "pendingList t = []"
  shows "Stm_Thread_Free_Ovl t \<noteq> None"
  using assms ovl_sane_free unfolding Free_Ovl_iff thread_sane_def ovls_def by (metis list.simps(8))

lemma Free_Ovl_same:
  assumes "Stm_Thread_Free_Ovl t = Some t'"
  shows "handle t' = handle t \<and> pendingList t' = pendingList t"
  using assms by (auto simp: Stm_Thread_Free_Ovl_def elim!: bind_SomeE)

text \<open>
  A thread that can always be brought to its end: its list of overlapped structures is sane, or it has
  nothing pending and the list can be freed.
\<close>

definition stoppable :: "stm_pc \<Rightarrow> stm_thread \<Rightarrow> bool" where
  "stoppable p t \<longleftrightarrow>
     (thread_sane t \<or> p = P_Exited \<or> (p = P_Drain \<or> p = P_DrainSleep) \<and> pendingList t = [] \<and> Stm_Thread_Free_Ovl t \<noteq> None) \<and>
     (case p of
        P_Loop e \<Rightarrow> True
      | P_Sleep \<Rightarrow> Thread_State (handle t) = KSTM_THREADSTATE_STARTED \<or> Thread_APCs (handle t) \<noteq> []
      | P_Drain \<Rightarrow> Thread_State (handle t) = KSTM_THREADSTATE_STOPPING
      | P_DrainSleep \<Rightarrow> Thread_State (handle t) = KSTM_THREADSTATE_STOPPING
      | P_Exited \<Rightarrow> Thread_State (handle t) = KSTM_THREADSTATE_STOPPED)"

lemma drain_pass_sane:
  assumes "thread_ok N u t" "stoppable P_Drain t"
    and "pending_wait (se_waits env) = Some ERROR_SUCCESS \<or> pending_wait (se_waits env) = Some ERROR_IO_INCOMPLETE"
  obtains p t' where "drain_pass cb env t = Some (p, t')" "stoppable p t'" "thread_ok N u t'"
    "pendingList t = [] \<and> 0 < APCTransferQueueCount (handle t) \<and> p = P_DrainSleep \<and> t' = t \<or>
     pendingList t = [] \<and> \<not> 0 < APCTransferQueueCount (handle t) \<and> p = P_Exited \<and> pendingList t' = [] \<or>
     pendingList t \<noteq> [] \<and> p = P_Drain \<and> Thread_APCs (handle t') = [] \<and>
       length (pendingList t') + of_bool (\<not> NoWaiting t') < length (pendingList t) + of_bool (\<not> NoWaiting t)"
proof (cases "pendingList t = []")
  case True
  have io: "PendingIO (handle t) = 0" using assms(1) True by (simp add: thread_ok_def Let_def)
  show ?thesis
  proof (cases "0 < APCTransferQueueCount (handle t)")
    case count: True
    show ?thesis
      by (rule that [of P_DrainSleep t])
        (use count io True assms(1,2) in \<open>simp_all add: drain_pass_def stoppable_def\<close>)
  next
    case False
    have "Stm_Thread_Free_Ovl t \<noteq> None"
      using assms(2) Free_Ovl_sane True by (auto simp: stoppable_def)
    then obtain t1 where t1: "Stm_Thread_Free_Ovl t = Some t1" by auto
    define t' where "t' = t1\<lparr>handle := (handle t1)\<lparr>Thread_State := KSTM_THREADSTATE_STOPPED\<rparr>\<rparr>"
    have run: "drain_pass cb env t = Some (P_Exited, t')" using False io t1 by (simp add: drain_pass_def t'_def)
    show ?thesis
      by (rule that [OF run _ drain_pass_ok [OF run assms(1)]])
        (use False True Free_Ovl_same [OF t1] in \<open>simp_all add: stoppable_def t'_def\<close>)
  qed
next
  case False
  then have io: "0 < PendingIO (handle t)" using assms(1) by (simp add: thread_ok_def Let_def)
  have s: "thread_sane t" "Thread_State (handle t) = KSTM_THREADSTATE_STOPPING"
    using assms(2) False by (auto simp: stoppable_def)
  define t0 where "t0 = t\<lparr>handle := run_apcs (handle t)\<rparr>"
  have t0: "thread_ok N u t0" "thread_sane t0" "pendingList t0 = pendingList t" "NoWaiting t0 = NoWaiting t"
    "Thread_State (handle t0) = KSTM_THREADSTATE_STOPPING"
    and apcs: "Thread_APCs (handle t0) = []"
    using thread_ok_run_apcs [OF assms(1)] thread_sane_run_apcs [OF assms(1) s(1)] run_apcs_same [OF assms(1)] s(2)
    by (simp_all add: t0_def)
  have w: "NoWaiting t0 \<or> pending_wait (se_waits env) \<noteq> None" using assms(3) by auto
  obtain ok t1 where p: "Stm_Thread_ProcessPending cb env t0 = Some (ok, t1)" "thread_sane t1" "thread_ok N u t1"
    "pendingList t1 = pendingList t0 \<and> \<not> ok \<and>
       (pendingList t0 = [] \<and> errorCode t1 = ERROR_NO_MORE_ITEMS \<and> handle t1 = handle t0 \<or>
        \<not> NoWaiting t0 \<and> pendingList t0 \<noteq> [] \<and>
          (pending_wait (se_waits env) = Some ERROR_IO_INCOMPLETE \<and> errorCode t1 = ERROR_IO_INCOMPLETE \<and> handle t1 = handle t0 \<or>
           pending_wait (se_waits env) = Some STATUS_USER_APC)) \<or>
     (\<exists>x. pendingList t0 = x # pendingList t1 \<and> Thread_APCs (handle t1) = Thread_APCs (handle t0))"
    "NoWaiting t1 = NoWaiting t0" "Thread_State (handle t1) = Thread_State (handle t0)"
    by (rule ProcessPending_sane [OF t0(1,2) w])
  define t' where "t' = (if \<not> ok \<and> errorCode t1 = ERROR_IO_INCOMPLETE then t1\<lparr>NoWaiting := True\<rparr> else t1)"
  have run: "drain_pass cb env t = Some (P_Drain, t')"
    using io p(1) by (simp add: drain_pass_def t'_def t0_def)
  have "thread_sane t'" using p(2) by (simp add: t'_def thread_sane_def ovls_def)
  moreover have "length (pendingList t') + of_bool (\<not> NoWaiting t') < length (pendingList t) + (of_bool (\<not> NoWaiting t) :: nat)"
    using p(4,5) t0(3,4) False assms(3) by (auto simp: t'_def)
  moreover have "Thread_State (handle t') = KSTM_THREADSTATE_STOPPING" using p(6) t0(5) by (simp add: t'_def)
  moreover have "Thread_APCs (handle t') = []" using p(4) t0(3) False assms(3) apcs by (auto simp: t'_def)
  ultimately show ?thesis
    using that [OF run _ drain_pass_ok [OF run assms(1)]] False by (simp add: stoppable_def)
qed

lemma thread_step_stoppable:
  assumes "thread_ok N u t" "stoppable p t" "thread_ready env p t" "thread_step cb env p t = Some (p', t')"
  shows "stoppable p' t'"
proof (cases p)
  case (P_Loop e)
  then have s: "thread_sane t" using assms(2) by (auto simp: stoppable_def)
  show ?thesis
  proof (cases "Thread_State (handle t) = KSTM_THREADSTATE_STARTED \<and> e = ERROR_SUCCESS")
    case True
    with P_Loop assms(3,4) have "loop_pass cb env t = Some (p', t')" "pending_wait (se_waits env) \<noteq> None" by auto
    then show ?thesis using loop_pass_sane [OF assms(1) s] True by (fastforce simp: stoppable_def)
  next
    case False
    with P_Loop assms(4) have "p' = P_Drain" "t' = enter_drain t" by auto
    then show ?thesis using enter_drain_sane [OF assms(1)] s by (simp add: stoppable_def)
  qed
next
  case P_Sleep
  then show ?thesis using assms thread_sane_run_apcs [OF assms(1)] by (auto simp: stoppable_def)
next
  case P_Drain
  then have d: "stoppable P_Drain t" "pending_wait (se_waits env) = Some ERROR_SUCCESS \<or> pending_wait (se_waits env) = Some ERROR_IO_INCOMPLETE"
    using assms(2,3) by auto
  show ?thesis by (rule drain_pass_sane [OF assms(1) d, of cb]) (use P_Drain assms(4) in auto)
next
  case P_DrainSleep
  have "Stm_Thread_Free_Ovl t \<noteq> None \<Longrightarrow> Stm_Thread_Free_Ovl (t\<lparr>handle := run_apcs (handle t)\<rparr>) \<noteq> None"
    by (rule Free_Ovl_cong [rotated 3]) (simp_all add: run_apcs_same [OF assms(1)])
  then show ?thesis using P_DrainSleep assms thread_sane_run_apcs [OF assms(1)] run_apcs_same [OF assms(1)]
    by (auto simp: stoppable_def)
next
  case P_Exited
  then show ?thesis using assms(3) by simp
qed

lemma stoppable_kept:
  assumes "kept counted (handle t) h" "thread_ok N u t" "stoppable p t"
  shows "stoppable p (t\<lparr>handle := h\<rparr>)"
proof -
  have k: "map X_Overlapped (XferItems h) = map X_Overlapped (XferItems (handle t))" "Info h = Info (handle t)"
    "Thread_State h = Thread_State (handle t)" "Thread_APCs (handle t) \<noteq> [] \<longrightarrow> Thread_APCs h \<noteq> []"
    using assms(1) by (auto simp: kept_def)
  have "thread_sane t \<Longrightarrow> thread_sane (t\<lparr>handle := h\<rparr>)"
    using thread_sane_same [OF _ assms(2), of "t\<lparr>handle := h\<rparr>"] k by simp
  moreover have "Stm_Thread_Free_Ovl t \<noteq> None \<Longrightarrow> Stm_Thread_Free_Ovl (t\<lparr>handle := h\<rparr>) \<noteq> None"
    by (rule Free_Ovl_cong [rotated 3]) (simp_all add: k)
  ultimately show ?thesis using assms(3) k by (auto simp: stoppable_def split: stm_pc.splits)
qed

lemma stop_step_stoppable: 
  assumes "stm_step cb w w'" "thread_ok N (uncounted w) (thr w)" "stoppable (pc w) (thr w)"
  shows "stoppable (pc w') (thr w')"
  using assms(1)
proof cases
  case (run env p t)
  then show ?thesis using thread_step_stoppable [OF assms(2,3)] by simp
next
  case (user_read apc buf off len e out counted h)
  have "kept counted (handle (thr w)) h" using stm_read_kept [OF user_read(2)] thread_ok_stock [OF assms(2)] by simp
  then show ?thesis using stoppable_kept [OF _ assms(2,3)] user_read(1) by simp
next
  case (user_write apc buf off len ov e out counted h)
  have "kept counted (handle (thr w)) h" using stm_write_kept [OF user_write(2)] thread_ok_stock [OF assms(2)] by simp
  then show ?thesis using stoppable_kept [OF _ assms(2,3)] user_write(1) by simp
next
  case count
  have "thread_sane (thr w) \<Longrightarrow> thread_sane ((thr w)\<lparr>handle := count_apc (handle (thr w))\<rparr>)"
    using thread_sane_same [OF _ assms(2), of "(thr w)\<lparr>handle := count_apc (handle (thr w))\<rparr>"] by (simp add: count_apc_def)
  moreover have "Stm_Thread_Free_Ovl (thr w) \<noteq> None \<Longrightarrow> Stm_Thread_Free_Ovl ((thr w)\<lparr>handle := count_apc (handle (thr w))\<rparr>) \<noteq> None"
    by (rule Free_Ovl_cong [rotated 3]) (simp_all add: count_apc_def)
  ultimately show ?thesis using count assms(3) by (auto simp: stoppable_def count_apc_def split: stm_pc.splits)
next
  case (stop v)
  let ?t = "(thr w)\<lparr>handle := (handle (thr w))\<lparr>TimeoutCancelMS := v, Thread_State := KSTM_THREADSTATE_STOPPING,
      Thread_APCs := Thread_APCs (handle (thr w)) @ [StopAPC]\<rparr>\<rparr>"
  have "thread_sane (thr w) \<Longrightarrow> thread_sane ?t"
    using thread_sane_same [OF _ assms(2), of ?t] by simp
  moreover have "Thread_State (handle (thr w)) = KSTM_THREADSTATE_STARTED" by (rule stop(2))
  ultimately show ?thesis using stop(1) assms(3) by (auto simp: stoppable_def split: stm_pc.splits)
qed

lemma alloc_states:
  assumes "n = 1 \<or> n = 2" and t0: "ovlHeap t0 = \<lparr>nxt = (\<lambda>_. NULL), prv = (\<lambda>_. NULL)\<rparr>" "ovlList t0 = NULL"
    and run: "alloc_ovl_loop 0 n plan e t0 = Some (ok, t)"
  shows "(ok \<longrightarrow> ovl_sane (int n) (ovlHeap t) (ovlList t) []) \<and>
    (\<not> ok \<longrightarrow> free_ovl_loop (Suc n) [] (ovlHeap t) (ovlList t) (ovlList t) \<noteq> None)"
proof -
  obtain b1 plan1 where 1: "take_alloc plan = (b1, plan1)" by fastforce
  obtain b2 plan2 where 2: "take_alloc plan1 = (b2, plan2)" by fastforce
  note simps = 1 2 t0 dl_ops ovl_sane_def ovl_states1_def ovl_states2_def
  show ?thesis
  proof (cases "n = 1")
    case True
    then show ?thesis using run by (cases b1) (auto simp: simps)
  next
    case False
    then have "n = Suc (Suc 0)" using assms(1) by simp
    note n = this
    show ?thesis
    proof (cases "b1 \<and> b2")
      case True
      then have "ovlHeap t = \<lparr>nxt = (\<lambda>_. NULL)(1 := 2), prv = (\<lambda>_. NULL)(1 := 2, 2 := 1)\<rparr> \<and> ovlList t = 1 \<and> ok"
        using run n 1 2 by (auto simp: dl_ops t0 fun_eq_iff)
      then show ?thesis using n by (simp add: ovl_sane_def ovl_states2_def)
    next
      case False
      show ?thesis
      proof (cases b1)
        case True
        with False have "ovlHeap t = \<lparr>nxt = (\<lambda>_. NULL), prv = (\<lambda>_. NULL)(1 := 1)\<rparr> \<and> ovlList t = 1 \<and> \<not> ok"
          using run n 1 2 by (auto simp: dl_ops t0 fun_eq_iff)
        then show ?thesis using n by (simp add: dl_ops)
      next
        case False
        then have "ovlList t = 0 \<and> \<not> ok" using run n 1 t0 by auto
        then show ?thesis using n by simp
      qed
    qed
  qed
qed

lemma thread_start_stoppable:
  assumes "thread_start plan e h = Some (p, t)" "fresh_stream N h" "Info h = Some i" "I_MaxPendingIO i = 1 \<or> I_MaxPendingIO i = 2"
  shows "stoppable p t"
proof -
  define t0 where "t0 = \<lparr>handle = h, signaled = (\<lambda>_. False), ovlHeap = \<lparr>nxt = (\<lambda>_. NULL), prv = (\<lambda>_. NULL)\<rparr>, ovlList = NULL,
        pendingList = [], errorCode = 0, success = False, NoWaiting = False\<rparr>"
  define n where "n = nat (I_MaxPendingIO i)"
  have n: "n = 1 \<or> n = 2" "I_MaxPendingIO i = int n" using assms(4) by (auto simp: n_def)
  have ok0: "thread_ok N 0 t1" if "handle t1 = h" "pendingList t1 = []" for t1
    using assms(2) that by (simp add: thread_ok_def fresh_stream_def apcs_ok_def apc_count_def to_long_def)
  obtain ok t1 where a: "Stm_Thread_Alloc_Ovl plan e t0 = Some (ok, t1)"
    "(p, t) = (if \<not> ok then (P_Drain, enter_drain t1)
           else (P_Loop ERROR_SUCCESS, t1\<lparr>handle := (handle t1)\<lparr>Thread_State := KSTM_THREADSTATE_STARTED\<rparr>\<rparr>))"
    using assms(1) unfolding thread_start_def t0_def [symmetric] by (auto elim!: bind_SomeE split: if_splits)
  have s: "handle t1 = h \<and> pendingList t1 = [] \<and> (ok \<longrightarrow> ovl_sane (int n) (ovlHeap t1) (ovlList t1) []) \<and>
    (\<not> ok \<longrightarrow> free_ovl_loop (Suc n) [] (ovlHeap t1) (ovlList t1) (ovlList t1) \<noteq> None)"
  proof (cases "fst (take_alloc plan)")
    case True
    then obtain plan1 where pl: "take_alloc plan = (True, plan1)" by (cases "take_alloc plan") auto
    have "Info (handle t0) = Some i" using assms(3) by (simp add: t0_def)
    then have "alloc_ovl_loop 0 n plan1 e t0 = Some (ok, t1)"
      using a(1) pl by (simp add: Stm_Thread_Alloc_Ovl_def n_def)
    note l = this
    have "handle t1 = handle t0 \<and> pendingList t1 = pendingList t0" by (rule alloc_ovl_loop_same [OF l])
    moreover have "handle t0 = h" "pendingList t0 = []" by (simp_all add: t0_def)
    ultimately show ?thesis using alloc_states [OF n(1) _ _ l] by (simp add: t0_def)
  next
    case False
    then have "ok = False" "t1 = t0\<lparr>errorCode := e\<rparr>"
      using a(1) assms(3) by (simp_all add: Stm_Thread_Alloc_Ovl_def t0_def split: prod.splits)
    then show ?thesis by (simp add: t0_def)
  qed
  show ?thesis
  proof (cases ok)
    case True
    then have "p = P_Loop ERROR_SUCCESS" "thread_sane t" using a(2) s assms(3) n by (auto simp: thread_sane_def ovls_def)
    then show ?thesis by (simp add: stoppable_def)
  next
    case False
    then have p: "p = P_Drain" "t = enter_drain t1" using a(2) by auto
    have "Stm_Thread_Free_Ovl t1 \<noteq> None"
      unfolding Free_Ovl_iff using s assms(3) False n_def by auto
    then show ?thesis using enter_drain_sane [OF ok0, of t1] s p by (simp add: stoppable_def)
  qed
qed

lemma reach_stoppable:
  assumes "stm_reach cb h0 w" "fresh_stream N h0" "Info h0 = Some i" "I_MaxPendingIO i = 1 \<or> I_MaxPendingIO i = 2"
  shows "stoppable (pc w) (thr w)"
  using assms(1)
proof induction
  case (start plan e p t)
  then show ?case using thread_start_stoppable [OF _ assms(2-4)] by simp
next
  case (step w w')
  then show ?case using stop_step_stoppable stm_reach_ok [OF _ assms(2)] by blast
qed


text \<open>
  The thread alone, against a list of answers of the system. It stays where it is at its end, and it
  cannot go on when it sleeps and no procedure call is queued.
\<close>

fun thread_run :: "stm_callbacks \<Rightarrow> stm_env list \<Rightarrow> stm_pc \<Rightarrow> stm_thread \<Rightarrow> (stm_pc \<times> stm_thread) option" where
  "thread_run cb [] p t = Some (p, t)"
| "thread_run cb (env # envs) p t =
     (if p = P_Exited then Some (p, t)
      else if \<not> thread_ready env p t then None
      else do { (p1, t1) \<leftarrow> thread_step cb env p t; thread_run cb envs p1 t1 })"

definition steps_left :: "stm_pc \<Rightarrow> stm_thread \<Rightarrow> nat" where
  "steps_left p t = (if p = P_Exited then 0 else
     length (pendingList t) + of_bool (\<not> NoWaiting t) +
       (case p of P_Sleep \<Rightarrow> 5 | P_Loop e \<Rightarrow> 4 | P_DrainSleep \<Rightarrow> 2
        | _ \<Rightarrow> if 0 < APCTransferQueueCount (handle t) then 3 else 1))"

lemma count_without_apcs:
  assumes "thread_ok N u t" "u \<le> 2147483648" "0 < APCTransferQueueCount (handle t)"
  shows "Thread_APCs (handle t) \<noteq> []"
proof
  assume "Thread_APCs (handle t) = []"
  then have "APCTransferQueueCount (handle t) = to_long (- int u)" using assms(1) by (simp add: thread_ok_def Let_def apc_count_def)
  moreover have "to_long (- int u) = - int u" using assms(2) by (intro to_long_id) (simp add: is_long_def)
  ultimately show False using assms(3) by simp
qed

definition stopping :: "nat \<Rightarrow> nat \<Rightarrow> stm_pc \<Rightarrow> stm_thread \<Rightarrow> bool" where
  "stopping N u p t \<longleftrightarrow>
     thread_ok N u t \<and> stoppable p t \<and> (p \<noteq> P_Exited \<longrightarrow> Thread_State (handle t) = KSTM_THREADSTATE_STOPPING) \<and>
     (p = P_DrainSleep \<longrightarrow> Thread_APCs (handle t) \<noteq> []) \<and> (p = P_Exited \<longrightarrow> pendingList t = [])"

lemma stopping_step:
  assumes "stopping N u p t" "u \<le> 2147483648" "p \<noteq> P_Exited"
    and "pending_wait (se_waits env) = Some ERROR_SUCCESS \<or> pending_wait (se_waits env) = Some ERROR_IO_INCOMPLETE"
  obtains p' t' where "thread_ready env p t" "thread_step cb env p t = Some (p', t')" "stopping N u p' t'"
    "steps_left p' t' < steps_left p t"
proof -
  have ok: "thread_ok N u t" and s: "stoppable p t" and st: "Thread_State (handle t) = KSTM_THREADSTATE_STOPPING"
    and sl: "p = P_DrainSleep \<longrightarrow> Thread_APCs (handle t) \<noteq> []"
    using assms(1,3) by (auto simp: stopping_def)
  have count: "\<not> 0 < APCTransferQueueCount (handle t1)" if "thread_ok N u t1" "Thread_APCs (handle t1) = []" for t1
    using count_without_apcs [OF that(1) assms(2)] that(2) by blast
  have r: "thread_ready env p t" using assms(3,4) s st sl by (cases p) (auto simp: stoppable_def)
  note apcs = run_apcs_same [OF ok]
  show ?thesis
  proof (cases p)
    case (P_Loop e)
    have x: "thread_step cb env p t = Some (P_Drain, enter_drain t)" using P_Loop st by simp
    have "stopping N u P_Drain (enter_drain t)"
      using enter_drain_ok [OF ok] enter_drain_sane [OF ok] thread_step_stoppable [OF ok s r x] by (simp add: stopping_def)
    then show ?thesis using that [OF r x] P_Loop enter_drain_sane(3,5) [OF ok] by (simp add: steps_left_def)
  next
    case P_Sleep
    have x: "thread_step cb env p t = Some (P_Loop ERROR_SUCCESS, t\<lparr>handle := run_apcs (handle t)\<rparr>)" using P_Sleep by simp
    have "stopping N u (P_Loop ERROR_SUCCESS) (t\<lparr>handle := run_apcs (handle t)\<rparr>)"
      using thread_ok_run_apcs [OF ok] thread_step_stoppable [OF ok s r x] st apcs by (simp add: stopping_def)
    then show ?thesis using that [OF r x] P_Sleep by (simp add: steps_left_def)
  next
    case P_Drain
    obtain p' t' where d: "drain_pass cb env t = Some (p', t')" "stoppable p' t'" "thread_ok N u t'"
      "pendingList t = [] \<and> 0 < APCTransferQueueCount (handle t) \<and> p' = P_DrainSleep \<and> t' = t \<or>
       pendingList t = [] \<and> \<not> 0 < APCTransferQueueCount (handle t) \<and> p' = P_Exited \<and> pendingList t' = [] \<or>
       pendingList t \<noteq> [] \<and> p' = P_Drain \<and> Thread_APCs (handle t') = [] \<and>
         length (pendingList t') + of_bool (\<not> NoWaiting t') < length (pendingList t) + of_bool (\<not> NoWaiting t)"
      by (rule drain_pass_sane [OF ok s [unfolded P_Drain] assms(4)])
    have x: "thread_step cb env p t = Some (p', t')" using d(1) P_Drain by simp
    have "stopping N u p' t'" "steps_left p' t' < steps_left p t"
      using d(2-4) count_without_apcs [OF ok assms(2)] count [OF d(3)] P_Drain
      by (auto simp: stopping_def stoppable_def steps_left_def)
    then show ?thesis by (rule that [OF r x])
  next
    case P_DrainSleep
    have x: "thread_step cb env p t = Some (P_Drain, t\<lparr>handle := run_apcs (handle t)\<rparr>)" using P_DrainSleep by simp
    have ok': "thread_ok N u (t\<lparr>handle := run_apcs (handle t)\<rparr>)" by (rule thread_ok_run_apcs [OF ok])
    have "stopping N u P_Drain (t\<lparr>handle := run_apcs (handle t)\<rparr>)"
      using ok' thread_step_stoppable [OF ok s r x] st apcs by (simp add: stopping_def)
    moreover have "\<not> 0 < APCTransferQueueCount (run_apcs (handle t))" using count [OF ok'] apcs by simp
    ultimately show ?thesis using that [OF r x] P_DrainSleep by (simp add: steps_left_def)
  qed (use assms(3) in simp)
qed

lemma stopping_run:
  "stopping N u p t \<Longrightarrow> u \<le> 2147483648 \<Longrightarrow> steps_left p t \<le> length envs \<Longrightarrow>
   \<forall>env\<in>set envs. pending_wait (se_waits env) = Some ERROR_SUCCESS \<or> pending_wait (se_waits env) = Some ERROR_IO_INCOMPLETE \<Longrightarrow>
   \<exists>t'. thread_run cb envs p t = Some (P_Exited, t') \<and> stopping N u P_Exited t'"
proof (induction envs arbitrary: p t)
  case Nil
  then show ?case by (auto simp: steps_left_def split: if_splits stm_pc.splits)
next
  case (Cons env envs)
  show ?case
  proof (cases "p = P_Exited")
    case True
    then show ?thesis using Cons.prems(1) by simp
  next
    case False
    obtain p' t' where s: "thread_ready env p t" "thread_step cb env p t = Some (p', t')" "stopping N u p' t'"
      "steps_left p' t' < steps_left p t"
      by (rule stopping_step [OF Cons.prems(1,2) False, of env cb]) (use Cons.prems(4) in auto)
    show ?thesis
      using Cons.IH [OF s(3) Cons.prems(2)] s Cons.prems(3,4) False by simp
  qed
qed

text \<open>
  C22. A stream with one or two transfers in flight can always be stopped. Whatever the readers, the
  writers and the driver have done before: once the thread has been told to stop, and when the system
  answers each of its waits (with the completion of the oldest transfer, or with a timeout), it reaches
  its end within a number of steps that the pending transfers bound. It is then marked as stopped,
  nothing is pending any more, and every transfer is still on a list of the stream.
\<close>

theorem stream_stop_ends:
  assumes "stm_reach cb h0 w" "fresh_stream N h0" "Info h0 = Some i" "I_MaxPendingIO i = 1 \<or> I_MaxPendingIO i = 2"
    and "Thread_State (handle (thr w)) = KSTM_THREADSTATE_STOPPING" "uncounted w \<le> 2147483648"
    and "pc w = P_DrainSleep \<longrightarrow> Thread_APCs (handle (thr w)) \<noteq> []"
    and "\<forall>env\<in>set envs. pending_wait (se_waits env) = Some ERROR_SUCCESS \<or> pending_wait (se_waits env) = Some ERROR_IO_INCOMPLETE"
    and "length (pendingList (thr w)) + 6 \<le> length envs"
  shows "\<exists>t. thread_run cb envs (pc w) (thr w) = Some (P_Exited, t) \<and>
     Thread_State (handle t) = KSTM_THREADSTATE_STOPPED \<and> pendingList t = [] \<and> PendingIO (handle t) = 0 \<and>
     mset (Queued (handle t) @ Finished (handle t) @ FinishedTemp (handle t) @ apc_transfers (handle t)) = mset [0..<N]"
proof -
  have s: "stoppable (pc w) (thr w)" by (rule reach_stoppable [OF assms(1-4)])
  moreover have "pc w \<noteq> P_Exited" using s assms(5) by (auto simp: stoppable_def)
  ultimately have st: "stopping N (uncounted w) (pc w) (thr w)"
    using stm_reach_ok [OF assms(1,2)] assms(5,7) by (simp add: stopping_def)
  have "steps_left (pc w) (thr w) \<le> length envs"
    using assms(9) by (auto simp: steps_left_def split: stm_pc.splits)
  from stopping_run [OF st assms(6) this assms(8)] obtain t where
    t: "thread_run cb envs (pc w) (thr w) = Some (P_Exited, t)" "stopping N (uncounted w) P_Exited t" by blast
  then have "thread_ok N (uncounted w) t" "pendingList t = []" "Thread_State (handle t) = KSTM_THREADSTATE_STOPPED"
    by (auto simp: stopping_def stoppable_def)
  with t(1) show ?thesis by (simp add: thread_ok_def Let_def stock_def ac_simps)
qed

end
