(* ===== verification/Stream_Races.thy ===== *)
theory Stream_Races
  imports Stream_Live
begin

text \<open>
  Runs of a stream, step by step: an executable form of the step relation, with which reachable states
  are computed. They are the witnesses of the properties of runs, and they show two ways in which the
  code goes wrong.
\<close>

section \<open>Computing a run\<close>

datatype stm_action =
  A_run stm_env
| A_read DWORD "UCHAR list" LONG LONG
| A_write DWORD "UCHAR list" LONG LONG bool
| A_count
| A_stop UINT

fun stm_do :: "stm_callbacks \<Rightarrow> stm_action \<Rightarrow> stm_world \<Rightarrow> stm_world option" where
  "stm_do cb (A_run env) w =
     (if thread_ready env (pc w) (thr w) then do {
        (p, t) \<leftarrow> thread_step cb env (pc w) (thr w);
        Some (w\<lparr>pc := p, thr := t\<rparr>) }
      else None)"
| "stm_do cb (A_read apc buf off len) w = do {
     (e, out, counted, h) \<leftarrow> stm_read apc buf off len (handle (thr w));
     Some ((upd_h (\<lambda>_. h) w)\<lparr>uncounted := uncounted w + of_bool counted\<rparr>) }"
| "stm_do cb (A_write apc buf off len ov) w = do {
     (e, out, counted, h) \<leftarrow> stm_write apc buf off len ov (handle (thr w));
     Some ((upd_h (\<lambda>_. h) w)\<lparr>uncounted := uncounted w + of_bool counted\<rparr>) }"
| "stm_do cb A_count w =
     (if 0 < uncounted w then Some ((upd_h count_apc w)\<lparr>uncounted := uncounted w - 1\<rparr>) else None)"
| "stm_do cb (A_stop v) w =
     (if Thread_State (handle (thr w)) = KSTM_THREADSTATE_STARTED then
        Some (upd_h (\<lambda>h. h\<lparr>TimeoutCancelMS := v, Thread_State := KSTM_THREADSTATE_STOPPING,
          Thread_APCs := Thread_APCs h @ [StopAPC]\<rparr>) w)
      else None)"

fun stm_does :: "stm_callbacks \<Rightarrow> stm_action list \<Rightarrow> stm_world \<Rightarrow> stm_world option" where
  "stm_does cb [] w = Some w"
| "stm_does cb (a # as) w = do { w1 \<leftarrow> stm_do cb a w; stm_does cb as w1 }"

lemma stm_do_step: "stm_do cb a w = Some w' \<Longrightarrow> stm_step cb w w'"
  using stm_step.count [of w cb]
  by (cases a) (auto split: if_splits elim!: bind_SomeE intro: stm_step.run stm_step.user_read stm_step.user_write stm_step.stop)

lemma stm_does_reach: "stm_does cb as w = Some w' \<Longrightarrow> stm_reach cb h0 w \<Longrightarrow> stm_reach cb h0 w'"
proof (induction as arbitrary: w)
  case (Cons a as)
  then obtain w1 where "stm_do cb a w = Some w1" "stm_does cb as w1 = Some w'" by (auto elim!: bind_SomeE)
  then show ?case using Cons.IH Cons.prems(2) stm_do_step stm_reach.step by blast
qed simp

text \<open>A whole run from the start of the thread.\<close>

definition stm_play :: "stm_callbacks \<Rightarrow> kstm \<Rightarrow> stm_action list \<Rightarrow> stm_world option" where
  "stm_play cb h0 as = do {
     (p, t) \<leftarrow> thread_start [True, True, True, True, True, True] 0 h0;
     stm_does cb as \<lparr>pc = p, thr = t, uncounted = 0\<rparr> }"

lemma stm_play_reach: "stm_play cb h0 as = Some w \<Longrightarrow> stm_reach cb h0 w"
  by (auto simp: stm_play_def elim!: bind_SomeE intro: stm_does_reach stm_reach.start)

section \<open>Example runs\<close>

text \<open>A write stream of transfers of four bytes, and a driver that takes every transfer.\<close>

definition write_stream :: "nat \<Rightarrow> LONG \<Rightarrow> kstm" where
  "write_stream n io =
     \<lparr>Heap = 6, Info = Some ((example_info 2 io)\<lparr>I_MaxPendingTransfers := int n\<rparr>), Stm_Flags = 0, PendingIO = 0, APCTransferQueueCount = 0,
      TimeoutCancelMS = 0, SemReady = 0, SemCount = 0, WaitTimeout = 0, Thread_State = KSTM_THREADSTATE_STARTING, Thread_APCs = [],
      Finished = [0..<n], FinishedTemp = [], Queued = [], XferItems = map (new_xfer 4) [0..<n], XferItemsCount = 0\<rparr>"

definition taking_driver :: stm_callbacks where
  "taking_driver = \<lparr>cb_Submit = (\<lambda>pub i ovl. (ERROR_IO_PENDING, pub)), cb_Error = None, cb_BeforeComplete = None, cb_Complete = None\<rparr>"

definition answer :: "wait_answer \<Rightarrow> stm_env" where
  "answer a = \<lparr>se_waits = [a], se_result = (ERROR_SUCCESS, Some 4), se_sync_free = True, se_lock_free = True\<rparr>"

lemma fresh_write_stream: "n < 2147483648 \<Longrightarrow> fresh_stream n (write_stream n io)"
  by (simp add: fresh_stream_def write_stream_def stock_def apc_transfers_def sem_max_def sem_ok_def example_info_def)

abbreviation bytes :: "nat \<Rightarrow> UCHAR list" where "bytes n \<equiv> replicate n 7"

lemma playedE:
  assumes "case stm_play cb h0 as of None \<Rightarrow> False | Some w \<Rightarrow> P w"
  obtains w where "stm_reach cb h0 w" "P w"
  using assms stm_play_reach [of cb h0 as] by (auto split: option.splits)

definition shared_run :: "stm_action list" where
  "shared_run = [A_write 0 (bytes 12) 0 12 True, A_count, A_run (answer WAIT_OBJECT_0), A_run (answer WAIT_OBJECT_0),
     A_run (answer WAIT_OBJECT_0), A_run (answer WAIT_OBJECT_0), A_write 0 (bytes 8) 0 8 True, A_count,
     A_run (answer WAIT_IO_COMPLETION), A_run (answer WAIT_TIMEOUT)]"

text \<open>
  C39. Two transfers that are in flight at the same time can share an overlapped structure. With four
  structures: after three transfers of a writer have been submitted, two have completed and two more
  are submitted, the last of these is given the structure of the transfer that is still pending, whose
  event is then the event of both. The cause is that a completed transfer's structure is unlinked from
  the list of free ones, where it is not, before it is appended to it.
\<close>

theorem overlapped_shared:
  "fresh_stream 4 (write_stream 4 4) \<and>
   (\<exists>w. stm_reach taking_driver (write_stream 4 4) w \<and> pendingList (thr w) = [2, 3, 0] \<and>
      X_Overlapped (XferItems (handle (thr w)) ! 2) = X_Overlapped (XferItems (handle (thr w)) ! 0))"
proof -
  have "case stm_play taking_driver (write_stream 4 4) shared_run of None \<Rightarrow> False
     | Some w \<Rightarrow> pendingList (thr w) = [2, 3, 0] \<and>
      X_Overlapped (XferItems (handle (thr w)) ! 2) = X_Overlapped (XferItems (handle (thr w)) ! 0)"
    by code_simp
  from playedE [OF this] show ?thesis using fresh_write_stream [of 4] by auto
qed


text \<open>
  A thread whose count of queued procedure calls is higher than their number: when it drains, it goes
  to sleep, and nothing wakes it.
\<close>

lemma miscounted_hangs:
  "(p = P_Drain \<or> p = P_DrainSleep \<or> (\<exists>e. p = P_Loop e)) \<Longrightarrow> Thread_State (handle t) = KSTM_THREADSTATE_STOPPING \<Longrightarrow>
   PendingIO (handle t) = 0 \<Longrightarrow> set (Thread_APCs (handle t)) \<subseteq> {StopAPC} \<Longrightarrow> 0 < APCTransferQueueCount (handle t) \<Longrightarrow>
   thread_run cb envs p t \<noteq> Some (P_Exited, t')"
proof (induction envs arbitrary: p t)
  case (Cons env envs)
  have "set l \<subseteq> {StopAPC} \<Longrightarrow> foldl run_apc h l = h" for h l
    by (induction l) auto
  then have apcs: "run_apcs (handle t) = (handle t)\<lparr>Thread_APCs := []\<rparr>" using Cons.prems(4) by (simp add: run_apcs_def)
  from Cons.prems(1) show ?case
  proof (elim disjE exE)
    assume p: "p = P_Drain"
    then have "thread_step cb env p t = Some (P_DrainSleep, t)" using Cons.prems by (simp add: drain_pass_def)
    then show ?thesis using Cons.IH [of P_DrainSleep t] Cons.prems p by auto
  next
    assume p: "p = P_DrainSleep"
    then show ?thesis
      using Cons.IH [of P_Drain "t\<lparr>handle := run_apcs (handle t)\<rparr>"] Cons.prems by (simp add: apcs)
  next
    fix e assume p: "p = P_Loop e"
    have "Thread_State (handle (enter_drain t)) = KSTM_THREADSTATE_STOPPING" "PendingIO (handle (enter_drain t)) = 0"
      "set (Thread_APCs (handle (enter_drain t))) \<subseteq> {StopAPC}" "0 < APCTransferQueueCount (handle (enter_drain t))"
      using Cons.prems by (simp_all add: enter_drain_def Stm_SynchronizeFinishedList_def ReleaseSemaphore_def Let_def)
    then show ?thesis using Cons.IH [of P_Drain "enter_drain t"] Cons.prems(2) p by simp
  qed
qed auto

text \<open>
  C40. A stop that comes between the queueing of a write's procedure call and its counting loses the
  transfers of the write: the thread ends with the call still queued to it, the next thread starts
  without it, and the transfer is on no list any more. The count that the writer then increments never
  goes back to zero, so the next thread, when it is told to stop, never ends.
\<close>

theorem stop_loses_transfers:
  "fresh_stream 1 (write_stream 1 1) \<and>
   (\<exists>w w2. stm_reach taking_driver (write_stream 1 1) w \<and> pc w = P_Exited \<and> uncounted w = 0 \<and>
      apc_transfers (handle (thr w)) = [0] \<and>
      stm_play taking_driver ((handle (thr w))\<lparr>Thread_State := KSTM_THREADSTATE_STARTING, Thread_APCs := []\<rparr>) [A_stop 0] = Some w2 \<and>
      Queued (handle (thr w2)) @ pendingList (thr w2) @ Finished (handle (thr w2)) @ FinishedTemp (handle (thr w2)) @
        apc_transfers (handle (thr w2)) = [] \<and>
      (\<forall>envs t. thread_run taking_driver envs (pc w2) (thr w2) \<noteq> Some (P_Exited, t)))"
proof -
  define good where "good w2 \<longleftrightarrow> pc w2 = P_Loop 0 \<and> Thread_State (handle (thr w2)) = KSTM_THREADSTATE_STOPPING \<and>
     PendingIO (handle (thr w2)) = 0 \<and> Thread_APCs (handle (thr w2)) = [StopAPC] \<and> 0 < APCTransferQueueCount (handle (thr w2)) \<and>
     Queued (handle (thr w2)) @ pendingList (thr w2) @ Finished (handle (thr w2)) @ FinishedTemp (handle (thr w2)) @
        apc_transfers (handle (thr w2)) = []" for w2 :: stm_world
  have "case stm_play taking_driver (write_stream 1 1)
       [A_write 0 (bytes 4) 0 4 True, A_stop 0, A_run (answer WAIT_OBJECT_0), A_run (answer WAIT_OBJECT_0), A_count] of None \<Rightarrow> False
     | Some w \<Rightarrow> pc w = P_Exited \<and> uncounted w = 0 \<and> apc_transfers (handle (thr w)) = [0] \<and>
        (case stm_play taking_driver ((handle (thr w))\<lparr>Thread_State := KSTM_THREADSTATE_STARTING, Thread_APCs := []\<rparr>) [A_stop 0] of
           None \<Rightarrow> False | Some w2 \<Rightarrow> good w2)"
    unfolding good_def by code_simp
  from playedE [OF this] obtain w where w: "stm_reach taking_driver (write_stream 1 1) w" "pc w = P_Exited" "uncounted w = 0"
    "apc_transfers (handle (thr w)) = [0]"
    "case stm_play taking_driver ((handle (thr w))\<lparr>Thread_State := KSTM_THREADSTATE_STARTING, Thread_APCs := []\<rparr>) [A_stop 0] of
           None \<Rightarrow> False | Some w2 \<Rightarrow> good w2"
    by blast
  then obtain w2 where w2: "stm_play taking_driver ((handle (thr w))\<lparr>Thread_State := KSTM_THREADSTATE_STARTING, Thread_APCs := []\<rparr>) [A_stop 0] = Some w2"
    "good w2" by (auto split: option.splits)
  have "thread_run taking_driver envs (pc w2) (thr w2) \<noteq> Some (P_Exited, t)" for envs t
    by (rule miscounted_hangs) (use w2(2) in \<open>simp_all add: good_def\<close>)
  then show ?thesis using fresh_write_stream [of 1] w w2 unfolding good_def by (intro conjI exI [of _ w] exI [of _ w2]) auto
qed

section \<open>Witnesses\<close>

text \<open>Two transfers are submitted, and the thread is told to stop.\<close>

definition stop_run :: "stm_action list" where
  "stop_run = [A_write 0 (bytes 8) 0 8 True, A_count, A_run (answer WAIT_OBJECT_0), A_run (answer WAIT_OBJECT_0),
     A_run (answer WAIT_TIMEOUT), A_stop 0]"

lemma stop_run_reaches:
  "\<exists>w. stm_reach taking_driver (write_stream 2 2) w \<and> Thread_State (handle (thr w)) = KSTM_THREADSTATE_STOPPING \<and>
     uncounted w = 0 \<and> pc w = P_Loop 0 \<and> length (pendingList (thr w)) = 2"
proof -
  have "case stm_play taking_driver (write_stream 2 2) stop_run of None \<Rightarrow> False
     | Some w \<Rightarrow> Thread_State (handle (thr w)) = KSTM_THREADSTATE_STOPPING \<and>
     uncounted w = 0 \<and> pc w = P_Loop 0 \<and> length (pendingList (thr w)) = 2"
    by code_simp
  from playedE [OF this] show ?thesis by auto
qed

theorem stream_stop_ends_witness:
  "\<exists>w t. stm_reach taking_driver (write_stream 2 2) w \<and> length (pendingList (thr w)) = 2 \<and>
     thread_run taking_driver (replicate 8 (answer WAIT_OBJECT_0)) (pc w) (thr w) = Some (P_Exited, t) \<and> pendingList t = []"
proof -
  obtain w where w: "stm_reach taking_driver (write_stream 2 2) w" "Thread_State (handle (thr w)) = KSTM_THREADSTATE_STOPPING"
    "uncounted w = 0" "pc w = P_Loop 0" "length (pendingList (thr w)) = 2"
    using stop_run_reaches by blast
  have "\<exists>t. thread_run taking_driver (replicate 8 (answer WAIT_OBJECT_0)) (pc w) (thr w) = Some (P_Exited, t) \<and>
      Thread_State (handle t) = KSTM_THREADSTATE_STOPPED \<and> pendingList t = [] \<and> PendingIO (handle t) = 0 \<and>
      mset (Queued (handle t) @ Finished (handle t) @ FinishedTemp (handle t) @ apc_transfers (handle t)) = mset [0..<2]"
    by (rule stream_stop_ends [OF w(1) fresh_write_stream, of "(example_info 2 2)\<lparr>I_MaxPendingTransfers := 2\<rparr>"])
      (use w(2-) in \<open>simp_all add: write_stream_def example_info_def answer_def\<close>)
  with w show ?thesis by blast
qed


end
