(* ===== verification/Isoch_Handle.thy ===== *)
theory Isoch_Handle
  imports Ovl_Pool
begin

text \<open>
  Isochronous handles, \<open>lusbk_usb_isoch.c\<close>, and the two transfers on them in
  \<open>lusbk_bknd_libusbk.c\<close>. A handle wraps the packets of a transfer for two drivers, which keep them
  in different structures: a context with 16 bit lengths for libusbK, an array of 32 bit words for
  WinUSB. What the operations do to the packets is stated once, for any array of descriptors, in the
  locale \<open>desc_array\<close>, which both structures interpret.
\<close>

section \<open>Packets of either driver\<close>

text \<open>Offset, length and status, as the \<open>UINT\<close>s of the interface.\<close>

type_synonym iso_desc = "UINT \<times> UINT \<times> UINT"

definition get_desc :: "int \<Rightarrow> isoch_obj \<Rightarrow> nat \<Rightarrow> iso_desc option" where
  "get_desc drv b i =
     (if drv = KUSB_DRVID_LIBUSBK then do {
        c \<leftarrow> Ctx_UsbK b;
        p \<leftarrow> packet_at c (int i);
        Some (Offset p, ucast (Length p), ucast (Status p)) }
      else do {
        ps \<leftarrow> W_Packets (Ctx_UsbW b);
        (if i < length ps then Some (W_Offset (ps ! i), W_Length (ps ! i), W_Status (ps ! i)) else None) })"

definition put_desc :: "int \<Rightarrow> isoch_obj \<Rightarrow> nat \<Rightarrow> iso_desc \<Rightarrow> isoch_obj option" where
  "put_desc drv b i = (\<lambda>(off, len, st).
     (if drv = KUSB_DRVID_LIBUSBK then do {
        c \<leftarrow> Ctx_UsbK b;
        c1 \<leftarrow> put_packet c (int i) \<lparr>Offset = off, Length = ucast len, Status = ucast st\<rparr>;
        Some (b\<lparr>Ctx_UsbK := Some c1\<rparr>) }
      else do {
        ps \<leftarrow> W_Packets (Ctx_UsbW b);
        (if i < length ps then
           Some (b\<lparr>Ctx_UsbW := (Ctx_UsbW b)\<lparr>W_Packets := Some (ps[i := \<lparr>W_Offset = off, W_Length = len, W_Status = st\<rparr>])\<rparr>\<rparr>)
         else None) }))"

text \<open>What is left of a descriptor when it is stored.\<close>

definition kept_desc :: "int \<Rightarrow> iso_desc \<Rightarrow> iso_desc" where
  "kept_desc drv = (\<lambda>(off, len, st).
     if drv = KUSB_DRVID_LIBUSBK then (off, len AND 0xFFFF, st AND 0xFFFF) else (off, len, st))"

definition number_of_packets :: "int \<Rightarrow> isoch_obj \<Rightarrow> UINT option" where
  "number_of_packets drv b =
     (if drv = KUSB_DRVID_LIBUSBK then map_option (\<lambda>c. word_of_int (NumberOfPackets c)) (Ctx_UsbK b)
      else Some (W_NumberOfPackets (Ctx_UsbW b)))"

text \<open>The loops of \<open>IsochK_SetPacketOffsets\<close> and of \<open>IsochK_EnumPackets\<close>, which are the same for both drivers.\<close>

fun offsets_loop ::
  "(isoch_obj \<Rightarrow> nat \<Rightarrow> iso_desc \<Rightarrow> isoch_obj option) \<Rightarrow> UINT \<Rightarrow> nat \<Rightarrow> nat \<Rightarrow> UINT \<Rightarrow> isoch_obj \<Rightarrow> isoch_obj option" where
  "offsets_loop put sz i 0 off b = Some b"
| "offsets_loop put sz i (Suc n) off b = do {
     b1 \<leftarrow> put b i (off, sz, 0);
     offsets_loop put sz (i + 1) n (off + sz) b1 }"

fun desc_enum_loop ::
  "(isoch_obj \<Rightarrow> nat \<Rightarrow> iso_desc option) \<Rightarrow> (isoch_obj \<Rightarrow> nat \<Rightarrow> iso_desc \<Rightarrow> isoch_obj option)
   \<Rightarrow> (UINT \<Rightarrow> iso_desc \<Rightarrow> 'u \<Rightarrow> bool \<times> iso_desc \<times> 'u) \<Rightarrow> nat \<Rightarrow> nat \<Rightarrow> isoch_obj \<Rightarrow> 'u \<Rightarrow> (isoch_obj \<times> 'u) option" where
  "desc_enum_loop get put cb i 0 b u = Some (b, u)"
| "desc_enum_loop get put cb i (Suc n) b u = do {
     d \<leftarrow> get b i;
     let (cont, d1, u1) = cb (word_of_nat i) d u;
     b1 \<leftarrow> put b i d1;
     (if cont then desc_enum_loop get put cb (i + 1) n b1 u1 else Some (b1, u1)) }"

section \<open>The handle\<close>

abbreviation upd_isoch :: "nat \<Rightarrow> (isoch_obj \<Rightarrow> isoch_obj) \<Rightarrow> libk \<Rightarrow> libk" where
  "upd_isoch \<equiv> sec_set_body lens_IsochK"

definition driver_id :: "nat \<Rightarrow> libk \<Rightarrow> int option" where
  "driver_id u w = do {
     d \<leftarrow> Device (sec_body lens_UsbK u w);
     api \<leftarrow> DriverAPI (sec_body lens_DevK d w);
     Some (Info_DriverID api) }"

definition isoch_driver :: "nat \<Rightarrow> libk \<Rightarrow> int option" where
  "isoch_driver h w = do { u \<leftarrow> Isoch_UsbHandle (sec_body lens_IsochK h w); driver_id u w }"

text \<open>
  \<open>Isoch_Cleanup\<close>. The context of libusbK is freed but its pointer is kept; memory that is freed is not
  tracked. A handle without a device handle has nothing to release.
\<close>

definition Isoch_Cleanup :: "nat \<Rightarrow> libk \<Rightarrow> libk" where
  "Isoch_Cleanup h w =
     (let w1 = sec_dead lens_IsochK h w; b = sec_body lens_IsochK h w1 in
      case Isoch_UsbHandle b of
        None \<Rightarrow> w1
      | Some u \<Rightarrow>
          let x = BufferHandle (Ctx_UsbW b);
              w2 = (if driver_id u w1 = Some KUSB_DRVID_WINUSB then
                      let w' = (if x \<noteq> 0 then upd_isoch h (\<lambda>b. b\<lparr>Ctx_UsbW := (Ctx_UsbW b)\<lparr>BufferHandle := 0\<rparr>\<rparr>)
                                  (log_event (UnregisterIsochBuffer x) w1) else w1)
                      in upd_isoch h (\<lambda>b. b\<lparr>Ctx_UsbW := (Ctx_UsbW b)\<lparr>W_Packets := None\<rparr>\<rparr>) w'
                    else w1)
          in snd (Dec_UsbK u w2))"

fun run_IsochK :: "cleanup \<Rightarrow> nat \<Rightarrow> libk \<Rightarrow> libk" where
  "run_IsochK Isoch_Cleanup_cb h w = Isoch_Cleanup h w"
| "run_IsochK _ h w = w"

definition Dec_IsochK :: "nat \<Rightarrow> libk \<Rightarrow> bool \<times> libk" where
  "Dec_IsochK h w = PoolHandle_Dec lens_IsochK run_IsochK (CurrentThreadId w) h w"

text \<open>
  \<open>IsochK_Init\<close>. Asking the device for its speed goes through its driver (\<open>query\<close>); registering the
  buffer with WinUSB answers an error code and a handle (\<open>register\<close>).
\<close>

definition Get_PipeInterfaceHandle :: "nat \<Rightarrow> UCHAR \<Rightarrow> libk \<Rightarrow> HANDLE option" where
  "Get_PipeInterfaceHandle u p w = do {
     d \<leftarrow> Device (sec_body lens_UsbK u w);
     st \<leftarrow> UsbStack (sec_body lens_DevK d w);
     Some (PipeCache st ! PIPEID_TO_IDX p) }"

definition zero_usbd_packet :: usbd_iso_packet where
  "zero_usbd_packet = \<lparr>W_Offset = 0, W_Length = 0, W_Status = 0\<rparr>"

definition isoch_context ::
  "(HANDLE \<Rightarrow> UCHAR \<Rightarrow> addr \<Rightarrow> UINT \<Rightarrow> DWORD \<times> HANDLE) \<Rightarrow> nat \<Rightarrow> nat \<Rightarrow> UINT \<Rightarrow> libk \<Rightarrow> (bool \<times> libk) option" where
  "isoch_context register u h n w = do {
     drv \<leftarrow> driver_id u w;
     let b = sec_body lens_IsochK h w;
     (if drv = KUSB_DRVID_LIBUSBK then
        let (ok, w1) = Mem_Alloc w in
        (case IsoK_Init (\<lambda>_. ok) True (sint (PacketCount b)) 0 of
           Inl e \<Rightarrow> Some (False, SetLastError ERROR_NOT_ENOUGH_MEMORY w1)
         | Inr c \<Rightarrow> Some (True, upd_isoch h (\<lambda>b. b\<lparr>Ctx_UsbK := Some c\<rparr>) w1))
      else if drv = KUSB_DRVID_WINUSB then do {
        ih \<leftarrow> Get_PipeInterfaceHandle u (Isoch_PipeID b) w;
        let (e, x) = register ih (Isoch_PipeID b) (TransferBuffer b) (TransferBufferSize b);
        (if e \<noteq> ERROR_SUCCESS then Some (False, SetLastError e w)
         else
           let (ok, w1) = Mem_Alloc w in
           Some (True, upd_isoch h (\<lambda>b. b\<lparr>Ctx_UsbW := \<lparr>BufferHandle = x,
             W_Packets = (if ok then Some (replicate (unat n) zero_usbd_packet) else None),
             W_NumberOfPackets = word_of_int (to_short (uint n))\<rparr>\<rparr>) w1)) }
      else Some (False, SetLastError ERROR_NOT_SUPPORTED w)) }"

definition IsochK_Init ::
  "(nat \<Rightarrow> libk \<Rightarrow> (bool \<times> (UCHAR list \<times> UINT) option \<times> libk) option)
   \<Rightarrow> (HANDLE \<Rightarrow> UCHAR \<Rightarrow> addr \<Rightarrow> UINT \<Rightarrow> DWORD \<times> HANDLE)
   \<Rightarrow> bool \<Rightarrow> nat option \<Rightarrow> UCHAR \<Rightarrow> UINT \<Rightarrow> addr \<Rightarrow> UINT \<Rightarrow> libk \<Rightarrow> (bool \<times> nat option \<times> libk) option" where
  "IsochK_Init query register out_valid intf p n buf buf_size w =
     (if \<not> out_valid then fail ERROR_INVALID_PARAMETER w
      else case intf of
        None \<Rightarrow> fail ERROR_INVALID_PARAMETER w
      | Some u \<Rightarrow>
          if n = 0 then fail ERROR_INVALID_PARAMETER w
          else
            let (ok, w1) = sec_inc lens_UsbK u w in
            if \<not> ok then Some (False, None, w1)
            else case sec_acquire lens_IsochK Init_Handle_IsochK (Some Isoch_Cleanup_cb) w1 of
                (None, w2) \<Rightarrow> Some (False, None, snd (Dec_UsbK u w2))
              | (Some h, w2) \<Rightarrow> do {
                  let failed = (\<lambda>w. Some (False, None, snd (Dec_IsochK h w)));
                  (ok, out, w3) \<leftarrow> query u w2;
                  let speed = (case out of Some (b # _, _) \<Rightarrow> b | _ \<Rightarrow> 1);
                  (if \<not> ok then failed w3
                   else do {
                     (ok, info, w4) \<leftarrow> UsbStack_QuerySelectedPipe u p False True w3;
                     (case info of
                        None \<Rightarrow> failed w4
                      | Some info \<Rightarrow>
                          if \<not> ok then failed w4
                          else do {
                            let w5 = upd_isoch h (\<lambda>b. b\<lparr>PipeInformation := info, Isoch_UsbHandle := Some u, Isoch_PipeID := p,
                              PacketCount := n, TransferBuffer := buf, TransferBufferSize := buf_size, IsHighSpeed := 3 \<le> speed,
                              PacketInformation := IsochK_CalcPacketInformation (3 \<le> speed) info\<rparr>) w4;
                            (ok, w6) \<leftarrow> isoch_context register u h n w5;
                            (if \<not> ok then failed w6 else Some (True, Some h, sec_live lens_IsochK h w6)) }) }) })"

text \<open>\<open>IsochK_Free\<close> returns what the release of the reference returns.\<close>

definition IsochK_Free :: "nat option \<Rightarrow> libk \<Rightarrow> bool \<times> libk" where
  "IsochK_Free h w = (case h of None \<Rightarrow> (False, SetLastError ERROR_INVALID_HANDLE w) | Some h \<Rightarrow> Dec_IsochK h w)"

text \<open>
  The frame of the operations: check the public handle, take a reference, find the driver, run the
  body, drop the reference. On success the result is that of the drop.
\<close>

definition with_IsochK ::
  "nat \<Rightarrow> (libk \<Rightarrow> (bool \<times> 'r option \<times> libk) option) \<Rightarrow> libk \<Rightarrow> (bool \<times> 'r option \<times> libk) option" where
  "with_IsochK h bdy = valid_handle lens_IsochK h (\<lambda>w.
     let (ok, w1) = sec_inc lens_IsochK h w in
     if \<not> ok then Some (False, None, w1)
     else do {
       (ok, out, w2) \<leftarrow> bdy w1;
       let (r, w3) = Dec_IsochK h w2;
       Some (ok \<and> r, out, w3) })"

text \<open>The two drivers that know isochronous transfers.\<close>

definition isoch_switch ::
  "nat \<Rightarrow> (int \<Rightarrow> libk \<Rightarrow> (bool \<times> 'r option \<times> libk) option) \<Rightarrow> libk \<Rightarrow> (bool \<times> 'r option \<times> libk) option" where
  "isoch_switch h k w = do {
     drv \<leftarrow> isoch_driver h w;
     (if drv = KUSB_DRVID_LIBUSBK \<or> drv = KUSB_DRVID_WINUSB then k drv w else fail ERROR_NOT_SUPPORTED w) }"

definition IsochK_SetPacketOffsets :: "nat \<Rightarrow> UINT \<Rightarrow> libk \<Rightarrow> (bool \<times> unit option \<times> libk) option" where
  "IsochK_SetPacketOffsets h sz = with_IsochK h (isoch_switch h (\<lambda>drv w. do {
     let b = sec_body lens_IsochK h w;
     b1 \<leftarrow> offsets_loop (put_desc drv) sz 0 (unat (PacketCount b)) 0 b;
     Some (True, None, upd_isoch h (\<lambda>_. b1) w) }))"

definition IsochK_GetPacket :: "nat \<Rightarrow> UINT \<Rightarrow> libk \<Rightarrow> (bool \<times> iso_desc option \<times> libk) option" where
  "IsochK_GetPacket h i = with_IsochK h (\<lambda>w.
     let b = sec_body lens_IsochK h w in
     if PacketCount b \<le> i then fail ERROR_INVALID_PARAMETER w
     else isoch_switch h (\<lambda>drv w. do { d \<leftarrow> get_desc drv b (unat i); Some (True, Some d, w) }) w)"

definition IsochK_SetPacket :: "nat \<Rightarrow> UINT \<Rightarrow> iso_desc \<Rightarrow> libk \<Rightarrow> (bool \<times> unit option \<times> libk) option" where
  "IsochK_SetPacket h i d = with_IsochK h (\<lambda>w.
     let b = sec_body lens_IsochK h w in
     if PacketCount b \<le> i then fail ERROR_INVALID_PARAMETER w
     else isoch_switch h (\<lambda>drv w. do {
       b1 \<leftarrow> put_desc drv b (unat i) d;
       Some (True, None, upd_isoch h (\<lambda>_. b1) w) }) w)"

definition IsochK_SetNumberOfPackets :: "nat \<Rightarrow> UINT \<Rightarrow> libk \<Rightarrow> (bool \<times> unit option \<times> libk) option" where
  "IsochK_SetNumberOfPackets h n = with_IsochK h (\<lambda>w.
     let b = sec_body lens_IsochK h w in
     if PacketCount b < n then fail ERROR_OUT_OF_STRUCTURES w
     else isoch_switch h (\<lambda>drv w.
       if drv = KUSB_DRVID_LIBUSBK then do {
         c \<leftarrow> Ctx_UsbK b;
         Some (True, None, upd_isoch h (\<lambda>b. b\<lparr>Ctx_UsbK := Some (c\<lparr>NumberOfPackets := to_short (uint n)\<rparr>)\<rparr>) w) }
       else Some (True, None, upd_isoch h (\<lambda>b. b\<lparr>Ctx_UsbW := (Ctx_UsbW b)\<lparr>W_NumberOfPackets := n\<rparr>\<rparr>) w)) w)"

definition IsochK_GetNumberOfPackets :: "nat \<Rightarrow> bool \<Rightarrow> libk \<Rightarrow> (bool \<times> UINT option \<times> libk) option" where
  "IsochK_GetNumberOfPackets h out_valid = with_IsochK h (\<lambda>w.
     if \<not> out_valid then fail ERROR_INVALID_PARAMETER w
     else isoch_switch h (\<lambda>drv w. do {
       n \<leftarrow> number_of_packets drv (sec_body lens_IsochK h w);
       Some (True, Some n, w) }) w)"

definition IsochK_EnumPackets ::
  "nat \<Rightarrow> (UINT \<Rightarrow> iso_desc \<Rightarrow> 'u \<Rightarrow> bool \<times> iso_desc \<times> 'u) option \<Rightarrow> UINT \<Rightarrow> 'u \<Rightarrow> libk \<Rightarrow> (bool \<times> 'u option \<times> libk) option" where
  "IsochK_EnumPackets h cb start u = valid_handle lens_IsochK h (
     case cb of
       None \<Rightarrow> fail ERROR_INVALID_PARAMETER
     | Some f \<Rightarrow> with_IsochK h (\<lambda>w.
         let b = sec_body lens_IsochK h w in
         if PacketCount b \<le> start then fail ERROR_INVALID_PARAMETER w
         else isoch_switch h (\<lambda>drv w. do {
           n \<leftarrow> number_of_packets drv b;
           (b1, u1) \<leftarrow> desc_enum_loop (get_desc drv) (put_desc drv) f (unat start) (unat n - unat start) b u;
           Some (True, Some u1, upd_isoch h (\<lambda>_. b1) w) }) w))"

section \<open>Transfers\<close>

text \<open>
  \<open>UsbK_IsochReadPipe\<close> and \<open>UsbK_IsochWritePipe\<close>. The next frame number is computed with the rate of
  the pipe, which the code divides by.
\<close>

definition CalclNextIsoFrameNumber :: "UINT \<Rightarrow> isoch_obj \<Rightarrow> UINT option" where
  "CalclNextIsoFrameNumber f b =
     (let rate = BytesPerMillisecond (PacketInformation b) in
      if rate = 0 then None else Some (f + TransferBufferSize b div rate))"

definition next_frame :: "UINT option \<Rightarrow> isoch_obj \<Rightarrow> UINT option option" where
  "next_frame frame b = (case frame of None \<Rightarrow> Some None | Some f \<Rightarrow> map_option Some (CalclNextIsoFrameNumber f b))"

definition transfer_context :: "UINT option \<Rightarrow> UINT \<Rightarrow> iso_context \<Rightarrow> iso_context" where
  "transfer_context frame n c =
     (let c1 = (if n \<noteq> 0 then c\<lparr>NumberOfPackets := to_short (uint n)\<rparr> else c) in
      case frame of None \<Rightarrow> c1\<lparr>StartFrame := 0, Flags := 0\<rparr> | Some f \<Rightarrow> c1\<lparr>StartFrame := f, Flags := 1\<rparr>)"

definition isoch_transfer ::
  "(UCHAR \<Rightarrow> iso_context \<Rightarrow> ULONG \<Rightarrow> nat \<Rightarrow> kioctl) \<Rightarrow> driver \<Rightarrow> nat \<Rightarrow> UINT \<Rightarrow> UINT option \<Rightarrow> UINT \<Rightarrow> addr \<Rightarrow> libk
   \<Rightarrow> (bool \<times> UINT option \<times> libk) option" where
  "isoch_transfer code drv h len frame n overlapped =
     valid_handle lens_IsochK h (with_ref lens_IsochK Dec_IsochK ERROR_RESOURCE_NOT_AVAILABLE h (\<lambda>w.
       if \<not> IsHandleValid overlapped then fail ERROR_INVALID_PARAMETER w
       else do {
         let b = sec_body lens_IsochK h w;
         c \<leftarrow> Ctx_UsbK b;
         let len1 = (if len = 0 then TransferBufferSize b else len);
         next \<leftarrow> next_frame frame b;
         let c2 = transfer_context frame n c;
         let w1 = upd_isoch h (\<lambda>b. b\<lparr>Ctx_UsbK := Some c2\<rparr>) w;
         u \<leftarrow> Isoch_UsbHandle b;
         d \<leftarrow> Device (sec_body lens_UsbK u w1);
         let (ok, w2) = Ioctl_Async drv (MasterDeviceHandle (sec_body lens_DevK d w1))
           (code (Isoch_PipeID b) c2 (iso_context_size c2) (unat len1)) True w1;
         Some (ok, next, w2) }))"

definition UsbK_IsochReadPipe ::
  "driver \<Rightarrow> nat \<Rightarrow> UINT \<Rightarrow> UINT option \<Rightarrow> UINT \<Rightarrow> addr \<Rightarrow> libk \<Rightarrow> (bool \<times> UINT option \<times> libk) option" where
  "UsbK_IsochReadPipe = isoch_transfer ISOEX_READ"

definition UsbK_IsochWritePipe ::
  "driver \<Rightarrow> nat \<Rightarrow> UINT \<Rightarrow> UINT option \<Rightarrow> UINT \<Rightarrow> addr \<Rightarrow> libk \<Rightarrow> (bool \<times> UINT option \<times> libk) option" where
  "UsbK_IsochWritePipe = isoch_transfer ISOEX_WRITE"


section \<open>Arrays of descriptors\<close>

text \<open>
  What the operations rely on: a descriptor that is written is read back as far as the driver keeps
  it, the others stay, and an array does not change its length.
\<close>

locale desc_array =
  fixes get :: "isoch_obj \<Rightarrow> nat \<Rightarrow> iso_desc option"
    and put :: "isoch_obj \<Rightarrow> nat \<Rightarrow> iso_desc \<Rightarrow> isoch_obj option"
    and keep :: "iso_desc \<Rightarrow> iso_desc"
  assumes get_put: "put b i d = Some b' \<Longrightarrow> get b' j = (if j = i then Some (keep d) else get b j)"
    and put_iff: "put b i d = None \<longleftrightarrow> get b i = None"
begin

lemma put_Some: "get b i = Some d0 \<Longrightarrow> \<exists>b'. put b i d = Some b' \<and> (\<forall>j. get b' j = (if j = i then Some (keep d) else get b j))"
  using put_iff [of b i d] get_put [of b i d] by (cases "put b i d") auto

lemma offsets_loop_spec:
  "\<forall>k<n. get b (i + k) \<noteq> None \<Longrightarrow>
   \<exists>b'. offsets_loop put sz i n off b = Some b' \<and>
     (\<forall>j. get b' j = (if i \<le> j \<and> j < i + n then Some (keep (off + word_of_nat (j - i) * sz, sz, 0)) else get b j))"
proof (induction n arbitrary: i off b)
  case (Suc n)
  obtain d0 where "get b i = Some d0" using Suc.prems by force
  then obtain b1 where b1: "put b i (off, sz, 0) = Some b1"
    "\<And>j. get b1 j = (if j = i then Some (keep (off, sz, 0)) else get b j)"
    using put_Some by blast
  have "\<forall>k<n. get b1 (i + 1 + k) \<noteq> None"
  proof (intro allI impI)
    fix k assume "k < n"
    then have "get b (i + Suc k) \<noteq> None" using Suc.prems by blast
    then show "get b1 (i + 1 + k) \<noteq> None" using b1(2) by simp
  qed
  then obtain b' where b': "offsets_loop put sz (i + 1) n (off + sz) b1 = Some b'"
    "\<And>j. get b' j = (if i + 1 \<le> j \<and> j < i + 1 + n then Some (keep (off + sz + word_of_nat (j - (i + 1)) * sz, sz, 0)) else get b1 j)"
    using Suc.IH by blast
  have "get b' j = (if i \<le> j \<and> j < i + Suc n then Some (keep (off + word_of_nat (j - i) * sz, sz, 0)) else get b j)" for j
  proof (cases "i < j \<and> j < i + Suc n")
    case True
    have e: "j - i = Suc (j - (i + 1))" using True by (simp add: Suc_diff_Suc)
    show ?thesis using True b'(2) [of j] unfolding e by (simp add: algebra_simps)
  next
    case False
    then show ?thesis using b'(2) [of j] b1(2) [of j] by auto
  qed
  then show ?case using b1(1) b'(1) by auto
qed auto

text \<open>An enumeration that lets the callback see the descriptors writes back what it makes of them.\<close>

lemma desc_enum_loop_total:
  "\<forall>k<n. get b (i + k) \<noteq> None \<Longrightarrow> desc_enum_loop get put cb i n b u \<noteq> None"
proof (induction n arbitrary: i b u)
  case (Suc n)
  obtain d0 where d0: "get b i = Some d0" using Suc.prems by force
  obtain cont d1 u1 where cb: "cb (word_of_nat i) d0 u = (cont, d1, u1)" by (cases "cb (word_of_nat i) d0 u")
  obtain b1 where b1: "put b i d1 = Some b1" "\<And>j. get b1 j = (if j = i then Some (keep d1) else get b j)"
    using put_Some [OF d0] by blast
  have "\<forall>k<n. get b1 (i + 1 + k) \<noteq> None"
  proof (intro allI impI)
    fix k assume "k < n"
    then have "get b (i + Suc k) \<noteq> None" using Suc.prems by blast
    then show "get b1 (i + 1 + k) \<noteq> None" using b1(2) by simp
  qed
  then show ?case using Suc.IH [of b1 "i + 1" u1] d0 cb b1(1) by auto
qed simp

end

lemma low_half: "(ucast (ucast x :: USHORT) :: UINT) = x AND 0xFFFF"
proof -
  have m: "(0xFFFF :: UINT) = mask 16" by (simp add: mask_eq_exp_minus_1)
  show ?thesis unfolding m by (rule bit_word_eqI) (auto simp: bit_simps)
qed

lemma get_put_desc:
  "put_desc drv b i d = Some b' \<Longrightarrow> get_desc drv b' j = (if j = i then Some (kept_desc drv d) else get_desc drv b j)"
  by (cases d) (auto simp: put_desc_def get_desc_def kept_desc_def put_packet_def packet_at_def nth_list_update
      low_half split: if_splits elim!: bind_SomeE)

lemma put_desc_iff: "put_desc drv b i d = None \<longleftrightarrow> get_desc drv b i = None"
  by (cases d) (auto simp: put_desc_def get_desc_def put_packet_def packet_at_def bind_eq_None_conv split: if_splits)

interpretation libusbk_desc: desc_array "get_desc KUSB_DRVID_LIBUSBK" "put_desc KUSB_DRVID_LIBUSBK" "kept_desc KUSB_DRVID_LIBUSBK"
  by unfold_locales (rule get_put_desc put_desc_iff, assumption?)+

interpretation winusb_desc: desc_array "get_desc KUSB_DRVID_WINUSB" "put_desc KUSB_DRVID_WINUSB" "kept_desc KUSB_DRVID_WINUSB"
  by unfold_locales (rule get_put_desc put_desc_iff, assumption?)+


section \<open>What an operation on a handle does\<close>

definition isoch_ok :: "libk \<Rightarrow> nat \<Rightarrow> int \<Rightarrow> bool" where
  "isoch_ok w h drv \<longleftrightarrow> alive (IsochK w) h \<and> Ref (Handles (IsochK w) ! h) < 2147483646 \<and> isoch_driver h w = Some drv"

abbreviation referred :: "nat \<Rightarrow> libk \<Rightarrow> libk" where
  "referred h w \<equiv> w\<lparr>IsochK := upd_handle h (\<lambda>k. k\<lparr>Ref := Ref k + 1\<rparr>) (IsochK w)\<rparr>"

lemma upd_isoch_eq: "upd_isoch h f w = w\<lparr>IsochK := upd_handle h (\<lambda>k. k\<lparr>body := f (body k)\<rparr>) (IsochK w)\<rparr>"
  by (simp add: sec_set_body_def)

lemma driver_id_IsochK [simp]: "driver_id u (w\<lparr>IsochK := s\<rparr>) = driver_id u w"
  by (simp add: driver_id_def sec_body_def)

lemma isoch_referred:
  assumes "alive (IsochK w) h"
  shows "sec_body lens_IsochK h (referred h w) = sec_body lens_IsochK h w" "isoch_driver h (referred h w) = isoch_driver h w"
  using assms by (simp_all add: sec_body_def isoch_driver_def alive_def)

lemma with_IsochK_run:
  assumes "isoch_ok w h drv" "bdy (referred h w) = Some (ok, out, v)"
    and "IsochK v = upd_handle h (\<lambda>k. k\<lparr>Ref := Ref k + 1, body := f (body k)\<rparr>) (IsochK w)"
  shows "with_IsochK h bdy w = Some (ok, out, v\<lparr>IsochK := upd_handle h (\<lambda>k. k\<lparr>body := f (body k)\<rparr>) (IsochK w)\<rparr>)"
proof -
  have a: "alive (IsochK w) h" and h: "h < handle_count (IsochK w)" using assms(1) by (auto simp: isoch_ok_def alive_def)
  have "alive (IsochK v) h" "1 < Ref (Handles (IsochK v) ! h)"
    using assms(1,3) h by (auto simp: isoch_ok_def alive_def)
  then have "Dec_IsochK h v = (True, v\<lparr>IsochK := upd_handle h (\<lambda>k. k\<lparr>Ref := Ref k - 1\<rparr>) (IsochK v)\<rparr>)"
    using isochk.dec_alive [of v h] by (simp add: Dec_IsochK_def)
  moreover have "upd_handle h (\<lambda>k. k\<lparr>Ref := Ref k - 1\<rparr>) (IsochK v) = upd_handle h (\<lambda>k. k\<lparr>body := f (body k)\<rparr>) (IsochK w)"
    using h by (simp add: assms(3))
  ultimately show ?thesis
    using assms(2) isochk.inc_alive [of w h] a h by (simp add: with_IsochK_def valid_handle_run)
qed

lemma with_IsochK_keep:
  assumes "isoch_ok w h drv" "bdy (referred h w) = Some (ok, out, referred h v)" "IsochK v = IsochK w"
  shows "with_IsochK h bdy w = Some (ok, out, v)"
proof -
  have h: "h < handle_count (IsochK w)" using assms(1) by (auto simp: isoch_ok_def alive_def)
  have "with_IsochK h bdy w = Some (ok, out, (referred h v)\<lparr>IsochK := upd_handle h (\<lambda>k. k\<lparr>body := id (body k)\<rparr>) (IsochK w)\<rparr>)"
    by (rule with_IsochK_run [where bdy = bdy and w = w and h = h and f = id and v = "referred h v", OF assms(1,2)]) (use assms(3) h in simp)
  then show ?thesis using assms(3) h by (cases v) (simp add: upd_handle_id)
qed

lemma with_IsochK_put:
  assumes "isoch_ok w h drv" "bdy (referred h w) = Some (ok, out, upd_isoch h (\<lambda>_. b) (referred h w))"
  shows "with_IsochK h bdy w = Some (ok, out, upd_isoch h (\<lambda>_. b) w)"
proof -
  have h: "h < handle_count (IsochK w)" using assms(1) by (auto simp: isoch_ok_def alive_def)
  have "with_IsochK h bdy w = Some (ok, out, (upd_isoch h (\<lambda>_. b) (referred h w))\<lparr>IsochK := upd_handle h (\<lambda>k. k\<lparr>body := (\<lambda>_. b) (body k)\<rparr>) (IsochK w)\<rparr>)"
    by (rule with_IsochK_run [where bdy = bdy and w = w and h = h and f = "\<lambda>_. b" and v = "upd_isoch h (\<lambda>_. b) (referred h w)", OF assms(1,2)])
      (use h in \<open>simp add: upd_isoch_eq\<close>)
  then show ?thesis by (simp add: upd_isoch_eq)
qed

lemma isoch_ok_upd:
  assumes "isoch_ok w h drv" "put_desc drv (sec_body lens_IsochK h w) i d = Some b"
  shows "isoch_ok (upd_isoch h (\<lambda>_. b) w) h drv" "sec_body lens_IsochK h (upd_isoch h (\<lambda>_. b) w) = b"
proof -
  have h: "h < handle_count (IsochK w)" using assms(1) by (auto simp: isoch_ok_def alive_def)
  have "Isoch_UsbHandle b = Isoch_UsbHandle (sec_body lens_IsochK h w)"
    using assms(2) by (cases d) (auto simp: put_desc_def split: if_splits elim!: bind_SomeE)
  then show "isoch_ok (upd_isoch h (\<lambda>_. b) w) h drv"
    using assms(1) h by (simp add: isoch_ok_def upd_isoch_eq alive_def isoch_driver_def sec_body_def)
  show "sec_body lens_IsochK h (upd_isoch h (\<lambda>_. b) w) = b" using h by (simp add: upd_isoch_eq sec_body_def)
qed

text \<open>The request of a transfer does not look at the isochronous handles, and leaves them as they are.\<close>

lemma Ioctl_Async_IsochK:
  "Ioctl_Async drv dev code True (w\<lparr>IsochK := s\<rparr>) = (let (ok, v) = Ioctl_Async drv dev code True w in (ok, v\<lparr>IsochK := s\<rparr>))"
  by (simp add: Ioctl_Async_def Let_def SetLastError_def log_event_def)

lemma isoch_transfer_run:
  assumes "isoch_ok w h drvid" "b = sec_body lens_IsochK h w" "Ctx_UsbK b = Some c" "Isoch_UsbHandle b = Some u"
    and "Device (sec_body lens_UsbK u w) = Some d" "IsHandleValid overlapped"
    and "next_frame frame b = Some next" "c2 = transfer_context frame n c"
    and "Ioctl_Async drv (MasterDeviceHandle (sec_body lens_DevK d w)) (code (Isoch_PipeID b) c2 (iso_context_size c2)
        (unat (if len = 0 then TransferBufferSize b else len))) True w = (ok, v)"
  shows "isoch_transfer code drv h len frame n overlapped w =
     Some (ok, next, v\<lparr>IsochK := upd_handle h (\<lambda>k. k\<lparr>body := (body k)\<lparr>Ctx_UsbK := Some c2\<rparr>\<rparr>) (IsochK w)\<rparr>)"
proof -
  have a: "alive (IsochK w) h" and h: "h < handle_count (IsochK w)" and ref: "Ref (Handles (IsochK w) ! h) < 2147483646"
    using assms(1) by (auto simp: isoch_ok_def alive_def)
  note r = isoch_referred [OF a]
  let ?f = "\<lambda>b. b\<lparr>Ctx_UsbK := Some c2\<rparr>"
  let ?v = "v\<lparr>IsochK := upd_handle h (\<lambda>k. k\<lparr>Ref := Ref k + 1, body := ?f (body k)\<rparr>) (IsochK w)\<rparr>"
  define bdy where "bdy = (\<lambda>w. if \<not> IsHandleValid overlapped then fail ERROR_INVALID_PARAMETER w
       else do {
         let b = sec_body lens_IsochK h w;
         c \<leftarrow> Ctx_UsbK b;
         let len1 = (if len = 0 then TransferBufferSize b else len);
         next \<leftarrow> next_frame frame b;
         let c2 = transfer_context frame n c;
         let w1 = upd_isoch h (\<lambda>b. b\<lparr>Ctx_UsbK := Some c2\<rparr>) w;
         u \<leftarrow> Isoch_UsbHandle b;
         d \<leftarrow> Device (sec_body lens_UsbK u w1);
         let (ok, w2) = Ioctl_Async drv (MasterDeviceHandle (sec_body lens_DevK d w1))
           (code (Isoch_PipeID b) c2 (iso_context_size c2) (unat len1)) True w1;
         Some (ok, next, w2) })"
  have "bdy (referred h w) = Some (ok, next, ?v)"
    using assms(3-9) r(1) h unfolding bdy_def r(1) assms(2) [symmetric]
    by (simp add: Let_def upd_isoch_eq Ioctl_Async_IsochK sec_body_def)
  then have "with_ref lens_IsochK Dec_IsochK ERROR_RESOURCE_NOT_AVAILABLE h bdy w =
      Some (ok, next, lput lens_IsochK (upd_handle h (\<lambda>k. k\<lparr>body := ?f (body k)\<rparr>) (lget lens_IsochK w)) ?v)"
    by (intro isochk.with_ref_run [where run = run_IsochK]) (use a ref in \<open>simp_all add: Dec_IsochK_def\<close>)
  then show ?thesis using h by (simp add: isoch_transfer_def bdy_def valid_handle_run)
qed

lemma isoch_transfer_no_frame:
  assumes "isoch_ok w h drvid" "b = sec_body lens_IsochK h w" "Ctx_UsbK b = Some c" "IsHandleValid overlapped"
    and "CalclNextIsoFrameNumber f b = None"
  shows "isoch_transfer code drv h len (Some f) n overlapped w = None"
proof -
  have a: "alive (IsochK w) h" and h: "h < handle_count (IsochK w)"
    using assms(1) by (auto simp: isoch_ok_def alive_def)
  then show ?thesis
    using assms isoch_referred [OF a] isochk.inc_alive [of w h]
    by (simp add: isoch_transfer_def valid_handle_run with_ref_def Let_def next_frame_def)
qed

section \<open>Properties\<close>


text \<open>
  \<open>IsochK_SetPacketOffsets\<close> gives the packet \<open>k\<close> of either driver the offset \<open>k\<close> times the packet
  size and the packet size as its length, and clears its status.
\<close>

theorem IsochK_SetPacketOffsets_spec:
  assumes "isoch_ok w h drv" "drv = KUSB_DRVID_LIBUSBK \<or> drv = KUSB_DRVID_WINUSB" "b = sec_body lens_IsochK h w"
    and "\<forall>k < unat (PacketCount b). get_desc drv b k \<noteq> None"
  shows "\<exists>b'. IsochK_SetPacketOffsets h sz w = Some (True, None, upd_isoch h (\<lambda>_. b') w) \<and>
    (\<forall>k. get_desc drv b' k = (if k < unat (PacketCount b) then Some (kept_desc drv (word_of_nat k * sz, sz, 0)) else get_desc drv b k))"
proof -
  have a: "alive (IsochK w) h" and dr: "isoch_driver h w = Some drv" using assms(1) by (auto simp: isoch_ok_def)
  have "\<forall>k < unat (PacketCount b). get_desc drv b (0 + k) \<noteq> None" using assms(4) by simp
  then obtain b' where b': "offsets_loop (put_desc drv) sz 0 (unat (PacketCount b)) 0 b = Some b'"
    "\<forall>j. get_desc drv b' j = (if 0 \<le> j \<and> j < 0 + unat (PacketCount b) then Some (kept_desc drv (0 + word_of_nat (j - 0) * sz, sz, 0)) else get_desc drv b j)"
    using assms(2) libusbk_desc.offsets_loop_spec [of "unat (PacketCount b)" b 0] winusb_desc.offsets_loop_spec [of "unat (PacketCount b)" b 0]
    by metis
  have "IsochK_SetPacketOffsets h sz w = Some (True, None, upd_isoch h (\<lambda>_. b') w)"
    unfolding IsochK_SetPacketOffsets_def
    by (rule with_IsochK_put [OF assms(1)]) (use b'(1) isoch_referred [OF a] dr assms(2,3) in \<open>auto simp: Let_def isoch_switch_def\<close>)
  then show ?thesis using b'(2) by auto
qed


text \<open>
  A read of an isochronous handle that names a frame returns the frame in which the transfer after
  it can start: the frame plus the milliseconds that the buffer of the handle lasts. On a high speed
  pipe that is polled less than once a frame (interval 5 to 16) the rate that \<open>IsochK_Init\<close> has computed
  is 0, and the read divides by it.
\<close>

theorem isoch_read_next_frame:
  assumes "isoch_ok w h KUSB_DRVID_LIBUSBK" "b = sec_body lens_IsochK h w" "Ctx_UsbK b = Some c" "IsHandleValid overlapped"
    and "PacketInformation b = IsochK_CalcPacketInformation True p" "1 \<le> unat (Interval p)" "unat (Interval p) \<le> 16"
    and "MaximumBytesPerInterval p = 1024"
  shows "(unat (Interval p) \<le> 4 \<longrightarrow> (\<exists>ok v. UsbK_IsochReadPipe drv h len (Some f) n overlapped w =
       Some (ok, Some (f + TransferBufferSize b div (1024 * word_of_nat (8 div 2 ^ (unat (Interval p) - 1)))), v))) \<and>
    (5 \<le> unat (Interval p) \<longrightarrow> UsbK_IsochReadPipe drv h len (Some f) n overlapped w = None)"
proof -
  obtain u d where u: "Isoch_UsbHandle b = Some u" "Device (sec_body lens_UsbK u w) = Some d"
    using assms(1,2) by (auto simp: isoch_ok_def isoch_driver_def driver_id_def elim!: bind_SomeE)
  have rate: "BytesPerMillisecond (PacketInformation b) = 1024 * word_of_nat (8 div 2 ^ (min (unat (Interval p) - 1) 5))"
    using IsochK_CalcPacketInformation_spec [OF assms(6,7)] assms(5,8) by (simp add: Let_def)
  have "\<exists>ok v. UsbK_IsochReadPipe drv h len (Some f) n overlapped w =
       Some (ok, Some (f + TransferBufferSize b div (1024 * word_of_nat (8 div 2 ^ (unat (Interval p) - 1)))), v)"
    if i: "unat (Interval p) \<le> 4"
  proof -
    have "unat (Interval p) = 1 \<or> unat (Interval p) = 2 \<or> unat (Interval p) = 3 \<or> unat (Interval p) = 4"
      using i assms(6) by linarith
    then have nf: "CalclNextIsoFrameNumber f b =
        Some (f + TransferBufferSize b div (1024 * word_of_nat (8 div 2 ^ (unat (Interval p) - 1))))"
      using rate by (elim disjE) (simp_all add: CalclNextIsoFrameNumber_def Let_def)
    obtain ok v where r: "Ioctl_Async drv (MasterDeviceHandle (sec_body lens_DevK d w)) (ISOEX_READ (Isoch_PipeID b)
        (transfer_context (Some f) n c) (iso_context_size (transfer_context (Some f) n c))
        (unat (if len = 0 then TransferBufferSize b else len))) True w = (ok, v)" by fastforce
    show ?thesis
      unfolding UsbK_IsochReadPipe_def
      using isoch_transfer_run [where code = ISOEX_READ and n = n and frame = "Some f", OF assms(1-3) u assms(4) _ refl r] nf
      by (simp add: next_frame_def)
  qed
  moreover have "UsbK_IsochReadPipe drv h len (Some f) n overlapped w = None" if i: "5 \<le> unat (Interval p)"
  proof -
    have "min (unat (Interval p) - 1) 5 = 4 \<or> min (unat (Interval p) - 1) 5 = 5" using i by linarith
    then have "CalclNextIsoFrameNumber f b = None" using rate by (auto simp: CalclNextIsoFrameNumber_def Let_def)
    then show ?thesis unfolding UsbK_IsochReadPipe_def by (rule isoch_transfer_no_frame [OF assms(1-4)])
  qed
  ultimately show ?thesis by blast
qed

text \<open>
  A transfer may name more packets than the handle has: the driver is then given a context that is
  larger than the one that was allocated.
\<close>

theorem isoch_transfer_beyond_context:
  assumes "isoch_ok w h KUSB_DRVID_LIBUSBK" "b = sec_body lens_IsochK h w" "Ctx_UsbK b = Some c" "IsHandleValid overlapped"
    and "length (IsoPackets c) = unat (PacketCount b)" "PacketCount b < n" "unat n < 32768"
  shows "\<exists>ok v dev c' len'. UsbK_IsochWritePipe drv h len None n overlapped w = Some (ok, None, v) \<and>
     last (Trace v) = DeviceIo dev (ISOEX_WRITE (Isoch_PipeID b) c' (16 + 8 * n) len') \<and>
     16 + 8 * length (IsoPackets c') < unat (16 + 8 * n)"
proof -
  obtain u d where u: "Isoch_UsbHandle b = Some u" "Device (sec_body lens_UsbK u w) = Some d"
    using assms(1,2) by (auto simp: isoch_ok_def isoch_driver_def driver_id_def elim!: bind_SomeE)
  define c2 where "c2 = transfer_context None n c"
  define len' where "len' = unat (if len = 0 then TransferBufferSize b else len)"
  define dev where "dev = MasterDeviceHandle (sec_body lens_DevK d w)"
  obtain ok v where r: "Ioctl_Async drv dev (ISOEX_WRITE (Isoch_PipeID b) c2 (iso_context_size c2) len') True w = (ok, v)" by fastforce
  have n0: "n \<noteq> 0" using assms(6) by auto
  have "n < 32768" using assms(7) by (simp add: word_less_nat_alt)
  then have un: "uint n < 32768" by (simp add: word_less_def)
  then have "signed_take_bit 15 (uint n) = uint n" using order_trans [OF _ uint_nonnegative [of n], of "- 32768"] by (intro signed_take_bit_int_eq_self) simp_all
  then have short: "to_short (uint n) = int (unat n)" by (simp add: to_short_def)
  have "iso_alloc_size k = 16 + 8 * nat k" if "0 \<le> k" "k < 32768" for k
    using that by (simp add: iso_alloc_size_def nat_add_distrib nat_mult_distrib)
  from this [of "int (unat n)"] have "iso_alloc_size (NumberOfPackets c2) = 16 + 8 * unat n"
    using un n0 short by (simp add: c2_def transfer_context_def)
  then have size: "iso_context_size c2 = 16 + 8 * n" by (simp add: iso_context_size_def)
  have "unat (16 + 8 * n) = 16 + 8 * unat n"
    using assms(7) by (simp add: unat_word_ariths)
  moreover have "length (IsoPackets c2) < unat n"
    using assms(5,6) n0 by (simp add: c2_def transfer_context_def word_less_nat_alt)
  moreover have "Trace v = Trace w @ [DeviceIo dev (ISOEX_WRITE (Isoch_PipeID b) c2 (iso_context_size c2) len')]"
    using r by (auto simp: Ioctl_Async_def Let_def SetLastError_def log_event_def split: if_splits)
  moreover have "UsbK_IsochWritePipe drv h len None n overlapped w =
      Some (ok, None, v\<lparr>IsochK := upd_handle h (\<lambda>k. k\<lparr>body := (body k)\<lparr>Ctx_UsbK := Some c2\<rparr>\<rparr>) (IsochK w)\<rparr>)"
    unfolding UsbK_IsochWritePipe_def
    using isoch_transfer_run [OF assms(1-3) u assms(4) _ c2_def, of None drv ISOEX_WRITE len ok v] r
    by (simp add: next_frame_def len'_def dev_def)
  ultimately show ?thesis using size by fastforce
qed


section \<open>Examples\<close>

text \<open>A handle with three packets, for a pipe of a given interval, in a library with a libusbK device.\<close>

definition example_isoch :: "UCHAR \<Rightarrow> isoch_obj" where
  "example_isoch intv = \<lparr>Isoch_UsbHandle = Some 0, Isoch_PipeID = 0x81, TransferBuffer = 8, TransferBufferSize = 32768, PacketCount = 3,
     IsHighSpeed = True, PacketInformation = IsochK_CalcPacketInformation True (example_pipe intv), PipeInformation = example_pipe intv,
     Ctx_UsbK = Some \<lparr>Flags = 0, StartFrame = 0, ErrorCount = 0, NumberOfPackets = 3, UrbHdrStatus = 0, IsoPackets = replicate 3 zero_packet\<rparr>,
     Ctx_UsbW = \<lparr>BufferHandle = 0, W_Packets = None, W_NumberOfPackets = 0\<rparr>\<rparr>"

definition example_isochs :: "isoch_obj \<Rightarrow> libk" where
  "example_isochs b = (example_open 5 0)\<lparr>IsochK := \<lparr>Index = 0, DefaultUserContext = 0, Handles =
     [example_kobj SPINLOCK_HELD 1 Isoch_Cleanup_cb b]\<rparr>\<rparr>"

lemma example_isochs_ok:
  "sec_body lens_IsochK 0 (example_isochs b) = b"
  "isoch_ok (example_isochs (example_isoch i)) 0 KUSB_DRVID_LIBUSBK"
proof -
  show b: "sec_body lens_IsochK 0 (example_isochs b) = b" for b
    by (simp add: example_isochs_def sec_body_def example_kobj_def)
  have "driver_id 0 (example_open 5 0) = Some 0"
    using example_open_ok(2) [of 5 0]
    by (simp add: driver_id_def example_dev_def zero_api_def)
      (simp add: example_open_def sec_body_def sec_set_body_def example_libk_def example_kobj_def example_usb_def)
  then show "isoch_ok (example_isochs (example_isoch i)) 0 KUSB_DRVID_LIBUSBK"
    using b [of "example_isoch i"]
    by (simp add: isoch_ok_def alive_def handle_count_def isoch_driver_def)
      (simp add: example_isochs_def example_isoch_def example_kobj_def)
qed

lemma example_isoch_desc: "k < 3 \<Longrightarrow> get_desc KUSB_DRVID_LIBUSBK (example_isoch i) k = Some (0, 0, 0)"
  by (simp add: get_desc_def example_isoch_def packet_at_def zero_packet_def)


theorem IsochK_SetPacketOffsets_spec_witness:
  "\<exists>b'. IsochK_SetPacketOffsets 0 512 (example_isochs (example_isoch 1)) = Some (True, None, upd_isoch 0 (\<lambda>_. b') (example_isochs (example_isoch 1))) \<and>
     get_desc KUSB_DRVID_LIBUSBK b' 2 = Some (1024, 512, 0)"
proof -
  have n: "unat (PacketCount (example_isoch 1)) = 3" by (simp add: example_isoch_def)
  obtain b' where b': "IsochK_SetPacketOffsets 0 512 (example_isochs (example_isoch 1)) =
      Some (True, None, upd_isoch 0 (\<lambda>_. b') (example_isochs (example_isoch 1)))"
    "\<forall>k. get_desc KUSB_DRVID_LIBUSBK b' k = (if k < 3 then Some (kept_desc KUSB_DRVID_LIBUSBK (word_of_nat k * 512, 512, 0))
       else get_desc KUSB_DRVID_LIBUSBK (example_isoch 1) k)"
    using IsochK_SetPacketOffsets_spec [OF example_isochs_ok(2) [of 1], of "example_isoch 1" 512] example_isoch_desc [of _ 1]
    by (auto simp: example_isochs_ok(1) n)
  then show ?thesis by (intro exI [of _ b']) (simp add: kept_desc_def)
qed

theorem isoch_read_next_frame_witness:
  "(\<exists>ok v. UsbK_IsochReadPipe stalled_driver 0 0 (Some 100) 0 8 (example_isochs (example_isoch 1)) = Some (ok, Some 104, v)) \<and>
   UsbK_IsochReadPipe stalled_driver 0 0 (Some 100) 0 8 (example_isochs (example_isoch 5)) = None"
  using isoch_read_next_frame [OF example_isochs_ok(2) [of 1], of "example_isoch 1" _ 8 "example_pipe 1" stalled_driver 0 100 0]
    isoch_read_next_frame [OF example_isochs_ok(2) [of 5], of "example_isoch 5" _ 8 "example_pipe 5" stalled_driver 0 100 0]
  by (simp add: example_isochs_ok(1)) (simp add: example_isoch_def example_pipe_def IsHandleValid_def)

theorem isoch_transfer_beyond_context_witness:
  "\<exists>ok v dev c' len'. UsbK_IsochWritePipe stalled_driver 0 0 None 100 8 (example_isochs (example_isoch 1)) = Some (ok, None, v) \<and>
     last (Trace v) = DeviceIo dev (ISOEX_WRITE 0x81 c' 816 len') \<and> 16 + 8 * length (IsoPackets c') < 816"
  using isoch_transfer_beyond_context [OF example_isochs_ok(2) [of 1], of "example_isoch 1" _ 8 100 stalled_driver 0]
  by (simp add: example_isochs_ok(1)) (simp add: example_isoch_def IsHandleValid_def)

end
