(* ===== verification/Drv_Base.thy ===== *)
theory Drv_Base
  imports LibK_Prelude
begin

text \<open>
  The data of the kernel driver, \<open>sys/drv_private.h\<close>: status codes, the policy word of a pipe with its
  bit fields, the contexts of pipes, queues, requests, interfaces and of the device. The driver runs on
  the Windows driver framework. Its objects are handles here, and what its functions answer is a
  parameter of the operations that call them.
\<close>

section \<open>Status codes\<close>

type_synonym NTSTATUS = "32 word"

definition NT_SUCCESS :: "NTSTATUS \<Rightarrow> bool" where
  "NT_SUCCESS s \<longleftrightarrow> s < 0x80000000"

abbreviation (input) STATUS_SUCCESS :: NTSTATUS where "STATUS_SUCCESS \<equiv> 0"
abbreviation (input) STATUS_NO_MORE_ENTRIES :: NTSTATUS where "STATUS_NO_MORE_ENTRIES \<equiv> 0x8000001A"
abbreviation (input) STATUS_NOT_IMPLEMENTED :: NTSTATUS where "STATUS_NOT_IMPLEMENTED \<equiv> 0xC0000002"
abbreviation (input) STATUS_INVALID_HANDLE :: NTSTATUS where "STATUS_INVALID_HANDLE \<equiv> 0xC0000008"
abbreviation (input) STATUS_INVALID_PARAMETER :: NTSTATUS where "STATUS_INVALID_PARAMETER \<equiv> 0xC000000D"
abbreviation (input) STATUS_INVALID_DEVICE_REQUEST :: NTSTATUS where "STATUS_INVALID_DEVICE_REQUEST \<equiv> 0xC0000010"
abbreviation (input) STATUS_OBJECT_NAME_COLLISION :: NTSTATUS where "STATUS_OBJECT_NAME_COLLISION \<equiv> 0xC0000035"
abbreviation (input) STATUS_INSUFFICIENT_RESOURCES :: NTSTATUS where "STATUS_INSUFFICIENT_RESOURCES \<equiv> 0xC000009A"
abbreviation (input) STATUS_DEVICE_NOT_CONNECTED :: NTSTATUS where "STATUS_DEVICE_NOT_CONNECTED \<equiv> 0xC000009D"
abbreviation (input) STATUS_INVALID_PIPE_STATE :: NTSTATUS where "STATUS_INVALID_PIPE_STATE \<equiv> 0xC00000AD"
abbreviation (input) STATUS_FILE_CORRUPT_ERROR :: NTSTATUS where "STATUS_FILE_CORRUPT_ERROR \<equiv> 0xC0000102"
abbreviation (input) STATUS_CANCELLED :: NTSTATUS where "STATUS_CANCELLED \<equiv> 0xC0000120"
abbreviation (input) STATUS_PIPE_BROKEN :: NTSTATUS where "STATUS_PIPE_BROKEN \<equiv> 0xC000014B"
abbreviation (input) STATUS_INVALID_DEVICE_STATE :: NTSTATUS where "STATUS_INVALID_DEVICE_STATE \<equiv> 0xC0000184"
abbreviation (input) STATUS_INVALID_BUFFER_SIZE :: NTSTATUS where "STATUS_INVALID_BUFFER_SIZE \<equiv> 0xC0000206"
abbreviation (input) STATUS_NOT_FOUND :: NTSTATUS where "STATUS_NOT_FOUND \<equiv> 0xC0000225"

named_theorems drv_ops \<open>definitions of the operations of the driver\<close>

lemma NT_SUCCESS_simps [simp]:
  "NT_SUCCESS 0" "\<not> NT_SUCCESS STATUS_NO_MORE_ENTRIES" "\<not> NT_SUCCESS STATUS_NOT_IMPLEMENTED"
  "\<not> NT_SUCCESS STATUS_INVALID_HANDLE" "\<not> NT_SUCCESS STATUS_INVALID_PARAMETER"
  "\<not> NT_SUCCESS STATUS_INVALID_DEVICE_REQUEST" "\<not> NT_SUCCESS STATUS_OBJECT_NAME_COLLISION"
  "\<not> NT_SUCCESS STATUS_INSUFFICIENT_RESOURCES" "\<not> NT_SUCCESS STATUS_DEVICE_NOT_CONNECTED"
  "\<not> NT_SUCCESS STATUS_INVALID_PIPE_STATE" "\<not> NT_SUCCESS STATUS_FILE_CORRUPT_ERROR"
  "\<not> NT_SUCCESS STATUS_CANCELLED" "\<not> NT_SUCCESS STATUS_PIPE_BROKEN"
  "\<not> NT_SUCCESS STATUS_INVALID_DEVICE_STATE" "\<not> NT_SUCCESS STATUS_INVALID_BUFFER_SIZE"
  "\<not> NT_SUCCESS STATUS_NOT_FOUND"
  by (simp_all add: NT_SUCCESS_def)

section \<open>The policy word of a pipe\<close>

text \<open>
  \<open>PIPE_POLICIES\<close> is a union of one \<open>long\<close> and bit fields, which the compiler lays out from the
  lowest bit on.
\<close>

type_synonym policy_bits = "32 word"

datatype policy_field = IsoStartLatency | IsoAlwaysStartAsap | AutoClearStall | AllowPartialReads | AutoFlush
  | IgnoreShortPackets | RawIO | IsoNumFixedPackets | ResetPipeOnResume | ShortPacketTerminate

fun field_offset :: "policy_field \<Rightarrow> nat" where
  "field_offset IsoStartLatency = 0"
| "field_offset IsoAlwaysStartAsap = 10"
| "field_offset AutoClearStall = 11"
| "field_offset AllowPartialReads = 12"
| "field_offset AutoFlush = 13"
| "field_offset IgnoreShortPackets = 14"
| "field_offset RawIO = 15"
| "field_offset IsoNumFixedPackets = 16"
| "field_offset ResetPipeOnResume = 27"
| "field_offset ShortPacketTerminate = 28"

fun field_width :: "policy_field \<Rightarrow> nat" where
  "field_width IsoStartLatency = 10"
| "field_width IsoNumFixedPackets = 11"
| "field_width _ = 1"

definition get_field :: "policy_field \<Rightarrow> policy_bits \<Rightarrow> 32 word" where
  "get_field f v = take_bit (field_width f) (drop_bit (field_offset f) v)"

definition set_field :: "policy_field \<Rightarrow> 32 word \<Rightarrow> policy_bits \<Rightarrow> policy_bits" where
  "set_field f x v =
     (v AND NOT (push_bit (field_offset f) (mask (field_width f))))
     OR push_bit (field_offset f) (take_bit (field_width f) x)"

abbreviation policy_on :: "policy_field \<Rightarrow> policy_bits \<Rightarrow> bool" where
  "policy_on f v \<equiv> get_field f v \<noteq> 0"

lemma field_fits: "field_offset f + field_width f \<le> 29"
  by (cases f) auto

lemma field_width_pos: "0 < field_width f"
  by (cases f) auto

lemma fields_disjoint:
  "f \<noteq> g \<Longrightarrow> field_offset f + field_width f \<le> field_offset g \<or> field_offset g + field_width g \<le> field_offset f"
  by (cases f; cases g) auto

lemma get_set_same [simp]: "get_field f (set_field f x v) = take_bit (field_width f) x"
proof (rule bit_word_eqI)
  fix n :: nat
  assume "n < LENGTH(32)"
  then show "bit (get_field f (set_field f x v)) n = bit (take_bit (field_width f) x) n"
    using field_fits [of f]
    by (auto simp: get_field_def set_field_def bit_simps)
qed

lemma get_set_other [simp]:
  assumes "f \<noteq> g"
  shows "get_field f (set_field g x v) = get_field f v"
proof (rule bit_word_eqI)
  fix n :: nat
  assume "n < LENGTH(32)"
  then show "bit (get_field f (set_field g x v)) n = bit (get_field f v) n"
    using field_fits [of f] field_fits [of g] fields_disjoint [OF assms]
    by (auto simp: get_field_def set_field_def bit_simps)
qed

lemma get_field_range: "unat (get_field f v) < 2 ^ field_width f"
proof -
  have "field_width f < 32" using field_fits [of f] by (cases f) auto
  then show ?thesis
    by (simp add: get_field_def unsigned_take_bit_eq)
qed

section \<open>Byte buffers\<close>

text \<open>
  Little endian values at the start of a buffer, as \<open>((PUCHAR)value)[0]\<close>, \<open>((PUSHORT)value)[0]\<close> and
  \<open>((PULONG)value)[0]\<close> access them; \<open>None\<close> stands for an access outside the buffer.
\<close>

definition le_read :: "nat \<Rightarrow> UCHAR list \<Rightarrow> 32 word option" where
  "le_read n bs = (if length bs < n then None
     else Some (foldr (\<lambda>b a. push_bit 8 a OR ucast b) (take n bs) 0))"

definition le_write :: "nat \<Rightarrow> 32 word \<Rightarrow> UCHAR list \<Rightarrow> UCHAR list option" where
  "le_write n x bs = (if length bs < n then None
     else Some (map (\<lambda>i. ucast (drop_bit (8 * i) x)) [0..<n] @ drop n bs))"

lemma foldr_bytes:
  "foldr (\<lambda>b a. push_bit 8 a OR ucast b) (map (\<lambda>i. ucast (drop_bit (8 * (k + i)) x) :: 8 word) [0..<n]) (0 :: 32 word)
   = take_bit (8 * n) (drop_bit (8 * k) x)"
proof (induction n arbitrary: k)
  case (Suc n)
  have "[0..<Suc n] = 0 # map Suc [0..<n]"
    by (simp add: upt_conv_Cons map_Suc_upt del: upt_Suc)
  then have "foldr (\<lambda>b a. push_bit 8 a OR ucast b) (map (\<lambda>i. ucast (drop_bit (8 * (k + i)) x) :: 8 word) [0..<Suc n]) (0 :: 32 word)
      = push_bit 8 (take_bit (8 * n) (drop_bit (8 * (k + 1)) x)) OR ucast (ucast (drop_bit (8 * k) x) :: 8 word)"
    using Suc [of "k + 1"] by (simp add: o_def add.assoc add.left_commute add.commute del: upt_Suc)
  also have "\<dots> = take_bit (8 * Suc n) (drop_bit (8 * k) x)"
  proof (rule bit_word_eqI)
    fix j :: nat
    assume "j < LENGTH(32)"
    then show "bit (push_bit 8 (take_bit (8 * n) (drop_bit (8 * (k + 1)) x)) OR ucast (ucast (drop_bit (8 * k) x) :: 8 word)) j
        = bit (take_bit (8 * Suc n) (drop_bit (8 * k) x)) j"
      by (auto simp: bit_simps not_le less_diff_conv2 algebra_simps)
  qed
  finally show ?case .
qed simp

lemma le_read_le_write:
  "le_write n x bs = Some bs' \<Longrightarrow> le_read n bs' = Some (take_bit (8 * n) x)"
  using foldr_bytes [of 0 x n]
  by (auto simp: le_write_def le_read_def split: if_splits)

lemma le_write_length: "le_write n x bs = Some bs' \<Longrightarrow> length bs' = length bs"
  by (auto simp: le_write_def split: if_splits)

section \<open>Contexts\<close>

datatype wdf_pipe_type = PipeTypeInvalid | PipeTypeControl | PipeTypeIsochronous | PipeTypeBulk | PipeTypeInterrupt

record wdf_pipe_information =
  MaximumPacketSize :: ULONG
  EndpointAddress :: UCHAR
  Interval :: UCHAR
  PipeType :: wdf_pipe_type
  MaximumTransferSize :: ULONG

abbreviation endpoint_in :: "UCHAR \<Rightarrow> bool" where
  "endpoint_in a \<equiv> a AND 0x80 \<noteq> 0"

text \<open>A range of a buffer. All offsets and lengths are bounded by a 32 bit length, so that no sum wraps.\<close>

record memory_offset =
  BufferOffset :: nat
  BufferLength :: nat

text \<open>
  What a queue is created with: how it dispatches, how many requests it presents at a time, and which
  events it handles.
\<close>

datatype queue_dispatch = DispatchSequential | DispatchParallel

record queue_config =
  DispatchType :: queue_dispatch
  NumberOfPresentedRequests :: ULONG
  HasIoRead :: bool
  HasIoWrite :: bool
  HasIoStopResume :: bool
  AllowZeroLengthRequests :: bool

text \<open>
  A queue and its context. \<open>Requests\<close> are the requests that the queue holds, waiting or in work, in the
  order in which they came. The memory of the over-run buffer is its contents, \<open>None\<close> before it is
  created; the pointer to the pipe context is the place of the queue in it. \<open>UserMem\<close> is the
  contents of the buffer of the request.
\<close>

record queue_context =
  Config :: queue_config
  Requests :: "nat list"
  PipeHandle :: addr
  Info :: wdf_pipe_information
  IsFreshPipeReset :: bool
  NextFrameNumber :: ULONG
  ResetPipeForResume :: bool
  ResetPipeForStall :: bool
  OverOfs :: memory_offset
  OverBuf :: "UCHAR list option"
  UserOfs :: memory_offset
  UserMem :: "UCHAR list"
  Zlps_Required :: UCHAR
  Zlps_Sent :: UCHAR
  Xfer_Length :: nat
  Transferred :: nat

record pipe_context =
  Queue :: "queue_context option"
  TimeoutPolicy :: ULONG
  IsValid :: bool
  PipePoliciesInitialized :: bool
  PipeInformation :: wdf_pipe_information
  Pipe :: addr
  Policies :: policy_bits
  IsQueueDirty :: bool
  SimulParallelRequests :: ULONG

record interface_context =
  Interface :: addr
  InterfaceIndex :: UCHAR
  SettingIndex :: UCHAR
  bInterfaceNumber :: UCHAR
  bAlternateSetting :: UCHAR
  PipeCount :: nat
  PipeContextByIndex :: "nat option list"
  ClaimedByFileObject :: addr

record device_regsettings =
  SystemWakeEnabled :: ULONG
  DeviceIdleEnabled :: ULONG
  DeviceIdleIgnoreWakeEnable :: ULONG
  UserSetDeviceIdleEnabled :: ULONG
  DefaultIdleState :: ULONG
  DefaultIdleTimeout :: ULONG

record device_context =
  DeviceSpeed :: nat
  RemoteWakeCapable :: bool
  USBDI_Version :: nat
  bMaxPacketSize0 :: UCHAR
  ConfigurationValue :: "UCHAR option"
  PipeContextByID :: "pipe_context list"
  InterfaceContexts :: "interface_context list"
  DeviceRegSettings :: device_regsettings
  IsIdleSettingsInitialized :: bool

text \<open>The part of a request's context that the transfers use.\<close>

datatype request_type = RequestTypeRead | RequestTypeWrite | RequestTypeDeviceControl

record request_context =
  Req_Length :: nat
  ActualRequestType :: request_type
  RequestType :: request_type
  HasQueueContext :: bool
  Req_Policies :: policy_bits
  Req_Timeout :: ULONG

text \<open>\<open>USB_DEVICE_SPEED\<close> numbers low, full and high speed from 0.\<close>

definition UsbHighSpeed :: nat where "UsbHighSpeed = 2"

definition IsHighSpeedDevice :: "device_context \<Rightarrow> bool" where
  "IsHighSpeedDevice d \<longleftrightarrow> UsbHighSpeed \<le> DeviceSpeed d"

definition GetPipeContextByID :: "UCHAR \<Rightarrow> nat" where
  "GetPipeContextByID p = (if p = 0x80 then 0 else unat ((p AND 0xF) OR drop_bit 3 (p AND 0x80)))"

lemma GetPipeContextByID_less: "GetPipeContextByID p < 32"
proof -
  let ?x = "(p AND 0xF) OR drop_bit 3 (p AND 0x80)"
  have "?x = ?x AND mask 5"
    by (rule bit_word_eqI) (auto simp: bit_simps bit_numeral_rec numeral_eq_Suc less_Suc_eq)
  then have eq: "?x = take_bit 5 ?x" by (simp only: take_bit_eq_mask)
  have "unat ?x = unat (take_bit 5 ?x)" by (rule arg_cong [OF eq])
  also have "\<dots> = take_bit 5 (unat ?x)" by (rule unsigned_take_bit_eq)
  also have "\<dots> < 2 ^ 5" by (rule take_bit_nat_less_exp)
  finally show ?thesis by (simp add: GetPipeContextByID_def)
qed

definition upd_pipe :: "nat \<Rightarrow> (pipe_context \<Rightarrow> pipe_context) \<Rightarrow> device_context \<Rightarrow> device_context" where
  "upd_pipe i f d = d\<lparr>PipeContextByID := (PipeContextByID d)[i := f (PipeContextByID d ! i)]\<rparr>"

lemma upd_pipe_nth:
  "i < length (PipeContextByID d) \<Longrightarrow>
   PipeContextByID (upd_pipe i f d) ! j = (if j = i then f (PipeContextByID d ! i) else PipeContextByID d ! j)"
  by (simp add: upd_pipe_def)

end
