(* ===== verification/Drv_Policy.thy ===== *)
theory Drv_Policy
  imports Drv_Base "HOL-Library.Monad_Syntax"
begin

text \<open>
  The policies of the driver, \<open>sys/drv_policy.c\<close>: the defaults of a pipe, reading and writing the
  policies of a pipe, the power policies and the device information. A value is passed as a buffer and
  a length of its own; \<open>None\<close> stands for an access outside the buffer.
\<close>

section \<open>Constants\<close>

abbreviation (input) SHORT_PACKET_TERMINATE :: ULONG where "SHORT_PACKET_TERMINATE \<equiv> 1"
abbreviation (input) AUTO_CLEAR_STALL :: ULONG where "AUTO_CLEAR_STALL \<equiv> 2"
abbreviation (input) PIPE_TRANSFER_TIMEOUT :: ULONG where "PIPE_TRANSFER_TIMEOUT \<equiv> 3"
abbreviation (input) IGNORE_SHORT_PACKETS :: ULONG where "IGNORE_SHORT_PACKETS \<equiv> 4"
abbreviation (input) ALLOW_PARTIAL_READS :: ULONG where "ALLOW_PARTIAL_READS \<equiv> 5"
abbreviation (input) AUTO_FLUSH :: ULONG where "AUTO_FLUSH \<equiv> 6"
abbreviation (input) RAW_IO :: ULONG where "RAW_IO \<equiv> 7"
abbreviation (input) MAXIMUM_TRANSFER_SIZE :: ULONG where "MAXIMUM_TRANSFER_SIZE \<equiv> 8"
abbreviation (input) RESET_PIPE_ON_RESUME :: ULONG where "RESET_PIPE_ON_RESUME \<equiv> 9"
abbreviation (input) ISO_START_LATENCY :: ULONG where "ISO_START_LATENCY \<equiv> 0x20"
abbreviation (input) ISO_ALWAYS_START_ASAP :: ULONG where "ISO_ALWAYS_START_ASAP \<equiv> 0x21"
abbreviation (input) ISO_NUM_FIXED_PACKETS :: ULONG where "ISO_NUM_FIXED_PACKETS \<equiv> 0x22"
abbreviation (input) SIMUL_PARALLEL_REQUESTS :: ULONG where "SIMUL_PARALLEL_REQUESTS \<equiv> 0x30"
abbreviation (input) AUTO_SUSPEND :: ULONG where "AUTO_SUSPEND \<equiv> 0x81"
abbreviation (input) SUSPEND_DELAY :: ULONG where "SUSPEND_DELAY \<equiv> 0x83"
abbreviation (input) DEVICE_SPEED :: ULONG where "DEVICE_SPEED \<equiv> 1"

section \<open>Defaults\<close>

definition Policy_InitPipe :: "device_context \<Rightarrow> pipe_context \<Rightarrow> pipe_context" where
  "Policy_InitPipe d pc =
     (if PipePoliciesInitialized pc then pc
      else
        let v = set_field AllowPartialReads 1 0;
            v = set_field IsoStartLatency (if IsHighSpeedDevice d then 32 else 8) v;
            v = set_field IsoAlwaysStartAsap
                  (if endpoint_in (EndpointAddress (PipeInformation pc)) then 0 else 1) v
        in pc\<lparr>Policies := v, PipePoliciesInitialized := True\<rparr>)"

text \<open>The pipe contexts of an interface, the entries below its pipe count.\<close>

definition interface_pipes :: "interface_context \<Rightarrow> nat list" where
  "interface_pipes i = List.map_filter id (take (PipeCount i) (PipeContextByIndex i))"

definition Policy_SetAllPipesToDefault :: "device_context \<Rightarrow> device_context" where
  "Policy_SetAllPipesToDefault d =
     fold (\<lambda>i d. upd_pipe i (Policy_InitPipe d) d) (concat (map interface_pipes (InterfaceContexts d))) d"

section \<open>Pipe policies\<close>

text \<open>\<open>mPipe_CheckValueLength\<close> compares as signed numbers. It writes the length back that it was given.\<close>

definition check_value_length :: "nat \<Rightarrow> ULONG \<Rightarrow> bool" where
  "check_value_length n len \<longleftrightarrow> int n \<le> sint len"

text \<open>The cases of the switch in \<open>Policy_GetPipe\<close>: the size of the value and the value.\<close>

definition pipe_policy_value :: "pipe_context \<Rightarrow> ULONG \<Rightarrow> (nat \<times> 32 word) option" where
  "pipe_policy_value pc t =
    (let v = Policies pc in
     if t = SHORT_PACKET_TERMINATE then Some (1, get_field ShortPacketTerminate v)
     else if t = AUTO_CLEAR_STALL then Some (1, get_field AutoClearStall v)
     else if t = PIPE_TRANSFER_TIMEOUT then Some (4, TimeoutPolicy pc)
     else if t = IGNORE_SHORT_PACKETS then Some (1, get_field IgnoreShortPackets v)
     else if t = ALLOW_PARTIAL_READS then Some (1, get_field AllowPartialReads v)
     else if t = AUTO_FLUSH then Some (1, get_field AutoFlush v)
     else if t = RAW_IO then Some (1, get_field RawIO v)
     else if t = MAXIMUM_TRANSFER_SIZE then Some (4, MaximumTransferSize (PipeInformation pc))
     else if t = RESET_PIPE_ON_RESUME then Some (1, get_field ResetPipeOnResume v)
     else if t = ISO_START_LATENCY then Some (2, get_field IsoStartLatency v)
     else if t = ISO_ALWAYS_START_ASAP then Some (1, get_field IsoAlwaysStartAsap v)
     else if t = ISO_NUM_FIXED_PACKETS then Some (2, get_field IsoNumFixedPackets v)
     else if t = SIMUL_PARALLEL_REQUESTS then Some (4, SimulParallelRequests pc)
     else None)"

text \<open>A value that is read into a buffer, as all three getters do it.\<close>

definition return_value :: "nat \<Rightarrow> 32 word \<Rightarrow> UCHAR list option \<Rightarrow> ULONG \<Rightarrow> (NTSTATUS \<times> UCHAR list option) option" where
  "return_value n x buf len =
     (if \<not> check_value_length n len then Some (STATUS_INVALID_BUFFER_SIZE, buf)
      else case buf of None \<Rightarrow> Some (STATUS_SUCCESS, None)
        | Some bs \<Rightarrow> map_option (\<lambda>bs'. (STATUS_SUCCESS, Some bs')) (le_write n x bs))"

definition Policy_GetPipe ::
  "device_context \<Rightarrow> UCHAR \<Rightarrow> ULONG \<Rightarrow> UCHAR list option \<Rightarrow> ULONG option \<Rightarrow> (NTSTATUS \<times> UCHAR list option) option" where
  "Policy_GetPipe d p t buf len =
     (let pc = PipeContextByID d ! GetPipeContextByID p in
      if \<not> IsValid pc \<or> Pipe pc = NULL \<or> Queue pc = None then Some (STATUS_INVALID_PARAMETER, buf)
      else case len of None \<Rightarrow> Some (STATUS_INVALID_BUFFER_SIZE, buf)
        | Some l \<Rightarrow>
            (case pipe_policy_value pc t of
               None \<Rightarrow> Some (STATUS_INVALID_PARAMETER, buf)
             | Some (n, x) \<Rightarrow> return_value n x buf l))"

text \<open>The switch in \<open>Policy_SetPipe\<close>: the status, the new policy word and the pipe context.\<close>

type_synonym set_result = "NTSTATUS \<times> policy_bits \<times> pipe_context"

definition set_flag :: "policy_field \<Rightarrow> UCHAR list \<Rightarrow> ULONG \<Rightarrow> policy_bits \<Rightarrow> pipe_context \<Rightarrow> set_result option" where
  "set_flag f value len v pc =
     (if \<not> check_value_length 1 len then Some (STATUS_INVALID_BUFFER_SIZE, v, pc)
      else do { x \<leftarrow> le_read 1 value; Some (STATUS_SUCCESS, set_field f (if x \<noteq> 0 then 1 else 0) v, pc) })"

definition set_raw_io :: "UCHAR list \<Rightarrow> ULONG \<Rightarrow> policy_bits \<Rightarrow> pipe_context \<Rightarrow> set_result option" where
  "set_raw_io value len v pc =
     (if PipeType (PipeInformation pc) \<noteq> PipeTypeBulk \<and> PipeType (PipeInformation pc) \<noteq> PipeTypeInterrupt
      then Some (STATUS_INVALID_PARAMETER, v, pc)
      else if \<not> check_value_length 1 len then Some (STATUS_INVALID_BUFFER_SIZE, v, pc)
      else do {
        x \<leftarrow> le_read 1 value;
        Some (if x AND 1 \<noteq> get_field RawIO v
              then (STATUS_SUCCESS, set_field RawIO (if x \<noteq> 0 then 1 else 0) v, pc\<lparr>IsQueueDirty := True\<rparr>)
              else (STATUS_SUCCESS, v, pc)) })"

definition set_fixed_packets :: "device_context \<Rightarrow> UCHAR list \<Rightarrow> ULONG \<Rightarrow> policy_bits \<Rightarrow> pipe_context \<Rightarrow> set_result option" where
  "set_fixed_packets d value len v pc =
     (if \<not> check_value_length 2 len then Some (STATUS_INVALID_BUFFER_SIZE, v, pc)
      else do {
        x \<leftarrow> le_read 2 value;
        let v1 = set_field IsoNumFixedPackets (x AND 0x7FF) v;
        let n = get_field IsoNumFixedPackets v1;
        Some (if n \<noteq> 0 \<and> (if IsHighSpeedDevice d then n mod 8 \<noteq> 0 \<or> 1024 < n else 256 < n)
              then (STATUS_INVALID_PARAMETER, v1, pc) else (STATUS_SUCCESS, v1, pc)) })"

definition set_parallel_requests :: "UCHAR list \<Rightarrow> ULONG \<Rightarrow> policy_bits \<Rightarrow> pipe_context \<Rightarrow> set_result option" where
  "set_parallel_requests value len v pc =
     (if \<not> check_value_length 4 len then Some (STATUS_INVALID_BUFFER_SIZE, v, pc)
      else do {
        x \<leftarrow> le_read 4 value;
        Some (STATUS_SUCCESS, v,
              if SimulParallelRequests pc \<noteq> x then pc\<lparr>SimulParallelRequests := x, IsQueueDirty := True\<rparr> else pc) })"

definition set_pipe_switch ::
  "device_context \<Rightarrow> ULONG \<Rightarrow> UCHAR list \<Rightarrow> ULONG \<Rightarrow> policy_bits \<Rightarrow> pipe_context \<Rightarrow> set_result option" where
  "set_pipe_switch d t value len v pc =
     (if t = SHORT_PACKET_TERMINATE then set_flag ShortPacketTerminate value len v pc
      else if t = AUTO_CLEAR_STALL then set_flag AutoClearStall value len v pc
      else if t = PIPE_TRANSFER_TIMEOUT then
        do { x \<leftarrow> le_read 4 value; Some (STATUS_SUCCESS, v, pc\<lparr>TimeoutPolicy := x\<rparr>) }
      else if t = IGNORE_SHORT_PACKETS then set_flag IgnoreShortPackets value len v pc
      else if t = ALLOW_PARTIAL_READS then set_flag AllowPartialReads value len v pc
      else if t = AUTO_FLUSH then set_flag AutoFlush value len v pc
      else if t = RAW_IO then set_raw_io value len v pc
      else if t = RESET_PIPE_ON_RESUME then set_flag ResetPipeOnResume value len v pc
      else if t = ISO_START_LATENCY then
        (if \<not> check_value_length 2 len then Some (STATUS_INVALID_BUFFER_SIZE, v, pc)
         else do { x \<leftarrow> le_read 2 value; Some (STATUS_SUCCESS, set_field IsoStartLatency x v, pc) })
      else if t = ISO_ALWAYS_START_ASAP then set_flag IsoAlwaysStartAsap value len v pc
      else if t = ISO_NUM_FIXED_PACKETS then set_fixed_packets d value len v pc
      else if t = SIMUL_PARALLEL_REQUESTS then set_parallel_requests value len v pc
      else Some (STATUS_INVALID_PARAMETER, v, pc))"

definition Policy_SetPipe ::
  "device_context \<Rightarrow> UCHAR \<Rightarrow> ULONG \<Rightarrow> UCHAR list \<Rightarrow> ULONG \<Rightarrow> (NTSTATUS \<times> device_context) option" where
  "Policy_SetPipe d p t value len =
     (let i = GetPipeContextByID p; pc = PipeContextByID d ! i in
      if \<not> IsValid pc then Some (STATUS_INVALID_PARAMETER, d)
      else do {
        (s, v, pc1) \<leftarrow> set_pipe_switch d t value len (Policies pc) pc;
        Some (s, upd_pipe i (\<lambda>_. if NT_SUCCESS s then pc1\<lparr>Policies := v\<rparr> else pc1) d) })"

lemmas set_pipe_ops = set_pipe_switch_def set_flag_def set_raw_io_def set_fixed_packets_def set_parallel_requests_def

section \<open>Power policies and device information\<close>

text \<open>What the driver asks the framework for, and what it answers.\<close>

record idle_settings =
  IdleUsbSelectiveSuspend :: bool
  IdleAllowUserControl :: bool
  IdleEnabled :: bool
  IdleTimeout :: ULONG

record power_env =
  AssignS0IdleSettings :: "idle_settings \<Rightarrow> NTSTATUS"
  AssignSxWakeSettings :: "bool \<Rightarrow> NTSTATUS"

definition idle_settings_of :: "device_context \<Rightarrow> idle_settings" where
  "idle_settings_of d =
     (let r = DeviceRegSettings d in
      \<lparr>IdleUsbSelectiveSuspend = RemoteWakeCapable d \<or> DeviceIdleIgnoreWakeEnable r \<noteq> 0,
       IdleAllowUserControl = UserSetDeviceIdleEnabled r \<noteq> 0,
       IdleEnabled = DeviceIdleEnabled r \<noteq> 0 \<and> DefaultIdleState r \<noteq> 0,
       IdleTimeout = DefaultIdleTimeout r\<rparr>)"

text \<open>
  The second component is the last idle settings that the framework accepted in the call; the user may
  control wake exactly when it is enabled.
\<close>

definition Policy_InitPower :: "power_env \<Rightarrow> device_context \<Rightarrow> NTSTATUS \<times> idle_settings option \<times> device_context" where
  "Policy_InitPower e d =
     (let d = (if USBDI_Version d < 0x600
               then d\<lparr>DeviceRegSettings := (DeviceRegSettings d)\<lparr>DeviceIdleIgnoreWakeEnable := 0\<rparr>\<rparr> else d);
          idle = idle_settings_of d;
          assign = IdleEnabled idle \<or> IsIdleSettingsInitialized d;
          s = (if assign then AssignS0IdleSettings e idle else STATUS_SUCCESS)
      in if \<not> NT_SUCCESS s then (s, None, d)
         else
           let d = (if assign then d\<lparr>IsIdleSettingsInitialized := True\<rparr> else d);
               acc = (if assign then Some idle else None)
           in if SystemWakeEnabled (DeviceRegSettings d) \<noteq> 0 then (AssignSxWakeSettings e True, acc, d)
              else (s, acc, d))"

abbreviation upd_reg :: "(device_regsettings \<Rightarrow> device_regsettings) \<Rightarrow> device_context \<Rightarrow> device_context" where
  "upd_reg f d \<equiv> d\<lparr>DeviceRegSettings := f (DeviceRegSettings d)\<rparr>"

definition Policy_SetPower ::
  "power_env \<Rightarrow> device_context \<Rightarrow> ULONG \<Rightarrow> UCHAR list \<Rightarrow> ULONG \<Rightarrow> (NTSTATUS \<times> idle_settings option \<times> device_context) option" where
  "Policy_SetPower e d t value len =
     (if t = AUTO_SUSPEND then
        (if \<not> check_value_length 1 len then Some (STATUS_INVALID_BUFFER_SIZE, None, d)
         else do {
           x \<leftarrow> le_read 1 value;
           let old = DefaultIdleState (DeviceRegSettings d);
           let (s, acc, d1) = Policy_InitPower e (upd_reg (\<lambda>r. r\<lparr>DefaultIdleState := if x \<noteq> 0 then 1 else 0\<rparr>) d);
           Some (s, acc, if NT_SUCCESS s then d1 else upd_reg (\<lambda>r. r\<lparr>DefaultIdleState := old\<rparr>) d1) })
      else if t = SUSPEND_DELAY then
        (if \<not> check_value_length 4 len then Some (STATUS_INVALID_BUFFER_SIZE, None, d)
         else do {
           x \<leftarrow> le_read 4 value;
           let old = DefaultIdleTimeout (DeviceRegSettings d);
           let (s, acc, d1) = Policy_InitPower e (upd_reg (\<lambda>r. r\<lparr>DefaultIdleTimeout := x\<rparr>) d);
           Some (s, acc, if NT_SUCCESS s then d1 else upd_reg (\<lambda>r. r\<lparr>DefaultIdleTimeout := old\<rparr>) d1) })
      else Some (STATUS_INVALID_PARAMETER, None, d))"

definition Policy_GetPower :: "device_context \<Rightarrow> ULONG \<Rightarrow> UCHAR list option \<Rightarrow> ULONG \<Rightarrow> (NTSTATUS \<times> UCHAR list option) option" where
  "Policy_GetPower d t buf len =
     (if t = AUTO_SUSPEND then return_value 1 (DefaultIdleState (DeviceRegSettings d)) buf len
      else if t = SUSPEND_DELAY then return_value 4 (DefaultIdleTimeout (DeviceRegSettings d)) buf len
      else Some (STATUS_INVALID_PARAMETER, buf))"

definition Policy_GetDevice :: "device_context \<Rightarrow> ULONG \<Rightarrow> UCHAR list option \<Rightarrow> ULONG \<Rightarrow> (NTSTATUS \<times> UCHAR list option) option" where
  "Policy_GetDevice d t buf len =
     (if t = DEVICE_SPEED then return_value 1 (word_of_nat (DeviceSpeed d + 1)) buf len
      else Some (STATUS_INVALID_PARAMETER, buf))"

section \<open>What a policy that is set reads back\<close>

text \<open>
  The value that reading a policy returns after \<open>x\<close> was written over \<open>old\<close>: flags are normalised,
  a latency keeps its low 10 bits and a packet count its low 11 bits. \<open>RAW_IO\<close> looks at bit 0 only to
  decide whether anything changes, so an even value leaves the flag as it is.
\<close>

definition kept_policy :: "ULONG \<Rightarrow> 32 word \<Rightarrow> 32 word \<Rightarrow> 32 word" where
  "kept_policy t old x =
     (if t = PIPE_TRANSFER_TIMEOUT \<or> t = SIMUL_PARALLEL_REQUESTS then x
      else if t = ISO_START_LATENCY then take_bit 10 x
      else if t = ISO_NUM_FIXED_PACKETS then take_bit 11 x
      else if t = RAW_IO then (if x = 0 then 0 else if x AND 1 = 1 then 1 else old)
      else if x = 0 then 0 else 1)"

definition policy_size :: "ULONG \<Rightarrow> nat" where
  "policy_size t =
     (if t = PIPE_TRANSFER_TIMEOUT \<or> t = MAXIMUM_TRANSFER_SIZE \<or> t = SIMUL_PARALLEL_REQUESTS then 4
      else if t = ISO_START_LATENCY \<or> t = ISO_NUM_FIXED_PACKETS then 2 else 1)"

lemma take_bit_flag [simp]: "take_bit (Suc 0) (if P then 1 else 0 :: 32 word) = (if P then 1 else 0)"
  by (simp add: take_bit_eq_mod flip: One_nat_def)

lemma flag_values: "get_field RawIO v = 0 \<or> get_field RawIO v = 1"
proof -
  have "unat (get_field RawIO v) < 2" using get_field_range [of RawIO v] by simp
  then have "unat (get_field RawIO v) = 0 \<or> unat (get_field RawIO v) = 1" by linarith
  then show ?thesis by (metis unat_1 unat_eq_zero word_unat_eq_iff)
qed

lemma and_1_values: "x AND 1 = 0 \<or> x AND 1 = (1 :: 32 word)"
  by (cases "odd x") (simp_all add: and_one_eq mod_2_eq_odd)

abbreviation (input) policy_types :: "ULONG set" where
  "policy_types \<equiv> {1, 2, 3, 4, 5, 6, 7, 8, 9, 0x20, 0x21, 0x22, 0x30}"

lemma pipe_policy_value_simps [simp]:
  "pipe_policy_value pc SHORT_PACKET_TERMINATE = Some (1, get_field ShortPacketTerminate (Policies pc))"
  "pipe_policy_value pc AUTO_CLEAR_STALL = Some (1, get_field AutoClearStall (Policies pc))"
  "pipe_policy_value pc PIPE_TRANSFER_TIMEOUT = Some (4, TimeoutPolicy pc)"
  "pipe_policy_value pc IGNORE_SHORT_PACKETS = Some (1, get_field IgnoreShortPackets (Policies pc))"
  "pipe_policy_value pc ALLOW_PARTIAL_READS = Some (1, get_field AllowPartialReads (Policies pc))"
  "pipe_policy_value pc AUTO_FLUSH = Some (1, get_field AutoFlush (Policies pc))"
  "pipe_policy_value pc RAW_IO = Some (1, get_field RawIO (Policies pc))"
  "pipe_policy_value pc MAXIMUM_TRANSFER_SIZE = Some (4, MaximumTransferSize (PipeInformation pc))"
  "pipe_policy_value pc RESET_PIPE_ON_RESUME = Some (1, get_field ResetPipeOnResume (Policies pc))"
  "pipe_policy_value pc ISO_START_LATENCY = Some (2, get_field IsoStartLatency (Policies pc))"
  "pipe_policy_value pc ISO_ALWAYS_START_ASAP = Some (1, get_field IsoAlwaysStartAsap (Policies pc))"
  "pipe_policy_value pc ISO_NUM_FIXED_PACKETS = Some (2, get_field IsoNumFixedPackets (Policies pc))"
  "pipe_policy_value pc SIMUL_PARALLEL_REQUESTS = Some (4, SimulParallelRequests pc)"
  by (simp_all add: pipe_policy_value_def)

lemma pipe_policy_value_None [simp]: "t \<notin> policy_types \<Longrightarrow> pipe_policy_value pc t = None"
  by (simp add: pipe_policy_value_def)

lemma policy_size_simps [simp]:
  "policy_size 1 = 1" "policy_size 2 = 1" "policy_size 3 = 4" "policy_size 4 = 1" "policy_size 5 = 1" "policy_size 6 = 1"
  "policy_size 7 = 1" "policy_size 8 = 4" "policy_size 9 = 1" "policy_size 0x20 = 2" "policy_size 0x21 = 1"
  "policy_size 0x22 = 2" "policy_size 0x30 = 4"
  by (simp_all add: policy_size_def)

lemma policy_type_cases: "t \<in> policy_types \<or> t \<notin> policy_types" by (rule excluded_middle [THEN disj_commute [THEN iffD1]])

text \<open>The policy of type \<open>t\<close> becomes \<open>y\<close> and every other one stays.\<close>

definition policy_changed :: "ULONG \<Rightarrow> 32 word \<Rightarrow> pipe_context \<Rightarrow> pipe_context \<Rightarrow> bool" where
  "policy_changed t y pc pc' \<longleftrightarrow>
     (\<forall>t'. pipe_policy_value pc' t' = (if t' = t then Some (policy_size t, y) else pipe_policy_value pc t'))"

lemma policy_changedI:
  assumes "\<And>t'. t' \<in> policy_types \<Longrightarrow> pipe_policy_value pc' t' = (if t' = t then Some (policy_size t, y) else pipe_policy_value pc t')"
    "t \<in> policy_types"
  shows "policy_changed t y pc pc'"
  unfolding policy_changed_def
proof
  fix t'
  show "pipe_policy_value pc' t' = (if t' = t then Some (policy_size t, y) else pipe_policy_value pc t')"
  proof (cases "t' \<in> policy_types")
    case True
    then show ?thesis by (rule assms(1))
  next
    case False
    then have "t' \<noteq> t" using assms(2) by blast
    with pipe_policy_value_None [OF False] show ?thesis by simp
  qed
qed

definition type_field :: "ULONG \<Rightarrow> policy_field option" where
  "type_field t = map_of [(1, ShortPacketTerminate), (2, AutoClearStall), (4, IgnoreShortPackets), (5, AllowPartialReads),
     (6, AutoFlush), (7, RawIO), (9, ResetPipeOnResume), (0x20, IsoStartLatency), (0x21, IsoAlwaysStartAsap), (0x22, IsoNumFixedPackets)] t"

lemma type_field_cases:
  assumes "type_field t = Some f"
  shows "(t, f) \<in> set [(1, ShortPacketTerminate), (2, AutoClearStall), (4, IgnoreShortPackets), (5, AllowPartialReads),
     (6, AutoFlush), (7, RawIO), (9, ResetPipeOnResume), (0x20, IsoStartLatency), (0x21, IsoAlwaysStartAsap), (0x22, IsoNumFixedPackets)]"
  using assms unfolding type_field_def by (rule map_of_SomeD)

lemma policy_value_field:
  "type_field t = Some f \<Longrightarrow> pipe_policy_value pc t = Some (policy_size t, get_field f (Policies pc))"
  by (drule type_field_cases) auto

lemma policy_value_no_field:
  "type_field t = None \<Longrightarrow> TimeoutPolicy pc1 = TimeoutPolicy pc \<Longrightarrow> PipeInformation pc1 = PipeInformation pc
   \<Longrightarrow> SimulParallelRequests pc1 = SimulParallelRequests pc \<Longrightarrow> pipe_policy_value pc1 t = pipe_policy_value pc t"
  by (cases "t \<in> policy_types") (auto simp: type_field_def)

lemma type_field_inj: "type_field t = Some f \<Longrightarrow> type_field t' = Some f \<Longrightarrow> t = t'"
  by (drule type_field_cases, drule type_field_cases) auto

lemma policy_changed_field:
  assumes f: "type_field t = Some f" and o: "\<And>g. g \<noteq> f \<Longrightarrow> get_field g v = get_field g (Policies pc)"
    and y: "get_field f v = y" and r: "TimeoutPolicy pc1 = TimeoutPolicy pc" "PipeInformation pc1 = PipeInformation pc"
    "SimulParallelRequests pc1 = SimulParallelRequests pc"
  shows "policy_changed t y pc (pc1\<lparr>Policies := v\<rparr>)"
  unfolding policy_changed_def
proof
  fix t'
  show "pipe_policy_value (pc1\<lparr>Policies := v\<rparr>) t' = (if t' = t then Some (policy_size t, y) else pipe_policy_value pc t')"
  proof (cases "type_field t'")
    case None
    then have "t' \<noteq> t" using f by auto
    with policy_value_no_field [OF None, of "pc1\<lparr>Policies := v\<rparr>" pc] r show ?thesis by simp
  next
    case (Some g)
    then show ?thesis
      using type_field_inj [OF f, of t'] o [of g] y f policy_value_field [of t' g "pc1\<lparr>Policies := v\<rparr>"]
        policy_value_field [of t' g pc]
      by (cases "g = f") auto
  qed
qed

lemma set_flag_correct:
  assumes "set_flag f value len (Policies pc) pc = Some (s, v, pc1)" "NT_SUCCESS s"
    "type_field t = Some f" "t \<noteq> RAW_IO" "field_width f = 1" "pipe_policy_value pc t = Some (1, old)"
  obtains x where "le_read 1 value = Some x" "policy_changed t (kept_policy t old x) pc (pc1\<lparr>Policies := v\<rparr>)" "pc1 = pc"
proof -
  have "\<exists>x. le_read 1 value = Some x \<and> v = set_field f (if x \<noteq> 0 then 1 else 0) (Policies pc) \<and> pc1 = pc"
    using assms(1,2) by (cases "check_value_length 1 len"; cases "le_read 1 value") (auto simp: set_flag_def)
  then obtain x where x: "le_read 1 value = Some x" "v = set_field f (if x \<noteq> 0 then 1 else 0) (Policies pc)" "pc1 = pc"
    by blast
  have "kept_policy t old x = (if x = 0 then 0 else 1)"
    using assms(3-5) by (auto simp: kept_policy_def type_field_def split: if_splits)
  then have "policy_changed t (kept_policy t old x) pc (pc1\<lparr>Policies := v\<rparr>)"
    using assms(3,5) by (intro policy_changed_field [where f = f]) (simp_all add: x)
  with x that show thesis by blast
qed

lemma set_raw_io_correct:
  assumes "set_raw_io value len (Policies pc) pc = Some (s, v, pc1)" "NT_SUCCESS s"
  obtains x where "le_read 1 value = Some x"
    "policy_changed RAW_IO (kept_policy RAW_IO (get_field RawIO (Policies pc)) x) pc (pc1\<lparr>Policies := v\<rparr>)"
    "pc1 = pc\<lparr>IsQueueDirty := IsQueueDirty pc1\<rparr>"
proof -
  have "\<exists>x. le_read 1 value = Some x \<and>
      (v, pc1) = (if x AND 1 \<noteq> get_field RawIO (Policies pc)
        then (set_field RawIO (if x \<noteq> 0 then 1 else 0) (Policies pc), pc\<lparr>IsQueueDirty := True\<rparr>) else (Policies pc, pc))"
    using assms by (cases "le_read 1 value") (auto simp: set_raw_io_def split: if_split_asm)
  then obtain x where x: "le_read 1 value = Some x"
    and r: "v = (if x AND 1 \<noteq> get_field RawIO (Policies pc) then set_field RawIO (if x \<noteq> 0 then 1 else 0) (Policies pc) else Policies pc)"
      "pc1 = (if x AND 1 \<noteq> get_field RawIO (Policies pc) then pc\<lparr>IsQueueDirty := True\<rparr> else pc)"
    by (metis prod.inject)
  have g: "get_field RawIO v = kept_policy RAW_IO (get_field RawIO (Policies pc)) x"
    using flag_values [of "Policies pc"] and_1_values [of x] by (auto simp: r kept_policy_def)
  have "policy_changed RAW_IO (kept_policy RAW_IO (get_field RawIO (Policies pc)) x) pc (pc1\<lparr>Policies := v\<rparr>)"
    by (rule policy_changed_field [where f = RawIO]) (simp_all add: type_field_def g, simp_all add: r)
  with x r that show thesis by auto
qed

lemma le_read_less: "le_read n bs = Some x \<Longrightarrow> n \<le> length bs"
  by (auto simp: le_read_def split: if_splits)

text \<open>What the switch does: on success the policy named and nothing else, otherwise nothing.\<close>

lemma set_pipe_switch_success:
  assumes "set_pipe_switch d t value len (Policies pc) pc = Some (s, v, pc1)" "NT_SUCCESS s"
  obtains x old where "le_read (policy_size t) value = Some x" "pipe_policy_value pc t = Some (policy_size t, old)"
    "policy_changed t (kept_policy t old x) pc (pc1\<lparr>Policies := v\<rparr>)"
    "IsValid pc1 = IsValid pc" "Pipe pc1 = Pipe pc" "Queue pc1 = Queue pc" "PipeInformation pc1 = PipeInformation pc"
proof -
  note sw = assms(1) [unfolded set_pipe_switch_def]
  consider (flag) f where "set_flag f value len (Policies pc) pc = Some (s, v, pc1)" "type_field t = Some f" "t \<noteq> RAW_IO"
      "field_width f = 1" "policy_size t = 1"
    | (timeout) "t = PIPE_TRANSFER_TIMEOUT"
    | (raw) "t = RAW_IO" "set_raw_io value len (Policies pc) pc = Some (s, v, pc1)"
    | (latency) "t = ISO_START_LATENCY"
    | (fixed) "t = ISO_NUM_FIXED_PACKETS" "set_fixed_packets d value len (Policies pc) pc = Some (s, v, pc1)"
    | (parallel) "t = SIMUL_PARALLEL_REQUESTS" "set_parallel_requests value len (Policies pc) pc = Some (s, v, pc1)"
    using sw assms(2) by (auto simp: type_field_def split: if_splits)
  then show thesis
  proof cases
    case flag
    obtain old where o: "pipe_policy_value pc t = Some (1, old)"
      using flag by (auto simp: type_field_def split: if_splits)
    from set_flag_correct [OF flag(1) assms(2) flag(2,3,4) o] obtain x where
      "le_read 1 value = Some x" "policy_changed t (kept_policy t old x) pc (pc1\<lparr>Policies := v\<rparr>)" "pc1 = pc" by blast
    with o flag that show ?thesis by auto
  next
    case timeout
    obtain x where "le_read 4 value = Some x" "v = Policies pc" "pc1 = pc\<lparr>TimeoutPolicy := x\<rparr>"
      using sw timeout by (cases "le_read 4 value") auto
    moreover from this have "policy_changed t (kept_policy t (TimeoutPolicy pc) x) pc (pc1\<lparr>Policies := v\<rparr>)"
      by (intro policy_changedI) (auto simp: timeout kept_policy_def)
    ultimately show ?thesis using that timeout by auto
  next
    case raw
    from set_raw_io_correct [OF raw(2) assms(2)] obtain x where
      "le_read 1 value = Some x"
      "policy_changed RAW_IO (kept_policy RAW_IO (get_field RawIO (Policies pc)) x) pc (pc1\<lparr>Policies := v\<rparr>)"
      and p: "pc1 = pc\<lparr>IsQueueDirty := IsQueueDirty pc1\<rparr>" by blast
    moreover have "IsValid pc1 = IsValid pc" "Pipe pc1 = Pipe pc" "Queue pc1 = Queue pc" "PipeInformation pc1 = PipeInformation pc"
      by (subst p, simp)+
    ultimately show ?thesis using that raw by auto
  next
    case latency
    have "\<exists>x. le_read 2 value = Some x \<and> v = set_field IsoStartLatency x (Policies pc) \<and> pc1 = pc"
      using sw assms(2) unfolding latency
      by (cases "check_value_length 2 len"; cases "le_read 2 value") simp_all
    then obtain x where "le_read 2 value = Some x" "v = set_field IsoStartLatency x (Policies pc)" "pc1 = pc" by blast
    moreover from this have "policy_changed t (kept_policy t (get_field IsoStartLatency (Policies pc)) x) pc (pc1\<lparr>Policies := v\<rparr>)"
      by (intro policy_changed_field [where f = IsoStartLatency]) (simp_all add: type_field_def latency kept_policy_def)
    ultimately show ?thesis using that latency by auto
  next
    case fixed
    have "\<exists>x. le_read 2 value = Some x \<and> v = set_field IsoNumFixedPackets (x AND 0x7FF) (Policies pc) \<and> pc1 = pc"
      using fixed(2) assms(2)
      by (cases "check_value_length 2 len"; cases "le_read 2 value") (simp_all add: set_fixed_packets_def Let_def split: if_split_asm)
    then obtain x where "le_read 2 value = Some x" "v = set_field IsoNumFixedPackets (x AND 0x7FF) (Policies pc)" "pc1 = pc" by blast
    moreover have "take_bit 11 (x AND 0x7FF) = take_bit 11 x" for x :: "32 word"
      by (simp add: take_bit_eq_mask mask_eq_exp_minus_1 ac_simps)
    moreover from calculation have "policy_changed t (kept_policy t (get_field IsoNumFixedPackets (Policies pc)) x) pc (pc1\<lparr>Policies := v\<rparr>)"
      by (intro policy_changed_field [where f = IsoNumFixedPackets]) (simp_all add: type_field_def fixed kept_policy_def)
    ultimately show ?thesis using that fixed by auto
  next
    case parallel
    have "\<exists>x. le_read 4 value = Some x \<and> v = Policies pc \<and>
      pc1 = (if SimulParallelRequests pc \<noteq> x then pc\<lparr>SimulParallelRequests := x, IsQueueDirty := True\<rparr> else pc)"
      using parallel(2) assms(2) by (cases "check_value_length 4 len"; cases "le_read 4 value") (auto simp: set_parallel_requests_def)
    then obtain x where "le_read 4 value = Some x" "v = Policies pc"
      "pc1 = (if SimulParallelRequests pc \<noteq> x then pc\<lparr>SimulParallelRequests := x, IsQueueDirty := True\<rparr> else pc)" by blast
    moreover from this have "policy_changed t (kept_policy t (SimulParallelRequests pc) x) pc (pc1\<lparr>Policies := v\<rparr>)"
      by (intro policy_changedI) (auto simp: parallel kept_policy_def)
    ultimately show ?thesis using that parallel by auto
  qed
qed

lemma setter_failure:
  "set_flag f value len v0 pc = Some (s, v, pc1) \<Longrightarrow> \<not> NT_SUCCESS s \<Longrightarrow> pc1 = pc"
  "set_raw_io value len v0 pc = Some (s, v, pc1) \<Longrightarrow> \<not> NT_SUCCESS s \<Longrightarrow> pc1 = pc"
  "set_fixed_packets d value len v0 pc = Some (s, v, pc1) \<Longrightarrow> \<not> NT_SUCCESS s \<Longrightarrow> pc1 = pc"
  "set_parallel_requests value len v0 pc = Some (s, v, pc1) \<Longrightarrow> \<not> NT_SUCCESS s \<Longrightarrow> pc1 = pc"
     apply (cases "le_read 1 value"; simp add: set_flag_def split: if_split_asm; auto)
    apply (cases "le_read 1 value"; simp add: set_raw_io_def split: if_split_asm; auto)
   apply (cases "le_read 2 value"; simp add: set_fixed_packets_def Let_def split: if_split_asm; auto)
  apply (cases "le_read 4 value"; simp add: set_parallel_requests_def split: if_split_asm; auto)
  done

lemma set_pipe_switch_failure:
  assumes "set_pipe_switch d t value len v0 pc = Some (s, v, pc1)" "\<not> NT_SUCCESS s"
  shows "pc1 = pc"
proof -
  consider (timeout) "t = PIPE_TRANSFER_TIMEOUT" | (latency) "t = ISO_START_LATENCY"
    | (flag) f where "set_flag f value len v0 pc = Some (s, v, pc1)" | (raw) "set_raw_io value len v0 pc = Some (s, v, pc1)"
    | (fixed) "set_fixed_packets d value len v0 pc = Some (s, v, pc1)"
    | (parallel) "set_parallel_requests value len v0 pc = Some (s, v, pc1)"
    | (unknown) "Some (STATUS_INVALID_PARAMETER, v0, pc) = Some (s, v, pc1)"
    using assms(1) unfolding set_pipe_switch_def by (simp split: if_split_asm)
  then show ?thesis
  proof cases
    case timeout
    with assms show ?thesis by (cases "le_read 4 value") (simp_all add: set_pipe_switch_def)
  next
    case latency
    with assms show ?thesis
      by (cases "le_read 2 value"; cases "check_value_length 2 len") (simp_all add: set_pipe_switch_def)
  qed (use assms(2) setter_failure in auto)
qed

section \<open>Properties\<close>

text \<open>A device context has the 32 pipe contexts of its array.\<close>

abbreviation device_ok :: "device_context \<Rightarrow> bool" where
  "device_ok d \<equiv> length (PipeContextByID d) = 32"

lemma pipe_index_ok [simp]: "device_ok d \<Longrightarrow> GetPipeContextByID p < length (PipeContextByID d)"
  using GetPipeContextByID_less by simp

text \<open>
  C13. \<open>Policy_SetPipe\<close> writes what \<open>Policy_GetPipe\<close> reads: when it succeeds, the policy named reads back
  as the part of the value that is kept, for every buffer that is large enough, every other policy of
  the pipe and every other pipe stays as it was, and when it fails nothing changes at all.
\<close>

theorem pipe_policy_set_get:
  assumes "device_ok d" "Policy_SetPipe d p t value len = Some (s, d')"
  shows "if NT_SUCCESS s
    then \<exists>x old. le_read (policy_size t) value = Some x \<and>
        pipe_policy_value (PipeContextByID d ! GetPipeContextByID p) t = Some (policy_size t, old) \<and>
        (\<forall>q t' buf n. Policy_GetPipe d' q t' buf n =
           (if t' = t \<and> GetPipeContextByID q = GetPipeContextByID p \<and> n \<noteq> None \<and> Pipe (PipeContextByID d ! GetPipeContextByID p) \<noteq> NULL
                \<and> Queue (PipeContextByID d ! GetPipeContextByID p) \<noteq> None
            then return_value (policy_size t) (kept_policy t old x) buf (the n)
            else Policy_GetPipe d q t' buf n))
    else d' = d"
proof (cases "IsValid (PipeContextByID d ! GetPipeContextByID p)")
  case False
  with assms(2) show ?thesis by (simp add: Policy_SetPipe_def Let_def)
next
  case True
  let ?i = "GetPipeContextByID p" and ?pc = "PipeContextByID d ! GetPipeContextByID p"
  obtain v pc1 where sw: "set_pipe_switch d t value len (Policies ?pc) ?pc = Some (s, v, pc1)"
    and d': "d' = upd_pipe ?i (\<lambda>_. if NT_SUCCESS s then pc1\<lparr>Policies := v\<rparr> else pc1) d"
    using assms(2) True by (cases "set_pipe_switch d t value len (Policies ?pc) ?pc") (auto simp: Policy_SetPipe_def Let_def)
  show ?thesis
  proof (cases "NT_SUCCESS s")
    case False
    from set_pipe_switch_failure [OF sw False] False show ?thesis by (simp add: d' upd_pipe_def)
  next
    case ok: True
    obtain x old where x: "le_read (policy_size t) value = Some x" "pipe_policy_value ?pc t = Some (policy_size t, old)"
      and c: "policy_changed t (kept_policy t old x) ?pc (pc1\<lparr>Policies := v\<rparr>)"
      and k: "IsValid pc1 = IsValid ?pc" "Pipe pc1 = Pipe ?pc" "Queue pc1 = Queue ?pc" "PipeInformation pc1 = PipeInformation ?pc"
      using set_pipe_switch_success [OF sw ok] by blast
    have "Policy_GetPipe d' q t' buf n =
           (if t' = t \<and> GetPipeContextByID q = ?i \<and> n \<noteq> None \<and> Pipe ?pc \<noteq> NULL \<and> Queue ?pc \<noteq> None
            then return_value (policy_size t) (kept_policy t old x) buf (the n)
            else Policy_GetPipe d q t' buf n)" for q t' buf n
    proof (cases "GetPipeContextByID q = ?i")
      case same: True
      have "pipe_policy_value (pc1\<lparr>Policies := v\<rparr>) t' = (if t' = t then Some (policy_size t, kept_policy t old x) else pipe_policy_value ?pc t')"
        using c unfolding policy_changed_def by blast
      with same ok True assms(1) k show ?thesis
        by (cases n; cases "t' = t") (simp_all add: Policy_GetPipe_def Let_def d' upd_pipe_nth GetPipeContextByID_less)
    next
      case False
      with assms(1) show ?thesis by (simp add: Policy_GetPipe_def Let_def d' upd_pipe_nth GetPipeContextByID_less)
    qed
    with x ok show ?thesis by auto
  qed
qed

text \<open>A device with one bulk pipe, for the witnesses.\<close>

definition ex_info :: "UCHAR \<Rightarrow> wdf_pipe_type \<Rightarrow> wdf_pipe_information" where
  "ex_info a ty = \<lparr>MaximumPacketSize = 64, EndpointAddress = a, Interval = 1, PipeType = ty, MaximumTransferSize = 4096\<rparr>"

definition ex_queue :: "UCHAR \<Rightarrow> wdf_pipe_type \<Rightarrow> queue_context" where
  "ex_queue a ty = \<lparr>Config = \<lparr>DispatchType = DispatchSequential, NumberOfPresentedRequests = 0, HasIoRead = endpoint_in a,
       HasIoWrite = \<not> endpoint_in a, HasIoStopResume = True, AllowZeroLengthRequests = \<not> endpoint_in a\<rparr>,
     Requests = [], PipeHandle = 1, Info = ex_info a ty, IsFreshPipeReset = True, NextFrameNumber = 0, ResetPipeForResume = False,
     ResetPipeForStall = False, OverOfs = \<lparr>BufferOffset = 0, BufferLength = 0\<rparr>, OverBuf = Some (replicate 64 0),
     UserOfs = \<lparr>BufferOffset = 0, BufferLength = 0\<rparr>, UserMem = [], Zlps_Required = 0, Zlps_Sent = 0, Xfer_Length = 0, Transferred = 0\<rparr>"

definition ex_pipe :: "UCHAR \<Rightarrow> wdf_pipe_type \<Rightarrow> pipe_context" where
  "ex_pipe a ty = \<lparr>Queue = Some (ex_queue a ty), TimeoutPolicy = 0, IsValid = True, PipePoliciesInitialized = True,
     PipeInformation = ex_info a ty, Pipe = 1, Policies = 0, IsQueueDirty = False, SimulParallelRequests = 0\<rparr>"

definition ex_device :: device_context where
  "ex_device = \<lparr>DeviceSpeed = 2, RemoteWakeCapable = False, USBDI_Version = 0x600, bMaxPacketSize0 = 64, ConfigurationValue = Some 1,
     PipeContextByID = replicate 32 (ex_pipe 0x81 PipeTypeBulk), InterfaceContexts = [],
     DeviceRegSettings = \<lparr>SystemWakeEnabled = 1, DeviceIdleEnabled = 1, DeviceIdleIgnoreWakeEnable = 0, UserSetDeviceIdleEnabled = 0,
       DefaultIdleState = 1, DefaultIdleTimeout = 5000\<rparr>,
     IsIdleSettingsInitialized = False\<rparr>"

lemma ex_device_pipe [simp]: "PipeContextByID ex_device ! GetPipeContextByID p = ex_pipe 0x81 PipeTypeBulk"
  by (simp add: ex_device_def GetPipeContextByID_less)

lemma upd_pipe_same: "f (PipeContextByID d ! i) = PipeContextByID d ! i \<Longrightarrow> upd_pipe i f d = d"
  by (simp add: upd_pipe_def)

theorem pipe_policy_set_get_witness:
  "Policy_SetPipe ex_device 0x81 RAW_IO [2] 1 = Some (STATUS_SUCCESS, ex_device)
   \<and> Policy_GetPipe ex_device 0x81 RAW_IO (Some [7]) (Some 1) = Some (STATUS_SUCCESS, Some [0])"
proof -
  have set: "Policy_SetPipe ex_device 0x81 RAW_IO [2] 1 = Some (STATUS_SUCCESS, ex_device)"
    by (simp add: Policy_SetPipe_def set_pipe_switch_def set_raw_io_def check_value_length_def le_read_def Let_def
        ex_pipe_def ex_info_def get_field_def upd_pipe_same)
  have ok: "device_ok ex_device" by (simp add: ex_device_def)
  let ?pc = "PipeContextByID ex_device ! GetPipeContextByID 0x81"
  obtain x old where
    x: "le_read (policy_size RAW_IO) [2 :: UCHAR] = Some x" "pipe_policy_value ?pc RAW_IO = Some (policy_size RAW_IO, old)"
    and all: "\<forall>q t' buf n. Policy_GetPipe ex_device q t' buf n =
         (if t' = RAW_IO \<and> GetPipeContextByID q = GetPipeContextByID 0x81 \<and> n \<noteq> None \<and> Pipe ?pc \<noteq> NULL \<and> Queue ?pc \<noteq> None
          then return_value (policy_size RAW_IO) (kept_policy RAW_IO old x) buf (the n)
          else Policy_GetPipe ex_device q t' buf n)"
    using pipe_policy_set_get [OF ok set] unfolding if_P [OF NT_SUCCESS_simps(1)] by blast
  have g: "Policy_GetPipe ex_device 0x81 RAW_IO (Some [7]) (Some 1) =
      return_value (policy_size RAW_IO) (kept_policy RAW_IO old x) (Some [7]) 1"
    by (subst all [rule_format]) (simp add: ex_pipe_def)
  from x have "x = 2" "old = 0" by (simp_all add: le_read_def ex_pipe_def get_field_def)
  with set g show ?thesis
    by (simp add: return_value_def kept_policy_def check_value_length_def le_write_def)
qed

text \<open>
  C31. With the length of its buffer given, \<open>Policy_SetPipe\<close> stays inside the buffer for every policy
  except the timeout, whose length check compares the size it needs with itself: a timeout of fewer
  than four bytes is read past the end of the request.
\<close>

theorem pipe_policy_bounds:
  assumes "length value < 2 ^ 31" "len = word_of_nat (length value)"
  shows "Policy_SetPipe d p t value len = None \<longleftrightarrow>
    IsValid (PipeContextByID d ! GetPipeContextByID p) \<and> t = PIPE_TRANSFER_TIMEOUT \<and> length value < 4"
proof -
  have "sint len = int (length value)"
    using assms by (simp add: signed_of_nat signed_take_bit_int_eq_self_iff)
  then have c: "check_value_length n len \<longleftrightarrow> n \<le> length value" for n
    by (simp add: check_value_length_def)
  have r: "le_read n value = None \<longleftrightarrow> length value < n" for n
    by (simp add: le_read_def)
  have n: "set_flag f value len v pc \<noteq> None" for f v pc
    by (auto simp: set_flag_def c r bind_eq_None_conv simp del: not_None_eq)
  have n2: "set_raw_io value len v pc \<noteq> None" "set_fixed_packets d value len v pc \<noteq> None"
    "set_parallel_requests value len v pc \<noteq> None" for v pc
    by (auto simp: set_raw_io_def set_fixed_packets_def set_parallel_requests_def c r Let_def bind_eq_None_conv
        simp del: not_None_eq)
  have "set_pipe_switch d t value len v pc = None \<longleftrightarrow> t = PIPE_TRANSFER_TIMEOUT \<and> length value < 4" for v pc
    unfolding set_pipe_switch_def using n [of _ v pc] n2 [where v = v and pc = pc]
    by (simp add: c r bind_eq_None_conv del: not_None_eq)
  then have sw: "set_pipe_switch d t value len v pc = None \<longleftrightarrow> t = PIPE_TRANSFER_TIMEOUT \<and> length value < 4" for v pc .
  let ?r = "set_pipe_switch d t value len (Policies (PipeContextByID d ! GetPipeContextByID p)) (PipeContextByID d ! GetPipeContextByID p)"
  show ?thesis
    by (cases ?r) (use sw [of "Policies (PipeContextByID d ! GetPipeContextByID p)" "PipeContextByID d ! GetPipeContextByID p"]
      in \<open>auto simp: Policy_SetPipe_def Let_def\<close>)
qed

theorem pipe_policy_bounds_witness: "Policy_SetPipe ex_device 0x81 PIPE_TRANSFER_TIMEOUT [1] 1 = None"
  by (subst pipe_policy_bounds) (simp_all add: ex_pipe_def)

text \<open>
  The power policies. When setting one succeeds, it reads back, normalised to 0 or 1 for
  AUTO_SUSPEND, and the other one stays. When it fails, both read as before; but the framework may then
  have accepted settings with the new value, and is not given the old ones again.
\<close>

lemma Policy_InitPower_settings:
  assumes "Policy_InitPower e d = (s, acc, d')"
  shows "DefaultIdleState (DeviceRegSettings d') = DefaultIdleState (DeviceRegSettings d)"
    "DefaultIdleTimeout (DeviceRegSettings d') = DefaultIdleTimeout (DeviceRegSettings d)"
    "acc = Some i \<Longrightarrow> i = idle_settings_of d'"
  using assms by (auto simp: Policy_InitPower_def Let_def idle_settings_of_def split: if_splits)

theorem power_policy_set_get:
  assumes "Policy_SetPower e d t value len = Some (s, acc, d')"
  shows "if NT_SUCCESS s
    then \<exists>x. le_read (if t = AUTO_SUSPEND then 1 else 4) value = Some x \<and>
      (\<forall>t' buf m. Policy_GetPower d' t' buf m =
         (if t' \<noteq> t then Policy_GetPower d t' buf m
          else if t = AUTO_SUSPEND then return_value 1 (if x = 0 then 0 else 1) buf m
          else return_value 4 x buf m))
    else Policy_GetPower d' = Policy_GetPower d"
proof -
  consider (state) x d1 where "t = AUTO_SUSPEND" "le_read 1 value = Some x"
      "Policy_InitPower e (upd_reg (\<lambda>r. r\<lparr>DefaultIdleState := if x \<noteq> 0 then 1 else 0\<rparr>) d) = (s, acc, d1)"
      "d' = (if NT_SUCCESS s then d1 else upd_reg (\<lambda>r. r\<lparr>DefaultIdleState := DefaultIdleState (DeviceRegSettings d)\<rparr>) d1)"
    | (delay) x d1 where "t = SUSPEND_DELAY" "le_read 4 value = Some x"
      "Policy_InitPower e (upd_reg (\<lambda>r. r\<lparr>DefaultIdleTimeout := x\<rparr>) d) = (s, acc, d1)"
      "d' = (if NT_SUCCESS s then d1 else upd_reg (\<lambda>r. r\<lparr>DefaultIdleTimeout := DefaultIdleTimeout (DeviceRegSettings d)\<rparr>) d1)"
    | (bad) "\<not> NT_SUCCESS s" "d' = d"
  proof -
    consider "t = AUTO_SUSPEND" | "t = SUSPEND_DELAY" | "t \<noteq> AUTO_SUSPEND" "t \<noteq> SUSPEND_DELAY" by blast
    then show thesis
    proof cases
      case 1
      show ?thesis
      proof (cases "le_read 1 value")
        case (Some x)
        obtain s1 acc1 d1 where "Policy_InitPower e (upd_reg (\<lambda>r. r\<lparr>DefaultIdleState := if x \<noteq> 0 then 1 else 0\<rparr>) d) = (s1, acc1, d1)"
          by (rule prod_cases3)
        with 1 Some assms state [of x d1] bad show ?thesis
          by (simp add: Policy_SetPower_def Let_def split: if_split_asm)
      qed (use 1 assms bad in \<open>simp add: Policy_SetPower_def split: if_split_asm\<close>)
    next
      case 2
      show ?thesis
      proof (cases "le_read 4 value")
        case (Some x)
        obtain s1 acc1 d1 where "Policy_InitPower e (upd_reg (\<lambda>r. r\<lparr>DefaultIdleTimeout := x\<rparr>) d) = (s1, acc1, d1)"
          by (rule prod_cases3)
        with 2 Some assms delay [of x d1] bad show ?thesis
          by (simp add: Policy_SetPower_def Let_def split: if_split_asm)
      qed (use 2 assms bad in \<open>simp add: Policy_SetPower_def split: if_split_asm\<close>)
    qed (use assms bad in \<open>simp add: Policy_SetPower_def\<close>)
  qed
  then show ?thesis
  proof cases
    case state
    note i = Policy_InitPower_settings(1,2) [OF state(3)]
    show ?thesis using state(1,2,4) i by (auto simp: Policy_GetPower_def fun_eq_iff)
  next
    case delay
    note i = Policy_InitPower_settings(1,2) [OF delay(3)]
    show ?thesis using delay(1,2,4) i by (auto simp: Policy_GetPower_def fun_eq_iff)
  qed simp
qed

text \<open>
  The settings that the framework accepted in a call that fails are those with the new value. Here wake
  cannot be enabled: the timeout reads back as 5000, and the framework idles after 100.
\<close>

lemma power_policy_not_restored:
  "Policy_SetPower \<lparr>AssignS0IdleSettings = (\<lambda>_. STATUS_SUCCESS), AssignSxWakeSettings = (\<lambda>_. STATUS_NOT_FOUND)\<rparr> ex_device
     SUSPEND_DELAY [100, 0, 0, 0] 4
   = Some (STATUS_NOT_FOUND,
       Some \<lparr>IdleUsbSelectiveSuspend = False, IdleAllowUserControl = False, IdleEnabled = True, IdleTimeout = 100\<rparr>,
       ex_device\<lparr>IsIdleSettingsInitialized := True\<rparr>)"
  by (simp add: Policy_SetPower_def Policy_InitPower_def idle_settings_of_def check_value_length_def le_read_def Let_def ex_device_def)

theorem power_policy_set_get_witness:
  "\<exists>acc d'. Policy_SetPower \<lparr>AssignS0IdleSettings = (\<lambda>_. STATUS_SUCCESS), AssignSxWakeSettings = (\<lambda>_. STATUS_SUCCESS)\<rparr> ex_device
     AUTO_SUSPEND [9] 1 = Some (STATUS_SUCCESS, acc, d') \<and> Policy_GetPower d' AUTO_SUSPEND (Some [0]) 1 = Some (STATUS_SUCCESS, Some [1])"
proof -
  let ?e = "\<lparr>AssignS0IdleSettings = (\<lambda>_. STATUS_SUCCESS), AssignSxWakeSettings = (\<lambda>_. STATUS_SUCCESS)\<rparr>"
  have "\<exists>acc d'. Policy_SetPower ?e ex_device AUTO_SUSPEND [9] 1 = Some (STATUS_SUCCESS, acc, d')"
    by (simp add: Policy_SetPower_def Policy_InitPower_def idle_settings_of_def check_value_length_def le_read_def Let_def ex_device_def)
  then obtain acc d' where set: "Policy_SetPower ?e ex_device AUTO_SUSPEND [9] 1 = Some (STATUS_SUCCESS, acc, d')" by blast
  from power_policy_set_get [OF set] have "Policy_GetPower d' AUTO_SUSPEND (Some [0]) 1 = return_value 1 1 (Some [0]) 1"
    by (auto simp: le_read_def)
  with set show ?thesis by (auto simp: return_value_def check_value_length_def le_write_def)
qed

text \<open>The defaults. A pipe gets them once: \<open>Policy_SetAllPipesToDefault\<close> changes no pipe that has policies.\<close>

lemma Policy_InitPipe_defaults:
  "\<not> PipePoliciesInitialized pc \<Longrightarrow>
   get_field f (Policies (Policy_InitPipe d pc)) =
     (case f of IsoStartLatency \<Rightarrow> (if IsHighSpeedDevice d then 32 else 8) | AllowPartialReads \<Rightarrow> 1
      | IsoAlwaysStartAsap \<Rightarrow> (if endpoint_in (EndpointAddress (PipeInformation pc)) then 0 else 1) | _ \<Rightarrow> 0)"
  by (cases f) (simp_all add: Policy_InitPipe_def Let_def get_field_def [where v = 0])

lemma Policy_SetAllPipesToDefault_initialized:
  assumes "\<And>pc. pc \<in> set (PipeContextByID d) \<Longrightarrow> PipePoliciesInitialized pc"
  shows "Policy_SetAllPipesToDefault d = d"
proof -
  have same: "upd_pipe i (Policy_InitPipe d) d = d" for i
  proof (cases "i < length (PipeContextByID d)")
    case True
    then have "PipePoliciesInitialized (PipeContextByID d ! i)" using assms by simp
    then show ?thesis by (intro upd_pipe_same) (simp add: Policy_InitPipe_def)
  qed (simp add: upd_pipe_def list_update_beyond)
  have "fold (\<lambda>i d. upd_pipe i (Policy_InitPipe d) d) is d = d" for "is"
    by (induction "is") (simp_all add: same)
  then show ?thesis by (simp add: Policy_SetAllPipesToDefault_def)
qed

end
