(* ===== verification/Drv_Bulk.thy ===== *)
theory Drv_Bulk
  imports Drv_Policy
begin

text \<open>
  Bulk and interrupt transfers of the driver, \<open>sys/drv_xfer_bulk.c\<close> with the macros of
  \<open>sys/drv_xfer.h\<close>. A request is split into stages; the completion of a stage submits the next one or
  completes the request. Bytes that a device sends beyond the end of a read are kept in the over-run
  buffer of the queue for the next read. A handler returns the context of the queue and what became of
  the request: sent to the device, with the memory of the stage, or completed.
\<close>

section \<open>Environment and outcomes\<close>

text \<open>
  The answers of the framework in one call of a handler: resetting the pipe, retrieving the memory of
  the request, formatting it, its timer and sending it.
\<close>

record xfer_env =
  PipeResetStatus :: NTSTATUS
  RetrieveMemoryStatus :: NTSTATUS
  FormatStatus :: NTSTATUS
  AllocateTimerStatus :: NTSTATUS
  SendStatus :: NTSTATUS

text \<open>The memory of a stage: the over-run buffer, a range of the buffer of the request, or none.\<close>

datatype xfer_target = OverMemory | UserRange nat nat | NoMemory

datatype xfer_outcome = Sent xfer_target | Completed NTSTATUS nat

definition VALIDATE_REQUEST_CONTEXT :: "request_context option \<Rightarrow> NTSTATUS" where
  "VALIDATE_REQUEST_CONTEXT r = (case r of None \<Rightarrow> STATUS_INVALID_DEVICE_REQUEST
     | Some c \<Rightarrow> if HasQueueContext c then STATUS_SUCCESS else STATUS_PIPE_BROKEN)"

text \<open>The checks that every handler starts with.\<close>

definition with_contexts ::
  "(request_context \<Rightarrow> queue_context \<Rightarrow> queue_context \<times> xfer_outcome)
   \<Rightarrow> request_context option \<Rightarrow> queue_context option \<Rightarrow> queue_context option \<times> xfer_outcome" where
  "with_contexts f r q =
     (let s = VALIDATE_REQUEST_CONTEXT r in
      if \<not> NT_SUCCESS s then (q, Completed s 0)
      else case q of None \<Rightarrow> (None, Completed STATUS_INVALID_DEVICE_REQUEST 0)
        | Some qc \<Rightarrow> let (qc', out) = f (the r) qc in (Some qc', out))"

abbreviation max_packet :: "queue_context \<Rightarrow> nat" where "max_packet q \<equiv> unat (MaximumPacketSize (Info q))"
abbreviation max_transfer :: "queue_context \<Rightarrow> nat" where "max_transfer q \<equiv> unat (MaximumTransferSize (Info q))"
abbreviation policy :: "policy_field \<Rightarrow> request_context \<Rightarrow> bool" where "policy f r \<equiv> policy_on f (Req_Policies r)"

definition mXfer_HandlePipeResetScenarios :: "xfer_env \<Rightarrow> request_context \<Rightarrow> queue_context \<Rightarrow> queue_context" where
  "mXfer_HandlePipeResetScenarios e r q =
     (if (ResetPipeForResume q \<and> policy ResetPipeOnResume r) \<or> (ResetPipeForStall q \<and> policy AutoClearStall r)
      then if NT_SUCCESS (PipeResetStatus e)
        then q\<lparr>IsFreshPipeReset := True, ResetPipeForResume := False, ResetPipeForStall := False\<rparr>
        else q
      else q)"

definition mXfer_HandlePipeResetScenariosForComplete :: "NTSTATUS \<Rightarrow> request_context \<Rightarrow> queue_context \<Rightarrow> queue_context" where
  "mXfer_HandlePipeResetScenariosForComplete s r q =
     (if \<not> NT_SUCCESS s \<and> policy AutoClearStall r \<and> s \<noteq> STATUS_DEVICE_NOT_CONNECTED \<and> s \<noteq> STATUS_CANCELLED
      then q\<lparr>ResetPipeForStall := True\<rparr> else q)"

definition SetRequestTimeout :: "xfer_env \<Rightarrow> request_context \<Rightarrow> NTSTATUS" where
  "SetRequestTimeout e r = (if Req_Timeout r \<noteq> 0 \<and> Req_Timeout r \<noteq> -1 then AllocateTimerStatus e else STATUS_SUCCESS)"

text \<open>Formatting, timer and sending, with their error exits; the request ends with the bytes so far.\<close>

definition submit_request :: "xfer_env \<Rightarrow> request_context \<Rightarrow> nat \<Rightarrow> xfer_target \<Rightarrow> xfer_outcome" where
  "submit_request e r done tgt =
     (if \<not> NT_SUCCESS (FormatStatus e) then Completed (FormatStatus e) done
      else if \<not> NT_SUCCESS (SetRequestTimeout e r) then Completed (SetRequestTimeout e r) done
      else if \<not> NT_SUCCESS (SendStatus e) then Completed (SendStatus e) done
      else Sent tgt)"

section \<open>Reading\<close>

definition put_bytes :: "nat \<Rightarrow> 'a list \<Rightarrow> 'a list \<Rightarrow> 'a list" where
  "put_bytes k xs mem = take k mem @ xs @ drop (k + length xs) mem"

text \<open>\<open>WdfMemoryCopyFromBuffer\<close> refuses a range that does not fit the memory.\<close>

definition mXfer_CopyPartialReadToUserMemory :: "nat \<Rightarrow> nat \<Rightarrow> queue_context \<Rightarrow> NTSTATUS \<times> queue_context" where
  "mXfer_CopyPartialReadToUserMemory from n q =
     (if length (UserMem q) < Transferred q + n then (0xC0000023, q)
      else (STATUS_SUCCESS,
        q\<lparr>UserMem := put_bytes (Transferred q) (take n (drop from (the (OverBuf q)))) (UserMem q),
          OverOfs := \<lparr>BufferOffset = BufferOffset (OverOfs q) + n, BufferLength = BufferLength (OverOfs q) - n\<rparr>,
          Transferred := Transferred q + n\<rparr>))"

definition mXfer_SubmitNextRead :: "xfer_env \<Rightarrow> request_context \<Rightarrow> queue_context \<Rightarrow> queue_context \<times> xfer_outcome" where
  "mXfer_SubmitNextRead e r q =
     (let remaining = Xfer_Length q - Transferred q;
          stage = (if max_transfer q < remaining then max_transfer q else remaining);
          remainder = stage mod max_packet q
      in if stage < max_packet q then
           if \<not> policy AllowPartialReads r then (q, Completed STATUS_INVALID_BUFFER_SIZE (Transferred q))
           else (q\<lparr>OverOfs := \<lparr>BufferOffset = 0, BufferLength = stage\<rparr>\<rparr>, submit_request e r (Transferred q) OverMemory)
         else (q\<lparr>UserOfs := \<lparr>BufferOffset = Transferred q, BufferLength = stage - remainder\<rparr>\<rparr>,
               submit_request e r (Transferred q) (UserRange (Transferred q) (stage - remainder))))"

definition discard_over :: "queue_context \<Rightarrow> queue_context" where
  "discard_over q = q\<lparr>OverOfs := \<lparr>BufferOffset = 0, BufferLength = 0\<rparr>\<rparr>"

text \<open>\<open>Xfer_ReadBulk\<close>; \<open>mem\<close> is the buffer of the request.\<close>

definition read_bulk :: "xfer_env \<Rightarrow> UCHAR list \<Rightarrow> request_context \<Rightarrow> queue_context \<Rightarrow> queue_context \<times> xfer_outcome" where
  "read_bulk e mem r q =
     (let q = q\<lparr>Transferred := 0, Xfer_Length := Req_Length r\<rparr> in
      if OverBuf q = None then (q, Completed STATUS_INVALID_DEVICE_REQUEST 0)
      else if MaximumPacketSize (Info q) = 0 then (q, Completed STATUS_INVALID_BUFFER_SIZE 0)
      else let q = mXfer_HandlePipeResetScenarios e r q in
      if Xfer_Length q = 0 then
        (q, Completed (if policy AllowPartialReads r then STATUS_SUCCESS else STATUS_INVALID_BUFFER_SIZE) 0)
      else if \<not> NT_SUCCESS (RetrieveMemoryStatus e) then (q, Completed (RetrieveMemoryStatus e) 0)
      else let q = q\<lparr>UserMem := mem, UserOfs := \<lparr>BufferOffset = 0, BufferLength = Xfer_Length q\<rparr>\<rparr> in
      if BufferLength (OverOfs q) > 0 then
        let stage = min (BufferLength (OverOfs q)) (Xfer_Length q - Transferred q);
            (s, q) = mXfer_CopyPartialReadToUserMemory (BufferOffset (OverOfs q)) stage q
        in if \<not> NT_SUCCESS s then (q, Completed s (Transferred q))
           else if Xfer_Length q \<le> Transferred q then
             (if policy AutoFlush r then discard_over q else q, Completed STATUS_SUCCESS (Transferred q))
           else mXfer_SubmitNextRead e r q
      else mXfer_SubmitNextRead e r q)"

definition Xfer_ReadBulk ::
  "xfer_env \<Rightarrow> UCHAR list \<Rightarrow> request_context option \<Rightarrow> queue_context option \<Rightarrow> queue_context option \<times> xfer_outcome" where
  "Xfer_ReadBulk e mem = with_contexts (read_bulk e mem)"

text \<open>\<open>Xfer_ReadBulkComplete\<close> for a stage that ended with status \<open>s\<close> after \<open>n\<close> bytes.\<close>

definition Xfer_ReadBulkComplete ::
  "xfer_env \<Rightarrow> NTSTATUS \<Rightarrow> nat \<Rightarrow> request_context \<Rightarrow> queue_context \<Rightarrow> queue_context \<times> xfer_outcome" where
  "Xfer_ReadBulkComplete e s n r q =
     (let q = mXfer_HandlePipeResetScenariosForComplete s r q in
      if BufferLength (OverOfs q) \<noteq> 0 then
        if n \<noteq> 0 then
          let stage = min (BufferLength (OverOfs q)) n;
              (s, q) = mXfer_CopyPartialReadToUserMemory 0 stage (q\<lparr>OverOfs := (OverOfs q)\<lparr>BufferLength := n\<rparr>\<rparr>)
          in if \<not> NT_SUCCESS s then (q, Completed s (Transferred q))
             else if Xfer_Length q \<le> Transferred q then
               (if policy AutoFlush r then discard_over q else q, Completed s (Transferred q))
             else if \<not> policy IgnoreShortPackets r then (q, Completed s (Transferred q))
             else mXfer_SubmitNextRead e r q
        else
          if \<not> NT_SUCCESS s then (q, Completed s (Transferred q))
          else let q = q\<lparr>OverOfs := (OverOfs q)\<lparr>BufferLength := 0\<rparr>\<rparr> in
            if \<not> policy IgnoreShortPackets r then (q, Completed s (Transferred q))
            else mXfer_SubmitNextRead e r q
      else
        let q = q\<lparr>Transferred := Transferred q + n\<rparr> in
        if \<not> NT_SUCCESS s then (q, Completed s (Transferred q))
        else if Xfer_Length q \<le> Transferred q then (q, Completed s (Transferred q))
        else if n \<noteq> 0 \<and> n = BufferLength (UserOfs q) then mXfer_SubmitNextRead e r q
        else if \<not> policy IgnoreShortPackets r then (q, Completed s (Transferred q))
        else mXfer_SubmitNextRead e r q)"

definition read_bulk_raw :: "xfer_env \<Rightarrow> request_context \<Rightarrow> queue_context \<Rightarrow> queue_context \<times> xfer_outcome" where
  "read_bulk_raw e r q =
     (if MaximumPacketSize (Info q) = 0 then (q, Completed STATUS_INVALID_BUFFER_SIZE 0)
      else if Req_Length r mod max_packet q > 0 then (q, Completed STATUS_INVALID_BUFFER_SIZE 0)
      else if \<not> NT_SUCCESS (RetrieveMemoryStatus e) then (q, Completed (RetrieveMemoryStatus e) 0)
      else (q, submit_request e r 0 (UserRange 0 (Req_Length r))))"

definition Xfer_ReadBulkRaw ::
  "xfer_env \<Rightarrow> request_context option \<Rightarrow> queue_context option \<Rightarrow> queue_context option \<times> xfer_outcome" where
  "Xfer_ReadBulkRaw e = with_contexts (read_bulk_raw e)"

definition Xfer_ReadBulkRawComplete :: "NTSTATUS \<Rightarrow> nat \<Rightarrow> request_context \<Rightarrow> queue_context \<Rightarrow> queue_context \<times> xfer_outcome" where
  "Xfer_ReadBulkRawComplete s n r q = (mXfer_HandlePipeResetScenariosForComplete s r q, Completed s n)"

section \<open>Writing\<close>

definition mXfer_SubmitNextWrite :: "xfer_env \<Rightarrow> request_context \<Rightarrow> queue_context \<Rightarrow> queue_context \<times> xfer_outcome" where
  "mXfer_SubmitNextWrite e r q =
     (let remaining = Xfer_Length q - Transferred q;
          stage = (if max_transfer q < remaining then max_transfer q else remaining)
      in (q\<lparr>UserOfs := \<lparr>BufferOffset = Transferred q, BufferLength = stage\<rparr>\<rparr>,
          submit_request e r (Transferred q) (if stage \<noteq> 0 then UserRange (Transferred q) stage else NoMemory)))"

definition write_bulk :: "xfer_env \<Rightarrow> UCHAR list \<Rightarrow> request_context \<Rightarrow> queue_context \<Rightarrow> queue_context \<times> xfer_outcome" where
  "write_bulk e mem r q =
     (let q = q\<lparr>Transferred := 0, Xfer_Length := Req_Length r\<rparr> in
      if MaximumPacketSize (Info q) = 0 \<and> Xfer_Length q \<noteq> 0 then (q, Completed STATUS_INVALID_BUFFER_SIZE 0)
      else let q = mXfer_HandlePipeResetScenarios e r q in
      if Xfer_Length q \<noteq> 0 \<and> \<not> NT_SUCCESS (RetrieveMemoryStatus e) then (q, Completed (RetrieveMemoryStatus e) 0)
      else
        let q = (if Xfer_Length q \<noteq> 0 then q\<lparr>UserMem := mem, UserOfs := \<lparr>BufferOffset = 0, BufferLength = Xfer_Length q\<rparr>\<rparr>
                 else q\<lparr>UserMem := [], UserOfs := \<lparr>BufferOffset = 0, BufferLength = 0\<rparr>\<rparr>);
            q = q\<lparr>Zlps_Required := ucast (get_field ShortPacketTerminate (Req_Policies r))\<rparr>
        in mXfer_SubmitNextWrite e r q)"

definition Xfer_WriteBulk ::
  "xfer_env \<Rightarrow> UCHAR list \<Rightarrow> request_context option \<Rightarrow> queue_context option \<Rightarrow> queue_context option \<times> xfer_outcome" where
  "Xfer_WriteBulk e mem = with_contexts (write_bulk e mem)"

definition Xfer_WriteBulkComplete ::
  "xfer_env \<Rightarrow> NTSTATUS \<Rightarrow> nat \<Rightarrow> request_context \<Rightarrow> queue_context \<Rightarrow> queue_context \<times> xfer_outcome" where
  "Xfer_WriteBulkComplete e s n r q =
     (let q = q\<lparr>Transferred := Transferred q + n\<rparr> in
      if \<not> NT_SUCCESS s then (q, Completed s (Transferred q))
      else if Xfer_Length q \<le> Transferred q then
        if Zlps_Required q \<le> Zlps_Sent q then (q, Completed s (Transferred q))
        else mXfer_SubmitNextWrite e r (q\<lparr>Zlps_Sent := Zlps_Sent q + 1\<rparr>)
      else mXfer_SubmitNextWrite e r q)"

definition write_bulk_raw :: "xfer_env \<Rightarrow> request_context \<Rightarrow> queue_context \<Rightarrow> queue_context \<times> xfer_outcome" where
  "write_bulk_raw e r q =
     (if MaximumPacketSize (Info q) = 0 \<and> Req_Length r \<noteq> 0 then (q, Completed STATUS_INVALID_BUFFER_SIZE 0)
      else if Req_Length r \<noteq> 0 \<and> \<not> NT_SUCCESS (RetrieveMemoryStatus e) then (q, Completed (RetrieveMemoryStatus e) 0)
      else (q, submit_request e r 0 (if Req_Length r \<noteq> 0 then UserRange 0 (Req_Length r) else NoMemory)))"

definition Xfer_WriteBulkRaw ::
  "xfer_env \<Rightarrow> request_context option \<Rightarrow> queue_context option \<Rightarrow> queue_context option \<times> xfer_outcome" where
  "Xfer_WriteBulkRaw e = with_contexts (write_bulk_raw e)"

definition Xfer_WriteBulkRawComplete :: "NTSTATUS \<Rightarrow> nat \<Rightarrow> queue_context \<Rightarrow> queue_context \<times> xfer_outcome" where
  "Xfer_WriteBulkRawComplete s n q = (q, Completed s n)"

section \<open>A request from its start to its end\<close>

text \<open>
  What a device does with a stage: it ends it with a status and, for a read, with bytes. The framework
  stores them in the memory of the stage. \<open>run_read\<close> plays a list of such answers; \<open>Sent\<close> at its end
  means that the request still waits.
\<close>

type_synonym response = "NTSTATUS \<times> UCHAR list"

definition deliver :: "xfer_target \<Rightarrow> UCHAR list \<Rightarrow> queue_context \<Rightarrow> queue_context" where
  "deliver t bs q = (case t of
     OverMemory \<Rightarrow> q\<lparr>OverBuf := map_option (put_bytes 0 bs) (OverBuf q)\<rparr>
   | UserRange k n \<Rightarrow> q\<lparr>UserMem := put_bytes k bs (UserMem q)\<rparr>
   | NoMemory \<Rightarrow> q)"

definition mem_capacity :: "xfer_target \<Rightarrow> queue_context \<Rightarrow> nat" where
  "mem_capacity t q = (case t of OverMemory \<Rightarrow> length (the (OverBuf q)) | UserRange k n \<Rightarrow> n | NoMemory \<Rightarrow> 0)"

fun run_read :: "xfer_env \<Rightarrow> request_context \<Rightarrow> response list \<Rightarrow> queue_context \<times> xfer_outcome \<Rightarrow> queue_context \<times> xfer_outcome" where
  "run_read e r ((s, bs) # rs) (q, Sent t) = run_read e r rs (Xfer_ReadBulkComplete e s (length bs) r (deliver t bs q))"
| "run_read e r rs st = st"

text \<open>A device never sends more than the memory of a stage takes.\<close>

fun responses_fit :: "xfer_env \<Rightarrow> request_context \<Rightarrow> response list \<Rightarrow> queue_context \<times> xfer_outcome \<Rightarrow> bool" where
  "responses_fit e r ((s, bs) # rs) (q, Sent t) \<longleftrightarrow> length bs \<le> mem_capacity t q \<and>
     responses_fit e r rs (Xfer_ReadBulkComplete e s (length bs) r (deliver t bs q))"
| "responses_fit e r rs st \<longleftrightarrow> True"

text \<open>The answers that a request took, and their bytes.\<close>

fun consumed :: "xfer_env \<Rightarrow> request_context \<Rightarrow> response list \<Rightarrow> queue_context \<times> xfer_outcome \<Rightarrow> response list" where
  "consumed e r ((s, bs) # rs) (q, Sent t) = (s, bs) # consumed e r rs (Xfer_ReadBulkComplete e s (length bs) r (deliver t bs q))"
| "consumed e r rs st = []"

text \<open>A write sends the memory of each stage; a device ends it with a status and a count.\<close>

fun run_write :: "xfer_env \<Rightarrow> request_context \<Rightarrow> (NTSTATUS \<times> nat) list \<Rightarrow> queue_context \<times> xfer_outcome
  \<Rightarrow> xfer_target list \<times> queue_context \<times> xfer_outcome" where
  "run_write e r ((s, n) # rs) (q, Sent t) =
     (let (ts, st) = run_write e r rs (Xfer_WriteBulkComplete e s n r q) in (t # ts, st))"
| "run_write e r rs (q, Sent t) = ([t], q, Sent t)"
| "run_write e r rs st = ([], st)"

section \<open>Reads are a queue of bytes\<close>

definition leftover :: "queue_context \<Rightarrow> UCHAR list" where
  "leftover q = take (BufferLength (OverOfs q)) (drop (BufferOffset (OverOfs q)) (the (OverBuf q)))"

text \<open>
  The queue of a pipe that is not in raw mode: a maximum transfer size of at least a packet, and an
  over-run buffer of one packet with a valid range.
\<close>

definition queue_ok :: "queue_context \<Rightarrow> bool" where
  "queue_ok q \<longleftrightarrow> 0 < max_packet q \<and> max_packet q \<le> max_transfer q
     \<and> (\<exists>buf. OverBuf q = Some buf \<and> length buf = max_packet q)
     \<and> BufferOffset (OverOfs q) + BufferLength (OverOfs q) \<le> max_packet q"

definition env_ok :: "xfer_env \<Rightarrow> bool" where
  "env_ok e \<longleftrightarrow> NT_SUCCESS (RetrieveMemoryStatus e) \<and> NT_SUCCESS (FormatStatus e)
     \<and> NT_SUCCESS (AllocateTimerStatus e) \<and> NT_SUCCESS (SendStatus e)"

lemma submit_request_ok [simp]: "env_ok e \<Longrightarrow> submit_request e r n t = Sent t"
  by (simp add: submit_request_def SetRequestTimeout_def env_ok_def)

lemma length_put_bytes [simp]: "k + length xs \<le> length m \<Longrightarrow> length (put_bytes k xs m) = length m"
  by (simp add: put_bytes_def)

lemma take_put_bytes [simp]: "k \<le> length m \<Longrightarrow> take (k + length xs) (put_bytes k xs m) = take k m @ xs"
  by (simp add: put_bytes_def min_def)

lemma take_put_bytes_0: "n \<le> length xs \<Longrightarrow> take n (put_bytes 0 xs m) = take n xs"
  by (simp add: put_bytes_def)

lemma slice_put_bytes_0: "k \<le> length xs \<Longrightarrow> take (length xs - k) (drop k (put_bytes 0 xs m)) = drop k xs"
  by (simp add: put_bytes_def)

text \<open>The state of a read: \<open>D\<close> are the bytes that were left over at its start and that came since.\<close>

definition read_inv :: "request_context \<Rightarrow> UCHAR list \<Rightarrow> queue_context \<times> xfer_outcome \<Rightarrow> bool" where
  "read_inv r D st \<longleftrightarrow> (case st of (q, out) \<Rightarrow> queue_ok q \<and>
     (case out of
        Completed s n \<Rightarrow> n = Transferred q \<and> n \<le> Req_Length r \<and>
          (\<exists>X. D = take n (UserMem q) @ leftover q @ X \<and> (X = [] \<or> policy AutoFlush r \<and> leftover q = []))
      | Sent t \<Rightarrow> length (UserMem q) = Req_Length r \<and> Xfer_Length q = Req_Length r \<and> take (Transferred q) (UserMem q) = D
          \<and> Transferred q < Req_Length r \<and>
          (t = OverMemory \<and> BufferOffset (OverOfs q) = 0 \<and> BufferLength (OverOfs q) = Req_Length r - Transferred q
           \<or> (\<exists>c. t = UserRange (Transferred q) c \<and> BufferLength (OverOfs q) = 0 \<and> BufferLength (UserOfs q) = c
               \<and> 0 < c \<and> c \<le> Req_Length r - Transferred q))))"

lemma read_inv_submit:
  assumes "env_ok e" "queue_ok q" "length (UserMem q) = Req_Length r" "Xfer_Length q = Req_Length r"
    "take (Transferred q) (UserMem q) = D" "Transferred q < Req_Length r" "BufferLength (OverOfs q) = 0"
  shows "read_inv r D (mXfer_SubmitNextRead e r q)"
proof -
  let ?rem = "Req_Length r - Transferred q"
  let ?stage = "if max_transfer q < ?rem then max_transfer q else ?rem"
  have ok: "0 < max_packet q" "max_packet q \<le> max_transfer q" using assms(2) by (auto simp: queue_ok_def)
  show ?thesis
  proof (cases "?stage < max_packet q")
    case True
    then have s: "?stage = ?rem" using ok by (auto split: if_splits)
    from True s have "?rem < max_packet q" by simp
    show ?thesis
    proof (cases "policy AllowPartialReads r")
      case ap: True
      have "mXfer_SubmitNextRead e r q = (q\<lparr>OverOfs := \<lparr>BufferOffset = 0, BufferLength = ?rem\<rparr>\<rparr>, Sent OverMemory)"
        using assms(1,4) ap s True by (simp add: mXfer_SubmitNextRead_def)
      moreover have "queue_ok (q\<lparr>OverOfs := \<lparr>BufferOffset = 0, BufferLength = ?rem\<rparr>\<rparr>)"
        using assms(2) \<open>?rem < max_packet q\<close> by (auto simp: queue_ok_def)
      ultimately show ?thesis using assms by (simp add: read_inv_def)
    next
      case False
      then have "mXfer_SubmitNextRead e r q = (q, Completed STATUS_INVALID_BUFFER_SIZE (Transferred q))"
        using assms(4) True by (simp add: mXfer_SubmitNextRead_def)
      with assms show ?thesis by (simp add: read_inv_def leftover_def)
    qed
  next
    case False
    let ?c = "?stage - ?stage mod max_packet q"
    have c: "0 < ?c" "?c \<le> ?rem"
      using False ok(1) by (simp_all add: minus_mod_eq_mult_div div_greater_zero_iff split: if_splits)
        (meson le_less_trans less_imp_le_nat times_div_less_eq_dividend not_le)+
    have "mXfer_SubmitNextRead e r q =
      (q\<lparr>UserOfs := \<lparr>BufferOffset = Transferred q, BufferLength = ?c\<rparr>\<rparr>, Sent (UserRange (Transferred q) ?c))"
      using assms(1,4) False by (simp add: mXfer_SubmitNextRead_def Let_def)
    moreover have "queue_ok (q\<lparr>UserOfs := \<lparr>BufferOffset = Transferred q, BufferLength = ?c\<rparr>\<rparr>)"
      using assms(2) by (simp add: queue_ok_def)
    ultimately show ?thesis using assms c by (simp add: read_inv_def)
  qed
qed

lemma queue_ok_reset [simp]:
  "queue_ok (mXfer_HandlePipeResetScenarios e r q) = queue_ok q"
  "leftover (mXfer_HandlePipeResetScenarios e r q) = leftover q"
  "OverBuf (mXfer_HandlePipeResetScenarios e r q) = OverBuf q"
  "OverOfs (mXfer_HandlePipeResetScenarios e r q) = OverOfs q"
  "Info (mXfer_HandlePipeResetScenarios e r q) = Info q"
  "Xfer_Length (mXfer_HandlePipeResetScenarios e r q) = Xfer_Length q"
  "Transferred (mXfer_HandlePipeResetScenarios e r q) = Transferred q"
  "Zlps_Sent (mXfer_HandlePipeResetScenarios e r q) = Zlps_Sent q"
  by (simp_all add: mXfer_HandlePipeResetScenarios_def queue_ok_def leftover_def)

lemma reset_complete_success [simp]:
  "NT_SUCCESS s \<Longrightarrow> mXfer_HandlePipeResetScenariosForComplete s r q = q"
  by (simp add: mXfer_HandlePipeResetScenariosForComplete_def)

lemma read_inv_completed:
  assumes "queue_ok q" "Transferred q \<le> Req_Length r"
    "D = take (Transferred q) (UserMem q) @ leftover q @ X" "X = [] \<or> policy AutoFlush r \<and> leftover q = []"
  shows "read_inv r D (q, Completed s (Transferred q))"
  using assms by (auto simp: read_inv_def)

lemma read_inv_discard:
  assumes "queue_ok q" "Transferred q \<le> Req_Length r" "D = take (Transferred q) (UserMem q) @ leftover q"
  shows "read_inv r D (if policy AutoFlush r then discard_over q else q, Completed s (Transferred q))"
proof (cases "policy AutoFlush r")
  case True
  then show ?thesis using assms by (auto simp: read_inv_def discard_over_def queue_ok_def leftover_def)
qed (use assms in \<open>auto simp: read_inv_def\<close>)

lemma read_inv_complete_over:
  assumes e: "env_ok e" and inv: "read_inv r D (q, Sent OverMemory)" and s: "NT_SUCCESS s"
    and fit: "length bs \<le> mem_capacity OverMemory q"
  shows "read_inv r (D @ bs) (Xfer_ReadBulkComplete e s (length bs) r (deliver OverMemory bs q))"
proof -
  obtain buf where buf: "OverBuf q = Some buf" "length buf = max_packet q" and q: "queue_ok q"
    using inv by (auto simp: read_inv_def queue_ok_def)
  have i: "length (UserMem q) = Req_Length r" "Xfer_Length q = Req_Length r" "take (Transferred q) (UserMem q) = D"
    "Transferred q < Req_Length r" "BufferOffset (OverOfs q) = 0" "BufferLength (OverOfs q) = Req_Length r - Transferred q"
    using inv by (auto simp: read_inv_def)
  have ofs: "(OverOfs q)\<lparr>BufferLength := x\<rparr> = \<lparr>BufferOffset = 0, BufferLength = x\<rparr>" for x
    using i(5) by (cases "OverOfs q") simp
  let ?rem = "Req_Length r - Transferred q" and ?b = "put_bytes 0 bs buf"
  have lb: "length bs \<le> max_packet q" using fit buf by (simp add: mem_capacity_def)
  have rem: "0 < ?rem" using i by simp
  let ?n = "min ?rem (length bs)"
  let ?q = "q\<lparr>OverBuf := Some ?b, UserMem := put_bytes (Transferred q) (take ?n bs) (UserMem q),
       OverOfs := \<lparr>BufferOffset = ?n, BufferLength = length bs - ?n\<rparr>, Transferred := Transferred q + ?n\<rparr>"
  have cp: "mXfer_CopyPartialReadToUserMemory 0 ?n
       (q\<lparr>OverBuf := Some ?b, OverOfs := \<lparr>BufferOffset = 0, BufferLength = length bs\<rparr>\<rparr>) = (STATUS_SUCCESS, ?q)"
    using i by (simp add: mXfer_CopyPartialReadToUserMemory_def take_put_bytes_0)
  have q': "queue_ok ?q" using q buf lb by (auto simp: queue_ok_def)
  have lo: "leftover ?q = drop ?n bs" by (simp add: leftover_def slice_put_bytes_0)
  have um: "take (Transferred ?q) (UserMem ?q) = D @ take ?n bs"
    using i take_put_bytes [of "Transferred q" "UserMem q" "take ?n bs"] by simp
  have um_len: "length (UserMem ?q) = Req_Length r" using i by simp
  show ?thesis
  proof (cases "bs = []")
    case True
    let ?z = "q\<lparr>OverBuf := Some ?b, OverOfs := \<lparr>BufferOffset = 0, BufferLength = 0\<rparr>\<rparr>"
    have z: "queue_ok ?z" using q buf by (simp add: True queue_ok_def put_bytes_def)
    have r: "Xfer_ReadBulkComplete e s (length bs) r (deliver OverMemory bs q) =
        (if \<not> policy IgnoreShortPackets r then (?z, Completed s (Transferred ?z)) else mXfer_SubmitNextRead e r ?z)"
      using s i rem by (simp add: Xfer_ReadBulkComplete_def deliver_def buf True Let_def ofs)
    have "read_inv r D (?z, Completed s (Transferred ?z))"
      by (rule read_inv_completed [where X = "[]"]) (use z i in \<open>simp_all add: leftover_def\<close>)
    moreover have "read_inv r D (mXfer_SubmitNextRead e r ?z)"
      by (rule read_inv_submit [OF e z]) (use i in simp_all)
    ultimately show ?thesis unfolding r by (simp add: True)
  next
    case False
    have r: "Xfer_ReadBulkComplete e s (length bs) r (deliver OverMemory bs q) =
        (if Req_Length r \<le> Transferred ?q then (if policy AutoFlush r then discard_over ?q else ?q, Completed STATUS_SUCCESS (Transferred ?q))
         else if \<not> policy IgnoreShortPackets r then (?q, Completed STATUS_SUCCESS (Transferred ?q))
         else mXfer_SubmitNextRead e r ?q)"
      using s i rem False cp by (simp add: Xfer_ReadBulkComplete_def deliver_def buf Let_def ofs)
    show ?thesis
    proof (cases "Req_Length r \<le> Transferred ?q")
      case True
      have "read_inv r (D @ bs) (if policy AutoFlush r then discard_over ?q else ?q, Completed STATUS_SUCCESS (Transferred ?q))"
        by (rule read_inv_discard [OF q']) (use i um lo in simp_all)
      then show ?thesis unfolding r by (simp only: True if_True)
    next
      case c: False
      then have n: "?n = length bs" by simp
      have "read_inv r (D @ bs) (?q, Completed STATUS_SUCCESS (Transferred ?q))"
        by (rule read_inv_completed [OF q', where X = "[]"]) (use i um lo n in simp_all)
      moreover have "read_inv r (D @ bs) (mXfer_SubmitNextRead e r ?q)"
        by (rule read_inv_submit [OF e q']) (use i um um_len n c in simp_all)
      ultimately show ?thesis unfolding r by (simp only: c if_False split: if_split) blast
    qed
  qed
qed

lemma read_inv_complete_user:
  assumes e: "env_ok e" and inv: "read_inv r D (q, Sent (UserRange k c))" and s: "NT_SUCCESS s"
    and fit: "length bs \<le> mem_capacity (UserRange k c) q"
  shows "read_inv r (D @ bs) (Xfer_ReadBulkComplete e s (length bs) r (deliver (UserRange k c) bs q))"
proof -
  have q: "queue_ok q" using inv by (simp add: read_inv_def)
  have i: "length (UserMem q) = Req_Length r" "Xfer_Length q = Req_Length r" "take (Transferred q) (UserMem q) = D"
    "Transferred q < Req_Length r" "BufferLength (OverOfs q) = 0" "k = Transferred q" "BufferLength (UserOfs q) = c"
    "c \<le> Req_Length r - Transferred q"
    using inv by (auto simp: read_inv_def)
  let ?q = "q\<lparr>UserMem := put_bytes k bs (UserMem q), Transferred := Transferred q + length bs\<rparr>"
  have bs: "length bs \<le> Req_Length r - Transferred q" using fit i by (simp add: mem_capacity_def)
  have q': "queue_ok ?q" using q by (simp add: queue_ok_def)
  have um: "take (Transferred ?q) (UserMem ?q) = D @ bs" using i by simp
  have um_len: "length (UserMem ?q) = Req_Length r" using i bs by simp
  have r: "Xfer_ReadBulkComplete e s (length bs) r (deliver (UserRange k c) bs q) =
      (if Req_Length r \<le> Transferred ?q then (?q, Completed s (Transferred ?q))
       else if bs \<noteq> [] \<and> length bs = c then mXfer_SubmitNextRead e r ?q
       else if \<not> policy IgnoreShortPackets r then (?q, Completed s (Transferred ?q))
       else mXfer_SubmitNextRead e r ?q)"
    using s i by (simp add: Xfer_ReadBulkComplete_def deliver_def Let_def)
  have "read_inv r (D @ bs) (?q, Completed s (Transferred ?q))"
    by (rule read_inv_completed [OF q', where X = "[]"]) (use i um bs in \<open>simp_all add: leftover_def\<close>)
  moreover have "read_inv r (D @ bs) (mXfer_SubmitNextRead e r ?q)" if "\<not> Req_Length r \<le> Transferred ?q"
    by (rule read_inv_submit [OF e q']) (use i um um_len that in simp_all)
  ultimately show ?thesis unfolding r by (simp only: split: if_split) blast
qed

lemma read_inv_start:
  assumes e: "env_ok e" and q: "queue_ok q" and m: "length mem = Req_Length r"
  shows "read_inv r (leftover q) (read_bulk e mem r q)"
proof -
  let ?q0 = "mXfer_HandlePipeResetScenarios e r (q\<lparr>Transferred := 0, Xfer_Length := Req_Length r\<rparr>)"
  let ?q1 = "?q0\<lparr>UserMem := mem, UserOfs := \<lparr>BufferOffset = 0, BufferLength = Req_Length r\<rparr>\<rparr>"
  obtain buf where buf: "OverBuf q = Some buf" "length buf = max_packet q" and "0 < max_packet q"
    and range: "BufferOffset (OverOfs q) + BufferLength (OverOfs q) \<le> max_packet q"
    using q by (auto simp: queue_ok_def)
  then have mps: "MaximumPacketSize (Info q) \<noteq> 0" by auto
  have ok0: "queue_ok ?q0" using q by (simp add: queue_ok_def)
  have ok1: "queue_ok ?q1" using q by (simp add: queue_ok_def)
  have lo: "leftover ?q0 = leftover q" by (simp add: leftover_def)
  show ?thesis
  proof (cases "Req_Length r = 0")
    case True
    have "read_bulk e mem r q = (?q0, Completed (if policy AllowPartialReads r then STATUS_SUCCESS else STATUS_INVALID_BUFFER_SIZE) (Transferred ?q0))"
      using True buf mps by (simp add: read_bulk_def Let_def)
    then show ?thesis
      using read_inv_completed [where X = "[]", OF ok0] lo by simp
  next
    case False
    have em: "NT_SUCCESS (RetrieveMemoryStatus e)" using e by (simp add: env_ok_def)
    show ?thesis
    proof (cases "BufferLength (OverOfs q) = 0")
      case True
      have "read_bulk e mem r q = mXfer_SubmitNextRead e r ?q1"
        using True False buf mps em by (simp add: read_bulk_def Let_def)
      moreover have "read_inv r (leftover q) (mXfer_SubmitNextRead e r ?q1)"
        by (rule read_inv_submit [OF e ok1]) (use True False m in \<open>simp_all add: leftover_def\<close>)
      ultimately show ?thesis by simp
    next
      case len: False
      let ?n = "min (BufferLength (OverOfs q)) (Req_Length r)"
      let ?q2 = "?q1\<lparr>UserMem := put_bytes 0 (take ?n (drop (BufferOffset (OverOfs q)) buf)) mem,
        OverOfs := \<lparr>BufferOffset = BufferOffset (OverOfs q) + ?n, BufferLength = BufferLength (OverOfs q) - ?n\<rparr>, Transferred := ?n\<rparr>"
      have cp: "mXfer_CopyPartialReadToUserMemory (BufferOffset (OverOfs q)) ?n ?q1 = (STATUS_SUCCESS, ?q2)"
        using m buf by (simp add: mXfer_CopyPartialReadToUserMemory_def)
      have r: "read_bulk e mem r q =
          (if Req_Length r \<le> ?n then (if policy AutoFlush r then discard_over ?q2 else ?q2, Completed STATUS_SUCCESS (Transferred ?q2))
           else mXfer_SubmitNextRead e r ?q2)"
        using len False buf mps em cp by (simp add: read_bulk_def Let_def)
      have ok2: "queue_ok ?q2" using q by (auto simp: queue_ok_def)
      have L: "leftover q = take ?n (drop (BufferOffset (OverOfs q)) buf) @ leftover ?q2"
        using buf take_add [of ?n "BufferLength (OverOfs q) - ?n" "drop (BufferOffset (OverOfs q)) buf"]
        by (simp add: leftover_def add.commute)
      have tl: "length (take ?n (drop (BufferOffset (OverOfs q)) buf)) = ?n" using buf range by simp
      have um: "take (Transferred ?q2) (UserMem ?q2) = take ?n (drop (BufferOffset (OverOfs q)) buf)"
        using take_put_bytes [of 0 mem "take ?n (drop (BufferOffset (OverOfs q)) buf)"] tl by simp
      show ?thesis
      proof (cases "Req_Length r \<le> ?n")
        case True
        have "read_inv r (leftover q) (if policy AutoFlush r then discard_over ?q2 else ?q2, Completed STATUS_SUCCESS (Transferred ?q2))"
          by (rule read_inv_discard [OF ok2]) (use um L in simp_all)
        then show ?thesis unfolding r by (simp only: True if_True)
      next
        case short: False
        then have n: "?n = BufferLength (OverOfs q)" by simp
        have "leftover ?q2 = []" using n by (simp add: leftover_def)
        then have "take (Transferred ?q2) (UserMem ?q2) = leftover q" using um L by simp
        moreover have "length (UserMem ?q2) = Req_Length r" using tl m short by simp
        ultimately have "read_inv r (leftover q) (mXfer_SubmitNextRead e r ?q2)"
          by (intro read_inv_submit [OF e ok2]) (use short n in simp_all)
        with short show ?thesis unfolding r by simp
      qed
    qed
  qed
qed

lemma read_inv_complete:
  assumes "env_ok e" "read_inv r D (q, Sent t)" "NT_SUCCESS s" "length bs \<le> mem_capacity t q"
  shows "read_inv r (D @ bs) (Xfer_ReadBulkComplete e s (length bs) r (deliver t bs q))"
  using assms
proof (cases t)
  case NoMemory
  with assms(2) show ?thesis by (simp add: read_inv_def)
qed (auto intro: read_inv_complete_over read_inv_complete_user)

lemma read_inv_run:
  assumes "env_ok e" "read_inv r D st" "responses_fit e r rs st" "\<forall>(s, bs) \<in> set rs. NT_SUCCESS s"
  shows "read_inv r (D @ concat (map snd (consumed e r rs st))) (run_read e r rs st)"
  using assms
proof (induction e r rs st arbitrary: D rule: run_read.induct)
  case (1 e r s bs rs q t)
  then have "read_inv r (D @ bs) (Xfer_ReadBulkComplete e s (length bs) r (deliver t bs q))"
    by (intro read_inv_complete) auto
  from "1.IH" [OF _ this] "1.prems" show ?case by simp
qed simp_all

text \<open>
  C9. The reads of a bulk or interrupt pipe form a queue of bytes: when a read completes and its stages
  succeeded, the bytes in the buffer of the user followed by the bytes in the over-run buffer are the
  bytes that were left over before, followed by all bytes that the device sent, in order, however the
  transfer was split. Only the policy AUTO_FLUSH drops bytes, and then the over-run buffer is empty. The
  count returned never exceeds the length asked for, and the queue is ready for the next read.
\<close>

theorem bulk_read_fifo:
  assumes "queue_ok q" "env_ok e" "length mem = Req_Length r"
    and "responses_fit e r rs (read_bulk e mem r q)" "\<forall>(s, bs) \<in> set rs. NT_SUCCESS s"
    and "run_read e r rs (read_bulk e mem r q) = (q', Completed s n)"
  shows "(\<exists>dropped. leftover q @ concat (map snd (consumed e r rs (read_bulk e mem r q)))
        = take n (UserMem q') @ leftover q' @ dropped \<and> (dropped = [] \<or> policy AutoFlush r \<and> leftover q' = []))
    \<and> n \<le> Req_Length r \<and> queue_ok q'"
  using read_inv_run [OF assms(2) read_inv_start [OF assms(2,1,3)] assms(4,5)] assms(6)
  by (auto simp: read_inv_def)

lemma submit_read_fields:
  "mXfer_SubmitNextRead e r q = (q', out) \<Longrightarrow> Transferred q' = Transferred q \<and> Xfer_Length q' = Xfer_Length q"
  by (auto simp: mXfer_SubmitNextRead_def Let_def split: if_splits)

lemma deliver_fields [simp]:
  "Transferred (deliver t bs q) = Transferred q" "Xfer_Length (deliver t bs q) = Xfer_Length q"
  "OverOfs (deliver t bs q) = OverOfs q" "UserOfs (deliver t bs q) = UserOfs q"
  by (cases t; simp add: deliver_def)+

lemma read_complete_progress:
  assumes "Xfer_ReadBulkComplete e s n r q = (q', Sent t)" "\<not> policy IgnoreShortPackets r \<or> n \<noteq> 0"
  shows "Transferred q < Transferred q'" "Transferred q' < Xfer_Length q'" "Xfer_Length q' = Xfer_Length q"
proof -
  have c: "Transferred q1 = Transferred q0 + k \<and> Xfer_Length q1 = Xfer_Length q0 \<and> NT_SUCCESS s1"
    if "mXfer_CopyPartialReadToUserMemory a k q0 = (s1, q1)" "NT_SUCCESS s1" for a k q0 s1 q1
    using that by (auto simp: mXfer_CopyPartialReadToUserMemory_def split: if_splits) (simp add: NT_SUCCESS_def)
  have f: "Transferred (mXfer_HandlePipeResetScenariosForComplete s r q) = Transferred q"
    "Xfer_Length (mXfer_HandlePipeResetScenariosForComplete s r q) = Xfer_Length q"
    "OverOfs (mXfer_HandlePipeResetScenariosForComplete s r q) = OverOfs q"
    by (simp_all add: mXfer_HandlePipeResetScenariosForComplete_def)
  show "Transferred q < Transferred q'" "Transferred q' < Xfer_Length q'" "Xfer_Length q' = Xfer_Length q"
    using assms
    by (auto simp: Xfer_ReadBulkComplete_def Let_def f split: if_split_asm prod.splits dest!: submit_read_fields c)
qed

lemma run_read_ends:
  assumes "case st of (q, Sent t) \<Rightarrow> Transferred q < Xfer_Length q \<and> Xfer_Length q - Transferred q \<le> length rs | _ \<Rightarrow> True"
    "\<not> policy IgnoreShortPackets r \<or> (\<forall>(s, bs) \<in> set rs. bs \<noteq> [])"
  shows "\<exists>q' s n. run_read e r rs st = (q', Completed s n)"
  using assms
proof (induction e r rs st rule: run_read.induct)
  case (1 e r s bs rs q t)
  obtain q1 out where st: "Xfer_ReadBulkComplete e s (length bs) r (deliver t bs q) = (q1, out)" by fastforce
  show ?case
  proof (cases out)
    case (Sent t1)
    have "\<not> policy IgnoreShortPackets r \<or> length bs \<noteq> 0" using "1.prems"(2) by auto
    from read_complete_progress [OF st [unfolded Sent] this] "1.prems" have
      "\<exists>q' s n. run_read e r rs (q1, Sent t1) = (q', Completed s n)"
      using "1.IH" st Sent by fastforce
    with st Sent show ?thesis by simp
  next
    case (Completed s n)
    with st show ?thesis by simp
  qed
qed (auto split: prod.splits xfer_outcome.splits)

text \<open>
  C10. A read ends: unless short packets are ignored and the device sends empty ones, every stage makes
  progress, and a read of \<open>n\<close> bytes completes after at most \<open>n\<close> stages, with success or not,
  whatever the framework answers.
\<close>

theorem bulk_read_ends:
  assumes "Req_Length r \<le> length rs" "\<not> policy IgnoreShortPackets r \<or> (\<forall>(s, bs) \<in> set rs. bs \<noteq> [])"
  shows "\<exists>q' s n. run_read e r rs (read_bulk e mem r q) = (q', Completed s n)"
proof (rule run_read_ends [OF _ assms(2)])
  have c: "Transferred q1 = Transferred q0 + k \<and> Xfer_Length q1 = Xfer_Length q0"
    if "mXfer_CopyPartialReadToUserMemory a k q0 = (s1, q1)" "NT_SUCCESS s1" for a k q0 s1 q1
    using that by (auto simp: mXfer_CopyPartialReadToUserMemory_def split: if_splits) (simp_all add: NT_SUCCESS_def)
  have "Transferred q1 < Xfer_Length q1 \<and> Xfer_Length q1 = Req_Length r" if "read_bulk e mem r q = (q1, Sent t)" for q1 t
    using that
    by (auto simp: read_bulk_def Let_def split: if_split_asm prod.splits dest!: submit_read_fields c)
  then show "case read_bulk e mem r q of (q, Sent t) \<Rightarrow> Transferred q < Xfer_Length q \<and> Xfer_Length q - Transferred q \<le> length rs | _ \<Rightarrow> True"
    using assms(1) by (fastforce split: prod.splits xfer_outcome.splits)
qed

section \<open>A failed read\<close>

text \<open>A stage into the over-run buffer, shorter than a packet, on a queue with nothing left over.\<close>

lemma over_stage:
  assumes "queue_ok q" "env_ok e" "length mem = Req_Length r" "policy AllowPartialReads r"
    "BufferLength (OverOfs q) = 0" "0 < Req_Length r" "Req_Length r < max_packet q"
  obtains q1 where "read_bulk e mem r q = (q1, Sent OverMemory)" "OverOfs q1 = \<lparr>BufferOffset = 0, BufferLength = Req_Length r\<rparr>"
    "OverBuf q1 = OverBuf q" "Info q1 = Info q" "Transferred q1 = 0" "Xfer_Length q1 = Req_Length r" "UserMem q1 = mem"
proof -
  let ?q0 = "mXfer_HandlePipeResetScenarios e r (q\<lparr>Transferred := 0, Xfer_Length := Req_Length r\<rparr>)"
  let ?q1 = "?q0\<lparr>UserMem := mem, UserOfs := \<lparr>BufferOffset = 0, BufferLength = Req_Length r\<rparr>\<rparr>"
  obtain buf where buf: "OverBuf q = Some buf" "0 < max_packet q" "max_packet q \<le> max_transfer q"
    using assms(1) by (auto simp: queue_ok_def)
  then have mps: "MaximumPacketSize (Info q) \<noteq> 0" by auto
  have "read_bulk e mem r q = mXfer_SubmitNextRead e r ?q1"
    using assms buf mps by (simp add: read_bulk_def Let_def env_ok_def)
  also have "\<dots> = (?q1\<lparr>OverOfs := \<lparr>BufferOffset = 0, BufferLength = Req_Length r\<rparr>\<rparr>, Sent OverMemory)"
    using assms buf by (simp add: mXfer_SubmitNextRead_def Let_def)
  finally show thesis by (rule that) simp_all
qed

text \<open>
  C12. A read shorter than a packet asks for a packet into the over-run buffer. When that stage fails
  without data, the length of the buffer stays at what was asked for: the next read returns that many
  bytes of the buffer's old contents, with success and without asking the device. When it fails with
  data, the status of the copy replaces its own, and the read is reported as a success.
\<close>

theorem failed_read_leaves_stale_bytes:
  assumes "queue_ok q" "env_ok e" "length mem = Req_Length r" "policy AllowPartialReads r"
    and "BufferLength (OverOfs q) = 0" "0 < Req_Length r" "Req_Length r < max_packet q"
    and "\<not> NT_SUCCESS s" "OverBuf q = Some buf" "bs \<noteq> []" "length bs \<le> max_packet q" "\<not> policy IgnoreShortPackets r"
  shows "(\<exists>q1 q2. run_read e r [(s, [])] (read_bulk e mem r q) = (q1, Completed s 0)
      \<and> read_bulk e mem r q1 = (q2, Completed STATUS_SUCCESS (Req_Length r)) \<and> UserMem q2 = take (Req_Length r) buf)
    \<and> (\<exists>q1. run_read e r [(s, bs)] (read_bulk e mem r q) = (q1, Completed STATUS_SUCCESS (min (Req_Length r) (length bs))))"
proof -
  obtain q1 where rb: "read_bulk e mem r q = (q1, Sent OverMemory)"
    and q1: "OverOfs q1 = \<lparr>BufferOffset = 0, BufferLength = Req_Length r\<rparr>"
    "OverBuf q1 = Some buf" "Info q1 = Info q" "Transferred q1 = 0" "Xfer_Length q1 = Req_Length r" "UserMem q1 = mem"
    using over_stage [OF assms(1-7)] assms(9) by metis
  let ?d = "\<lambda>bs. mXfer_HandlePipeResetScenariosForComplete s r (deliver OverMemory bs q1)"
  have d: "OverOfs (?d x) = OverOfs q1" "OverBuf (?d x) = Some (put_bytes 0 x buf)" "Info (?d x) = Info q"
    "Transferred (?d x) = 0" "Xfer_Length (?d x) = Req_Length r" "UserMem (?d x) = mem" for x
    using q1 by (simp_all add: mXfer_HandlePipeResetScenariosForComplete_def deliver_def)
  have len: "length buf = max_packet q" "MaximumPacketSize (Info q) \<noteq> 0"
    using assms(1,9) by (auto simp: queue_ok_def)
  have r1: "run_read e r [(s, [])] (read_bulk e mem r q) = (?d [], Completed s 0)"
    unfolding rb using assms(6,8) q1(1) d by (simp add: Xfer_ReadBulkComplete_def Let_def)
  have "put_bytes 0 [] buf = buf" by (simp add: put_bytes_def)
  moreover have "put_bytes 0 (take (Req_Length r) buf) mem = take (Req_Length r) buf"
    using assms(3,7) len by (simp add: put_bytes_def)
  moreover have "UserMem (if policy AutoFlush r then discard_over x else x) = UserMem x" for x
    by (simp add: discard_over_def)
  ultimately have "\<exists>q2. read_bulk e mem r (?d []) = (q2, Completed STATUS_SUCCESS (Req_Length r)) \<and> UserMem q2 = take (Req_Length r) buf"
    using assms(2,3,6,7) q1(1) d [of "[]"] len
    by (auto simp: read_bulk_def Let_def env_ok_def mXfer_CopyPartialReadToUserMemory_def discard_over_def)
  moreover have "\<exists>q1. run_read e r [(s, bs)] (read_bulk e mem r q) = (q1, Completed STATUS_SUCCESS (min (Req_Length r) (length bs)))"
    unfolding rb using assms(3,6,8,10,12) q1(1) d [of bs]
    by (auto simp: Xfer_ReadBulkComplete_def Let_def mXfer_CopyPartialReadToUserMemory_def)
  ultimately show ?thesis using r1 by blast
qed

section \<open>Writes\<close>

fun stages :: "nat \<Rightarrow> nat \<Rightarrow> nat \<Rightarrow> xfer_target list" where
  "stages m k rem = (if rem = 0 \<or> m = 0 then [] else UserRange k (min m rem) # stages m (k + min m rem) (rem - min m rem))"

declare stages.simps [simp del]

fun target_length :: "xfer_target \<Rightarrow> nat" where
  "target_length (UserRange k n) = n"
| "target_length _ = 0"

fun target_bytes :: "UCHAR list \<Rightarrow> xfer_target \<Rightarrow> UCHAR list" where
  "target_bytes mem (UserRange k n) = take n (drop k mem)"
| "target_bytes mem _ = []"

lemma stages_cover: "0 < m \<Longrightarrow> concat (map (target_bytes mem) (stages m k rem)) = take rem (drop k mem)"
proof (induction m k rem rule: stages.induct)
  case (1 m k rem)
  show ?case
  proof (cases "rem = 0")
    case False
    with 1 show ?thesis
      using take_add [of "min m rem" "rem - min m rem" "drop k mem"]
      by (subst stages.simps) (simp add: add.commute)
  qed (simp add: stages.simps)
qed

definition write_targets :: "request_context \<Rightarrow> queue_context \<Rightarrow> xfer_target list" where
  "write_targets r q =
     (if Req_Length r = 0 then [NoMemory] else stages (max_transfer q) 0 (Req_Length r))
     @ (if policy ShortPacketTerminate r \<and> Zlps_Sent q = 0 then [NoMemory] else [])"

lemma submit_write_ok:
  "env_ok e \<Longrightarrow> mXfer_SubmitNextWrite e r q =
     (let n = min (max_transfer q) (Xfer_Length q - Transferred q)
      in (q\<lparr>UserOfs := \<lparr>BufferOffset = Transferred q, BufferLength = n\<rparr>\<rparr>,
          Sent (if n \<noteq> 0 then UserRange (Transferred q) n else NoMemory)))"
  by (simp add: mXfer_SubmitNextWrite_def Let_def min_def)

text \<open>A device that takes every stage whole.\<close>

definition accept :: "xfer_target \<Rightarrow> NTSTATUS \<times> nat" where
  "accept t = (STATUS_SUCCESS, target_length t)"

lemma zlp_done: "(if z then 1 else 0 :: UCHAR) \<le> n \<longleftrightarrow> \<not> (z \<and> n = 0)"
  by (auto simp: word_gt_0 simp flip: word_less_1 not_less)

lemma run_write_tail:
  assumes e: "env_ok e" and zs: "Zlps_Required q = (if z then 1 else 0)" and t: "Xfer_Length q \<le> Transferred q + n"
    and x: "xs = (if z \<and> Zlps_Sent q = 0 then [NoMemory] else [])"
  shows "\<exists>q'. run_write e r (map accept xs) (Xfer_WriteBulkComplete e STATUS_SUCCESS n r q)
    = (xs, q', Completed STATUS_SUCCESS (Transferred q + n)) \<and> Zlps_Sent q' = (if z \<and> Zlps_Sent q = 0 then 1 else Zlps_Sent q)"
proof (cases "z \<and> Zlps_Sent q = 0")
  case True
  with assms show ?thesis
    by (simp add: accept_def Xfer_WriteBulkComplete_def submit_write_ok Let_def)
next
  case False
  then have "Zlps_Required q \<le> Zlps_Sent q" using zs by (simp add: zlp_done)
  with False t x show ?thesis by (auto simp: Xfer_WriteBulkComplete_def)
qed

lemma run_write_stages:
  assumes e: "env_ok e" and m: "0 < max_transfer q" and zs: "Zlps_Required q = (if z then 1 else 0)"
    and x: "xs = (if z \<and> Zlps_Sent q = 0 then [NoMemory] else [])"
    and "rem = Xfer_Length q - Transferred q" "0 < rem"
  shows "\<exists>q'. run_write e r (map accept (stages (max_transfer q) (Transferred q) rem @ xs)) (mXfer_SubmitNextWrite e r q)
    = (stages (max_transfer q) (Transferred q) rem @ xs, q', Completed STATUS_SUCCESS (Xfer_Length q))
    \<and> Zlps_Sent q' = (if z \<and> Zlps_Sent q = 0 then 1 else Zlps_Sent q)"
  using m zs x assms(5,6)
proof (induction rem arbitrary: q rule: less_induct)
  case (less rem)
  let ?n = "min (max_transfer q) rem"
  let ?q1 = "q\<lparr>UserOfs := \<lparr>BufferOffset = Transferred q, BufferLength = ?n\<rparr>\<rparr>"
  have n: "0 < ?n" "?n \<le> rem" using less.prems by auto
  have sub: "mXfer_SubmitNextWrite e r q = (?q1, Sent (UserRange (Transferred q) ?n))"
    using n less.prems(4) by (simp add: submit_write_ok [OF e] Let_def)
  have st: "stages (max_transfer q) (Transferred q) rem
      = UserRange (Transferred q) ?n # stages (max_transfer q) (Transferred q + ?n) (rem - ?n)"
    using less.prems by (subst stages.simps) simp
  have acc: "accept (UserRange (Transferred q) ?n) = (STATUS_SUCCESS, ?n)" by (simp add: accept_def)
  let ?rest = "stages (max_transfer q) (Transferred q + ?n) (rem - ?n)"
  have "\<exists>q'. run_write e r (map accept (?rest @ xs)) (Xfer_WriteBulkComplete e STATUS_SUCCESS ?n r ?q1)
      = (?rest @ xs, q', Completed STATUS_SUCCESS (Xfer_Length q)) \<and> Zlps_Sent q' = (if z \<and> Zlps_Sent q = 0 then 1 else Zlps_Sent q)"
  proof (cases "?n = rem")
    case True
    then have rest: "?rest = []" by (simp add: stages.simps)
    have eq: "Transferred q + ?n = Xfer_Length q" using True less.prems by simp
    have f: "Transferred ?q1 = Transferred q" "Zlps_Sent ?q1 = Zlps_Sent q" by simp_all
    have "\<exists>q'. run_write e r (map accept xs) (Xfer_WriteBulkComplete e STATUS_SUCCESS ?n r ?q1)
      = (xs, q', Completed STATUS_SUCCESS (Transferred ?q1 + ?n)) \<and> Zlps_Sent q' = (if z \<and> Zlps_Sent ?q1 = 0 then 1 else Zlps_Sent ?q1)"
      by (rule run_write_tail [OF e]) (use less.prems eq in simp_all)
    then show ?thesis unfolding rest append_Nil unfolding f eq .
  next
    case False
    let ?q2 = "?q1\<lparr>Transferred := Transferred q + ?n\<rparr>"
    have "Xfer_WriteBulkComplete e STATUS_SUCCESS ?n r ?q1 = mXfer_SubmitNextWrite e r ?q2"
    proof -
      have "\<not> Xfer_Length q \<le> Transferred q + ?n" using False n less.prems(4) by linarith
      then show ?thesis by (simp add: Xfer_WriteBulkComplete_def Let_def del: min_less_iff_conj)
    qed
    then have step: "Xfer_WriteBulkComplete e STATUS_SUCCESS ?n r ?q1 = mXfer_SubmitNextWrite e r ?q2" .
    have f: "max_transfer ?q2 = max_transfer q" "Transferred ?q2 = Transferred q + ?n" "Xfer_Length ?q2 = Xfer_Length q"
      "Zlps_Sent ?q2 = Zlps_Sent q" by simp_all
    have "\<exists>q'. run_write e r (map accept (stages (max_transfer ?q2) (Transferred ?q2) (rem - ?n) @ xs)) (mXfer_SubmitNextWrite e r ?q2)
      = (stages (max_transfer ?q2) (Transferred ?q2) (rem - ?n) @ xs, q', Completed STATUS_SUCCESS (Xfer_Length ?q2))
      \<and> Zlps_Sent q' = (if z \<and> Zlps_Sent ?q2 = 0 then 1 else Zlps_Sent ?q2)"
      by (rule less.IH) (use False n less.prems in auto)
    then show ?thesis unfolding step unfolding f .
  qed
  then show ?case unfolding st sub by (auto simp: acc)
qed

text \<open>
  C11. A write, on a device that takes what it is sent: the stages are ranges of at most the maximum
  transfer size that cover the buffer of the user exactly and in order, and the request completes with
  its length. With SHORT_PACKET_TERMINATE an empty packet follows, but only on the first such write of
  a queue: the count of empty packets sent is never reset, so no later write is terminated. A write of
  no bytes sends an empty packet of its own before.
\<close>

theorem bulk_write_stages:
  assumes "env_ok e" "length mem = Req_Length r" "0 < max_packet q" "0 < max_transfer q"
  shows "\<exists>q'. run_write e r (map accept (write_targets r q)) (write_bulk e mem r q)
      = (write_targets r q, q', Completed STATUS_SUCCESS (Req_Length r))
    \<and> concat (map (target_bytes mem) (write_targets r q)) = mem
    \<and> Zlps_Sent q' = (if policy ShortPacketTerminate r \<and> Zlps_Sent q = 0 then 1 else Zlps_Sent q)"
proof -
  let ?z = "policy ShortPacketTerminate r"
  let ?xs = "if ?z \<and> Zlps_Sent q = 0 then [NoMemory] else []"
  let ?q0 = "mXfer_HandlePipeResetScenarios e r (q\<lparr>Transferred := 0, Xfer_Length := Req_Length r\<rparr>)"
  let ?q1 = "?q0\<lparr>UserMem := mem, UserOfs := \<lparr>BufferOffset = 0, BufferLength = Req_Length r\<rparr>,
    Zlps_Required := ucast (get_field ShortPacketTerminate (Req_Policies r))\<rparr>"
  have em: "NT_SUCCESS (RetrieveMemoryStatus e)" using assms(1) by (simp add: env_ok_def)
  have mps: "MaximumPacketSize (Info q) \<noteq> 0" using assms(3) by auto
  have start: "write_bulk e mem r q = mXfer_SubmitNextWrite e r ?q1"
    using em mps assms(2) by (cases mem) (simp_all add: write_bulk_def Let_def)
  have "unat (get_field ShortPacketTerminate (Req_Policies r)) < 2" using get_field_range [of ShortPacketTerminate] by simp
  then have "get_field ShortPacketTerminate (Req_Policies r) = 0 \<or> get_field ShortPacketTerminate (Req_Policies r) = 1"
    by (metis One_nat_def less_2_cases unat_1 unat_eq_zero word_unat_eq_iff)
  then have zr: "Zlps_Required ?q1 = (if ?z then 1 else 0)" by (elim disjE) simp_all
  show ?thesis
  proof (cases "Req_Length r = 0")
    case True
    then have m0: "mem = []" using assms(2) by simp
    let ?q2 = "?q1\<lparr>UserOfs := \<lparr>BufferOffset = 0, BufferLength = 0\<rparr>\<rparr>"
    have sub: "mXfer_SubmitNextWrite e r ?q1 = (?q2, Sent NoMemory)"
      using True by (simp add: submit_write_ok [OF assms(1)] Let_def)
    have f: "Transferred ?q2 + 0 = 0" "Zlps_Sent ?q2 = Zlps_Sent q" by simp_all
    have "\<exists>q'. run_write e r (map accept ?xs) (Xfer_WriteBulkComplete e STATUS_SUCCESS 0 r ?q2)
      = (?xs, q', Completed STATUS_SUCCESS (Transferred ?q2 + 0)) \<and> Zlps_Sent q' = (if ?z \<and> Zlps_Sent ?q2 = 0 then 1 else Zlps_Sent ?q2)"
      by (rule run_write_tail [OF assms(1)]) (use zr True in simp_all)
    then obtain q' where q': "run_write e r (map accept ?xs) (Xfer_WriteBulkComplete e STATUS_SUCCESS 0 r ?q2)
        = (?xs, q', Completed STATUS_SUCCESS 0)" "Zlps_Sent q' = (if ?z \<and> Zlps_Sent q = 0 then 1 else Zlps_Sent q)"
      unfolding f by blast
    have ts: "write_targets r q = NoMemory # ?xs" using True by (simp add: write_targets_def)
    have "run_write e r (map accept (write_targets r q)) (write_bulk e mem r q) = (write_targets r q, q', Completed STATUS_SUCCESS (Req_Length r))"
      unfolding start sub ts using q'(1) True by (simp add: accept_def split del: if_split)
    moreover have "concat (map (target_bytes mem) (write_targets r q)) = mem" unfolding ts by (simp add: m0)
    ultimately show ?thesis using q'(2) by blast
  next
    case False
    let ?ts = "stages (max_transfer q) 0 (Req_Length r) @ ?xs"
    have f: "max_transfer ?q1 = max_transfer q" "Transferred ?q1 = 0" "Xfer_Length ?q1 = Req_Length r" "Zlps_Sent ?q1 = Zlps_Sent q"
      by simp_all
    have "\<exists>q'. run_write e r (map accept (stages (max_transfer ?q1) (Transferred ?q1) (Req_Length r) @ ?xs)) (mXfer_SubmitNextWrite e r ?q1)
      = (stages (max_transfer ?q1) (Transferred ?q1) (Req_Length r) @ ?xs, q', Completed STATUS_SUCCESS (Xfer_Length ?q1))
      \<and> Zlps_Sent q' = (if ?z \<and> Zlps_Sent ?q1 = 0 then 1 else Zlps_Sent ?q1)"
      by (rule run_write_stages [OF assms(1)]) (use False zr assms in simp_all)
    then obtain q' where q': "run_write e r (map accept ?ts) (mXfer_SubmitNextWrite e r ?q1) = (?ts, q', Completed STATUS_SUCCESS (Req_Length r))"
      "Zlps_Sent q' = (if ?z \<and> Zlps_Sent q = 0 then 1 else Zlps_Sent q)"
      unfolding f by blast
    have ts: "write_targets r q = ?ts" using False by (simp add: write_targets_def)
    have "concat (map (target_bytes mem) ?ts) = mem"
      using assms by (simp add: stages_cover)
    with q' show ?thesis unfolding start ts by blast
  qed
qed

section \<open>Witnesses\<close>

definition ex_env :: xfer_env where
  "ex_env = \<lparr>PipeResetStatus = 0, RetrieveMemoryStatus = 0, FormatStatus = 0, AllocateTimerStatus = 0, SendStatus = 0\<rparr>"

text \<open>Partial reads allowed, and termination with an empty packet; everything else off.\<close>

definition ex_request :: "nat \<Rightarrow> request_context" where
  "ex_request n = \<lparr>Req_Length = n, ActualRequestType = RequestTypeRead, RequestType = RequestTypeRead, HasQueueContext = True,
     Req_Policies = set_field ShortPacketTerminate 1 (set_field AllowPartialReads 1 0), Req_Timeout = 0\<rparr>"

text \<open>Packets of 4 bytes, transfers of 8.\<close>

definition ex_bulk :: queue_context where
  "ex_bulk = (ex_queue 0x81 PipeTypeBulk)\<lparr>Info := \<lparr>MaximumPacketSize = 4, EndpointAddress = 0x81, Interval = 0, PipeType = PipeTypeBulk,
     MaximumTransferSize = 8\<rparr>, OverBuf := Some [9, 9, 9, 9]\<rparr>"

lemma ex_bulk_ok: "queue_ok ex_bulk" "env_ok ex_env"
  by (simp_all add: queue_ok_def ex_bulk_def ex_queue_def env_ok_def ex_env_def)

lemma ex_bulk_fields [simp]:
  "max_packet ex_bulk = 4" "max_transfer ex_bulk = 8" "OverBuf ex_bulk = Some [9, 9, 9, 9]" "BufferLength (OverOfs ex_bulk) = 0"
  "Zlps_Sent ex_bulk = 0"
  by (simp_all add: ex_bulk_def ex_queue_def)

lemma ex_request_policies [simp]:
  "Req_Length (ex_request n) = n"
  "policy AllowPartialReads (ex_request n)" "policy ShortPacketTerminate (ex_request n)"
  "\<not> policy IgnoreShortPackets (ex_request n)" "\<not> policy AutoFlush (ex_request n)"
  by (simp_all add: ex_request_def) (simp_all add: get_field_def)

text \<open>Six bytes are read in two stages; of the second packet of four bytes, two stay.\<close>

abbreviation ex_responses :: "response list" where
  "ex_responses \<equiv> [(0, [1, 2, 3, 4]), (0, [5, 6, 7, 8])]"

lemma ex_read:
  "(let st = read_bulk ex_env (replicate 6 0) (ex_request 6) ex_bulk; (q, out) = run_read ex_env (ex_request 6) ex_responses st
    in responses_fit ex_env (ex_request 6) ex_responses st \<and> out = Completed 0 6 \<and> UserMem q = [1, 2, 3, 4, 5, 6] \<and> leftover q = [7, 8]
      \<and> consumed ex_env (ex_request 6) ex_responses st = ex_responses)"
  by code_simp

theorem bulk_read_fifo_witness:
  "\<exists>q'. run_read ex_env (ex_request 6) ex_responses (read_bulk ex_env (replicate 6 0) (ex_request 6) ex_bulk) = (q', Completed 0 6)
    \<and> [1, 2, 3, 4, 5, 6, 7, 8] = take 6 (UserMem q') @ leftover q' \<and> queue_ok q'"
proof -
  obtain q' where q': "run_read ex_env (ex_request 6) ex_responses (read_bulk ex_env (replicate 6 0) (ex_request 6) ex_bulk) = (q', Completed 0 6)"
    and c: "consumed ex_env (ex_request 6) ex_responses (read_bulk ex_env (replicate 6 0) (ex_request 6) ex_bulk) = ex_responses"
    and f: "responses_fit ex_env (ex_request 6) ex_responses (read_bulk ex_env (replicate 6 0) (ex_request 6) ex_bulk)"
    using ex_read by (auto simp: Let_def split: prod.splits)
  have "leftover ex_bulk = []" by (simp add: leftover_def ex_bulk_def ex_queue_def)
  with bulk_read_fifo [OF ex_bulk_ok _ f _ q'] q' show ?thesis by (auto simp: c)
qed

theorem bulk_read_ends_witness:
  "\<exists>q' s n. run_read ex_env (ex_request 2) [(0, [1]), (0, [2])] (read_bulk ex_env [0, 0] (ex_request 2) ex_bulk) = (q', Completed s n)"
  by (rule bulk_read_ends) simp_all

theorem failed_read_leaves_stale_bytes_witness:
  "\<exists>q1 q2. run_read ex_env (ex_request 2) [(STATUS_PIPE_BROKEN, [])] (read_bulk ex_env [0, 0] (ex_request 2) ex_bulk) = (q1, Completed STATUS_PIPE_BROKEN 0)
    \<and> read_bulk ex_env [0, 0] (ex_request 2) q1 = (q2, Completed STATUS_SUCCESS 2) \<and> UserMem q2 = [9, 9]"
proof -
  have b: "length [0, 0 :: UCHAR] = Req_Length (ex_request 2)" "0 < Req_Length (ex_request 2)" "Req_Length (ex_request 2) < max_packet ex_bulk"
    "length [1 :: UCHAR] \<le> max_packet ex_bulk" by simp_all
  show ?thesis
    using failed_read_leaves_stale_bytes [OF ex_bulk_ok b(1) _ _ b(2,3), of STATUS_PIPE_BROKEN "[9, 9, 9, 9]" "[1]"] b(4)
    by simp
qed

theorem bulk_write_stages_witness:
  "write_targets (ex_request 10) ex_bulk = [UserRange 0 8, UserRange 8 2, NoMemory]
   \<and> (\<exists>q'. run_write ex_env (ex_request 10) (map accept (write_targets (ex_request 10) ex_bulk)) (write_bulk ex_env (replicate 10 7) (ex_request 10) ex_bulk)
       = (write_targets (ex_request 10) ex_bulk, q', Completed 0 10) \<and> Zlps_Sent q' = 1)
   \<and> write_targets (ex_request 10) (ex_bulk\<lparr>Zlps_Sent := 1\<rparr>) = [UserRange 0 8, UserRange 8 2]"
proof -
  have "stages 8 0 10 = [UserRange 0 8, UserRange 8 2]" by (simp add: stages.simps)
  then show ?thesis
    using bulk_write_stages [OF ex_bulk_ok(2), of "replicate 10 7" "ex_request 10" ex_bulk]
    by (simp add: write_targets_def) (auto simp: ex_bulk_def)
qed

end
