(* ===== verification/Drv_Iso.thy ===== *)
theory Drv_Iso
  imports Drv_Bulk Iso_Context "HOL-Library.Signed_Division"
begin

text \<open>
  Isochronous transfers of the driver, \<open>sys/drv_xfer_iso.c\<close>. A transfer is one request block (URB) with
  an array of packets. A simple read or write cuts the buffer into packets itself, an extended transfer
  takes the packets of a context that the user provides. \<open>None\<close> stands for an access outside an array
  and for a division by zero.
\<close>

section \<open>Frames\<close>

definition Frames_Per_bInterval_HighSpeed :: "USHORT list" where
  "Frames_Per_bInterval_HighSpeed = [1, 2, 4, 8, 16] @ replicate 27 32"

definition Frames_Per_bInterval_FullSpeed :: "USHORT list" where
  "Frames_Per_bInterval_FullSpeed =
     [1, 2, 2, 4, 4, 4, 4, 8, 8, 8, 8, 8, 8, 8, 8, 16, 16, 16, 16, 16, 16, 16, 16, 16, 16, 16, 16, 16, 16, 16, 16, 32]"

text \<open>\<open>(Interval-1) % 32\<close> in \<open>int\<close>: for an interval of 0 the index is -1.\<close>

definition frames_per_packet :: "bool \<Rightarrow> UCHAR \<Rightarrow> USHORT option" where
  "frames_per_packet hs interval =
     (if interval = 0 then None
      else Some ((if hs then Frames_Per_bInterval_HighSpeed else Frames_Per_bInterval_FullSpeed) ! ((unat interval - 1) mod 32)))"

record iso_env = xfer_env +
  WdmPipeHandle :: bool
  CreateUrbStatus :: NTSTATUS
  CurrentFrame :: "NTSTATUS \<times> ULONG"

text \<open>At high speed a first frame is rounded up to a multiple of 8.\<close>

definition round_frame :: "bool \<Rightarrow> ULONG \<Rightarrow> ULONG" where
  "round_frame hs n = (if hs \<and> n mod 8 \<noteq> 0 then n + (8 - n mod 8) else n)"

definition mXfer_IsoCheckInitNextFrameNumber ::
  "('a iso_env_scheme) \<Rightarrow> request_context \<Rightarrow> bool \<Rightarrow> queue_context \<Rightarrow> bool \<Rightarrow> queue_context \<times> bool" where
  "mXfer_IsoCheckInitNextFrameNumber e r hs q use =
     (if IsFreshPipeReset q then
        if \<not> policy IsoAlwaysStartAsap r then
          let (s, frame) = CurrentFrame e; q = q\<lparr>IsFreshPipeReset := False\<rparr> in
          if \<not> NT_SUCCESS s then (q\<lparr>NextFrameNumber := 0\<rparr>, False)
          else (q\<lparr>NextFrameNumber := round_frame hs (frame + get_field IsoStartLatency (Req_Policies r))\<rparr>, True)
        else (q\<lparr>IsFreshPipeReset := False\<rparr>, False)
      else (q, use))"

record urb_packet =
  P_Offset :: nat
  P_Length :: nat
  P_Status :: ULONG

record urb =
  Urb_Length :: nat
  Urb_In :: bool
  Urb_Asap :: bool
  Urb_StartFrame :: ULONG
  Urb_Packets :: "urb_packet list"
  Urb_ErrorCount :: ULONG
  Urb_HdrStatus :: ULONG

definition mXfer_IsoInitUrb :: "nat \<Rightarrow> bool \<Rightarrow> nat list \<Rightarrow> urb" where
  "mXfer_IsoInitUrb len dir_in offsets =
     \<lparr>Urb_Length = len, Urb_In = dir_in, Urb_Asap = False, Urb_StartFrame = 0,
      Urb_Packets = map (\<lambda>x. \<lparr>P_Offset = x, P_Length = 0, P_Status = 0\<rparr>) offsets, Urb_ErrorCount = 0, Urb_HdrStatus = 0\<rparr>"

definition mXfer_IsoAssignNextFrameNumber :: "urb \<Rightarrow> bool \<Rightarrow> queue_context \<Rightarrow> (urb \<times> queue_context) option" where
  "mXfer_IsoAssignNextFrameNumber u hs q = do {
     f \<leftarrow> frames_per_packet hs (wdf_pipe_information.Interval (Info q));
     let n = length (Urb_Packets u);
     Some (u\<lparr>Urb_StartFrame := NextFrameNumber q\<rparr>,
       q\<lparr>NextFrameNumber := NextFrameNumber q + word_of_nat (if hs then n div 8 else n) * ucast f\<rparr>) }"

text \<open>The start frame of a transfer, as all three submit functions set it.\<close>

definition set_start_frame ::
  "('a iso_env_scheme) \<Rightarrow> request_context \<Rightarrow> bool \<Rightarrow> urb \<Rightarrow> queue_context \<Rightarrow> (urb \<times> queue_context) option" where
  "set_start_frame e r hs u q =
     (let use = \<not> policy IsoAlwaysStartAsap r;
          (q, use) = (if use then mXfer_IsoCheckInitNextFrameNumber e r hs q use else (q, use))
      in if use then mXfer_IsoAssignNextFrameNumber u hs q else Some (u\<lparr>Urb_Asap := True\<rparr>, q))"

section \<open>Simple transfers\<close>

datatype iso_outcome = Iso_Sent urb | Iso_Completed NTSTATUS nat

type_synonym iso_result = "request_context \<times> queue_context \<times> iso_outcome"

text \<open>Retrieving the memory and creating the request block, with their error exits.\<close>

definition iso_resources :: "('a iso_env_scheme) \<Rightarrow> NTSTATUS" where
  "iso_resources e = (if \<not> NT_SUCCESS (RetrieveMemoryStatus e) then RetrieveMemoryStatus e else CreateUrbStatus e)"

definition iso_submit ::
  "('a iso_env_scheme) \<Rightarrow> request_context \<Rightarrow> queue_context \<Rightarrow> urb \<Rightarrow> iso_result" where
  "iso_submit e r q u =
     (if \<not> NT_SUCCESS (FormatStatus e) then (r, q, Iso_Completed (FormatStatus e) 0)
      else if \<not> NT_SUCCESS (SendStatus e) then (r, q, Iso_Completed (SendStatus e) 0)
      else (r, q, Iso_Sent u))"

definition iso_finish ::
  "('a iso_env_scheme) \<Rightarrow> bool \<Rightarrow> request_context \<Rightarrow> queue_context \<Rightarrow> urb \<Rightarrow> iso_result option" where
  "iso_finish e hs r q u = do { (u, q) \<leftarrow> set_start_frame e r hs u q; Some (iso_submit e r q u) }"

abbreviation reset_pipe :: "('a iso_env_scheme) \<Rightarrow> request_context \<Rightarrow> queue_context \<Rightarrow> queue_context" where
  "reset_pipe e \<equiv> mXfer_HandlePipeResetScenarios (xfer_env.truncate e)"

text \<open>
  \<open>XferIsoRead\<close>. The number of packets is a \<open>LONG\<close>. The length of the request is cut to whole packets.
\<close>

definition XferIsoRead :: "('a iso_env_scheme) \<Rightarrow> bool \<Rightarrow> request_context \<Rightarrow> queue_context \<Rightarrow> iso_result option" where
  "XferIsoRead e hs r q =
     (if \<not> WdmPipeHandle e then Some (r, q, Iso_Completed STATUS_INVALID_DEVICE_REQUEST 0)
      else if max_packet q = 0 then Some (r, q, Iso_Completed STATUS_INVALID_BUFFER_SIZE 0)
      else
        let n = to_long (int (Req_Length r div max_packet q));
            n = (if hs then min 1024 (n - n mod 8) else min 256 n)
        in if n \<le> 0 then Some (r, q, Iso_Completed STATUS_INVALID_DEVICE_REQUEST 0)
           else let r = r\<lparr>Req_Length := nat n * max_packet q\<rparr> in
             if \<not> NT_SUCCESS (iso_resources e) then Some (r, q, Iso_Completed (iso_resources e) 0)
             else
               let q = reset_pipe e r q;
                   u = mXfer_IsoInitUrb (Req_Length r) True (map (\<lambda>k. k * max_packet q) [0..<nat n])
               in iso_finish e hs r q u)"

text \<open>The offsets of a write: the remainder is spread over the first packets.\<close>

fun write_offsets :: "nat \<Rightarrow> nat \<Rightarrow> nat \<Rightarrow> nat \<Rightarrow> nat list" where
  "write_offsets 0 min_bytes rem ofs = []"
| "write_offsets (Suc n) min_bytes rem ofs =
     ofs # write_offsets n min_bytes (rem - 1) (ofs + (if rem < 1 then min_bytes else min_bytes + 1))"

text \<open>The number of packets of a write, with its error exit.\<close>

definition write_packet_count :: "bool \<Rightarrow> request_context \<Rightarrow> queue_context \<Rightarrow> (NTSTATUS + nat) option" where
  "write_packet_count hs r q =
     (let fixed = unat (get_field IsoNumFixedPackets (Req_Policies r)) in
      if fixed \<noteq> 0 then
        (if max_packet q < Req_Length r div fixed then Some (Inl STATUS_INVALID_BUFFER_SIZE) else Some (Inr fixed))
      else if max_packet q = 0 then None
      else
        let n = to_long (int (Req_Length r div max_packet q + (if Req_Length r mod max_packet q > 0 then 1 else 0)));
            n = (if hs then n + (if n smod 8 > 0 then 8 - n smod 8 else 0) else n)
        in if (if hs then 1024 else 256) < n then Some (Inl STATUS_INVALID_BUFFER_SIZE)
           else if n \<le> 0 then Some (Inl STATUS_INVALID_DEVICE_REQUEST)
           else Some (Inr (nat n)))"

definition XferIsoWrite :: "('a iso_env_scheme) \<Rightarrow> bool \<Rightarrow> request_context \<Rightarrow> queue_context \<Rightarrow> iso_result option" where
  "XferIsoWrite e hs r q =
     (if \<not> WdmPipeHandle e then Some (r, q, Iso_Completed STATUS_INVALID_DEVICE_REQUEST 0)
      else do {
        cnt \<leftarrow> write_packet_count hs r q;
        (case cnt of
           Inl s \<Rightarrow> Some (r, q, Iso_Completed s 0)
         | Inr n \<Rightarrow>
             let min_bytes = Req_Length r div n; rem = Req_Length r - min_bytes * n in
             if \<not> NT_SUCCESS (iso_resources e) then Some (r, q, Iso_Completed (iso_resources e) 0)
             else iso_finish e hs r (reset_pipe e r q)
                    (mXfer_IsoInitUrb (Req_Length r) False (write_offsets n min_bytes rem 0))) })"

section \<open>Completion\<close>

text \<open>
  The compaction of a read: the data of each packet is moved down behind the data of the packets before
  it. \<open>RtlMoveMemory\<close> on the buffer of the user.
\<close>

definition move_memory :: "nat \<Rightarrow> nat \<Rightarrow> nat \<Rightarrow> UCHAR list \<Rightarrow> UCHAR list" where
  "move_memory dst src n buf = put_bytes dst (take n (drop src buf)) buf"

fun compact :: "(nat \<times> nat) list \<Rightarrow> nat \<Rightarrow> UCHAR list \<Rightarrow> UCHAR list" where
  "compact [] d buf = buf"
| "compact ((ofs, len) # ps) d buf =
     compact ps (d + len) (if 0 < len \<and> d < ofs then move_memory d ofs len buf else buf)"

definition packet_ranges :: "urb \<Rightarrow> (nat \<times> nat) list" where
  "packet_ranges u = map (\<lambda>p. (P_Offset p, P_Length p)) (Urb_Packets u)"

text \<open>
  \<open>XferIsoRdComplete\<close>; \<open>buf_status\<close> is what retrieving the output buffer answers, which happens only
  when a packet has to be moved.
\<close>

definition XferIsoRdComplete ::
  "NTSTATUS \<Rightarrow> NTSTATUS \<Rightarrow> request_context \<Rightarrow> queue_context \<Rightarrow> urb \<Rightarrow> UCHAR list \<Rightarrow> queue_context \<times> UCHAR list \<times> iso_outcome" where
  "XferIsoRdComplete s buf_status r q u buf =
     (let q = mXfer_HandlePipeResetScenariosForComplete s r q in
      if NT_SUCCESS s \<and> 0 < Urb_Length u \<and> Urb_Length u < Req_Length r \<and> endpoint_in (EndpointAddress (Info q)) then
        let moves = (\<exists>k < length (packet_ranges u). 0 < snd (packet_ranges u ! k)
                       \<and> sum_list (map snd (take k (packet_ranges u))) < fst (packet_ranges u ! k))
        in if moves \<and> \<not> NT_SUCCESS buf_status then (q, buf, Iso_Completed buf_status (Urb_Length u))
           else (q, compact (packet_ranges u) 0 buf, Iso_Completed (if moves then buf_status else s) (Urb_Length u))
      else (q, buf, Iso_Completed s (if NT_SUCCESS s then Urb_Length u else 0)))"

definition XferIsoWrComplete :: "NTSTATUS \<Rightarrow> request_context \<Rightarrow> queue_context \<Rightarrow> urb \<Rightarrow> queue_context \<times> iso_outcome" where
  "XferIsoWrComplete s r q u =
     (mXfer_HandlePipeResetScenariosForComplete s r q, Iso_Completed s (if NT_SUCCESS s then Urb_Length u else 0))"

section \<open>Extended transfers\<close>

text \<open>
  The context is the memory of the user that is locked for the request, as long as the request says; its
  number of packets is a field of it.
\<close>

abbreviation (input) KISO_FLAG_SET_START_FRAME :: UINT where "KISO_FLAG_SET_START_FRAME \<equiv> 1"

fun mXfer_IsoPacketsToUrb :: "iso_context \<Rightarrow> nat \<Rightarrow> nat \<Rightarrow> nat \<Rightarrow> (NTSTATUS + nat list) option" where
  "mXfer_IsoPacketsToUrb c len i 0 = Some (Inr [])"
| "mXfer_IsoPacketsToUrb c len i (Suc n) = do {
     p \<leftarrow> packet_at c (int i);
     (if len \<le> unat (Offset p) then Some (Inl STATUS_INVALID_BUFFER_SIZE)
      else do {
        rest \<leftarrow> mXfer_IsoPacketsToUrb c len (i + 1) n;
        Some (map_sum id (\<lambda>xs. unat (Offset p) # xs) rest) }) }"

definition XferIsoEx ::
  "('a iso_env_scheme) \<Rightarrow> bool \<Rightarrow> request_context \<Rightarrow> queue_context \<Rightarrow> iso_context option \<Rightarrow> iso_result option" where
  "XferIsoEx e hs r q ctx =
     (case ctx of None \<Rightarrow> Some (r, q, Iso_Completed STATUS_INVALID_DEVICE_REQUEST 0)
      | Some c \<Rightarrow>
        if \<not> WdmPipeHandle e then Some (r, q, Iso_Completed STATUS_INVALID_DEVICE_REQUEST 0)
        else if NumberOfPackets c \<le> 0 then Some (r, q, Iso_Completed STATUS_INVALID_DEVICE_REQUEST 0)
        else if hs \<and> NumberOfPackets c mod 8 \<noteq> 0 then Some (r, q, Iso_Completed STATUS_INVALID_DEVICE_REQUEST 0)
        else if \<not> NT_SUCCESS (iso_resources e) then Some (r, q, Iso_Completed (iso_resources e) 0)
        else let q = reset_pipe e r q in do {
          offs \<leftarrow> mXfer_IsoPacketsToUrb c (Req_Length r) 0 (nat (NumberOfPackets c));
          (case offs of
             Inl s \<Rightarrow> Some (r, q, Iso_Completed s 0)
           | Inr xs \<Rightarrow>
               let u = mXfer_IsoInitUrb (Req_Length r) (endpoint_in (EndpointAddress (Info q))) xs in
               if Flags c AND KISO_FLAG_SET_START_FRAME \<noteq> 0
               then Some (iso_submit e r q (u\<lparr>Urb_StartFrame := StartFrame c\<rparr>))
               else iso_finish e hs r q u) })"

text \<open>Lengths and status are cut to 16 bits; the status is folded first.\<close>

definition fold_status :: "ULONG \<Rightarrow> USHORT" where
  "fold_status s = ucast ((s AND 0xFFFF) OR drop_bit 16 s)"

fun packets_from_urb :: "urb_packet list \<Rightarrow> nat \<Rightarrow> nat \<Rightarrow> iso_context \<Rightarrow> iso_context option" where
  "packets_from_urb ps i 0 c = Some c"
| "packets_from_urb ps i (Suc n) c =
     (if length ps \<le> i then None
      else do {
        p \<leftarrow> packet_at c (int i);
        c1 \<leftarrow> put_packet c (int i) (p\<lparr>Length := word_of_nat (P_Length (ps ! i)), Status := fold_status (P_Status (ps ! i))\<rparr>);
        packets_from_urb ps (i + 1) n c1 })"

definition XferIsoExComplete ::
  "NTSTATUS \<Rightarrow> request_context \<Rightarrow> queue_context \<Rightarrow> urb \<Rightarrow> iso_context \<Rightarrow> (queue_context \<times> iso_context \<times> iso_outcome) option" where
  "XferIsoExComplete s r q u c =
     (if s = STATUS_CANCELLED \<or> s = STATUS_DEVICE_NOT_CONNECTED then Some (q, c, Iso_Completed s 0)
      else if \<not> NT_SUCCESS s \<and> Urb_HdrStatus u \<noteq> 0 then Some (q, c, Iso_Completed s 0)
      else
        let q = mXfer_HandlePipeResetScenariosForComplete s r q;
            c = c\<lparr>ErrorCount := to_short (uint (Urb_ErrorCount u)), StartFrame := Urb_StartFrame u, UrbHdrStatus := Urb_HdrStatus u\<rparr>
        in do {
          c \<leftarrow> packets_from_urb (Urb_Packets u) 0 (nat (NumberOfPackets c)) c;
          Some (q, c, Iso_Completed s (if NT_SUCCESS s then Urb_Length u else 0)) })"

section \<open>The packets of a write\<close>

text \<open>A packet ends where the next one starts, the last one at the end of the buffer.\<close>

fun packet_sizes :: "nat list \<Rightarrow> nat \<Rightarrow> nat list" where
  "packet_sizes [] len = []"
| "packet_sizes [x] len = [len - x]"
| "packet_sizes (x # y # xs) len = (y - x) # packet_sizes (y # xs) len"

lemma write_offsets_Cons: "0 < n \<Longrightarrow> \<exists>xs. write_offsets n m rem ofs = ofs # xs"
  by (cases n) auto

lemma packet_sizes_write:
  assumes "rem \<le> n" "0 < n"
  shows "packet_sizes (write_offsets n m rem ofs) (ofs + n * m + rem) = replicate rem (m + 1) @ replicate (n - rem) m"
  using assms
proof (induction n m rem ofs rule: write_offsets.induct)
  case (2 n m rem ofs)
  show ?case
  proof (cases n)
    case 0
    with 2 show ?thesis by (cases rem) auto
  next
    case (Suc k)
    let ?o = "ofs + (if rem < 1 then m else m + 1)"
    obtain xs where xs: "write_offsets n m (rem - 1) ?o = ?o # xs" using write_offsets_Cons Suc by blast
    have e: "ofs + Suc n * m + rem = ?o + n * m + (rem - 1)" by (cases rem) auto
    have "packet_sizes (write_offsets (Suc n) m rem ofs) (ofs + Suc n * m + rem)
        = (?o - ofs) # packet_sizes (write_offsets n m (rem - 1) ?o) (?o + n * m + (rem - 1))"
      unfolding e by (simp only: write_offsets.simps xs packet_sizes.simps)
    also have "\<dots> = (?o - ofs) # replicate (rem - 1) (m + 1) @ replicate (n - (rem - 1)) m"
      using 2 Suc by simp
    also have "\<dots> = replicate rem (m + 1) @ replicate (Suc n - rem) m"
      by (cases rem) simp_all
    finally show ?thesis .
  qed
qed simp

lemma length_write_offsets [simp]: "length (write_offsets n m rem ofs) = n"
  by (induction n m rem ofs rule: write_offsets.induct) simp_all

lemma iso_finish_sent:
  assumes "iso_finish e hs r q u = Some (r', q', Iso_Sent u')"
  shows "Urb_Packets u' = Urb_Packets u" "Urb_Length u' = Urb_Length u" "Urb_In u' = Urb_In u" "r' = r"
  using assms
  by (auto simp: iso_finish_def set_start_frame_def mXfer_IsoAssignNextFrameNumber_def iso_submit_def Let_def
      split: if_splits prod.splits elim!: bind_SomeE)

lemma write_sent:
  assumes "XferIsoWrite e hs r q = Some (r', q', Iso_Sent u)"
  obtains n where "write_packet_count hs r q = Some (Inr n)" "r' = r" "Urb_Length u = Req_Length r"
    "map P_Offset (Urb_Packets u) = write_offsets n (Req_Length r div n) (Req_Length r mod n) 0"
proof -
  obtain n where n: "write_packet_count hs r q = Some (Inr n)"
    and f: "iso_finish e hs r (reset_pipe e r q)
       (mXfer_IsoInitUrb (Req_Length r) False (write_offsets n (Req_Length r div n) (Req_Length r - Req_Length r div n * n) 0)) = Some (r', q', Iso_Sent u)"
    using assms unfolding XferIsoWrite_def
    by (auto simp: Let_def split: if_split_asm sum.splits elim!: bind_SomeE)
  have "Req_Length r - Req_Length r div n * n = Req_Length r mod n" by (metis minus_div_mult_eq_mod)
  with iso_finish_sent [OF f] n show thesis
    by (intro that [of n]) (simp_all add: mXfer_IsoInitUrb_def o_def)
qed

text \<open>The number of whole and partial packets, as the \<open>LONG\<close> it is kept in.\<close>

lemma packet_count_long:
  assumes "0 < m" "l < 2 ^ 32" "n = to_long (int (l div m + (if l mod m > 0 then 1 else 0)))" "0 < n"
  shows "l \<le> nat n * m"
proof -
  let ?c = "l div m + (if l mod m > 0 then 1 else 0)"
  have c: "l \<le> ?c * m"
  proof (cases "0 < l mod m")
    case True
    have "l = m * (l div m) + l mod m" by simp
    also have "\<dots> \<le> m * (l div m) + m" using assms(1) by (intro add_left_mono less_imp_le mod_less_divisor)
    also have "\<dots> = ?c * m" using True by (simp add: algebra_simps)
    finally show ?thesis .
  qed (use assms(1) in \<open>simp add: mod_eq_0_iff_dvd\<close>)
  have "?c \<le> l" if "0 < l mod m"
  proof -
    have "1 < m" using that assms(1) by (cases "m = 1") auto
    then have "l div m < l" using that by (intro div_less_dividend) (auto intro: gr0I)
    then show ?thesis using that by simp
  qed
  then have "?c < 2 ^ 32" using assms(2) by (cases "0 < l mod m") (auto intro: le_less_trans [OF div_le_dividend])
  have "n = int ?c"
  proof (cases "?c < 2 ^ 31")
    case True
    then show ?thesis using assms(3) by (simp only: to_long_id is_long_small) (simp add: is_long_def)
  next
    case False
    have "to_long (int ?c) = to_long (int ?c - 2 ^ 32)" by (rule to_long_cong) (simp add: mod_simps)
    also have "\<dots> = int ?c - 2 ^ 32" using False \<open>?c < 2 ^ 32\<close> by (intro to_long_id) (simp add: is_long_def)
    also have "\<dots> < 0" using \<open>?c < 2 ^ 32\<close> by (simp only: diff_less_0_iff_less of_nat_less_numeral_power_cancel_iff)
    finally show ?thesis using assms(3,4) by simp
  qed
  then have "nat n = ?c" by (simp only: nat_int)
  with c show ?thesis by (simp only:)
qed

lemma round_up_8: "(0 :: int) < n \<Longrightarrow> (n + (if n smod 8 > 0 then 8 - n smod 8 else 0)) mod 8 = 0"
  by (simp add: smod_int_alt_def) presburger

lemma write_packet_count_bounds:
  assumes "write_packet_count hs r q = Some (Inr n)" "Req_Length r < 2 ^ 32"
  shows "0 < n" "Req_Length r div n \<le> max_packet q"
    "if get_field IsoNumFixedPackets (Req_Policies r) = 0
     then 0 < max_packet q \<and> Req_Length r \<le> n * max_packet q \<and> n \<le> (if hs then 1024 else 256) \<and> (hs \<longrightarrow> n mod 8 = 0)
     else n = unat (get_field IsoNumFixedPackets (Req_Policies r))"
proof -
  have "0 < n \<and> Req_Length r div n \<le> max_packet q \<and>
    (if get_field IsoNumFixedPackets (Req_Policies r) = 0
     then 0 < max_packet q \<and> Req_Length r \<le> n * max_packet q \<and> n \<le> (if hs then 1024 else 256) \<and> (hs \<longrightarrow> n mod 8 = 0)
     else n = unat (get_field IsoNumFixedPackets (Req_Policies r)))"
  proof (cases "get_field IsoNumFixedPackets (Req_Policies r) = 0")
    case False
    then show ?thesis using assms(1) by (auto simp: write_packet_count_def Let_def unat_gt_0 split: if_splits)
  next
    case True
    let ?n0 = "to_long (int (Req_Length r div max_packet q + (if Req_Length r mod max_packet q > 0 then 1 else 0)))"
    let ?n1 = "if hs then ?n0 + (if ?n0 smod 8 > 0 then 8 - ?n0 smod 8 else 0) else ?n0"
    have w: "0 < max_packet q" "n = nat ?n1" "0 < ?n1" "?n1 \<le> (if hs then 1024 else 256)"
      using assms(1) True unfolding write_packet_count_def Let_def by (simp_all split: if_split_asm)
    have n0: "0 < ?n0" using w(3) smod_int_compares(4) [of ?n0 8] by (cases "?n0 \<le> 0") (auto split: if_splits)
    have "?n0 \<le> ?n1" using smod_int_compares(1) [of ?n0 8] n0 by auto
    then have "nat ?n0 \<le> n" using w(2) by simp
    moreover have "Req_Length r \<le> nat ?n0 * max_packet q" by (rule packet_count_long [OF w(1) assms(2) refl n0])
    ultimately have L: "Req_Length r \<le> n * max_packet q" by (meson le_trans mult_le_mono1)
    have "0 < n" using w by simp
    moreover have "Req_Length r div n \<le> max_packet q"
      using L \<open>0 < n\<close> by (metis div_le_mono nonzero_mult_div_cancel_left not_less0)
    moreover have "n \<le> (if hs then 1024 else 256)" using w by (auto split: if_splits)
    moreover have "n mod 8 = 0" if hs
    proof -
      have "?n1 mod 8 = 0" using round_up_8 [OF n0] that by simp
      then show ?thesis using w(2,3) by (metis nat_0 nat_mod_distrib nat_numeral order_less_imp_le zero_le_numeral)
    qed
    ultimately show ?thesis using L w(1) True by auto
  qed
  then show "0 < n" "Req_Length r div n \<le> max_packet q"
    "if get_field IsoNumFixedPackets (Req_Policies r) = 0
     then 0 < max_packet q \<and> Req_Length r \<le> n * max_packet q \<and> n \<le> (if hs then 1024 else 256) \<and> (hs \<longrightarrow> n mod 8 = 0)
     else n = unat (get_field IsoNumFixedPackets (Req_Policies r))"
    by auto
qed

text \<open>
  C25. The packets of an isochronous write: they cover the buffer exactly, in order, and differ in size by
  at most one byte, the longer ones first. Without a fixed number of packets none is longer than the
  endpoint allows, and there are at most 1024 of them, a multiple of 8, at high speed and at most 256
  otherwise. With a fixed number the check divides and forgets the remainder: packets are one byte too
  long exactly when the quotient is the packet size and a remainder is left.
\<close>

theorem iso_write_packets:
  assumes "XferIsoWrite e hs r q = Some (r', q', Iso_Sent u)" "Req_Length r < 2 ^ 32"
  defines "sizes \<equiv> packet_sizes (map P_Offset (Urb_Packets u)) (Req_Length r)"
    and "n \<equiv> length (Urb_Packets u)" and "fixed \<equiv> unat (get_field IsoNumFixedPackets (Req_Policies r))"
  shows "0 < n \<and> sizes = replicate (Req_Length r mod n) (Req_Length r div n + 1) @ replicate (n - Req_Length r mod n) (Req_Length r div n)
    \<and> sum_list sizes = Req_Length r
    \<and> (if fixed = 0 then n \<le> (if hs then 1024 else 256) \<and> (hs \<longrightarrow> n mod 8 = 0) \<and> (\<forall>s \<in> set sizes. s \<le> max_packet q)
       else n = fixed \<and> ((\<exists>s \<in> set sizes. max_packet q < s) \<longleftrightarrow> Req_Length r div n = max_packet q \<and> Req_Length r mod n \<noteq> 0))"
proof -
  obtain m where m: "write_packet_count hs r q = Some (Inr m)"
    and offs: "map P_Offset (Urb_Packets u) = write_offsets m (Req_Length r div m) (Req_Length r mod m) 0"
    using write_sent [OF assms(1)] by blast
  have nm: "n = m" using offs unfolding n_def by (metis length_map length_write_offsets)
  note b = write_packet_count_bounds [OF m assms(2), folded nm]
  have "Req_Length r mod n < n" using b(1) by simp
  have s: "sizes = replicate (Req_Length r mod n) (Req_Length r div n + 1) @ replicate (n - Req_Length r mod n) (Req_Length r div n)"
    using packet_sizes_write [of "Req_Length r mod n" n "Req_Length r div n" 0] b(1)
    unfolding sizes_def offs nm [symmetric] by (simp add: less_imp_le)
  have sum: "sum_list sizes = Req_Length r"
    unfolding s using \<open>Req_Length r mod n < n\<close> div_mult_mod_eq [of "Req_Length r" n]
    by (simp add: sum_list_replicate algebra_simps)
  have set: "set sizes = (if Req_Length r mod n = 0 then {} else {Req_Length r div n + 1}) \<union> {Req_Length r div n}"
    unfolding s using \<open>Req_Length r mod n < n\<close> by auto
  have le: "Req_Length r div n + 1 \<le> max_packet q" if "Req_Length r mod n \<noteq> 0" "Req_Length r \<le> n * max_packet q"
  proof -
    have "n * (Req_Length r div n) + Req_Length r mod n = Req_Length r" by (rule mult_div_mod_eq)
    then have "n * (Req_Length r div n) < n * max_packet q" using that by linarith
    then show ?thesis using b(1) by simp
  qed
  have free: "\<forall>s \<in> set sizes. s \<le> max_packet q" if "Req_Length r \<le> n * max_packet q"
    unfolding set using le that b(2) by (auto split: if_splits)
  have long: "(\<exists>s \<in> set sizes. max_packet q < s) \<longleftrightarrow> Req_Length r div n = max_packet q \<and> Req_Length r mod n \<noteq> 0"
    unfolding set using b(2) by (cases "Req_Length r mod n = 0") auto
  show ?thesis
  proof (cases "get_field IsoNumFixedPackets (Req_Policies r) = 0")
    case True
    then have "fixed = 0" by (simp add: fixed_def)
    with True b(1,3) s sum free show ?thesis by simp
  next
    case False
    then have "fixed \<noteq> 0" by (simp add: fixed_def unat_eq_zero)
    with False b(1,3) s sum long show ?thesis by (simp only: fixed_def if_False)
  qed
qed

section \<open>The compaction of a read\<close>

text \<open>Ranges in order and without overlap, between two bounds.\<close>

fun ranges_ok :: "(nat \<times> nat) list \<Rightarrow> nat \<Rightarrow> nat \<Rightarrow> bool" where
  "ranges_ok [] lo hi \<longleftrightarrow> lo \<le> hi"
| "ranges_ok ((ofs, len) # ps) lo hi \<longleftrightarrow> lo \<le> ofs \<and> ranges_ok ps (ofs + len) hi"

definition packet_data :: "UCHAR list \<Rightarrow> (nat \<times> nat) list \<Rightarrow> UCHAR list" where
  "packet_data buf ps = concat (map (\<lambda>(ofs, len). take len (drop ofs buf)) ps)"

lemma packet_data_simps [simp]:
  "packet_data buf [] = []" "packet_data buf ((ofs, len) # ps) = take len (drop ofs buf) @ packet_data buf ps"
  by (simp_all add: packet_data_def)

lemma ranges_ok_sum: "ranges_ok ps lo hi \<Longrightarrow> lo + sum_list (map snd ps) \<le> hi"
  by (induction ps lo hi rule: ranges_ok.induct) auto

lemma packet_data_cong:
  "ranges_ok ps lo hi \<Longrightarrow> drop lo b1 = drop lo b2 \<Longrightarrow> packet_data b1 ps = packet_data b2 ps"
proof (induction ps lo hi rule: ranges_ok.induct)
  case (2 ofs len ps lo hi)
  have "drop ofs b1 = drop ofs b2"
    using arg_cong [where f = "drop (ofs - lo)", OF "2.prems"(2)] "2.prems"(1) by simp
  moreover from arg_cong [where f = "drop len", OF this] have "drop (ofs + len) b1 = drop (ofs + len) b2" by (simp add: add.commute)
  ultimately show ?case using 2 by simp
qed simp

lemma packet_data_full:
  "ranges_ok ps lo hi \<Longrightarrow> lo + sum_list (map snd ps) = hi \<Longrightarrow> packet_data buf ps = take (hi - lo) (drop lo buf)"
proof (induction ps lo hi rule: ranges_ok.induct)
  case (2 ofs len ps lo hi)
  have "ofs = lo" using ranges_ok_sum [of ps "ofs + len" hi] 2 by simp
  with 2 have "packet_data buf ps = take (hi - (lo + len)) (drop (lo + len) buf)" by simp
  moreover have "hi - lo = len + (hi - (lo + len))" using ranges_ok_sum [of ps "ofs + len" hi] 2 \<open>ofs = lo\<close> by simp
  ultimately show ?case
    using \<open>ofs = lo\<close> take_add [of len "hi - (lo + len)" "drop lo buf"] by (simp add: add.commute)
qed simp

lemma move_memory_props:
  assumes "d \<le> ofs" "ofs + len \<le> length buf"
  shows "length (move_memory d ofs len buf) = length buf"
    "take (d + len) (move_memory d ofs len buf) = take d buf @ take len (drop ofs buf)"
    "drop (ofs + len) (move_memory d ofs len buf) = drop (ofs + len) buf"
  using assms by (auto simp: move_memory_def put_bytes_def min_def)

lemma compact_data:
  "ranges_ok ps lo (length buf) \<Longrightarrow> d \<le> lo \<Longrightarrow>
   take (d + sum_list (map snd ps)) (compact ps d buf) = take d buf @ packet_data buf ps"
proof (induction ps d buf arbitrary: lo rule: compact.induct)
  case (2 ofs len ps d buf)
  let ?b = "if 0 < len \<and> d < ofs then move_memory d ofs len buf else buf"
  have r: "ranges_ok ps (ofs + len) (length buf)" "d \<le> ofs" using 2 by auto
  have b: "ofs + len \<le> length buf" using ranges_ok_sum [OF r(1)] by simp
  have p: "length ?b = length buf" "take (d + len) ?b = take d buf @ take len (drop ofs buf)" "drop (ofs + len) ?b = drop (ofs + len) buf"
    using move_memory_props [OF r(2) b] r(2) by (auto simp: take_add)
  have "take (d + len + sum_list (map snd ps)) (compact ps (d + len) ?b) = take (d + len) ?b @ packet_data ?b ps"
    using "2.IH" [of "ofs + len"] r p(1) by simp
  also have "packet_data ?b ps = packet_data buf ps" by (rule packet_data_cong [OF r(1) p(3)])
  finally show ?case using p(2) by (simp add: add.assoc)
qed simp

text \<open>
  C26. The completion of an isochronous read. When the packets came with ranges in order and the total
  that the controller reports is the sum of their lengths, the front of the buffer of the user holds the
  data of the packets, in order and without the gaps of short packets, and the count is their total.
\<close>

theorem iso_read_packs:
  assumes "NT_SUCCESS s" "NT_SUCCESS buf_status" "endpoint_in (EndpointAddress (Info q))"
    and "ranges_ok (packet_ranges u) 0 (length buf)" "Urb_Length u = sum_list (map snd (packet_ranges u))" "length buf = Req_Length r"
    and "XferIsoRdComplete s buf_status r q u buf = (q', buf', Iso_Completed s' n)"
  shows "NT_SUCCESS s' \<and> n = Urb_Length u \<and> q' = q \<and> take n buf' = packet_data buf (packet_ranges u)"
proof -
  have le: "Urb_Length u \<le> Req_Length r" using ranges_ok_sum [OF assms(4)] assms(5,6) by simp
  show ?thesis
  proof (cases "0 < Urb_Length u \<and> Urb_Length u < Req_Length r")
    case True
    have "buf' = compact (packet_ranges u) 0 buf" "NT_SUCCESS s'" "n = Urb_Length u" "q' = q"
      using assms(1,2,3,7) True by (auto simp: XferIsoRdComplete_def Let_def split: if_split_asm)
    with compact_data [OF assms(4), of 0] assms(5) show ?thesis by simp
  next
    case False
    have r: "buf' = buf" "s' = s" "n = Urb_Length u" "q' = q"
      using assms(1,7) False by (auto simp: XferIsoRdComplete_def Let_def split: if_split_asm)
    show ?thesis
    proof (cases "Urb_Length u = 0")
      case True
      with assms(5) have z: "\<forall>x \<in> set (packet_ranges u). snd x = 0" by (simp add: sum_list_eq_0_iff)
      then have "packet_data buf (packet_ranges u) = []" by (auto simp: packet_data_def split_def)
      with r True assms(1) show ?thesis by simp
    next
      case nz: False
      with False le have "Urb_Length u = length buf" using assms(6) by simp
      then show ?thesis using packet_data_full [OF assms(4)] assms(1,5) r by simp
    qed
  qed
qed

section \<open>Extended transfers\<close>

lemma packets_to_urb_inside:
  "i + n \<le> length (IsoPackets c) \<Longrightarrow> \<exists>x. mXfer_IsoPacketsToUrb c len i n = Some x"
  by (induction c len i n rule: mXfer_IsoPacketsToUrb.induct) (auto simp: packet_at_def)

lemma packets_to_urb_Some:
  "mXfer_IsoPacketsToUrb c len i n = Some (Inr xs) \<Longrightarrow>
   length xs = n \<and> i + n \<le> max i (length (IsoPackets c)) \<and> (\<forall>k < n. xs ! k = unat (Offset (IsoPackets c ! (i + k))) \<and> xs ! k < len)"
proof (induction c len i n arbitrary: xs rule: mXfer_IsoPacketsToUrb.induct)
  case (2 c len i n)
  then obtain p ys where p: "packet_at c (int i) = Some p" "unat (Offset p) < len" "xs = unat (Offset p) # ys"
    and y: "mXfer_IsoPacketsToUrb c len (i + 1) n = Some (Inr ys)"
    by (auto split: if_split_asm elim!: bind_SomeE simp: map_sum.simps) (metis (no_types, lifting) Inr_inject Inl_Inr_False map_sum.simps not_less sum.exhaust)
  from p(1) have i: "i < length (IsoPackets c)" "p = IsoPackets c ! i" by (auto simp: packet_at_def split: if_splits)
  have "length ys = n \<and> i + 1 + n \<le> max (i + 1) (length (IsoPackets c)) \<and> (\<forall>k < n. ys ! k = unat (Offset (IsoPackets c ! (i + 1 + k))) \<and> ys ! k < len)"
    using "2.IH" [of p ys] p y by auto
  with i p show ?case by (auto simp: nth_Cons split: nat.splits)
qed simp

lemma packets_to_urb_outside:
  "length (IsoPackets c) < i + n \<Longrightarrow> i \<le> length (IsoPackets c) \<Longrightarrow> \<forall>p \<in> set (IsoPackets c). unat (Offset p) < len \<Longrightarrow>
   mXfer_IsoPacketsToUrb c len i n = None"
  by (induction c len i n rule: mXfer_IsoPacketsToUrb.induct) (auto simp: packet_at_def not_le, metis leD nth_mem le_neq_implies_less)

lemma check_init_info [simp]: "Info (fst (mXfer_IsoCheckInitNextFrameNumber e r hs q x)) = Info q"
  by (simp add: mXfer_IsoCheckInitNextFrameNumber_def Let_def split: prod.split)

lemma set_start_frame_defined:
  assumes "wdf_pipe_information.Interval (Info q) \<noteq> 0"
  shows "set_start_frame e r hs u q \<noteq> None"
proof -
  have a: "mXfer_IsoAssignNextFrameNumber u hs q1 \<noteq> None" if "Info q1 = Info q" for q1
    using assms that by (simp add: mXfer_IsoAssignNextFrameNumber_def frames_per_packet_def)
  obtain q1 use where c: "mXfer_IsoCheckInitNextFrameNumber e r hs q True = (q1, use)" by fastforce
  then have "Info q1 = Info q" by (metis check_init_info fst_conv)
  with a [of q1] show ?thesis by (simp add: set_start_frame_def c Let_def del: not_None_eq)
qed

lemma iso_finish_defined:
  "wdf_pipe_information.Interval (Info q) \<noteq> 0 \<Longrightarrow> iso_finish e hs r q u \<noteq> None"
  using set_start_frame_defined [of q e r hs u] by (auto simp: iso_finish_def bind_eq_None_conv simp del: not_None_eq split: prod.splits)

lemma reset_pipe_info [simp]: "Info (reset_pipe e r q) = Info q"
  by simp

text \<open>
  C28. The number of packets of an extended transfer comes from the context of the user and is compared
  with nothing else. On a pipe with an interval the transfer stays inside the memory of the context when
  that holds the packets, and leaves it when it does not, unless an offset out of range stops it before.
\<close>

theorem iso_ex_bounds:
  assumes "WdmPipeHandle e" "NT_SUCCESS (iso_resources e)" "0 < NumberOfPackets c" "hs \<longrightarrow> NumberOfPackets c mod 8 = 0"
    and "wdf_pipe_information.Interval (Info q) \<noteq> 0"
  shows "(nat (NumberOfPackets c) \<le> length (IsoPackets c) \<longrightarrow> XferIsoEx e hs r q (Some c) \<noteq> None)
    \<and> (length (IsoPackets c) < nat (NumberOfPackets c) \<and> (\<forall>p \<in> set (IsoPackets c). unat (Offset p) < Req_Length r)
        \<longrightarrow> XferIsoEx e hs r q (Some c) = None)"
proof -
  have cond: "(if hs \<and> NumberOfPackets c mod 8 \<noteq> 0 then a else b) = b" for a b :: "iso_result option"
    using assms(4) by auto
  have x: "XferIsoEx e hs r q (Some c) = (let q = reset_pipe e r q in
      Option.bind (mXfer_IsoPacketsToUrb c (Req_Length r) 0 (nat (NumberOfPackets c)))
        (\<lambda>offs. case offs of Inl s \<Rightarrow> Some (r, q, Iso_Completed s 0)
         | Inr xs \<Rightarrow>
             let u = mXfer_IsoInitUrb (Req_Length r) (endpoint_in (EndpointAddress (Info q))) xs in
             if Flags c AND KISO_FLAG_SET_START_FRAME \<noteq> 0
             then Some (iso_submit e r q (u\<lparr>Urb_StartFrame := StartFrame c\<rparr>))
             else iso_finish e hs r q u))"
    unfolding XferIsoEx_def option.case cond using assms(1-3) by simp
  show ?thesis
  proof (intro conjI impI)
    assume "nat (NumberOfPackets c) \<le> length (IsoPackets c)"
    then obtain offs where o: "mXfer_IsoPacketsToUrb c (Req_Length r) 0 (nat (NumberOfPackets c)) = Some offs"
      using packets_to_urb_inside [of 0] by fastforce
    have "iso_finish e hs r (reset_pipe e r q) u \<noteq> None" for u
      by (rule iso_finish_defined) (simp add: assms(5))
    then show "XferIsoEx e hs r q (Some c) \<noteq> None"
      unfolding x by (cases offs) (simp_all add: o Let_def del: not_None_eq)
  next
    assume "length (IsoPackets c) < nat (NumberOfPackets c) \<and> (\<forall>p \<in> set (IsoPackets c). unat (Offset p) < Req_Length r)"
    then have "mXfer_IsoPacketsToUrb c (Req_Length r) 0 (nat (NumberOfPackets c)) = None"
      by (intro packets_to_urb_outside) auto
    then show "XferIsoEx e hs r q (Some c) = None" unfolding x by (simp add: Let_def)
  qed
qed

lemma packets_from_urb_spec:
  "i + n \<le> length (IsoPackets c) \<Longrightarrow> i + n \<le> length ps \<Longrightarrow>
   \<exists>c'. packets_from_urb ps i n c = Some c' \<and> c' = c\<lparr>IsoPackets := IsoPackets c'\<rparr> \<and> length (IsoPackets c') = length (IsoPackets c) \<and>
     (\<forall>k < length (IsoPackets c). IsoPackets c' ! k =
        (if i \<le> k \<and> k < i + n
         then (IsoPackets c ! k)\<lparr>Length := word_of_nat (P_Length (ps ! k)), Status := fold_status (P_Status (ps ! k))\<rparr>
         else IsoPackets c ! k))"
proof (induction ps i n c rule: packets_from_urb.induct)
  case (2 ps i n c)
  let ?p = "(IsoPackets c ! i)\<lparr>Length := word_of_nat (P_Length (ps ! i)), Status := fold_status (P_Status (ps ! i))\<rparr>"
  let ?c = "c\<lparr>IsoPackets := (IsoPackets c)[i := ?p]\<rparr>"
  have i: "\<not> length ps \<le> i" "packet_at c (int i) = Some (IsoPackets c ! i)" "put_packet c (int i) ?p = Some ?c"
    using 2 by (auto simp: packet_at_def put_packet_def)
  obtain c' where c': "packets_from_urb ps (i + 1) n ?c = Some c'" "c' = ?c\<lparr>IsoPackets := IsoPackets c'\<rparr>"
    "length (IsoPackets c') = length (IsoPackets ?c)"
    "\<forall>k < length (IsoPackets ?c). IsoPackets c' ! k =
        (if i + 1 \<le> k \<and> k < i + 1 + n
         then (IsoPackets ?c ! k)\<lparr>Length := word_of_nat (P_Length (ps ! k)), Status := fold_status (P_Status (ps ! k))\<rparr>
         else IsoPackets ?c ! k)"
    using "2.IH" [OF i] 2 by auto
  have "packets_from_urb ps i (Suc n) c = Some c'" using i c'(1) by simp
  moreover have "c' = c\<lparr>IsoPackets := IsoPackets c'\<rparr>" using c'(2) by simp
  moreover have "\<forall>k < length (IsoPackets c). IsoPackets c' ! k =
        (if i \<le> k \<and> k < i + Suc n
         then (IsoPackets c ! k)\<lparr>Length := word_of_nat (P_Length (ps ! k)), Status := fold_status (P_Status (ps ! k))\<rparr>
         else IsoPackets c ! k)"
  proof (intro allI impI)
    fix k assume "k < length (IsoPackets c)"
    then show "IsoPackets c' ! k =
        (if i \<le> k \<and> k < i + Suc n
         then (IsoPackets c ! k)\<lparr>Length := word_of_nat (P_Length (ps ! k)), Status := fold_status (P_Status (ps ! k))\<rparr>
         else IsoPackets c ! k)"
      using c'(4) by (cases "k = i") auto
  qed
  ultimately show ?case using c'(3) by auto
qed auto

text \<open>
  C27. An extended transfer, submitted and completed. The controller gets the offsets of the context and,
  when it is asked for, its start frame. When it answers, each packet of the context gets the length and
  the status of its packet and keeps its offset, further packets stay, and the header gets the start
  frame, the error count and the status.
\<close>

theorem iso_ex_transfer:
  assumes "XferIsoEx e hs r q (Some c) = Some (r1, q1, Iso_Sent u)" "NT_SUCCESS s"
    and "length (Urb_Packets v) = length (Urb_Packets u)"
  shows "length (Urb_Packets u) = nat (NumberOfPackets c)
    \<and> (\<forall>k < length (Urb_Packets u). P_Offset (Urb_Packets u ! k) = unat (Offset (IsoPackets c ! k)) \<and> P_Offset (Urb_Packets u ! k) < Req_Length r)
    \<and> (Flags c AND KISO_FLAG_SET_START_FRAME \<noteq> 0 \<longrightarrow> Urb_StartFrame u = StartFrame c \<and> \<not> Urb_Asap u)
    \<and> (\<exists>ps. XferIsoExComplete s r1 q1 v c =
        Some (q1, c\<lparr>ErrorCount := to_short (uint (Urb_ErrorCount v)), StartFrame := Urb_StartFrame v, UrbHdrStatus := Urb_HdrStatus v, IsoPackets := ps\<rparr>,
          Iso_Completed s (Urb_Length v))
        \<and> length ps = length (IsoPackets c)
        \<and> (\<forall>k < length ps. ps ! k =
            (if k < length (Urb_Packets u)
             then \<lparr>Offset = Offset (IsoPackets c ! k), Length = word_of_nat (P_Length (Urb_Packets v ! k)), Status = fold_status (P_Status (Urb_Packets v ! k))\<rparr>
             else IsoPackets c ! k)))"
proof -
  let ?q = "reset_pipe e r q"
  obtain xs where xs: "mXfer_IsoPacketsToUrb c (Req_Length r) 0 (nat (NumberOfPackets c)) = Some (Inr xs)"
    and sub: "(if Flags c AND KISO_FLAG_SET_START_FRAME \<noteq> 0
       then Some (iso_submit e r ?q ((mXfer_IsoInitUrb (Req_Length r) (endpoint_in (EndpointAddress (Info ?q))) xs)\<lparr>Urb_StartFrame := StartFrame c\<rparr>))
       else iso_finish e hs r ?q (mXfer_IsoInitUrb (Req_Length r) (endpoint_in (EndpointAddress (Info ?q))) xs)) = Some (r1, q1, Iso_Sent u)"
    and n: "0 < NumberOfPackets c"
    using assms(1) unfolding XferIsoEx_def
    by (auto simp: Let_def split: if_split_asm sum.split_asm elim!: bind_SomeE)
  note o = packets_to_urb_Some [OF xs, simplified]
  have u: "Urb_Packets u = map (\<lambda>x. \<lparr>P_Offset = x, P_Length = 0, P_Status = 0\<rparr>) xs"
    using sub iso_finish_sent(1) by (fastforce simp: mXfer_IsoInitUrb_def iso_submit_def split: if_splits)
  have f: "Flags c AND KISO_FLAG_SET_START_FRAME \<noteq> 0 \<longrightarrow> Urb_StartFrame u = StartFrame c \<and> \<not> Urb_Asap u"
    using sub by (auto simp: mXfer_IsoInitUrb_def iso_submit_def split: if_splits)
  have len: "length (Urb_Packets u) = nat (NumberOfPackets c)" using o u by simp
  have in_c: "nat (NumberOfPackets c) \<le> length (IsoPackets c)" using o n by auto
  let ?c = "c\<lparr>ErrorCount := to_short (uint (Urb_ErrorCount v)), StartFrame := Urb_StartFrame v, UrbHdrStatus := Urb_HdrStatus v\<rparr>"
  obtain c' where c': "packets_from_urb (Urb_Packets v) 0 (nat (NumberOfPackets c)) ?c = Some c'" "c' = ?c\<lparr>IsoPackets := IsoPackets c'\<rparr>"
     "length (IsoPackets c') = length (IsoPackets c)"
     "\<forall>k < length (IsoPackets c). IsoPackets c' ! k =
        (if k < nat (NumberOfPackets c)
         then (IsoPackets c ! k)\<lparr>Length := word_of_nat (P_Length (Urb_Packets v ! k)), Status := fold_status (P_Status (Urb_Packets v ! k))\<rparr>
         else IsoPackets c ! k)"
    using packets_from_urb_spec [of 0 "nat (NumberOfPackets c)" ?c "Urb_Packets v"] in_c len assms(3) by auto
  have s: "s \<noteq> STATUS_CANCELLED" "s \<noteq> STATUS_DEVICE_NOT_CONNECTED" using assms(2) by auto
  have fin: "XferIsoExComplete s r1 q1 v c = Some (q1, ?c\<lparr>IsoPackets := IsoPackets c'\<rparr>, Iso_Completed s (Urb_Length v))"
    using s assms(2) c'(1,2) by (simp add: XferIsoExComplete_def Let_def)
  have upd: "p\<lparr>Length := x, Status := y\<rparr> = \<lparr>Offset = Offset p, Length = x, Status = y\<rparr>" for p :: iso_packet and x y
    by (cases p) simp
  have offs: "\<forall>k < length (Urb_Packets u). P_Offset (Urb_Packets u ! k) = unat (Offset (IsoPackets c ! k)) \<and> P_Offset (Urb_Packets u ! k) < Req_Length r"
    using o u len by auto
  have "\<forall>k < length (IsoPackets c'). IsoPackets c' ! k =
      (if k < length (Urb_Packets u)
       then \<lparr>Offset = Offset (IsoPackets c ! k), Length = word_of_nat (P_Length (Urb_Packets v ! k)), Status = fold_status (P_Status (Urb_Packets v ! k))\<rparr>
       else IsoPackets c ! k)"
    using c'(3,4) len by (simp add: upd)
  with len f fin c'(3) offs show ?thesis by blast
qed

section \<open>Start frames\<close>

text \<open>The frames that a transfer takes.\<close>

definition frames_taken :: "bool \<Rightarrow> queue_context \<Rightarrow> urb \<Rightarrow> ULONG" where
  "frames_taken hs q u = word_of_nat (if hs then length (Urb_Packets u) div 8 else length (Urb_Packets u))
     * ucast (the (frames_per_packet hs (wdf_pipe_information.Interval (Info q))))"

lemma round_frame_spec: "hs \<Longrightarrow> round_frame hs n mod 8 = 0" "\<exists>k < 8. round_frame hs n = n + word_of_nat k"
proof -
  have "n + (8 - n mod 8) = push_bit 3 (n div 8 + 1)"
    using minus_mod_eq_mult_div [of n 8] by (simp add: push_bit_eq_mult algebra_simps)
  then have "take_bit 3 (n + (8 - n mod 8)) = 0" by (simp add: take_bit_push_bit)
  then have "(n + (8 - n mod 8)) mod 8 = 0" by (simp only: take_bit_eq_mod) simp
  then show "hs \<Longrightarrow> round_frame hs n mod 8 = 0" by (simp only: round_frame_def split: if_split) blast
  show "\<exists>k < 8. round_frame hs n = n + word_of_nat k"
  proof (cases "hs \<and> n mod 8 \<noteq> 0")
    case True
    then have r: "round_frame hs n = n + (8 - n mod 8)" unfolding round_frame_def by (rule if_P)
    have m: "unat (n mod 8) < 8" by (simp add: unat_mod_distrib)
    moreover have "0 < unat (n mod 8)" unfolding unat_gt_0 by (rule conjunct2 [OF True])
    moreover have "8 - n mod 8 = word_of_nat (8 - unat (n mod 8))" using m by (simp add: of_nat_diff)
    ultimately show ?thesis unfolding r by (intro exI [of _ "8 - unat (n mod 8)"]) (simp del: unat_mod_distrib)
  next
    case False
    then have "round_frame hs n = n" unfolding round_frame_def by (rule if_not_P)
    then have r: "round_frame hs n = n + word_of_nat 0" by simp
    then show ?thesis by (intro exI [of _ 0]) simp
  qed
qed

text \<open>
  C29. Start frames. A transfer that is not to start as soon as possible starts at the frame that the
  queue has kept, and the queue keeps the frame behind its last one: transfers follow each other without
  a gap. After a reset of the pipe the count starts at the current frame plus the latency of the pipe, at
  high speed rounded up to a multiple of 8; when the frame cannot be read the transfer starts as soon as
  possible, and the next one at frame 0.
\<close>

theorem iso_start_frames:
  assumes "set_start_frame e r hs u q = Some (u', q')" "\<not> policy IsoAlwaysStartAsap r" "\<not> Urb_Asap u"
  shows "\<not> IsFreshPipeReset q'
    \<and> (if IsFreshPipeReset q \<and> \<not> NT_SUCCESS (fst (CurrentFrame e)) then Urb_Asap u' \<and> NextFrameNumber q' = 0
       else \<not> Urb_Asap u' \<and> NextFrameNumber q' = Urb_StartFrame u' + frames_taken hs q u
         \<and> (if IsFreshPipeReset q
             then (\<exists>k < 8. Urb_StartFrame u' = snd (CurrentFrame e) + get_field IsoStartLatency (Req_Policies r) + word_of_nat k)
               \<and> (hs \<longrightarrow> Urb_StartFrame u' mod 8 = 0)
             else Urb_StartFrame u' = NextFrameNumber q))"
proof (cases "IsFreshPipeReset q")
  case False
  then show ?thesis
    using assms by (auto simp: set_start_frame_def mXfer_IsoCheckInitNextFrameNumber_def mXfer_IsoAssignNextFrameNumber_def frames_taken_def
        elim!: bind_SomeE)
next
  case fresh: True
  let ?n = "snd (CurrentFrame e) + get_field IsoStartLatency (Req_Policies r)"
  let ?m = "round_frame hs ?n"
  show ?thesis
  proof (cases "NT_SUCCESS (fst (CurrentFrame e))")
    case False
    with fresh show ?thesis
      using assms by (auto simp: set_start_frame_def mXfer_IsoCheckInitNextFrameNumber_def split_def Let_def)
  next
    case True
    have "Urb_StartFrame u' = ?m" "\<not> Urb_Asap u'" "NextFrameNumber q' = ?m + frames_taken hs q u" "\<not> IsFreshPipeReset q'"
      using assms True fresh
      by (auto simp: set_start_frame_def mXfer_IsoCheckInitNextFrameNumber_def mXfer_IsoAssignNextFrameNumber_def frames_taken_def split_def Let_def
          elim!: bind_SomeE)
    moreover note round_frame_spec [of hs ?n]
    ultimately show ?thesis using fresh True by auto
  qed
qed

section \<open>Witnesses\<close>

definition ex_iso_env :: iso_env where
  "ex_iso_env = \<lparr>PipeResetStatus = 0, RetrieveMemoryStatus = 0, FormatStatus = 0, AllocateTimerStatus = 0, SendStatus = 0,
     WdmPipeHandle = True, CreateUrbStatus = 0, CurrentFrame = (0, 100)\<rparr>"

definition ex_iso_request :: "nat \<Rightarrow> policy_bits \<Rightarrow> request_context" where
  "ex_iso_request n p = (ex_request n)\<lparr>Req_Policies := p\<rparr>"

text \<open>Packets of 4 bytes, one for each frame.\<close>

definition ex_iso :: "UCHAR \<Rightarrow> queue_context" where
  "ex_iso a = (ex_queue a PipeTypeIsochronous)\<lparr>Info := wdf_pipe_information.MaximumPacketSize_update (\<lambda>_. 4) (ex_info a PipeTypeIsochronous)\<rparr>"

lemma ex_iso_fields [simp]:
  "max_packet (ex_iso a) = 4" "EndpointAddress (Info (ex_iso a)) = a" "wdf_pipe_information.Interval (Info (ex_iso a)) = 1"
  by (simp_all add: ex_iso_def ex_info_def)

abbreviation fixed_3 :: policy_bits where "fixed_3 \<equiv> set_field IsoNumFixedPackets 3 0"

lemma ex_iso_write:
  "map_option (\<lambda>(r, q, out). case out of Iso_Sent u \<Rightarrow> map P_Offset (Urb_Packets u) | _ \<Rightarrow> [])
     (XferIsoWrite ex_iso_env False (ex_iso_request 14 fixed_3) (ex_iso 1)) = Some [0, 5, 10]"
  by code_simp

theorem iso_write_packets_witness:
  "\<exists>r' q' u. XferIsoWrite ex_iso_env False (ex_iso_request 14 fixed_3) (ex_iso 1) = Some (r', q', Iso_Sent u)
    \<and> packet_sizes (map P_Offset (Urb_Packets u)) 14 = [5, 5, 4] \<and> max_packet (ex_iso 1) = 4"
proof -
  obtain r' q' out where w: "XferIsoWrite ex_iso_env False (ex_iso_request 14 fixed_3) (ex_iso 1) = Some (r', q', out)"
    and o: "(case out of Iso_Sent u \<Rightarrow> map P_Offset (Urb_Packets u) | _ \<Rightarrow> []) = [0, 5, 10]"
    using ex_iso_write by auto
  then obtain u where u: "out = Iso_Sent u" by (cases out) auto
  note x = w [unfolded u]
  have offs: "map P_Offset (Urb_Packets u) = [0, 5, 10]" using o u by simp
  have n: "length (Urb_Packets u) = 3" using arg_cong [OF offs, of length] by simp
  have l: "Req_Length (ex_iso_request 14 fixed_3) = 14" by (simp add: ex_iso_request_def)
  have "packet_sizes (map P_Offset (Urb_Packets u)) 14 = replicate 2 5 @ replicate 1 4"
    using iso_write_packets [OF x] by (simp add: n l)
  then show ?thesis using x by (simp add: numeral_2_eq_2)
qed

abbreviation ex_read_urb :: urb where
  "ex_read_urb \<equiv> \<lparr>Urb_Length = 5, Urb_In = True, Urb_Asap = True, Urb_StartFrame = 0,
     Urb_Packets = [\<lparr>P_Offset = 0, P_Length = 2, P_Status = 0\<rparr>, \<lparr>P_Offset = 4, P_Length = 3, P_Status = 0\<rparr>],
     Urb_ErrorCount = 0, Urb_HdrStatus = 0\<rparr>"

theorem iso_read_packs_witness:
  "\<exists>q' buf'. XferIsoRdComplete 0 0 (ex_iso_request 8 0) (ex_iso 0x81) ex_read_urb [1, 2, 0, 0, 3, 4, 5, 0] = (q', buf', Iso_Completed 0 5)
    \<and> take 5 buf' = [1, 2, 3, 4, 5]"
proof -
  have "snd (snd (XferIsoRdComplete 0 0 (ex_iso_request 8 0) (ex_iso 0x81) ex_read_urb [1, 2, 0, 0, 3, 4, 5, 0])) = Iso_Completed 0 5"
    by code_simp
  then obtain q' buf' where x: "XferIsoRdComplete 0 0 (ex_iso_request 8 0) (ex_iso 0x81) ex_read_urb [1, 2, 0, 0, 3, 4, 5, 0] = (q', buf', Iso_Completed 0 5)"
    by (metis prod.collapse)
  have "endpoint_in (EndpointAddress (Info (ex_iso 0x81)))" "length [1, 2, 0, 0, 3, 4, 5, 0 :: UCHAR] = Req_Length (ex_iso_request 8 0)"
    by (simp_all add: ex_iso_request_def)
  with iso_read_packs [OF _ _ _ _ _ _ x] x show ?thesis by (auto simp: packet_ranges_def)
qed

text \<open>A context of one packet that claims two.\<close>

definition ex_context :: "int \<Rightarrow> iso_context" where
  "ex_context n = \<lparr>Flags = KISO_FLAG_SET_START_FRAME, StartFrame = 7, ErrorCount = 0, NumberOfPackets = n, UrbHdrStatus = 0,
     IsoPackets = [\<lparr>Offset = 0, Length = 0, Status = 0\<rparr>]\<rparr>"

theorem iso_ex_bounds_witness:
  "XferIsoEx ex_iso_env False (ex_iso_request 8 0) (ex_iso 0x81) (Some (ex_context 1)) \<noteq> None
   \<and> XferIsoEx ex_iso_env False (ex_iso_request 8 0) (ex_iso 0x81) (Some (ex_context 2)) = None"
proof -
  have "WdmPipeHandle ex_iso_env" "NT_SUCCESS (iso_resources ex_iso_env)" "wdf_pipe_information.Interval (Info (ex_iso 0x81)) \<noteq> 0"
    by (simp_all add: ex_iso_env_def iso_resources_def)
  note b = iso_ex_bounds [OF this(1,2) _ _ this(3), where hs = False and r = "ex_iso_request 8 0"]
  show ?thesis using b [of "ex_context 1"] b [of "ex_context 2"] by (simp add: ex_context_def ex_iso_request_def)
qed

abbreviation ex_urb :: urb where
  "ex_urb \<equiv> \<lparr>Urb_Length = 8, Urb_In = True, Urb_Asap = False, Urb_StartFrame = 7,
     Urb_Packets = [\<lparr>P_Offset = 0, P_Length = 0, P_Status = 0\<rparr>], Urb_ErrorCount = 0, Urb_HdrStatus = 0\<rparr>"

lemma ex_iso_ex:
  "\<exists>q. XferIsoEx ex_iso_env False (ex_iso_request 8 0) (ex_iso 0x81) (Some (ex_context 1)) = Some (ex_iso_request 8 0, q, Iso_Sent ex_urb)"
  by (simp add: XferIsoEx_def ex_iso_env_def iso_resources_def ex_context_def packet_at_def ex_iso_request_def mXfer_IsoInitUrb_def Let_def
      iso_submit_def)

abbreviation ex_answer :: urb where
  "ex_answer \<equiv> ex_urb\<lparr>Urb_Length := 5, Urb_Packets := [\<lparr>P_Offset = 0, P_Length = 5, P_Status = 0xC0000004\<rparr>]\<rparr>"

theorem iso_ex_transfer_witness:
  "\<exists>r1 q1 c'. XferIsoEx ex_iso_env False (ex_iso_request 8 0) (ex_iso 0x81) (Some (ex_context 1)) = Some (r1, q1, Iso_Sent ex_urb)
    \<and> XferIsoExComplete 0 r1 q1 ex_answer (ex_context 1) = Some (q1, c', Iso_Completed 0 5)
    \<and> IsoPackets c' = [\<lparr>Offset = 0, Length = 5, Status = 0xC004\<rparr>]"
proof -
  obtain q1 where x: "XferIsoEx ex_iso_env False (ex_iso_request 8 0) (ex_iso 0x81) (Some (ex_context 1)) = Some (ex_iso_request 8 0, q1, Iso_Sent ex_urb)"
    using ex_iso_ex by blast
  have "NT_SUCCESS 0" "length (Urb_Packets ex_answer) = length (Urb_Packets ex_urb)" by simp_all
  from iso_ex_transfer [OF x this] obtain ps where ps:
    "map_option (\<lambda>(q, c, out). (q, IsoPackets c, out)) (XferIsoExComplete 0 (ex_iso_request 8 0) q1 ex_answer (ex_context 1)) = Some (q1, ps, Iso_Completed 0 5)"
    "length ps = 1" "ps ! 0 = \<lparr>Offset = 0, Length = 5, Status = fold_status 0xC0000004\<rparr>"
    by (auto simp: ex_context_def)
  have "fold_status 0xC0000004 = 0xC004" by code_simp
  with ps(2,3) have "ps = [\<lparr>Offset = 0, Length = 5, Status = 0xC004\<rparr>]" by (cases ps) auto
  with x ps(1) show ?thesis by auto
qed

lemma ex_start_frame:
  "map_option (\<lambda>(u, q). (Urb_StartFrame u, NextFrameNumber q))
     (set_start_frame ex_iso_env (ex_iso_request 8 (set_field IsoStartLatency 5 0)) True (mXfer_IsoInitUrb 8 True [0, 1, 2, 3, 4, 5, 6, 7]) (ex_iso 0x81))
   = Some (112, 113)"
  by code_simp

theorem iso_start_frames_witness:
  "\<exists>u' q'. set_start_frame ex_iso_env (ex_iso_request 8 (set_field IsoStartLatency 5 0)) True (mXfer_IsoInitUrb 8 True [0, 1, 2, 3, 4, 5, 6, 7]) (ex_iso 0x81) = Some (u', q')
    \<and> Urb_StartFrame u' = 112 \<and> Urb_StartFrame u' mod 8 = 0 \<and> NextFrameNumber q' = 113 \<and> \<not> Urb_Asap u' \<and> \<not> IsFreshPipeReset q'"
proof -
  let ?u = "mXfer_IsoInitUrb 8 True [0, 1, 2, 3, 4, 5, 6, 7]" and ?r = "ex_iso_request 8 (set_field IsoStartLatency 5 0)"
  obtain u' q' where x: "set_start_frame ex_iso_env ?r True ?u (ex_iso 0x81) = Some (u', q')" and f: "Urb_StartFrame u' = 112" "NextFrameNumber q' = 113"
    using ex_start_frame by auto
  have a: "\<not> policy IsoAlwaysStartAsap ?r" by (simp add: ex_iso_request_def) (simp add: get_field_def set_field_def)
  have "\<not> Urb_Asap ?u" "NT_SUCCESS (fst (CurrentFrame ex_iso_env))" by (simp_all add: mXfer_IsoInitUrb_def ex_iso_env_def)
  with iso_start_frames [OF x a] x f show ?thesis by simp
qed

end
