(* ===== verification/Drv_Pipe.thy ===== *)
theory Drv_Pipe
  imports Drv_Bulk
begin

text \<open>
  The pipes and interfaces of the driver, \<open>sys/drv_pipe.c\<close>, \<open>sys/drv_interface.c\<close> and
  \<open>sys/drv_interface.h\<close>: the life of a pipe and its queue, the alternate settings of an interface, and
  its owner. A pipe is its position in \<open>PipeContextByID\<close>; the interfaces below \<open>InterfaceCount\<close> are
  the elements of \<open>InterfaceContexts\<close>. Callers of the driver are its file objects, nonzero addresses.
\<close>

section \<open>Queues\<close>

text \<open>
  What the framework answers when a queue or the memory of its over-run buffer is created and when the
  target of a pipe is started, for each endpoint; and the bytes of fresh memory.
\<close>

record pipe_env =
  QueueCreateStatus :: "UCHAR \<Rightarrow> NTSTATUS"
  MemoryCreateStatus :: "UCHAR \<Rightarrow> NTSTATUS"
  PipeStartStatus :: "UCHAR \<Rightarrow> NTSTATUS"
  VersionAvailable :: bool
  PoolByte :: "nat \<Rightarrow> UCHAR"

definition Pipe_CalcMaxTransferSize :: "bool \<Rightarrow> wdf_pipe_type \<Rightarrow> ULONG \<Rightarrow> ULONG \<Rightarrow> ULONG" where
  "Pipe_CalcMaxTransferSize hs ty mps orig =
     (if ty \<in> {PipeTypeIsochronous, PipeTypeBulk, PipeTypeInterrupt} then
        let m = (if ty = PipeTypeIsochronous then (if hs then 1024 * mps else 255 * mps) else mps * 4096)
        in if orig < m then orig else m
      else orig)"

text \<open>A parallel queue presents any number of requests unless it is told how many.\<close>

definition Pipe_InitQueueConfig :: "('a pipe_env_scheme) \<Rightarrow> pipe_context \<Rightarrow> queue_config" where
  "Pipe_InitQueueConfig e pc =
     (let sequential = \<lparr>DispatchType = DispatchSequential, NumberOfPresentedRequests = 0, HasIoRead = False,
            HasIoWrite = False, HasIoStopResume = False, AllowZeroLengthRequests = False\<rparr> in
      if Pipe pc = 0 then sequential
      else
        let c = (if PipeType (PipeInformation pc) = PipeTypeIsochronous \<or> policy_on RawIO (Policies pc)
                 then sequential\<lparr>DispatchType := DispatchParallel,
                        NumberOfPresentedRequests := (if VersionAvailable e \<and> SimulParallelRequests pc \<noteq> 0
                                                      then SimulParallelRequests pc else - 1)\<rparr>
                 else sequential\<lparr>HasIoStopResume := True\<rparr>)
        in if endpoint_in (EndpointAddress (PipeInformation pc)) then c\<lparr>HasIoRead := True\<rparr>
           else c\<lparr>HasIoWrite := True, AllowZeroLengthRequests := True\<rparr>)"

text \<open>The context of a new queue is zeroed by the framework.\<close>

definition new_queue :: "queue_config \<Rightarrow> pipe_context \<Rightarrow> queue_context" where
  "new_queue c pc =
     \<lparr>Config = c, Requests = [], PipeHandle = Pipe pc, Info = PipeInformation pc, IsFreshPipeReset = True, NextFrameNumber = 0,
      ResetPipeForResume = False, ResetPipeForStall = False, OverOfs = \<lparr>BufferOffset = 0, BufferLength = 0\<rparr>, OverBuf = None,
      UserOfs = \<lparr>BufferOffset = 0, BufferLength = 0\<rparr>, UserMem = [], Zlps_Required = 0, Zlps_Sent = 0, Xfer_Length = 0, Transferred = 0\<rparr>"

definition Pipe_InitQueue :: "('a pipe_env_scheme) \<Rightarrow> pipe_context \<Rightarrow> NTSTATUS \<times> queue_context option" where
  "Pipe_InitQueue e pc =
     (let a = EndpointAddress (PipeInformation pc); s = QueueCreateStatus e a in
      if \<not> NT_SUCCESS s then (s, None)
      else
        let q = new_queue (Pipe_InitQueueConfig e pc) pc in
        if MaximumPacketSize (Info q) \<noteq> 0 \<and> PipeType (Info q) \<in> {PipeTypeBulk, PipeTypeInterrupt} then
          let s = MemoryCreateStatus e a in
          if \<not> NT_SUCCESS s then (s, None)
          else (s, Some (q\<lparr>OverBuf := Some (map (PoolByte e) [0..<unat (MaximumPacketSize (Info q))])\<rparr>))
        else (s, Some q))"

section \<open>The life of a pipe\<close>

definition Pipe_InitContext :: "('a pipe_env_scheme) \<Rightarrow> bool \<Rightarrow> pipe_context \<Rightarrow> NTSTATUS \<times> pipe_context" where
  "Pipe_InitContext e start_target pc =
     (let a = EndpointAddress (PipeInformation pc); ty = PipeType (PipeInformation pc) in
      if Pipe pc = 0 \<and> ty \<noteq> PipeTypeControl then (STATUS_INVALID_HANDLE, pc)
      else
        let (s, pc) =
          (if Queue pc = None \<or> a AND 0xF \<noteq> 0 \<and> IsQueueDirty pc then
             let pc = pc\<lparr>IsQueueDirty := False\<rparr>; (s, q) = Pipe_InitQueue e pc in
             if NT_SUCCESS s then (s, pc\<lparr>Queue := q\<rparr>) else (s, pc\<lparr>Queue := None, IsValid := False\<rparr>)
           else (STATUS_SUCCESS, pc))
        in if \<not> NT_SUCCESS s then (s, pc)
           else
             let s = (if ty \<noteq> PipeTypeControl \<and> start_target then PipeStartStatus e a else s)
             in (s, pc\<lparr>IsValid := NT_SUCCESS s\<rparr>))"

definition Pipe_Start :: "('a pipe_env_scheme) \<Rightarrow> bool \<Rightarrow> pipe_context \<Rightarrow> NTSTATUS \<times> pipe_context" where
  "Pipe_Start e start_target pc =
     (if IsValid pc then (STATUS_INVALID_PIPE_STATE, pc) else Pipe_InitContext e start_target pc)"

text \<open>
  \<open>Pipe_Stop\<close>; every caller purges the queue, which cancels its requests. Stopping the target of the pipe
  cancels nothing more.
\<close>

definition Pipe_Stop :: "bool \<Rightarrow> pipe_context \<Rightarrow> NTSTATUS \<times> pipe_context" where
  "Pipe_Stop purge pc =
     (if IsValid pc
      then (STATUS_SUCCESS, pc\<lparr>IsValid := False, Queue := map_option (\<lambda>q. if purge then q\<lparr>Requests := []\<rparr> else q) (Queue pc)\<rparr>)
      else (STATUS_INVALID_PIPE_STATE, pc))"

definition Pipe_RefreshQueue :: "('a pipe_env_scheme) \<Rightarrow> pipe_context \<Rightarrow> NTSTATUS \<times> pipe_context" where
  "Pipe_RefreshQueue e pc =
     (let (s, pc) = Pipe_Stop True pc in if \<not> NT_SUCCESS s then (s, pc) else Pipe_Start e False pc)"

definition Pipe_InitDefaultContext :: "('a pipe_env_scheme) \<Rightarrow> device_context \<Rightarrow> NTSTATUS \<times> device_context" where
  "Pipe_InitDefaultContext e d =
     (let k = GetPipeContextByID 0;
          pc = Policy_InitPipe d (PipeContextByID d ! k);
          info = (PipeInformation pc)\<lparr>MaximumPacketSize := ucast (bMaxPacketSize0 d), MaximumTransferSize := 4096,
                   EndpointAddress := 0, PipeType := PipeTypeControl\<rparr>;
          (s, pc) = Pipe_InitContext e False (pc\<lparr>Pipe := 0, Queue := None, PipeInformation := info, TimeoutPolicy := 5000\<rparr>)
      in (s, upd_pipe k (\<lambda>_. pc) d))"

text \<open>Resetting a pipe; the status is what the framework answers.\<close>

definition Pipe_Reset :: "NTSTATUS \<Rightarrow> device_context \<Rightarrow> UCHAR \<Rightarrow> NTSTATUS \<times> device_context" where
  "Pipe_Reset s d p =
     (let k = GetPipeContextByID p in
      if Pipe (PipeContextByID d ! k) = 0 then (STATUS_INVALID_PARAMETER, d)
      else if \<not> NT_SUCCESS s then (s, d)
      else (s, upd_pipe k (Queue_update (map_option (\<lambda>q. q\<lparr>IsFreshPipeReset := True\<rparr>))) d))"

text \<open>Aborting a pipe leaves its context; the transfers that it cancels are completed as cancelled.\<close>

definition Pipe_Abort :: "NTSTATUS \<Rightarrow> device_context \<Rightarrow> UCHAR \<Rightarrow> NTSTATUS" where
  "Pipe_Abort s d p = (if Pipe (PipeContextByID d ! GetPipeContextByID p) = 0 then STATUS_INVALID_PARAMETER else s)"

section \<open>All pipes\<close>

text \<open>
  The pipes of an interface, up to its pipe count. A null pointer among them is followed by
  \<open>Pipe_StopAll\<close> and skipped by the other loops.
\<close>

definition Pipe_StopAll :: "device_context \<Rightarrow> device_context option" where
  "Pipe_StopAll d =
     (if \<exists>i \<in> set (InterfaceContexts d). None \<in> set (take (PipeCount i) (PipeContextByIndex i)) then None
      else Some (fold (\<lambda>k. upd_pipe k (\<lambda>pc. snd (Pipe_Stop True pc))) (concat (map interface_pipes (InterfaceContexts d))) d))"

definition Pipe_StartAll :: "('a pipe_env_scheme) \<Rightarrow> bool \<Rightarrow> device_context \<Rightarrow> device_context" where
  "Pipe_StartAll e start_target d =
     fold (\<lambda>k. upd_pipe k (\<lambda>pc. snd (Pipe_Start e start_target pc))) (concat (map interface_pipes (InterfaceContexts d))) d"

definition Interface_Stop :: "interface_context \<Rightarrow> device_context \<Rightarrow> device_context" where
  "Interface_Stop i d = fold (\<lambda>k. upd_pipe k (\<lambda>pc. snd (Pipe_Stop True pc))) (interface_pipes i) d"

definition Interface_Start :: "('a pipe_env_scheme) \<Rightarrow> interface_context \<Rightarrow> device_context \<Rightarrow> device_context" where
  "Interface_Start e i d = fold (\<lambda>k. upd_pipe k (\<lambda>pc. snd (Pipe_Start e False pc))) (interface_pipes i) d"

text \<open>The names by which a file opens one pipe.\<close>

definition PipeNameToPipeID :: "(string \<times> UCHAR) list" where
  "PipeNameToPipeID =
    [(''PIPE_01'', 0x01), (''PIPE_81'', 0x81), (''PIPE_02'', 0x02), (''PIPE_82'', 0x82), (''PIPE_03'', 0x03), (''PIPE_83'', 0x83),
     (''PIPE_04'', 0x04), (''PIPE_84'', 0x84), (''PIPE_05'', 0x05), (''PIPE_85'', 0x85), (''PIPE_06'', 0x06), (''PIPE_86'', 0x86),
     (''PIPE_07'', 0x07), (''PIPE_87'', 0x87), (''PIPE_08'', 0x08), (''PIPE_88'', 0x88), (''PIPE_09'', 0x09), (''PIPE_89'', 0x89),
     (''PIPE_0A'', 0x0A), (''PIPE_8A'', 0x8A), (''PIPE_0B'', 0x0B), (''PIPE_8B'', 0x8B), (''PIPE_0C'', 0x0C), (''PIPE_8C'', 0x8C),
     (''PIPE_0D'', 0x0D), (''PIPE_8D'', 0x8D), (''PIPE_0E'', 0x0E), (''PIPE_8E'', 0x8E), (''PIPE_0F'', 0x0F), (''PIPE_8F'', 0x8F)]"

definition Pipe_GetContextFromName :: "device_context \<Rightarrow> string \<Rightarrow> nat option" where
  "Pipe_GetContextFromName d name = do {
     p \<leftarrow> map_of PipeNameToPipeID name;
     let k = GetPipeContextByID p;
     let pc = PipeContextByID d ! k;
     (if \<not> IsValid pc \<or> Pipe pc = 0 \<or> Queue pc = None then None else Some k) }"

section \<open>Interfaces\<close>

text \<open>\<open>interface_request_t\<close>: by number, or by index when the flags say so.\<close>

record interface_request =
  interface_number :: UINT
  altsetting_number :: UINT
  intf_use_index :: bool
  altf_use_index :: bool
  interface_index :: int
  altsetting_index :: int

definition Interface_GetContextByNumber :: "device_context \<Rightarrow> UCHAR \<Rightarrow> nat option" where
  "Interface_GetContextByNumber d n =
     List.find (\<lambda>i. bInterfaceNumber (InterfaceContexts d ! i) = n) [0..<length (InterfaceContexts d)]"

definition Interface_GetContextByIndex :: "device_context \<Rightarrow> UCHAR \<Rightarrow> nat option" where
  "Interface_GetContextByIndex d i = (if length (InterfaceContexts d) \<le> unat i then None else Some (unat i))"

definition GetInterfaceContextFromRequest :: "device_context \<Rightarrow> interface_request \<Rightarrow> NTSTATUS + nat" where
  "GetInterfaceContextFromRequest d r =
     (if ConfigurationValue d = None then Inl STATUS_INVALID_DEVICE_STATE
      else case (if intf_use_index r then Interface_GetContextByIndex d (word_of_int (interface_index r))
                 else Interface_GetContextByNumber d (ucast (interface_number r))) of
        None \<Rightarrow> Inl STATUS_NO_MORE_ENTRIES
      | Some i \<Rightarrow> Inr i)"

text \<open>
  What the framework knows of an interface: its number, the number of each of its alternate settings,
  the index of the one that is configured and the handles and descriptions of the pipes of that one.
\<close>

record usb_interface = pipe_env +
  InterfaceNumber :: UCHAR
  AltNumbers :: "UCHAR list"
  ConfiguredSetting :: UCHAR
  ConfiguredPipes :: "(addr \<times> wdf_pipe_information) list"
  SelectStatus :: NTSTATUS

text \<open>The index and the number of settings are \<open>UCHAR\<close>; the index of a request is a \<open>short\<close>.\<close>

definition GetInterfaceAltSettingIndexFromRequest :: "usb_interface \<Rightarrow> interface_request \<Rightarrow> NTSTATUS + UCHAR" where
  "GetInterfaceAltSettingIndexFromRequest u r =
     (let n = length (AltNumbers u);
          k = (if altf_use_index r then
                 (if int n \<le> altsetting_index r then None else Some (word_of_int (altsetting_index r)))
               else case List.find (\<lambda>k. ucast (AltNumbers u ! k) = altsetting_number r) [0..<n] of
                 None \<Rightarrow> Some (0xFF :: UCHAR) | Some k \<Rightarrow> Some (word_of_nat k))
      in case k of None \<Rightarrow> Inl STATUS_NO_MORE_ENTRIES
         | Some k \<Rightarrow> if k = 0xFF then Inl STATUS_NO_MORE_ENTRIES else Inr k)"

definition upd_interface :: "nat \<Rightarrow> (interface_context \<Rightarrow> interface_context) \<Rightarrow> device_context \<Rightarrow> device_context" where
  "upd_interface i f d = d\<lparr>InterfaceContexts := (InterfaceContexts d)[i := f (InterfaceContexts d ! i)]\<rparr>"

text \<open>\<open>Interface_DeletePipesAndQueues\<close>. Null pointers in the array are skipped.\<close>

definition delete_pipe :: "pipe_context \<Rightarrow> pipe_context" where
  "delete_pipe pc =
     (if \<not> IsValid pc \<and> EndpointAddress (PipeInformation pc) AND 0xF \<noteq> 0 then pc\<lparr>Queue := None, Pipe := 0\<rparr>
      else pc\<lparr>Pipe := 0\<rparr>)"

definition Interface_DeletePipesAndQueues :: "nat \<Rightarrow> device_context \<Rightarrow> device_context" where
  "Interface_DeletePipesAndQueues i d =
     (let ic = InterfaceContexts d ! i; d = fold (\<lambda>k. upd_pipe k delete_pipe) (interface_pipes ic) d
      in upd_interface i (\<lambda>ic. ic\<lparr>PipeContextByIndex := replicate (PipeCount ic) None @ drop (PipeCount ic) (PipeContextByIndex ic),
           PipeCount := 0\<rparr>) d)"

definition init_pipe :: "device_context \<Rightarrow> addr \<times> wdf_pipe_information \<Rightarrow> pipe_context \<Rightarrow> pipe_context" where
  "init_pipe d p pc =
     (let pc = (Policy_InitPipe d (pc\<lparr>PipeInformation := snd p\<rparr>))\<lparr>Pipe := fst p\<rparr>;
          m = Pipe_CalcMaxTransferSize (IsHighSpeedDevice d) (PipeType (snd p)) (MaximumPacketSize (snd p)) (MaximumTransferSize (snd p))
      in pc\<lparr>PipeInformation := (snd p)\<lparr>MaximumTransferSize := m\<rparr>\<rparr>)"

text \<open>The loop over the pipes of the setting, from position \<open>k\<close>.\<close>

fun init_pipes :: "nat \<Rightarrow> nat \<Rightarrow> (addr \<times> wdf_pipe_information) list \<Rightarrow> device_context \<Rightarrow> NTSTATUS \<times> device_context" where
  "init_pipes i k [] d = (STATUS_SUCCESS, d)"
| "init_pipes i k (p # ps) d =
     (if fst p = 0 then (STATUS_INSUFFICIENT_RESOURCES, upd_interface i (\<lambda>ic. ic\<lparr>PipeCount := k\<rparr>) d)
      else
        let j = GetPipeContextByID (EndpointAddress (snd p))
        in init_pipes i (k + 1) ps (upd_pipe j (init_pipe d p)
             (upd_interface i (\<lambda>ic. ic\<lparr>PipeContextByIndex := (PipeContextByIndex ic)[k := Some j]\<rparr>) d)))"

definition Interface_InitContext :: "usb_interface \<Rightarrow> nat \<Rightarrow> device_context \<Rightarrow> NTSTATUS \<times> device_context" where
  "Interface_InitContext u i d =
     (if Interface (InterfaceContexts d ! i) = 0 then (STATUS_FILE_CORRUPT_ERROR, d)
      else init_pipes i 0 (ConfiguredPipes u)
        (upd_interface i (\<lambda>ic. ic\<lparr>SettingIndex := ConfiguredSetting u, bInterfaceNumber := InterfaceNumber u,
           bAlternateSetting := AltNumbers u ! unat (ConfiguredSetting u), PipeCount := length (ConfiguredPipes u)\<rparr>) d))"

definition Interface_SetAltSetting ::
  "usb_interface \<Rightarrow> device_context \<Rightarrow> interface_request \<Rightarrow> NTSTATUS \<times> device_context" where
  "Interface_SetAltSetting u d r =
     (case GetInterfaceContextFromRequest d r of
        Inl s \<Rightarrow> (s, d)
      | Inr i \<Rightarrow>
          if Interface (InterfaceContexts d ! i) = 0 then (STATUS_NO_MORE_ENTRIES, d)
          else case GetInterfaceAltSettingIndexFromRequest u r of
            Inl s \<Rightarrow> (s, d)
          | Inr k \<Rightarrow>
              if SettingIndex (InterfaceContexts d ! i) = k then (STATUS_SUCCESS, d)
              else
                let d = Interface_Stop (InterfaceContexts d ! i) d in
                if \<not> NT_SUCCESS (SelectStatus u) then (SelectStatus u, Interface_Start (pipe_env.truncate u) (InterfaceContexts d ! i) d)
                else
                  let (s, d) = Interface_InitContext u i (Interface_DeletePipesAndQueues i
                        (upd_interface i (\<lambda>ic. ic\<lparr>SettingIndex := ConfiguredSetting u\<rparr>) d))
                  in if \<not> NT_SUCCESS s then (s, d)
                     else (STATUS_SUCCESS, Interface_Start (pipe_env.truncate u) (InterfaceContexts d ! i) d))"

section \<open>Owners of interfaces\<close>

definition Interface_Claim :: "device_context \<Rightarrow> interface_request \<Rightarrow> addr \<Rightarrow> NTSTATUS \<times> device_context" where
  "Interface_Claim d r file =
     (case GetInterfaceContextFromRequest d r of
        Inl s \<Rightarrow> (s, d)
      | Inr i \<Rightarrow>
          if ClaimedByFileObject (InterfaceContexts d ! i) = file then (STATUS_SUCCESS, d)
          else if ClaimedByFileObject (InterfaceContexts d ! i) \<noteq> 0 then (STATUS_OBJECT_NAME_COLLISION, d)
          else (STATUS_SUCCESS, upd_interface i (\<lambda>ic. ic\<lparr>ClaimedByFileObject := file\<rparr>) d))"

definition Interface_Release :: "device_context \<Rightarrow> interface_request \<Rightarrow> addr \<Rightarrow> NTSTATUS \<times> device_context" where
  "Interface_Release d r file =
     (case GetInterfaceContextFromRequest d r of
        Inl s \<Rightarrow> (s, d)
      | Inr i \<Rightarrow>
          if ClaimedByFileObject (InterfaceContexts d ! i) = 0 then (STATUS_SUCCESS, d)
          else if ClaimedByFileObject (InterfaceContexts d ! i) \<noteq> file then (STATUS_OBJECT_NAME_COLLISION, d)
          else (STATUS_SUCCESS, upd_interface i (\<lambda>ic. ic\<lparr>ClaimedByFileObject := 0\<rparr>) d))"

definition Interface_ReleaseAll :: "device_context \<Rightarrow> addr \<Rightarrow> NTSTATUS \<times> device_context" where
  "Interface_ReleaseAll d file =
     (STATUS_SUCCESS, d\<lparr>InterfaceContexts := map (\<lambda>ic. if ClaimedByFileObject ic = file then ic\<lparr>ClaimedByFileObject := 0\<rparr> else ic)
        (InterfaceContexts d)\<rparr>)"

definition Interface_GetAltSetting :: "device_context \<Rightarrow> interface_request \<Rightarrow> NTSTATUS + UCHAR" where
  "Interface_GetAltSetting d r =
     map_sum id (\<lambda>i. bAlternateSetting (InterfaceContexts d ! i)) (GetInterfaceContextFromRequest d r)"

section \<open>Updates of several pipes\<close>

definition update_pipes :: "(nat \<times> (pipe_context \<Rightarrow> pipe_context)) list \<Rightarrow> device_context \<Rightarrow> device_context" where
  "update_pipes us = fold (\<lambda>(k, f). upd_pipe k f) us"

lemma update_pipes_simps [simp]:
  "update_pipes [] d = d" "update_pipes ((k, f) # us) d = update_pipes us (upd_pipe k f d)"
  by (simp_all add: update_pipes_def)

lemma fold_upd_pipe: "fold (\<lambda>k. upd_pipe k f) ks = update_pipes (map (\<lambda>k. (k, f)) ks)"
  by (simp add: update_pipes_def fold_map o_def)

text \<open>Updating a pipe and updating an interface touch different parts of the device.\<close>

lemma upd_pipe_frame [simp]:
  "InterfaceContexts (upd_pipe k f d) = InterfaceContexts d" "DeviceSpeed (upd_pipe k f d) = DeviceSpeed d"
  "ConfigurationValue (upd_pipe k f d) = ConfigurationValue d" "length (PipeContextByID (upd_pipe k f d)) = length (PipeContextByID d)"
  by (simp_all add: upd_pipe_def)

lemma upd_interface_frame [simp]:
  "PipeContextByID (upd_interface i f d) = PipeContextByID d" "DeviceSpeed (upd_interface i f d) = DeviceSpeed d"
  "ConfigurationValue (upd_interface i f d) = ConfigurationValue d"
  "length (InterfaceContexts (upd_interface i f d)) = length (InterfaceContexts d)"
  by (simp_all add: upd_interface_def)

lemma upd_interface_nth [simp]:
  "i < length (InterfaceContexts d) \<Longrightarrow>
   InterfaceContexts (upd_interface i f d) ! j = (if j = i then f (InterfaceContexts d ! i) else InterfaceContexts d ! j)"
  by (simp add: upd_interface_def)

lemma upd_interface_upd_interface [simp]:
  "upd_interface i f (upd_interface i g d) = upd_interface i (\<lambda>ic. f (g ic)) d"
  by (cases "i < length (InterfaceContexts d)") (simp_all add: upd_interface_def list_update_beyond)

lemma upd_interface_same: "f (InterfaceContexts d ! i) = InterfaceContexts d ! i \<Longrightarrow> upd_interface i f d = d"
  by (simp add: upd_interface_def)

lemma upd_pipe_upd_interface: "upd_pipe k f (upd_interface i g d) = upd_interface i g (upd_pipe k f d)"
  by (simp add: upd_pipe_def upd_interface_def)

lemma update_pipes_frame [simp]:
  "InterfaceContexts (update_pipes us d) = InterfaceContexts d" "DeviceSpeed (update_pipes us d) = DeviceSpeed d"
  "ConfigurationValue (update_pipes us d) = ConfigurationValue d" "length (PipeContextByID (update_pipes us d)) = length (PipeContextByID d)"
  by (induction us arbitrary: d) auto

lemma update_pipes_upd_interface: "update_pipes us (upd_interface i g d) = upd_interface i g (update_pipes us d)"
  by (induction us arbitrary: d) (auto simp: upd_pipe_upd_interface)

lemma update_pipes_only: "update_pipes us d = d\<lparr>PipeContextByID := PipeContextByID (update_pipes us d)\<rparr>"
proof (induction us arbitrary: d)
  case (Cons u us)
  obtain k f where u: "u = (k, f)" by fastforce
  show ?case using Cons [of "upd_pipe k f d"] by (simp add: u upd_pipe_def)
qed simp

lemma update_pipes_nth:
  "distinct (map fst us) \<Longrightarrow> fst ` set us \<subseteq> {..<length (PipeContextByID d)} \<Longrightarrow>
   PipeContextByID (update_pipes us d) ! j = (case map_of us j of None \<Rightarrow> PipeContextByID d ! j | Some f \<Rightarrow> f (PipeContextByID d ! j))"
proof (induction us arbitrary: d)
  case (Cons u us)
  obtain k f where u: "u = (k, f)" by fastforce
  have k: "k < length (PipeContextByID d)" using Cons.prems u by auto
  have "map_of us k = None" using Cons.prems u by (simp add: map_of_eq_None_iff)
  with Cons k show ?case by (auto simp: u upd_pipe_nth split: option.splits)
qed simp

lemma map_of_const: "map_of (map (\<lambda>k. (k, f)) ks) j = (if j \<in> set ks then Some f else None)"
  by (induction ks) auto

corollary update_pipes_all:
  assumes "distinct ks" "set ks \<subseteq> {..<length (PipeContextByID d)}"
  shows "PipeContextByID (fold (\<lambda>k. upd_pipe k f) ks d) ! j = (if j \<in> set ks then f (PipeContextByID d ! j) else PipeContextByID d ! j)"
  using assms unfolding fold_upd_pipe by (subst update_pipes_nth) (auto simp: map_of_const o_def)

section \<open>A failed selection\<close>

text \<open>A pipe that can be stopped and started again: it is valid, and its queue is up to date.\<close>

definition running :: "pipe_context \<Rightarrow> bool" where
  "running pc \<longleftrightarrow> IsValid pc \<and> Queue pc \<noteq> None \<and> Pipe pc \<noteq> 0 \<and> \<not> IsQueueDirty pc"

definition purged :: "pipe_context \<Rightarrow> pipe_context" where
  "purged pc = pc\<lparr>Queue := map_option (\<lambda>q. q\<lparr>Requests := []\<rparr>) (Queue pc)\<rparr>"

lemma stop_start: "running pc \<Longrightarrow> snd (Pipe_Start e False (snd (Pipe_Stop True pc))) = purged pc"
  by (auto simp: running_def purged_def Pipe_Start_def Pipe_Stop_def Pipe_InitContext_def Let_def NT_SUCCESS_def)

lemma interface_pipes_upd_pipe [simp]: "interface_pipes (InterfaceContexts (update_pipes us d) ! i) = interface_pipes (InterfaceContexts d ! i)"
  by simp

text \<open>
  C15. When the framework refuses an alternate setting, the driver is as before: the setting, the pipes
  and their queues, with what they keep for later reads, are restored, also for the other interfaces. Only
  the requests that the queues of this interface held are cancelled.
\<close>

theorem refused_setting_restores:
  assumes "GetInterfaceContextFromRequest d r = Inr i" "Interface (InterfaceContexts d ! i) \<noteq> 0"
    and "GetInterfaceAltSettingIndexFromRequest u r = Inr k" "SettingIndex (InterfaceContexts d ! i) \<noteq> k"
    and "\<not> NT_SUCCESS (SelectStatus u)"
    and "distinct (interface_pipes (InterfaceContexts d ! i))"
    and "\<forall>j \<in> set (interface_pipes (InterfaceContexts d ! i)). j < length (PipeContextByID d) \<and> running (PipeContextByID d ! j)"
  shows "Interface_SetAltSetting u d r = (SelectStatus u, fold (\<lambda>j. upd_pipe j purged) (interface_pipes (InterfaceContexts d ! i)) d)"
proof -
  let ?ks = "interface_pipes (InterfaceContexts d ! i)"
  let ?d1 = "Interface_Stop (InterfaceContexts d ! i) d"
  let ?d2 = "Interface_Start (pipe_env.truncate u) (InterfaceContexts ?d1 ! i) ?d1"
  let ?d3 = "fold (\<lambda>j. upd_pipe j purged) ?ks d"
  have ks: "set ?ks \<subseteq> {..<length (PipeContextByID d)}" using assms(7) by auto
  have d1: "InterfaceContexts ?d1 = InterfaceContexts d" "length (PipeContextByID ?d1) = length (PipeContextByID d)"
    "?d1 = d\<lparr>PipeContextByID := PipeContextByID ?d1\<rparr>"
    unfolding Interface_Stop_def fold_upd_pipe by (simp_all, rule update_pipes_only)
  have len: "length (PipeContextByID ?d2) = length (PipeContextByID d)" "length (PipeContextByID ?d3) = length (PipeContextByID d)"
    unfolding Interface_Start_def fold_upd_pipe using d1(2) by simp_all
  have nth: "PipeContextByID ?d2 ! j = PipeContextByID ?d3 ! j" for j
  proof -
    have "PipeContextByID ?d2 ! j = (if j \<in> set ?ks then purged (PipeContextByID d ! j) else PipeContextByID d ! j)"
      unfolding Interface_Start_def d1(1) using assms(6,7) ks d1(2)
      by (subst update_pipes_all) (auto simp: Interface_Stop_def update_pipes_all stop_start)
    then show ?thesis using assms(6) ks by (simp add: update_pipes_all)
  qed
  have "?d2 = d\<lparr>PipeContextByID := PipeContextByID ?d2\<rparr>"
    unfolding Interface_Start_def fold_upd_pipe by (subst update_pipes_only) (subst d1(3), simp)
  moreover have "?d3 = d\<lparr>PipeContextByID := PipeContextByID ?d3\<rparr>"
    unfolding fold_upd_pipe by (rule update_pipes_only)
  moreover have "PipeContextByID ?d2 = PipeContextByID ?d3" using len nth by (intro nth_equalityI) simp_all
  ultimately have "?d2 = ?d3" by metis
  then show ?thesis using assms(1-5) d1(1) by (simp add: Interface_SetAltSetting_def Let_def)
qed

section \<open>Locks\<close>

text \<open>
  What a table of locks promises to its clients. A lock that is free or one's own is granted, only the
  owner releases it, and closing a client releases all that it owns.
\<close>

datatype 'c lock_event = Claim 'c nat | Release 'c nat | Close 'c

fun table_event :: "'c lock_event \<Rightarrow> (nat \<Rightarrow> 'c option) \<Rightarrow> nat \<Rightarrow> 'c option" where
  "table_event (Claim c i) m = (if m i = None then m(i := Some c) else m)"
| "table_event (Release c i) m = (if m i = Some c then m(i := None) else m)"
| "table_event (Close c) m = (\<lambda>i. if m i = Some c then None else m i)"

fun event_ids :: "'c lock_event \<Rightarrow> nat set" where
  "event_ids (Claim c i) = {i}" | "event_ids (Release c i) = {i}" | "event_ids (Close c) = {}"

fun event_client :: "'c lock_event \<Rightarrow> 'c" where
  "event_client (Claim c i) = c" | "event_client (Release c i) = c" | "event_client (Close c) = c"

locale lock_table =
  fixes ids :: "'s \<Rightarrow> nat set" and owner :: "'s \<Rightarrow> nat \<Rightarrow> 'c option" and clients :: "'c set"
    and claim :: "'c \<Rightarrow> nat \<Rightarrow> 's \<Rightarrow> bool \<times> 's" and release :: "'c \<Rightarrow> nat \<Rightarrow> 's \<Rightarrow> bool \<times> 's" and close :: "'c \<Rightarrow> 's \<Rightarrow> 's"
  assumes claim_law: "i \<in> ids s \<Longrightarrow> c \<in> clients \<Longrightarrow>
      fst (claim c i s) = (owner s i = None \<or> owner s i = Some c) \<and> owner (snd (claim c i s)) = table_event (Claim c i) (owner s)
      \<and> ids (snd (claim c i s)) = ids s"
    and release_law: "i \<in> ids s \<Longrightarrow> c \<in> clients \<Longrightarrow>
      fst (release c i s) = (owner s i = None \<or> owner s i = Some c) \<and> owner (snd (release c i s)) = table_event (Release c i) (owner s)
      \<and> ids (snd (release c i s)) = ids s"
    and close_law: "c \<in> clients \<Longrightarrow> owner (close c s) = table_event (Close c) (owner s) \<and> ids (close c s) = ids s"
begin

fun exec :: "'c lock_event \<Rightarrow> 's \<Rightarrow> 's" where
  "exec (Claim c i) s = snd (claim c i s)"
| "exec (Release c i) s = snd (release c i s)"
| "exec (Close c) s = close c s"

lemma exec_event:
  "event_ids e \<subseteq> ids s \<Longrightarrow> event_client e \<in> clients \<Longrightarrow> owner (exec e s) = table_event e (owner s) \<and> ids (exec e s) = ids s"
  using claim_law release_law close_law by (cases e) simp_all

lemma exec_trace:
  "\<forall>e \<in> set es. event_ids e \<subseteq> ids s \<and> event_client e \<in> clients \<Longrightarrow>
   owner (fold exec es s) = fold table_event es (owner s) \<and> ids (fold exec es s) = ids s"
  by (induction es arbitrary: s) (simp_all add: exec_event)

lemma table_keeps: "m i = Some c \<Longrightarrow> Release c i \<noteq> e \<Longrightarrow> Close c \<noteq> e \<Longrightarrow> table_event e m i = Some c"
  by (cases e) auto

lemma table_keeps_trace: "m i = Some c \<Longrightarrow> Release c i \<notin> set es \<Longrightarrow> Close c \<notin> set es \<Longrightarrow> fold table_event es m i = Some c"
  by (induction es arbitrary: m) (simp_all add: table_keeps)

lemma exclusive:
  assumes "fst (claim c i s)" "i \<in> ids s" "c \<in> clients" "b \<in> clients" "b \<noteq> c"
    and "\<forall>e \<in> set es. event_ids e \<subseteq> ids s \<and> event_client e \<in> clients" "Release c i \<notin> set es" "Close c \<notin> set es"
  shows "\<not> fst (claim b i (fold exec es (snd (claim c i s))))"
proof -
  let ?s = "snd (claim c i s)"
  have s: "owner ?s i = Some c" "ids ?s = ids s" using claim_law [of i s c] assms(1-3) by auto
  have t: "owner (fold exec es ?s) i = Some c" "ids (fold exec es ?s) = ids s"
    using exec_trace [of es ?s] assms(6-8) s table_keeps_trace [of "owner ?s" i c es] by auto
  then show ?thesis using claim_law [of i "fold exec es ?s" b] assms(2,4,5) by auto
qed

end

section \<open>The owners of the interfaces\<close>

definition interface_owner :: "device_context \<Rightarrow> nat \<Rightarrow> addr option" where
  "interface_owner d i =
     (if i < length (InterfaceContexts d) \<and> ClaimedByFileObject (InterfaceContexts d ! i) \<noteq> 0
      then Some (ClaimedByFileObject (InterfaceContexts d ! i)) else None)"

text \<open>The interfaces that requests by index reach.\<close>

definition interface_ids :: "device_context \<Rightarrow> nat set" where
  "interface_ids d = (if ConfigurationValue d = None then {} else {..<min 256 (length (InterfaceContexts d))})"

definition by_index :: "nat \<Rightarrow> interface_request" where
  "by_index i = \<lparr>interface_number = 0, altsetting_number = 0, intf_use_index = True, altf_use_index = False,
     interface_index = int i, altsetting_index = 0\<rparr>"

lemma by_index: "i \<in> interface_ids d \<Longrightarrow> GetInterfaceContextFromRequest d (by_index i) = Inr i"
  by (auto simp: GetInterfaceContextFromRequest_def interface_ids_def Interface_GetContextByIndex_def by_index_def unsigned_of_nat take_bit_nat_eq_self
      split: if_splits)

definition status_answer :: "NTSTATUS \<times> device_context \<Rightarrow> bool \<times> device_context" where
  "status_answer x = (NT_SUCCESS (fst x), snd x)"

lemma status_answer_simps [simp]: "fst (status_answer x) = NT_SUCCESS (fst x)" "snd (status_answer x) = snd x"
  by (simp_all add: status_answer_def)

lemma interface_owner_upd:
  "i < length (InterfaceContexts d) \<Longrightarrow>
   interface_owner (upd_interface i (\<lambda>ic. ic\<lparr>ClaimedByFileObject := f\<rparr>) d) = (interface_owner d)(i := (if f = 0 then None else Some f))"
  by (auto simp: interface_owner_def fun_eq_iff)

lemma interface_ids_upd [simp]: "interface_ids (upd_interface i f d) = interface_ids d"
  by (simp add: interface_ids_def)

interpretation claims: lock_table interface_ids interface_owner "- {0}"
  "\<lambda>f i d. status_answer (Interface_Claim d (by_index i) f)" "\<lambda>f i d. status_answer (Interface_Release d (by_index i) f)"
  "\<lambda>f d. snd (Interface_ReleaseAll d f)"
proof (unfold_locales, goal_cases)
  case (1 i d f)
  have "i < length (InterfaceContexts d)" using 1(1) by (auto simp: interface_ids_def split: if_splits)
  with 1 show ?case
    by (auto simp: Interface_Claim_def by_index interface_owner_upd NT_SUCCESS_def) (auto simp: interface_owner_def)
next
  case (2 i d f)
  have "i < length (InterfaceContexts d)" using 2(1) by (auto simp: interface_ids_def split: if_splits)
  with 2 show ?case
    by (auto simp: Interface_Release_def by_index interface_owner_upd NT_SUCCESS_def) (auto simp: interface_owner_def)
next
  case (3 f d)
  have "interface_owner (snd (Interface_ReleaseAll d f)) i = table_event (Close f) (interface_owner d) i" for i
    using 3 by (cases "i < length (InterfaceContexts d)") (simp_all add: Interface_ReleaseAll_def interface_owner_def)
  then show ?case by (simp add: fun_eq_iff) (simp add: Interface_ReleaseAll_def interface_ids_def)
qed

text \<open>Requests by number are requests by index.\<close>

lemma Interface_Claim_cong:
  "GetInterfaceContextFromRequest d r = GetInterfaceContextFromRequest d r' \<Longrightarrow> Interface_Claim d r f = Interface_Claim d r' f"
  by (simp add: Interface_Claim_def)

fun claim_event :: "addr lock_event \<Rightarrow> device_context \<Rightarrow> device_context" where
  "claim_event (Claim f i) d = snd (Interface_Claim d (by_index i) f)"
| "claim_event (Release f i) d = snd (Interface_Release d (by_index i) f)"
| "claim_event (Close f) d = snd (Interface_ReleaseAll d f)"

lemma claim_event_exec: "claim_event = claims.exec"
proof (intro ext)
  fix e d
  show "claim_event e d = claims.exec e d" by (cases e) simp_all
qed

text \<open>
  C16. The owners of the interfaces are a table of locks. Whatever the files claim, release and close, in
  any order, the owner of each interface is that of the table; an interface is granted exactly when it is
  free or one's own; and a granted one stays refused to every other file until its owner releases it or
  is closed.
\<close>

theorem interface_ownership:
  assumes "i \<in> interface_ids d" "f \<noteq> 0" "g \<noteq> 0" "g \<noteq> f"
    and "\<forall>e \<in> set es. event_ids e \<subseteq> interface_ids d \<and> event_client e \<noteq> 0"
  shows "interface_owner (fold claim_event es d) = fold table_event es (interface_owner d)
    \<and> (fst (Interface_Claim (fold claim_event es d) (by_index i) f) = STATUS_SUCCESS
        \<longleftrightarrow> fold table_event es (interface_owner d) i \<in> {None, Some f})
    \<and> (fst (Interface_Claim d (by_index i) f) = STATUS_SUCCESS \<and> Release f i \<notin> set es \<and> Close f \<notin> set es
        \<longrightarrow> fst (Interface_Claim (fold claim_event es (snd (Interface_Claim d (by_index i) f))) (by_index i) g) = STATUS_OBJECT_NAME_COLLISION)"
proof -
  let ?t = "fold claim_event es d" and ?d = "snd (Interface_Claim d (by_index i) f)"
  have es: "\<forall>e \<in> set es. event_ids e \<subseteq> interface_ids d \<and> event_client e \<in> - {0}" using assms(5) by simp
  note tr = claims.exec_trace [OF es, folded claim_event_exec]
  have cl: "fst (Interface_Claim d' (by_index i) f') = (if interface_owner d' i \<in> {None, Some f'} then STATUS_SUCCESS else STATUS_OBJECT_NAME_COLLISION)"
    if "i \<in> interface_ids d'" "f' \<noteq> 0" for d' f'
  proof -
    have "i < length (InterfaceContexts d')" using that by (auto simp: interface_ids_def split: if_splits)
    then show ?thesis using that by (auto simp: Interface_Claim_def by_index interface_owner_def)
  qed
  have a: "fst (status_answer (Interface_Claim d' (by_index i) f')) \<longleftrightarrow> fst (Interface_Claim d' (by_index i) f') = STATUS_SUCCESS"
    if "i \<in> interface_ids d'" "f' \<noteq> 0" for d' f'
    using cl [OF that] by (simp add: NT_SUCCESS_def)
  have ids: "i \<in> interface_ids (fold claim_event es ?d)"
    using claims.claim_law [where i = i and s = d and c = f] claims.exec_trace [of es ?d] es assms(1,2)
    by (simp add: claim_event_exec)
  have "fst (Interface_Claim (fold claim_event es ?d) (by_index i) g) = STATUS_OBJECT_NAME_COLLISION"
    if g: "fst (Interface_Claim d (by_index i) f) = STATUS_SUCCESS" "Release f i \<notin> set es" "Close f \<notin> set es"
  proof -
    have "\<not> fst (status_answer (Interface_Claim (fold claim_event es ?d) (by_index i) g))"
      using claims.exclusive [where c = f and i = i and s = d and b = g and es = es] assms a [OF assms(1,2)] g es by (simp add: claim_event_exec)
    then show ?thesis using cl [OF ids assms(3)] by (auto simp: NT_SUCCESS_def split: if_split_asm)
  qed
  moreover have "fst (Interface_Claim ?t (by_index i) f) = STATUS_SUCCESS \<longleftrightarrow> fold table_event es (interface_owner d) i \<in> {None, Some f}"
    using cl [of ?t f] tr assms(1,2) by simp
  ultimately show ?thesis using tr by blast
qed

end
