(* ===== verification/Drv_Device.thy ===== *)
theory Drv_Device
  imports Drv_Pipe
begin

text \<open>
  The device of the driver, \<open>sys/drv_device.c\<close>: configuration, reset, the exit from the working power
  state, and the files that are opened on it. Reading the registry, the symbolic link and the
  registration of callbacks are left out.
\<close>

section \<open>Configuration\<close>

definition zero_pipe :: pipe_context where
  "zero_pipe = \<lparr>Queue = None, TimeoutPolicy = 0, IsValid = False, PipePoliciesInitialized = False,
     PipeInformation = \<lparr>MaximumPacketSize = 0, EndpointAddress = 0, Interval = 0, PipeType = PipeTypeInvalid, MaximumTransferSize = 0\<rparr>,
     Pipe = 0, Policies = 0, IsQueueDirty = False, SimulParallelRequests = 0\<rparr>"

definition zero_interface :: interface_context where
  "zero_interface = \<lparr>Interface = 0, InterfaceIndex = 0, SettingIndex = 0, bInterfaceNumber = 0, bAlternateSetting = 0, PipeCount = 0,
     PipeContextByIndex = replicate 32 None, ClaimedByFileObject = 0\<rparr>"

text \<open>The interfaces of the configuration with their handles, and what selecting it answers.\<close>

record config_env = pipe_env +
  Interfaces :: "(addr \<times> usb_interface) list"
  AllocatePairs :: bool
  SelectConfigStatus :: NTSTATUS

text \<open>Interfaces from position \<open>i\<close>; a failure cuts the number of interfaces.\<close>

fun configure_interfaces :: "nat \<Rightarrow> (addr \<times> usb_interface) list \<Rightarrow> device_context \<Rightarrow> NTSTATUS \<times> device_context" where
  "configure_interfaces i [] d = (STATUS_SUCCESS, d)"
| "configure_interfaces i ((h, u) # us) d =
     (let (s, d1) = Interface_InitContext u i (upd_interface i (\<lambda>ic. ic\<lparr>InterfaceIndex := word_of_nat i, Interface := h\<rparr>) d) in
      if \<not> NT_SUCCESS s then (s, d1\<lparr>InterfaceContexts := take i (InterfaceContexts d1)\<rparr>)
      else configure_interfaces (i + 1) us (Interface_Start (pipe_env.truncate u) (InterfaceContexts d1 ! i) d1))"

text \<open>
  \<open>Device_Configure\<close>, on zeroed contexts. The array has 32 interfaces; one more is outside it. An array
  of settings is allocated unless there is exactly one interface.
\<close>

definition Device_Configure :: "config_env \<Rightarrow> device_context \<Rightarrow> (NTSTATUS \<times> device_context) option" where
  "Device_Configure e d =
     (let n = length (Interfaces e); d = d\<lparr>InterfaceContexts := replicate n zero_interface\<rparr> in
      if n \<noteq> 1 \<and> \<not> AllocatePairs e then Some (STATUS_INSUFFICIENT_RESOURCES, d)
      else if \<not> NT_SUCCESS (SelectConfigStatus e) then Some (SelectConfigStatus e, d)
      else
        let (s, d) = Pipe_InitDefaultContext (pipe_env.truncate e) d in
        if \<not> NT_SUCCESS s then Some (s, d)
        else if 32 < n then None
        else Some (configure_interfaces 0 (Interfaces e) d))"

text \<open>
  \<open>Device_OnPrepareHardware\<close>: creating the target of the device, fetching its configuration descriptor
  and configuring it, unless the target exists. The flag says that it does.
\<close>

definition Device_OnPrepareHardware ::
  "NTSTATUS \<Rightarrow> NTSTATUS \<Rightarrow> NTSTATUS \<Rightarrow> config_env \<Rightarrow> UCHAR \<Rightarrow> power_env \<Rightarrow> bool \<times> device_context \<Rightarrow> (NTSTATUS \<times> bool \<times> device_context) option" where
  "Device_OnPrepareHardware create info fetch e configuration pw st =
     (let (exists, d) = st in
      if exists then Some (STATUS_SUCCESS, True, d)
      else if \<not> NT_SUCCESS create then Some (create, False, d)
      else if \<not> NT_SUCCESS info then Some (info, True, d)
      else if \<not> NT_SUCCESS fetch then Some (fetch, True, d)
      else do {
        (s, d) \<leftarrow> Device_Configure e (d\<lparr>ConfigurationValue := Some configuration\<rparr>);
        Some (if \<not> NT_SUCCESS s then (s, True, d) else (STATUS_SUCCESS, True, snd (snd (Policy_InitPower pw d)))) })"

section \<open>Reset and power\<close>

text \<open>\<open>Device_Reset\<close>: all pipes are stopped and started around the reset of the port.\<close>

definition Device_Reset ::
  "('a pipe_env_scheme) \<Rightarrow> NTSTATUS \<Rightarrow> NTSTATUS \<Rightarrow> device_context \<Rightarrow> (NTSTATUS \<times> device_context) option" where
  "Device_Reset e connected reset d = do {
     d \<leftarrow> Pipe_StopAll d;
     Some (if NT_SUCCESS connected then reset else connected, Pipe_StartAll e True d) }"

text \<open>\<open>Device_OnD0Exit\<close> marks the pipes that are to be reset before the next transfer.\<close>

definition mark_for_resume :: "pipe_context \<Rightarrow> pipe_context" where
  "mark_for_resume pc =
     (if IsValid pc \<and> Pipe pc \<noteq> 0 \<and> policy_on ResetPipeOnResume (Policies pc) \<and> EndpointAddress (PipeInformation pc) AND 0xF \<noteq> 0
      then pc\<lparr>Queue := map_option (\<lambda>q. q\<lparr>ResetPipeForResume := True\<rparr>) (Queue pc)\<rparr> else pc)"

definition Device_OnD0Exit :: "device_context \<Rightarrow> device_context" where
  "Device_OnD0Exit d = fold (\<lambda>k. upd_pipe k mark_for_resume) [1..<32] d"

section \<open>Files\<close>

record file_context =
  PipeID :: UCHAR
  FilePipeType :: wdf_pipe_type

text \<open>The context of a new file is zeroed. A file with a name opens one pipe.\<close>

definition Device_OnFileCreate :: "device_context \<Rightarrow> string \<Rightarrow> NTSTATUS \<times> file_context" where
  "Device_OnFileCreate d name =
     (let f = \<lparr>PipeID = 0, FilePipeType = PipeTypeInvalid\<rparr> in
      if name = [] then (STATUS_SUCCESS, f)
      else case Pipe_GetContextFromName d name of
        None \<Rightarrow> (STATUS_INVALID_DEVICE_REQUEST, f)
      | Some k \<Rightarrow> (STATUS_SUCCESS, f\<lparr>PipeID := EndpointAddress (PipeInformation (PipeContextByID d ! k))\<rparr>))"

definition Device_OnFileClose :: "device_context \<Rightarrow> addr \<Rightarrow> device_context" where
  "Device_OnFileClose d file = snd (Interface_ReleaseAll d file)"

end
