(* ===== verification/Drv_Queue.thy ===== *)
theory Drv_Queue
  imports Drv_Device
begin

text \<open>
  How the driver takes requests: \<open>sys/drv_queue_default.c\<close>, \<open>sys/drv_queue_pipe.c\<close>,
  \<open>sys/drv_xfer_control.c\<close> and the preparation of requests in \<open>sys/drv_request.c\<close>. All requests come to
  the default queue, which answers them or forwards them to the queue of a pipe; the queue of a pipe
  starts a transfer.
\<close>

section \<open>Requests\<close>

text \<open>The control codes with the members of \<open>libusb_request\<close> that their handlers read.\<close>

record setup_pkt =
  S_DeviceToHost :: bool
  S_Type :: nat
  S_Recipient :: UINT
  S_Request :: UCHAR
  S_Value :: USHORT
  S_Index :: USHORT

datatype ioctl =
    Ioc_ISOCHRONOUS_READ UINT | Ioc_ISOCHRONOUS_WRITE UINT
  | Ioc_INTERRUPT_OR_BULK_READ UINT | Ioc_INTERRUPT_OR_BULK_WRITE UINT
  | Ioc_ISOEX_READ UCHAR | Ioc_ISOEX_WRITE UCHAR | Ioc_AUTOISOEX_READ UCHAR | Ioc_AUTOISOEX_WRITE UCHAR
  | Ioc_CONTROL_READ setup_pkt | Ioc_CONTROL_WRITE setup_pkt
  | Ioc_GET_DESCRIPTOR (descriptor_type: UINT) (descriptor_index: UINT) (descriptor_language: UINT) (descriptor_recipient: UINT)
  | Ioc_SET_DESCRIPTOR UINT UINT UINT UINT
  | Ioc_VENDOR_READ UINT UINT UINT UINT | Ioc_VENDOR_WRITE UINT UINT UINT UINT
  | Ioc_SET_FEATURE UINT UINT UINT | Ioc_CLEAR_FEATURE UINT UINT UINT
  | Ioc_GET_VERSION
  | Ioc_SET_CONFIGURATION UINT | Ioc_GET_CACHED_CONFIGURATION | Ioc_GET_CONFIGURATION
  | Ioc_RELEASE_ALL_INTERFACES
  | Ioc_K_CLAIM_INTERFACE interface_request | Ioc_K_RELEASE_INTERFACE interface_request
  | Ioc_K_SET_INTERFACE interface_request | Ioc_K_GET_INTERFACE interface_request
  | Ioc_CLAIM_INTERFACE interface_request | Ioc_RELEASE_INTERFACE interface_request
  | Ioc_SET_INTERFACE interface_request | Ioc_GET_INTERFACE interface_request
  | Ioc_GET_STATUS UINT UINT
  | Ioc_RESET_ENDPOINT UINT | Ioc_ABORT_ENDPOINT UINT | Ioc_RESET_DEVICE
  | Ioc_GET_PIPE_POLICY UINT UINT | Ioc_SET_PIPE_POLICY UINT UINT
  | Ioc_SET_POWER_POLICY UINT | Ioc_GET_POWER_POLICY UINT | Ioc_QUERY_DEVICE_INFORMATION ULONG
  | Ioc_FLUSH_PIPE UINT | Ioc_GET_CURRENTFRAME_NUMBER
  | Ioc_other

text \<open>What the framework answers; the device has one interface that a setting is selected on.\<close>

record queue_env = usb_interface +
  ForwardStatus :: NTSTATUS
  ResetPipeStatus :: NTSTATUS
  AbortPipeStatus :: NTSTATUS
  ConnectedStatus :: NTSTATUS
  ResetPortStatus :: NTSTATUS
  FrameNumber :: "NTSTATUS \<times> ULONG"
  StatusAnswer :: "UINT \<Rightarrow> USHORT \<Rightarrow> NTSTATUS \<times> UCHAR list"
  Power :: power_env

section \<open>Setup packets\<close>

abbreviation (input) USB_REQUEST_CLEAR_FEATURE :: UCHAR where "USB_REQUEST_CLEAR_FEATURE \<equiv> 1"
abbreviation (input) USB_REQUEST_SET_FEATURE :: UCHAR where "USB_REQUEST_SET_FEATURE \<equiv> 3"
abbreviation (input) USB_REQUEST_GET_DESCRIPTOR :: UCHAR where "USB_REQUEST_GET_DESCRIPTOR \<equiv> 6"
abbreviation (input) USB_REQUEST_SET_DESCRIPTOR :: UCHAR where "USB_REQUEST_SET_DESCRIPTOR \<equiv> 7"

definition FormatDescriptorRequestAsControlTransfer :: "UINT \<Rightarrow> UINT \<Rightarrow> UINT \<Rightarrow> UINT \<Rightarrow> bool \<Rightarrow> setup_pkt" where
  "FormatDescriptorRequestAsControlTransfer ty ix lang recipient set_it =
     \<lparr>S_DeviceToHost = \<not> set_it, S_Type = 0, S_Recipient = recipient,
      S_Request = (if set_it then USB_REQUEST_SET_DESCRIPTOR else USB_REQUEST_GET_DESCRIPTOR),
      S_Value = ucast ((push_bit 8 ty AND 0xFF00) OR (ix AND 0xFF)), S_Index = ucast lang\<rparr>"

definition FormatVendorRequestAsControlTransfer :: "UINT \<Rightarrow> UINT \<Rightarrow> UINT \<Rightarrow> UINT \<Rightarrow> bool \<Rightarrow> setup_pkt" where
  "FormatVendorRequestAsControlTransfer recipient request val ix write_it =
     \<lparr>S_DeviceToHost = \<not> write_it, S_Type = 2, S_Recipient = recipient, S_Request = ucast request, S_Value = ucast val, S_Index = ucast ix\<rparr>"

definition FormatFeatureRequestAsControlTransfer :: "UINT \<Rightarrow> UINT \<Rightarrow> UINT \<Rightarrow> bool \<Rightarrow> setup_pkt" where
  "FormatFeatureRequestAsControlTransfer recipient feature ix set_it =
     \<lparr>S_DeviceToHost = False, S_Type = 0, S_Recipient = recipient,
      S_Request = (if set_it then USB_REQUEST_SET_FEATURE else USB_REQUEST_CLEAR_FEATURE),
      S_Value = ucast (ucast feature :: USHORT), S_Index = ucast ix\<rparr>"

section \<open>Forwarding\<close>

text \<open>
  \<open>mRequest_InitAndForwardToQueue\<close>: a dirty queue is refreshed, then the request gets the policies and
  the timeout of the pipe and goes to its queue.
\<close>

definition mRequest_InitAndForwardToQueue ::
  "('a queue_env_scheme) \<Rightarrow> device_context \<Rightarrow> nat \<Rightarrow> request_type \<Rightarrow> request_type \<Rightarrow> nat \<Rightarrow> UINT \<Rightarrow> UCHAR
    \<Rightarrow> (NTSTATUS + request_context) \<times> device_context" where
  "mRequest_InitAndForwardToQueue e d request ty actual len timeout p =
     (let k = GetPipeContextByID p; pc = PipeContextByID d ! k in
      if \<not> IsValid pc \<or> Queue pc = None then (Inl STATUS_NOT_FOUND, d)
      else
        let (s, pc) = (if IsQueueDirty pc then Pipe_RefreshQueue e pc else (STATUS_SUCCESS, pc));
            d = upd_pipe k (\<lambda>_. pc) d
        in if \<not> NT_SUCCESS s then (Inl s, d)
           else
             let r = \<lparr>Req_Length = len, ActualRequestType = actual, RequestType = ty, HasQueueContext = True,
                      Req_Policies = Policies pc, Req_Timeout = (if timeout \<noteq> 0 then timeout else TimeoutPolicy pc)\<rparr>
             in if \<not> NT_SUCCESS (ForwardStatus e) then (Inl (ForwardStatus e), d)
                else (Inr r, upd_pipe k (Queue_update (map_option (\<lambda>q. q\<lparr>Requests := Requests q @ [request]\<rparr>))) d))"

section \<open>The default queue\<close>

text \<open>
  A request is forwarded to the queue of a pipe with a context, and with a setup packet for the control
  pipe, or completed with a status, a length and the contents of its output buffer. Interface requests
  answer with the interface; the buffer for it is as long as a \<open>libusb_request\<close>.
\<close>

datatype answer =
    Forwarded nat request_context "setup_pkt option"
  | Answered NTSTATUS nat "UCHAR list"
  | AnsweredInterface NTSTATUS interface_request
  | AnsweredVersion

text \<open>The size of a \<open>libusb_request\<close> of a 64 bit driver.\<close>

definition sizeof_request :: nat where "sizeof_request = 24"

text \<open>Retrieving an output buffer fails when it is shorter than asked for.\<close>

abbreviation (input) STATUS_BUFFER_TOO_SMALL :: NTSTATUS where "STATUS_BUFFER_TOO_SMALL \<equiv> 0xC0000023"

definition with_output :: "nat \<Rightarrow> UCHAR list \<Rightarrow> device_context \<Rightarrow> (answer \<times> device_context) option \<Rightarrow> (answer \<times> device_context) option" where
  "with_output n out d x = (if length out < n then Some (Answered STATUS_BUFFER_TOO_SMALL 0 out, d) else x)"

definition forward_to ::
  "queue_env \<Rightarrow> device_context \<Rightarrow> nat \<Rightarrow> request_type \<Rightarrow> nat \<Rightarrow> UINT \<Rightarrow> UCHAR \<Rightarrow> setup_pkt option \<Rightarrow> UCHAR list \<Rightarrow> (answer \<times> device_context) option" where
  "forward_to e d request ty len timeout p su out =
     (case mRequest_InitAndForwardToQueue e d request ty RequestTypeDeviceControl len timeout p of
        (Inl s, d) \<Rightarrow> Some (Answered s 0 out, d)
      | (Inr r, d) \<Rightarrow> Some (Forwarded (GetPipeContextByID p) r su, d))"

text \<open>\<open>SetKInterfaceOutput\<close>: the interface as it is after the operation.\<close>

definition SetKInterfaceOutput :: "interface_context \<Rightarrow> interface_request \<Rightarrow> interface_request" where
  "SetKInterfaceOutput ic r = r\<lparr>interface_number := ucast (bInterfaceNumber ic), interface_index := int (unat (InterfaceIndex ic)),
     altsetting_number := ucast (bAlternateSetting ic), altsetting_index := int (unat (SettingIndex ic))\<rparr>"

definition interface_answer ::
  "UCHAR list \<Rightarrow> interface_request \<Rightarrow> NTSTATUS \<times> device_context \<Rightarrow> (answer \<times> device_context) option" where
  "interface_answer out r x =
     (let (s, d) = x in
      if NT_SUCCESS s then (case GetInterfaceContextFromRequest d r of
          Inr i \<Rightarrow> Some (AnsweredInterface s (SetKInterfaceOutput (InterfaceContexts d ! i) r), d)
        | Inl _ \<Rightarrow> Some (Answered s 0 out, d))
      else Some (Answered s 0 out, d))"

definition by_number :: "interface_request \<Rightarrow> interface_request" where
  "by_number r = r\<lparr>intf_use_index := False, altf_use_index := False\<rparr>"

definition flush_pipe :: "('a pipe_env_scheme) \<Rightarrow> pipe_context \<Rightarrow> NTSTATUS \<times> pipe_context" where
  "flush_pipe e pc =
     (if \<not> IsValid pc \<or> Pipe pc = 0 then (STATUS_INVALID_PARAMETER, pc)
      else
        let (s, pc) = Pipe_Stop True pc in
        if \<not> NT_SUCCESS s then (s, pc)
        else
          let pc = (if EndpointAddress (PipeInformation pc) AND 0xF \<noteq> 0
                    then pc\<lparr>Queue := map_option (\<lambda>q. q\<lparr>OverOfs := \<lparr>BufferOffset = 0, BufferLength = 0\<rparr>\<rparr>) (Queue pc)\<rparr> else pc)
          in Pipe_Start e True pc)"

text \<open>The codes that the default queue forwards, in the order of the source.\<close>

definition forwarded_ioctl ::
  "queue_env \<Rightarrow> device_context \<Rightarrow> nat \<Rightarrow> UINT \<Rightarrow> ioctl \<Rightarrow> nat \<Rightarrow> UCHAR list \<Rightarrow> (answer \<times> device_context) option" where
  "forwarded_ioctl e d request timeout c inlen out =
     (let fwd = (\<lambda>ty len p su. forward_to e d request ty len timeout p su out) in
      case c of
        Ioc_ISOCHRONOUS_READ ep \<Rightarrow> fwd RequestTypeRead (length out) (ucast ep) None
      | Ioc_INTERRUPT_OR_BULK_READ ep \<Rightarrow> fwd RequestTypeRead (length out) (ucast ep) None
      | Ioc_ISOEX_READ p \<Rightarrow> fwd RequestTypeRead (length out) p None
      | Ioc_AUTOISOEX_READ p \<Rightarrow> fwd RequestTypeRead (length out) p None
      | Ioc_ISOCHRONOUS_WRITE ep \<Rightarrow> fwd RequestTypeWrite (length out) (ucast ep) None
      | Ioc_INTERRUPT_OR_BULK_WRITE ep \<Rightarrow> fwd RequestTypeWrite (length out) (ucast ep) None
      | Ioc_ISOEX_WRITE p \<Rightarrow> fwd RequestTypeWrite (length out) p None
      | Ioc_AUTOISOEX_WRITE p \<Rightarrow> fwd RequestTypeWrite (length out) p None
      | Ioc_CONTROL_WRITE su \<Rightarrow> fwd RequestTypeWrite (length out) 0 (Some su)
      | Ioc_CONTROL_READ su \<Rightarrow> fwd RequestTypeRead (length out) 0 (Some su)
      | Ioc_GET_DESCRIPTOR ty ix lang rc \<Rightarrow> fwd RequestTypeRead (length out) 0 (Some (FormatDescriptorRequestAsControlTransfer ty ix lang rc False))
      | Ioc_VENDOR_READ rc rq val ix \<Rightarrow> fwd RequestTypeRead (length out) 0 (Some (FormatVendorRequestAsControlTransfer rc rq val ix False))
      | Ioc_SET_DESCRIPTOR ty ix lang rc \<Rightarrow> fwd RequestTypeWrite inlen 0 (Some (FormatDescriptorRequestAsControlTransfer ty ix lang rc True))
      | Ioc_SET_FEATURE rc ft ix \<Rightarrow> fwd RequestTypeWrite inlen 0 (Some (FormatFeatureRequestAsControlTransfer rc ft ix True))
      | Ioc_CLEAR_FEATURE rc ft ix \<Rightarrow> fwd RequestTypeWrite inlen 0 (Some (FormatFeatureRequestAsControlTransfer rc ft ix False))
      | Ioc_VENDOR_WRITE rc rq val ix \<Rightarrow> fwd RequestTypeWrite inlen 0 (Some (FormatVendorRequestAsControlTransfer rc rq val ix True))
      | _ \<Rightarrow> None)"

text \<open>The interface codes of both kinds; the old ones go by number.\<close>

definition interface_ioctl :: "queue_env \<Rightarrow> device_context \<Rightarrow> addr \<Rightarrow> ioctl \<Rightarrow> UCHAR list \<Rightarrow> (answer \<times> device_context) option" where
  "interface_ioctl e d file c out =
     (let plain = (\<lambda>(s, d). Some (Answered s 0 out, d)) in
      case c of
        Ioc_RELEASE_ALL_INTERFACES \<Rightarrow> plain (Interface_ReleaseAll d file)
      | Ioc_K_CLAIM_INTERFACE r \<Rightarrow> with_output sizeof_request out d (interface_answer out r (Interface_Claim d r file))
      | Ioc_K_RELEASE_INTERFACE r \<Rightarrow> with_output sizeof_request out d (interface_answer out r (Interface_Release d r file))
      | Ioc_K_SET_INTERFACE r \<Rightarrow> with_output sizeof_request out d (interface_answer out r (Interface_SetAltSetting (usb_interface.truncate e) d r))
      | Ioc_K_GET_INTERFACE r \<Rightarrow>
          with_output sizeof_request out d (interface_answer out r (case Interface_GetAltSetting d r of Inl s \<Rightarrow> (s, d) | Inr _ \<Rightarrow> (STATUS_SUCCESS, d)))
      | Ioc_CLAIM_INTERFACE r \<Rightarrow> plain (Interface_Claim d (by_number r) file)
      | Ioc_RELEASE_INTERFACE r \<Rightarrow> plain (Interface_Release d (by_number r) file)
      | Ioc_SET_INTERFACE r \<Rightarrow> plain (Interface_SetAltSetting (usb_interface.truncate e) d (by_number r))
      | Ioc_GET_INTERFACE r \<Rightarrow> with_output 1 out d (case Interface_GetAltSetting d (by_number r) of
            Inl s \<Rightarrow> Some (Answered s 0 out, d)
          | Inr a \<Rightarrow> Some (Answered STATUS_SUCCESS 1 (a # drop 1 out), d))
      | _ \<Rightarrow> None)"

text \<open>Policies, pipes and the rest. Values are taken from the input data behind the request.\<close>

definition policy_ioctl :: "queue_env \<Rightarrow> device_context \<Rightarrow> ioctl \<Rightarrow> UCHAR list \<Rightarrow> UCHAR list \<Rightarrow> (answer \<times> device_context) option" where
  "policy_ioctl e d c data out =
     (let value_out = (\<lambda>x. do { (s, b) \<leftarrow> x; Some (Answered s (if NT_SUCCESS s then length out else 0) (case b of None \<Rightarrow> out | Some b \<Rightarrow> b), d) });
          len = (word_of_nat (length out) :: ULONG)
      in case c of
        Ioc_GET_PIPE_POLICY p t \<Rightarrow> with_output 1 out d (value_out (Policy_GetPipe d (ucast p) t (Some out) (Some len)))
      | Ioc_SET_PIPE_POLICY p t \<Rightarrow>
          (let pc = PipeContextByID d ! GetPipeContextByID (ucast p) in
           if \<not> IsValid pc \<or> Queue pc = None then Some (Answered STATUS_INVALID_PARAMETER 0 out, d)
           else do {
             (s, d) \<leftarrow> Policy_SetPipe d (ucast p) t data (word_of_nat (length data));
             Some (Answered s 0 out, d) })
      | Ioc_SET_POWER_POLICY t \<Rightarrow> do {
          (s, _, d) \<leftarrow> Policy_SetPower (Power e) d t data (word_of_nat (length data));
          Some (Answered s 0 out, d) }
      | Ioc_GET_POWER_POLICY t \<Rightarrow> with_output 1 out d (value_out (Policy_GetPower d t (Some out) len))
      | Ioc_QUERY_DEVICE_INFORMATION t \<Rightarrow> with_output 1 out d (value_out (Policy_GetDevice d t (Some out) len))
      | _ \<Rightarrow> None)"

definition other_ioctl :: "queue_env \<Rightarrow> device_context \<Rightarrow> ioctl \<Rightarrow> UCHAR list \<Rightarrow> (answer \<times> device_context) option" where
  "other_ioctl e d c out =
     (case c of
        Ioc_GET_VERSION \<Rightarrow> with_output sizeof_request out d (Some (AnsweredVersion, d))
      | Ioc_SET_CONFIGURATION n \<Rightarrow>
          Some (Answered (case ConfigurationValue d of
              Some v \<Rightarrow> if ucast v = n \<or> n = - 1 then STATUS_SUCCESS else STATUS_NOT_IMPLEMENTED
            | None \<Rightarrow> STATUS_NOT_IMPLEMENTED) 0 out, d)
      | Ioc_GET_STATUS rc ix \<Rightarrow>
          if length out < 2 then Some (Answered STATUS_INVALID_PARAMETER 0 out, d)
          else let (s, bs) = StatusAnswer e rc (ucast ix) in Some (Answered s (length bs) (bs @ drop (length bs) out), d)
      | Ioc_RESET_ENDPOINT ep \<Rightarrow> (let (s, d) = Pipe_Reset (ResetPipeStatus e) d (ucast ep) in Some (Answered s 0 out, d))
      | Ioc_ABORT_ENDPOINT ep \<Rightarrow> Some (Answered (Pipe_Abort (AbortPipeStatus e) d (ucast ep)) 0 out, d)
      | Ioc_RESET_DEVICE \<Rightarrow> do { (s, d) \<leftarrow> Device_Reset e (ConnectedStatus e) (ResetPortStatus e) d; Some (Answered s 0 out, d) }
      | Ioc_FLUSH_PIPE ep \<Rightarrow>
          (let k = GetPipeContextByID (ucast ep); (s, pc) = flush_pipe e (PipeContextByID d ! k)
           in Some (Answered s 0 out, upd_pipe k (\<lambda>_. pc) d))
      | Ioc_GET_CURRENTFRAME_NUMBER \<Rightarrow> with_output 4 out d (do {
          b \<leftarrow> le_write 4 (snd (FrameNumber e)) out;
          Some (if NT_SUCCESS (fst (FrameNumber e)) then Answered (fst (FrameNumber e)) 4 b else Answered (fst (FrameNumber e)) 0 out, d) })
      | _ \<Rightarrow> if c = Ioc_GET_CONFIGURATION \<or> c = Ioc_GET_CACHED_CONFIGURATION
             then with_output 1 out d (Some (Answered STATUS_SUCCESS 1 ((case ConfigurationValue d of Some v \<Rightarrow> v | None \<Rightarrow> 0) # drop 1 out), d))
             else Some (Answered STATUS_INVALID_DEVICE_REQUEST 0 out, d))"

fun is_forwarded :: "ioctl \<Rightarrow> bool" where
  "is_forwarded (Ioc_ISOCHRONOUS_READ _) = True" | "is_forwarded (Ioc_ISOCHRONOUS_WRITE _) = True"
| "is_forwarded (Ioc_INTERRUPT_OR_BULK_READ _) = True" | "is_forwarded (Ioc_INTERRUPT_OR_BULK_WRITE _) = True"
| "is_forwarded (Ioc_ISOEX_READ _) = True" | "is_forwarded (Ioc_ISOEX_WRITE _) = True"
| "is_forwarded (Ioc_AUTOISOEX_READ _) = True" | "is_forwarded (Ioc_AUTOISOEX_WRITE _) = True"
| "is_forwarded (Ioc_CONTROL_READ _) = True" | "is_forwarded (Ioc_CONTROL_WRITE _) = True"
| "is_forwarded (Ioc_GET_DESCRIPTOR _ _ _ _) = True" | "is_forwarded (Ioc_SET_DESCRIPTOR _ _ _ _) = True"
| "is_forwarded (Ioc_VENDOR_READ _ _ _ _) = True" | "is_forwarded (Ioc_VENDOR_WRITE _ _ _ _) = True"
| "is_forwarded (Ioc_SET_FEATURE _ _ _) = True" | "is_forwarded (Ioc_CLEAR_FEATURE _ _ _) = True"
| "is_forwarded _ = False"

fun is_interface :: "ioctl \<Rightarrow> bool" where
  "is_interface Ioc_RELEASE_ALL_INTERFACES = True"
| "is_interface (Ioc_K_CLAIM_INTERFACE _) = True" | "is_interface (Ioc_K_RELEASE_INTERFACE _) = True"
| "is_interface (Ioc_K_SET_INTERFACE _) = True" | "is_interface (Ioc_K_GET_INTERFACE _) = True"
| "is_interface (Ioc_CLAIM_INTERFACE _) = True" | "is_interface (Ioc_RELEASE_INTERFACE _) = True"
| "is_interface (Ioc_SET_INTERFACE _) = True" | "is_interface (Ioc_GET_INTERFACE _) = True"
| "is_interface _ = False"

fun is_policy :: "ioctl \<Rightarrow> bool" where
  "is_policy (Ioc_GET_PIPE_POLICY _ _) = True" | "is_policy (Ioc_SET_PIPE_POLICY _ _) = True"
| "is_policy (Ioc_SET_POWER_POLICY _) = True" | "is_policy (Ioc_GET_POWER_POLICY _) = True"
| "is_policy (Ioc_QUERY_DEVICE_INFORMATION _) = True"
| "is_policy _ = False"

definition DefaultQueue_OnIoControl ::
  "queue_env \<Rightarrow> device_context \<Rightarrow> addr \<Rightarrow> nat \<Rightarrow> UINT \<Rightarrow> ioctl \<Rightarrow> UCHAR list \<Rightarrow> UCHAR list \<Rightarrow> (answer \<times> device_context) option" where
  "DefaultQueue_OnIoControl e d file request timeout c data out =
     (if is_forwarded c then forwarded_ioctl e d request timeout c (sizeof_request + length data) out
      else if is_interface c then interface_ioctl e d file c out
      else if is_policy c then policy_ioctl e d c data out
      else other_ioctl e d c out)"

text \<open>Reads and writes of a file that was opened on a pipe.\<close>

definition file_transfer ::
  "bool \<Rightarrow> queue_env \<Rightarrow> device_context \<Rightarrow> file_context \<Rightarrow> nat \<Rightarrow> nat \<Rightarrow> (NTSTATUS + request_context) \<times> device_context" where
  "file_transfer is_read e d f request len =
     (if PipeID f AND 0xF = 0 \<or> endpoint_in (PipeID f) \<noteq> is_read
         \<or> FilePipeType f \<notin> {PipeTypeIsochronous, PipeTypeBulk, PipeTypeInterrupt}
      then (Inl STATUS_INVALID_PARAMETER, d)
      else
        let ty = (if is_read then RequestTypeRead else RequestTypeWrite)
        in mRequest_InitAndForwardToQueue e d request ty ty len 0 (PipeID f))"

definition DefaultQueue_OnRead ::
  "queue_env \<Rightarrow> device_context \<Rightarrow> file_context \<Rightarrow> nat \<Rightarrow> nat \<Rightarrow> (NTSTATUS + request_context) \<times> device_context" where
  "DefaultQueue_OnRead = file_transfer True"

definition DefaultQueue_OnWrite ::
  "queue_env \<Rightarrow> device_context \<Rightarrow> file_context \<Rightarrow> nat \<Rightarrow> nat \<Rightarrow> (NTSTATUS + request_context) \<times> device_context" where
  "DefaultQueue_OnWrite = file_transfer False"

section \<open>The queue of a pipe\<close>

text \<open>What a queue does with a request: start a transfer, which completes it, or complete it.\<close>

datatype transfer =
    StartIsoRead | StartIsoWrite | StartIsoEx | StartReadBulk | StartReadBulkRaw | StartWriteBulk | StartWriteBulkRaw | StartCtrl
  | CompleteWith NTSTATUS

abbreviation raw :: "request_context \<Rightarrow> bool" where "raw r \<equiv> policy_on RawIO (Req_Policies r)"

definition bulk_transfer :: "request_context \<Rightarrow> queue_context \<Rightarrow> transfer" where
  "bulk_transfer r q =
     (if endpoint_in (EndpointAddress (Info q)) then (if raw r then StartReadBulkRaw else StartReadBulk)
      else (if raw r then StartWriteBulkRaw else StartWriteBulk))"

text \<open>\<open>PipeQueue_OnIoControl\<close>; an unknown type of pipe falls through to the extended transfers.\<close>

definition iso_ex_transfer_of :: "queue_context \<Rightarrow> transfer list" where
  "iso_ex_transfer_of q =
     [if PipeType (Info q) = PipeTypeIsochronous then StartIsoEx else CompleteWith STATUS_INVALID_PARAMETER]"

definition PipeQueue_OnIoControl :: "ioctl \<Rightarrow> request_context option \<Rightarrow> queue_context \<Rightarrow> transfer list" where
  "PipeQueue_OnIoControl c rc q =
     (if \<not> NT_SUCCESS (VALIDATE_REQUEST_CONTEXT rc) then [CompleteWith (VALIDATE_REQUEST_CONTEXT rc)]
      else
        let r = the rc;
            rw = (if PipeType (Info q) = PipeTypeIsochronous
                  then [if endpoint_in (EndpointAddress (Info q)) then StartIsoRead else StartIsoWrite]
                  else if PipeType (Info q) \<in> {PipeTypeBulk, PipeTypeInterrupt} then [bulk_transfer r q]
                  else iso_ex_transfer_of q)
        in case c of
          Ioc_ISOCHRONOUS_READ _ \<Rightarrow> rw | Ioc_ISOCHRONOUS_WRITE _ \<Rightarrow> rw
        | Ioc_INTERRUPT_OR_BULK_WRITE _ \<Rightarrow> rw | Ioc_INTERRUPT_OR_BULK_READ _ \<Rightarrow> rw
        | Ioc_ISOEX_READ _ \<Rightarrow> iso_ex_transfer_of q | Ioc_ISOEX_WRITE _ \<Rightarrow> iso_ex_transfer_of q
        | Ioc_SET_FEATURE _ _ _ \<Rightarrow> [StartCtrl] | Ioc_CLEAR_FEATURE _ _ _ \<Rightarrow> [StartCtrl]
        | Ioc_GET_DESCRIPTOR _ _ _ _ \<Rightarrow> [StartCtrl] | Ioc_SET_DESCRIPTOR _ _ _ _ \<Rightarrow> [StartCtrl]
        | Ioc_VENDOR_WRITE _ _ _ _ \<Rightarrow> [StartCtrl] | Ioc_VENDOR_READ _ _ _ _ \<Rightarrow> [StartCtrl]
        | Ioc_CONTROL_READ _ \<Rightarrow> [StartCtrl] | Ioc_CONTROL_WRITE _ \<Rightarrow> [StartCtrl]
        | _ \<Rightarrow> [CompleteWith STATUS_INVALID_DEVICE_REQUEST])"

definition PipeQueue_OnRead :: "request_context option \<Rightarrow> queue_context \<Rightarrow> transfer list" where
  "PipeQueue_OnRead rc q =
     (let s = VALIDATE_REQUEST_CONTEXT rc; dir_in = endpoint_in (EndpointAddress (Info q)) in
      if \<not> NT_SUCCESS s then [CompleteWith s]
      else if PipeHandle q = 0 then [CompleteWith STATUS_INVALID_HANDLE]
      else if PipeType (Info q) = PipeTypeIsochronous \<and> dir_in then [StartIsoRead]
      else if PipeType (Info q) \<in> {PipeTypeBulk, PipeTypeInterrupt} \<and> dir_in then [if raw (the rc) then StartReadBulkRaw else StartReadBulk]
      else [CompleteWith STATUS_INVALID_DEVICE_REQUEST])"

text \<open>\<open>PipeQueue_OnWrite\<close>; behind the transfer of a bulk or interrupt pipe the handler goes on.\<close>

definition PipeQueue_OnWrite :: "request_context option \<Rightarrow> queue_context \<Rightarrow> transfer list" where
  "PipeQueue_OnWrite rc q =
     (let s = VALIDATE_REQUEST_CONTEXT rc; dir_in = endpoint_in (EndpointAddress (Info q)) in
      if \<not> NT_SUCCESS s then [CompleteWith s]
      else if PipeHandle q = 0 then [CompleteWith STATUS_INVALID_HANDLE]
      else if PipeType (Info q) = PipeTypeIsochronous \<and> \<not> dir_in then [StartIsoWrite]
      else if PipeType (Info q) \<in> {PipeTypeBulk, PipeTypeInterrupt} \<and> \<not> dir_in
      then [if raw (the rc) then StartWriteBulkRaw else StartWriteBulk, CompleteWith STATUS_INVALID_DEVICE_REQUEST]
      else [CompleteWith STATUS_INVALID_DEVICE_REQUEST])"

text \<open>A request of a power-managed queue that is stopped is acknowledged or cancelled.\<close>

datatype stop_action = StopNothing | StopAcknowledge | CancelSentRequest

definition Queue_OnStop :: "bool \<Rightarrow> bool \<Rightarrow> bool \<Rightarrow> stop_action" where
  "Queue_OnStop cancelable suspend purge =
     (if cancelable then StopNothing else if suspend then StopAcknowledge else if purge then CancelSentRequest else StopNothing)"

definition Queue_OnResume :: "xfer_env \<Rightarrow> request_context \<Rightarrow> queue_context \<Rightarrow> queue_context" where
  "Queue_OnResume e r q = mXfer_HandlePipeResetScenarios e r q"

section \<open>Control transfers\<close>

text \<open>
  The memory of a control transfer: a range of the input buffer, the output buffer, or none. The
  descriptors of the device and of its configuration that the driver has read are answered by the driver.
\<close>

datatype ctrl_memory = NoBuffer | InputRange nat nat | OutputBuffer

datatype ctrl_outcome = CtrlSent setup_pkt ctrl_memory | CtrlCompleted NTSTATUS nat "UCHAR list"

abbreviation (input) USB_DESCRIPTOR_TYPE_DEVICE :: USHORT where "USB_DESCRIPTOR_TYPE_DEVICE \<equiv> 1"
abbreviation (input) USB_DESCRIPTOR_TYPE_CONFIGURATION :: USHORT where "USB_DESCRIPTOR_TYPE_CONFIGURATION \<equiv> 2"

fun is_buffered_write :: "ioctl \<Rightarrow> bool" where
  "is_buffered_write (Ioc_SET_DESCRIPTOR _ _ _ _) = True" | "is_buffered_write (Ioc_SET_FEATURE _ _ _) = True"
| "is_buffered_write (Ioc_CLEAR_FEATURE _ _ _) = True" | "is_buffered_write (Ioc_VENDOR_WRITE _ _ _ _) = True"
| "is_buffered_write _ = False"

fun is_get_descriptor :: "ioctl \<Rightarrow> bool" where
  "is_get_descriptor (Ioc_GET_DESCRIPTOR _ _ _ _) = True" | "is_get_descriptor _ = False"

text \<open>A descriptor that is answered from memory, cut to the buffer, which has at least two bytes.\<close>

definition from_cache :: "UCHAR list \<Rightarrow> UCHAR list \<Rightarrow> ctrl_outcome" where
  "from_cache desc out =
     (if length out < 2 then CtrlCompleted STATUS_BUFFER_TOO_SMALL 0 out
      else let n = min (length desc) (length out) in CtrlCompleted STATUS_SUCCESS n (take n desc @ drop n out))"

text \<open>The memory of the transfer, or the status with which it fails; an empty output buffer is no buffer.\<close>

definition ctrl_memory_of :: "NTSTATUS \<Rightarrow> ioctl \<Rightarrow> nat \<Rightarrow> UCHAR list \<Rightarrow> NTSTATUS + ctrl_memory" where
  "ctrl_memory_of retrieve c len out =
     (if is_buffered_write c then
        (if \<not> NT_SUCCESS retrieve then Inl retrieve
         else if len < sizeof_request then Inl STATUS_BUFFER_TOO_SMALL
         else Inr (if len = sizeof_request then NoBuffer else InputRange sizeof_request (len - sizeof_request)))
      else if out = [] then Inr NoBuffer
      else if \<not> NT_SUCCESS retrieve \<and> retrieve \<noteq> STATUS_BUFFER_TOO_SMALL then Inl retrieve
      else if retrieve = STATUS_BUFFER_TOO_SMALL then Inr NoBuffer
      else Inr OutputBuffer)"

definition XferCtrl ::
  "xfer_env \<Rightarrow> UCHAR list \<Rightarrow> UCHAR list \<Rightarrow> ioctl \<Rightarrow> setup_pkt \<Rightarrow> request_context \<Rightarrow> UCHAR list \<Rightarrow> ctrl_outcome" where
  "XferCtrl e device_desc config_desc c su r out =
     (let ty = drop_bit 8 (S_Value su); standard = S_DeviceToHost su \<and> S_Type su = 0 \<and> S_Request su = USB_REQUEST_GET_DESCRIPTOR;
          cached = standard \<and> is_get_descriptor c;
          transfer = (case ctrl_memory_of (RetrieveMemoryStatus e) c (Req_Length r) out of
              Inl s \<Rightarrow> CtrlCompleted s 0 out
            | Inr m \<Rightarrow>
                if \<not> NT_SUCCESS (FormatStatus e) then CtrlCompleted (FormatStatus e) 0 out
                else if \<not> NT_SUCCESS (SetRequestTimeout e r) then CtrlCompleted (SetRequestTimeout e r) 0 out
                else if \<not> NT_SUCCESS (SendStatus e) then CtrlCompleted (SendStatus e) 0 out
                else CtrlSent su m)
      in if cached \<and> ty = USB_DESCRIPTOR_TYPE_DEVICE \<and> device_desc \<noteq> [] then from_cache device_desc out
         else if cached \<and> ty = USB_DESCRIPTOR_TYPE_CONFIGURATION \<and> S_Value su AND 0xFF \<noteq> 0 then CtrlCompleted STATUS_NO_MORE_ENTRIES 0 out
         else if cached \<and> ty = USB_DESCRIPTOR_TYPE_CONFIGURATION \<and> config_desc \<noteq> [] then from_cache config_desc out
         else transfer)"

definition XferCtrlComplete :: "NTSTATUS \<Rightarrow> nat \<Rightarrow> NTSTATUS \<times> nat" where
  "XferCtrlComplete s len = (if NT_SUCCESS s then (s, len) else (s, 0))"

section \<open>Preparation of requests\<close>

text \<open>
  \<open>Request_PreIoInitialize\<close>: the input buffer of a control code holds at least a \<open>libusb_request\<close>, and
  the context of an extended isochronous transfer is locked; then the request is queued. The result is
  the length of the input buffer that its context gets.
\<close>

fun is_iso_ex :: "ioctl \<Rightarrow> bool" where
  "is_iso_ex (Ioc_ISOEX_READ _) = True" | "is_iso_ex (Ioc_ISOEX_WRITE _) = True" | "is_iso_ex _ = False"

definition Request_PreIoInitialize :: "NTSTATUS \<Rightarrow> NTSTATUS \<Rightarrow> ioctl option \<Rightarrow> nat \<Rightarrow> NTSTATUS + nat" where
  "Request_PreIoInitialize lock enqueue c inlen =
     (let s = (case c of None \<Rightarrow> STATUS_SUCCESS
               | Some c \<Rightarrow> if inlen < sizeof_request then STATUS_BUFFER_TOO_SMALL
                          else if is_iso_ex c then lock else STATUS_SUCCESS)
      in if \<not> NT_SUCCESS s then Inl s
         else if \<not> NT_SUCCESS enqueue then Inl enqueue
         else Inr (if c = None then 0 else inlen))"

text \<open>The timeout of a synchronous request to the device, an \<open>INT\<close> in milliseconds, at most 5000.\<close>

definition request_timeout :: "int \<Rightarrow> int" where
  "request_timeout t = (if t > 5000 \<or> t = 0 then 5000 else t)"

end
