(* ===== verification/Drv_Invariant.thy ===== *)
theory Drv_Invariant
  imports Drv_Queue
begin

text \<open>
  What holds of the driver at all times. The invariant says that a valid pipe has a queue, that the queue
  is that of the pipe as it is configured now, and that each pipe belongs to one interface. It is
  established by the configuration and kept by every operation, so it holds in every reachable state. Its
  use is that a transfer which keeps its state in the queue runs only where requests come one at a time.
\<close>

section \<open>Pipes\<close>

definition parallel_pipe :: "pipe_context \<Rightarrow> bool" where
  "parallel_pipe pc \<longleftrightarrow> Pipe pc \<noteq> 0 \<and> (PipeType (PipeInformation pc) = PipeTypeIsochronous \<or> policy_on RawIO (Policies pc))"

text \<open>A bulk or interrupt pipe whose transfers hold at least one packet.\<close>

definition buffered_pipe :: "wdf_pipe_information \<Rightarrow> bool" where
  "buffered_pipe i \<longleftrightarrow> PipeType i \<in> {PipeTypeBulk, PipeTypeInterrupt} \<and> MaximumPacketSize i \<noteq> 0 \<and> MaximumPacketSize i \<le> MaximumTransferSize i"

definition queue_fits :: "pipe_context \<Rightarrow> queue_context \<Rightarrow> bool" where
  "queue_fits pc q \<longleftrightarrow> PipeHandle q = Pipe pc \<and> Info q = PipeInformation pc
     \<and> (IsQueueDirty pc \<or> (DispatchType (Config q) = DispatchParallel \<longleftrightarrow> parallel_pipe pc))
     \<and> (buffered_pipe (PipeInformation pc) \<longrightarrow> queue_ok q)"

definition pipe_ok :: "pipe_context \<Rightarrow> bool" where
  "pipe_ok pc \<longleftrightarrow> (IsValid pc \<longrightarrow> Queue pc \<noteq> None) \<and> (\<forall>q. Queue pc = Some q \<longrightarrow> queue_fits pc q)"

text \<open>An operation on a pipe: it keeps its description, and it does not make a queue out of nothing.\<close>

definition keeps_pipe :: "pipe_context \<Rightarrow> pipe_context \<Rightarrow> bool" where
  "keeps_pipe pc pc' \<longleftrightarrow> (pipe_ok pc \<longrightarrow> pipe_ok pc' \<and> PipeInformation pc' = PipeInformation pc \<and> (Queue pc = None \<longrightarrow> Queue pc' = None))"

lemma keeps_pipe_refl [simp]: "keeps_pipe pc pc"
  by (simp add: keeps_pipe_def)

lemma keeps_pipe_trans: "keeps_pipe a b \<Longrightarrow> keeps_pipe b c \<Longrightarrow> keeps_pipe a c"
  by (auto simp: keeps_pipe_def)

lemma dispatch_config: "DispatchType (Pipe_InitQueueConfig e pc) = DispatchParallel \<longleftrightarrow> parallel_pipe pc"
  by (simp add: Pipe_InitQueueConfig_def parallel_pipe_def Let_def)

lemma queue_fits_new:
  assumes "Pipe_InitQueue e pc = (s, q)" "NT_SUCCESS s"
  shows "\<exists>q'. q = Some q' \<and> queue_fits pc q'"
proof -
  let ?i = "PipeInformation pc" and ?new = "new_queue (Pipe_InitQueueConfig e pc) pc"
  have i: "Info ?new = ?i" "PipeHandle ?new = Pipe pc" "Config ?new = Pipe_InitQueueConfig e pc"
    "OverOfs ?new = \<lparr>BufferOffset = 0, BufferLength = 0\<rparr>" by (simp_all add: new_queue_def)
  show ?thesis
  proof (cases "MaximumPacketSize ?i \<noteq> 0 \<and> PipeType ?i \<in> {PipeTypeBulk, PipeTypeInterrupt}")
    case True
    then have q: "q = Some (?new\<lparr>OverBuf := Some (map (PoolByte e) [0..<unat (MaximumPacketSize ?i)])\<rparr>)"
      using assms by (auto simp: Pipe_InitQueue_def Let_def i split: if_splits)
    have "queue_ok (the q)" if "buffered_pipe ?i"
      using that by (simp add: q queue_ok_def i buffered_pipe_def unat_gt_0 word_le_nat_alt)
    with q show ?thesis by (simp add: queue_fits_def i dispatch_config)
  next
    case False
    then have "q = Some ?new" using assms unfolding Pipe_InitQueue_def Let_def i by (auto split: if_splits)
    moreover have "\<not> buffered_pipe ?i" using False by (auto simp: buffered_pipe_def)
    ultimately show ?thesis by (simp add: queue_fits_def i dispatch_config)
  qed
qed

lemma queue_fits_cong:
  "queue_fits pc q \<Longrightarrow> Pipe pc' = Pipe pc \<Longrightarrow> PipeInformation pc' = PipeInformation pc \<Longrightarrow> IsQueueDirty pc' = IsQueueDirty pc
    \<Longrightarrow> Policies pc' = Policies pc \<Longrightarrow> queue_fits pc' q"
  by (simp add: queue_fits_def parallel_pipe_def)

text \<open>Changes of the queue that keep what it was created with, and the over-run buffer valid.\<close>

definition keeps_queue :: "queue_context \<Rightarrow> queue_context \<Rightarrow> bool" where
  "keeps_queue q q' \<longleftrightarrow> PipeHandle q' = PipeHandle q \<and> Info q' = Info q \<and> Config q' = Config q \<and> (queue_ok q \<longrightarrow> queue_ok q')"

lemma queue_fits_keeps: "queue_fits pc q \<Longrightarrow> keeps_queue q q' \<Longrightarrow> queue_fits pc q'"
  by (auto simp: queue_fits_def keeps_queue_def)

lemma keeps_queue_simple [simp]:
  "keeps_queue q (q\<lparr>Requests := rs\<rparr>)" "keeps_queue q (q\<lparr>IsFreshPipeReset := b\<rparr>)" "keeps_queue q (q\<lparr>ResetPipeForResume := b\<rparr>)"
  "keeps_queue q (q\<lparr>OverOfs := \<lparr>BufferOffset = 0, BufferLength = 0\<rparr>\<rparr>)" "keeps_queue q q"
  by (auto simp: keeps_queue_def queue_ok_def)

lemma keeps_pipe_queue:
  "\<forall>q. keeps_queue q (f q) \<Longrightarrow> keeps_pipe pc (pc\<lparr>Queue := map_option f (Queue pc)\<rparr>)"
proof -
  assume f: "\<forall>q. keeps_queue q (f q)"
  have "queue_fits (pc\<lparr>Queue := x\<rparr>) (f q)" if "queue_fits pc q" for x q
    by (rule queue_fits_cong [OF queue_fits_keeps [OF that f [rule_format]]]) simp_all
  then show ?thesis by (auto simp: keeps_pipe_def pipe_ok_def)
qed

lemma keeps_pipe_queue_update:
  assumes "\<forall>q. keeps_queue q (f q)"
  shows "keeps_pipe pc (Queue_update (map_option f) pc)"
proof -
  have "Queue_update (map_option f) pc = pc\<lparr>Queue := map_option f (Queue pc)\<rparr>" by (cases pc) simp
  then show ?thesis using keeps_pipe_queue [OF assms, of pc] by (simp only:)
qed

lemma keeps_pipe_valid: "keeps_pipe pc (pc\<lparr>IsValid := False\<rparr>)"
proof -
  have "queue_fits (pc\<lparr>IsValid := False\<rparr>) q" if "queue_fits pc q" for q
    by (rule queue_fits_cong [OF that]) simp_all
  then show ?thesis by (simp add: keeps_pipe_def pipe_ok_def)
qed

lemma keeps_pipe_stop: "keeps_pipe pc (snd (Pipe_Stop b pc))"
proof (cases "IsValid pc")
  case True
  have "keeps_pipe (pc\<lparr>IsValid := False\<rparr>) (pc\<lparr>IsValid := False, Queue := map_option (\<lambda>q. if b then q\<lparr>Requests := []\<rparr> else q) (Queue pc)\<rparr>)"
    using keeps_pipe_queue [of "\<lambda>q. if b then q\<lparr>Requests := []\<rparr> else q" "pc\<lparr>IsValid := False\<rparr>"] by simp
  with keeps_pipe_trans [OF keeps_pipe_valid] True show ?thesis by (simp add: Pipe_Stop_def)
qed (simp add: Pipe_Stop_def)

text \<open>Starting may create the queue; apart from that it keeps the pipe.\<close>

lemma start_ok:
  assumes "pipe_ok pc"
  shows "pipe_ok (snd (Pipe_Start e b pc)) \<and> PipeInformation (snd (Pipe_Start e b pc)) = PipeInformation pc"
proof (cases "IsValid pc \<or> (Pipe pc = 0 \<and> PipeType (PipeInformation pc) \<noteq> PipeTypeControl)")
  case True
  then show ?thesis using assms by (auto simp: Pipe_Start_def Pipe_InitContext_def)
next
  case False
  let ?new = "Queue pc = None \<or> EndpointAddress (PipeInformation pc) AND 0xF \<noteq> 0 \<and> IsQueueDirty pc"
  let ?pc = "pc\<lparr>IsQueueDirty := False\<rparr>"
  obtain s q where sq: "Pipe_InitQueue e ?pc = (s, q)" by fastforce
  have fits: "\<exists>q'. q = Some q' \<and> queue_fits ?pc q'" if "NT_SUCCESS s" by (rule queue_fits_new [OF sq that])
  have c: "queue_fits ?pc q' \<Longrightarrow> queue_fits (pc\<lparr>IsQueueDirty := False, Queue := x, IsValid := v\<rparr>) q'" for q' x v
    by (erule queue_fits_cong [of ?pc]) simp_all
  show ?thesis
  proof (cases ?new)
    case True
    then show ?thesis using False sq fits
      by (cases "NT_SUCCESS s") (auto simp: Pipe_Start_def Pipe_InitContext_def Let_def pipe_ok_def intro: c)
  next
    case old: False
    then have o: "(if ?new then a else b) = b" for a b :: "NTSTATUS \<times> pipe_context" by (rule if_not_P)
    have "queue_fits (pc\<lparr>IsValid := v\<rparr>) q" if "Queue pc = Some q" for q v
      by (rule queue_fits_cong [of pc]) (use assms that in \<open>simp_all add: pipe_ok_def\<close>)
    moreover have "Queue pc \<noteq> None" using old by simp
    ultimately have k: "pipe_ok (pc\<lparr>IsValid := v\<rparr>)" for v unfolding pipe_ok_def by simp
    have "\<exists>v. snd (Pipe_Start e b pc) = pc\<lparr>IsValid := v\<rparr>"
      using False unfolding Pipe_Start_def Pipe_InitContext_def Let_def o by (auto simp: NT_SUCCESS_def)
    with k show ?thesis by fastforce
  qed
qed

lemma keeps_pipe_start: "Queue pc \<noteq> None \<Longrightarrow> keeps_pipe pc (snd (Pipe_Start e b pc))"
  using start_ok [of pc e b] by (auto simp: keeps_pipe_def)

lemma stop_queue: "Queue (snd (Pipe_Stop b pc)) = None \<longleftrightarrow> Queue pc = None"
  by (simp add: Pipe_Stop_def)

lemma keeps_pipe_refresh: "keeps_pipe pc (snd (Pipe_RefreshQueue e pc))"
proof (cases "IsValid pc")
  case True
  note s = keeps_pipe_stop [of pc True]
  have r: "snd (Pipe_RefreshQueue e pc) = snd (Pipe_Start e False (snd (Pipe_Stop True pc)))"
    using True by (simp add: Pipe_RefreshQueue_def Pipe_Stop_def NT_SUCCESS_def)
  show ?thesis
  proof (cases "Queue pc = None")
    case False
    show ?thesis unfolding r using keeps_pipe_trans [OF s keeps_pipe_start] stop_queue [of True pc] False by blast
  qed (use True in \<open>simp add: keeps_pipe_def pipe_ok_def\<close>)
qed (simp add: Pipe_RefreshQueue_def Pipe_Stop_def)

lemma keeps_pipe_flush: "keeps_pipe pc (snd (flush_pipe e pc))"
proof (cases "IsValid pc \<and> Pipe pc \<noteq> 0")
  case True
  let ?pc = "snd (Pipe_Stop True pc)"
  let ?pc2 = "if EndpointAddress (PipeInformation ?pc) AND 0xF \<noteq> 0
              then ?pc\<lparr>Queue := map_option (\<lambda>q. q\<lparr>OverOfs := \<lparr>BufferOffset = 0, BufferLength = 0\<rparr>\<rparr>) (Queue ?pc)\<rparr> else ?pc"
  have f: "snd (flush_pipe e pc) = snd (Pipe_Start e True ?pc2)"
    using True by (simp add: flush_pipe_def Pipe_Stop_def NT_SUCCESS_def)
  have k: "keeps_pipe pc ?pc2"
    using keeps_pipe_trans [OF keeps_pipe_stop keeps_pipe_queue] keeps_pipe_stop by simp
  show ?thesis
  proof (cases "Queue pc = None")
    case False
    then have "Queue ?pc2 \<noteq> None" using stop_queue [of True pc] by (simp del: not_None_eq)
    then show ?thesis unfolding f using keeps_pipe_trans [OF k keeps_pipe_start] by blast
  qed (use True in \<open>simp add: keeps_pipe_def pipe_ok_def\<close>)
qed (auto simp: flush_pipe_def)

text \<open>Setting a policy marks the queue when the policy decides how it dispatches.\<close>

lemma set_pipe_switch_keeps:
  assumes "set_pipe_switch d t value len v pc = Some (s, v', pc')"
  shows "Queue pc' = Queue pc \<and> IsValid pc' = IsValid pc \<and> PipeInformation pc' = PipeInformation pc \<and> Pipe pc' = Pipe pc
    \<and> Policies pc' = Policies pc \<and> (IsQueueDirty pc \<longrightarrow> IsQueueDirty pc') \<and> (NT_SUCCESS s \<and> get_field RawIO v' \<noteq> get_field RawIO v \<longrightarrow> IsQueueDirty pc')"
  using assms unfolding set_pipe_switch_def
  by (auto simp: set_flag_def set_raw_io_def set_fixed_packets_def set_parallel_requests_def Let_def NT_SUCCESS_def
      split: if_split_asm elim!: bind_SomeE)

lemma keeps_pipe_policy:
  assumes "set_pipe_switch d t value len (Policies pc) pc = Some (s, v', pc')"
  shows "keeps_pipe pc (if NT_SUCCESS s then pc'\<lparr>Policies := v'\<rparr> else pc')"
proof -
  let ?pc = "if NT_SUCCESS s then pc'\<lparr>Policies := v'\<rparr> else pc'"
  note k = set_pipe_switch_keeps [OF assms]
  have "queue_fits ?pc q" if "queue_fits pc q" for q
    using that k by (auto simp: queue_fits_def parallel_pipe_def)
  moreover have "Queue ?pc = Queue pc" "IsValid ?pc = IsValid pc" "PipeInformation ?pc = PipeInformation pc"
    using k by simp_all
  ultimately show ?thesis by (simp only: keeps_pipe_def pipe_ok_def) blast
qed

section \<open>The device\<close>

definition pipes_of :: "device_context \<Rightarrow> nat \<Rightarrow> nat set" where
  "pipes_of d i = set (interface_pipes (InterfaceContexts d ! i))"

definition listed :: "device_context \<Rightarrow> nat set" where
  "listed d = (\<Union>i < length (InterfaceContexts d). pipes_of d i)"

definition slots_ok :: "interface_context \<Rightarrow> bool" where
  "slots_ok ic \<longleftrightarrow> length (PipeContextByIndex ic) = 32 \<and> PipeCount ic \<le> 32 \<and> None \<notin> set (take (PipeCount ic) (PipeContextByIndex ic))
     \<and> distinct (interface_pipes ic)"

definition device_wf :: "device_context \<Rightarrow> bool" where
  "device_wf d \<longleftrightarrow> length (PipeContextByID d) = 32
     \<and> (\<forall>ic \<in> set (InterfaceContexts d). slots_ok ic)
     \<and> (\<forall>i < length (InterfaceContexts d). \<forall>j < length (InterfaceContexts d). i \<noteq> j \<longrightarrow> pipes_of d i \<inter> pipes_of d j = {})
     \<and> (\<forall>k < 32. pipe_ok (PipeContextByID d ! k))
     \<and> (\<forall>k \<in> listed d. 0 < k \<and> k < 32 \<and> EndpointAddress (PipeInformation (PipeContextByID d ! k)) AND 0xF \<noteq> 0)
     \<and> (\<forall>k < 32. k \<noteq> 0 \<longrightarrow> k \<notin> listed d \<longrightarrow> Queue (PipeContextByID d ! k) = None)"

lemma device_wfD:
  assumes "device_wf d"
  shows "length (PipeContextByID d) = 32" "ic \<in> set (InterfaceContexts d) \<Longrightarrow> slots_ok ic"
    "i < length (InterfaceContexts d) \<Longrightarrow> j < length (InterfaceContexts d) \<Longrightarrow> i \<noteq> j \<Longrightarrow> pipes_of d i \<inter> pipes_of d j = {}"
    "k < 32 \<Longrightarrow> pipe_ok (PipeContextByID d ! k)"
    "k \<in> listed d \<Longrightarrow> 0 < k \<and> k < 32 \<and> EndpointAddress (PipeInformation (PipeContextByID d ! k)) AND 0xF \<noteq> 0"
    "k < 32 \<Longrightarrow> k \<noteq> 0 \<Longrightarrow> k \<notin> listed d \<Longrightarrow> Queue (PipeContextByID d ! k) = None"
  using assms by (auto simp: device_wf_def)

lemma listed_pipes_upd [simp]: "pipes_of (upd_pipe k f d) = pipes_of d" "listed (upd_pipe k f d) = listed d"
  by (auto simp: pipes_of_def listed_def fun_eq_iff)

lemma device_wf_upd_pipe:
  assumes "device_wf d" "k < 32"
    and "pipe_ok (f (PipeContextByID d ! k)) \<and> PipeInformation (f (PipeContextByID d ! k)) = PipeInformation (PipeContextByID d ! k)"
    and "k = 0 \<or> k \<in> listed d \<or> Queue (f (PipeContextByID d ! k)) = None"
  shows "device_wf (upd_pipe k f d)"
  using assms by (auto simp: device_wf_def upd_pipe_nth)

corollary device_wf_keeps:
  assumes "device_wf d" "k < 32" "keeps_pipe (PipeContextByID d ! k) (f (PipeContextByID d ! k))"
  shows "device_wf (upd_pipe k f d)"
proof (rule device_wf_upd_pipe [OF assms(1,2)])
  note k = assms(3) [unfolded keeps_pipe_def, rule_format, OF device_wfD(4) [OF assms(1,2)]]
  then show "pipe_ok (f (PipeContextByID d ! k)) \<and> PipeInformation (f (PipeContextByID d ! k)) = PipeInformation (PipeContextByID d ! k)" by blast
  show "k = 0 \<or> k \<in> listed d \<or> Queue (f (PipeContextByID d ! k)) = None" using k device_wfD(6) [OF assms(1,2)] by metis
qed

lemma device_wf_fold:
  "device_wf d \<Longrightarrow> set ks \<subseteq> {..<32} \<Longrightarrow> (\<And>pc. keeps_pipe pc (f pc)) \<Longrightarrow> device_wf (fold (\<lambda>k. upd_pipe k f) ks d)"
  by (induction ks arbitrary: d) (auto intro: device_wf_keeps)

lemma device_wf_fold_start:
  "device_wf d \<Longrightarrow> set ks \<subseteq> listed d \<Longrightarrow> device_wf (fold (\<lambda>k. upd_pipe k (\<lambda>pc. snd (Pipe_Start e b pc))) ks d)"
proof (induction ks arbitrary: d)
  case (Cons k ks)
  then have k: "k \<in> listed d" "k < 32" using device_wfD(5) [of d k] by auto
  have "device_wf (upd_pipe k (\<lambda>pc. snd (Pipe_Start e b pc)) d)"
    using Cons.prems(1) k start_ok device_wfD(4) [OF Cons.prems(1) k(2)] by (intro device_wf_upd_pipe) auto
  then show ?case using Cons by simp
qed simp

text \<open>Changes of an interface that keep its pipes.\<close>

lemma device_wf_upd_interface:
  assumes "device_wf d" "\<And>ic. PipeCount (f ic) = PipeCount ic" "\<And>ic. PipeContextByIndex (f ic) = PipeContextByIndex ic"
  shows "device_wf (upd_interface i f d)"
proof (cases "i < length (InterfaceContexts d)")
  case True
  have p: "interface_pipes (f ic) = interface_pipes ic" "slots_ok (f ic) = slots_ok ic" for ic
    using assms(2,3) by (simp_all add: interface_pipes_def slots_ok_def)
  have "pipes_of (upd_interface i f d) = pipes_of d" using True by (auto simp: pipes_of_def p fun_eq_iff)
  then have l: "pipes_of (upd_interface i f d) = pipes_of d" "listed (upd_interface i f d) = listed d" by (simp_all add: listed_def)
  have "\<forall>ic \<in> set (InterfaceContexts (upd_interface i f d)). slots_ok ic"
    using device_wfD(2) [OF assms(1) nth_mem] True by (auto simp: in_set_conv_nth p)
  with assms(1) show ?thesis by (simp add: device_wf_def l)
next
  case False
  then have "upd_interface i f d = d" by (simp add: upd_interface_def list_update_beyond)
  with assms(1) show ?thesis by simp
qed

section \<open>The pipes of a new setting\<close>

abbreviation endpoint_slot :: "addr \<times> wdf_pipe_information \<Rightarrow> nat" where
  "endpoint_slot p \<equiv> GetPipeContextByID (EndpointAddress (snd p))"

text \<open>The pipes of the setting before the first null handle, and the slots that they fill.\<close>

definition usable_pipes :: "usb_interface \<Rightarrow> (addr \<times> wdf_pipe_information) list" where
  "usable_pipes u = takeWhile (\<lambda>p. fst p \<noteq> 0) (ConfiguredPipes u)"

definition fill_slots :: "nat \<Rightarrow> nat list \<Rightarrow> nat option list \<Rightarrow> nat option list" where
  "fill_slots k js xs = take k xs @ map Some js @ drop (k + length js) xs"

lemma fill_slots_Cons: "k < length xs \<Longrightarrow> fill_slots (Suc k) js (xs[k := Some j]) = fill_slots k (j # js) xs"
  by (simp add: fill_slots_def take_Suc_conv_app_nth)

lemma upd_interface_cong: "f (InterfaceContexts d ! i) = g (InterfaceContexts d ! i) \<Longrightarrow> upd_interface i f d = upd_interface i g d"
  by (simp add: upd_interface_def)

lemma init_pipe_cong: "DeviceSpeed d = DeviceSpeed d' \<Longrightarrow> init_pipe d = init_pipe d'"
  by (simp add: init_pipe_def Policy_InitPipe_def IsHighSpeedDevice_def fun_eq_iff Let_def)

lemma init_pipes_state:
  assumes "k + length ps \<le> length (PipeContextByIndex (InterfaceContexts d ! i))"
  defines "qs \<equiv> takeWhile (\<lambda>p. fst p \<noteq> 0) ps"
  shows "init_pipes i k ps d =
    (if qs = ps then STATUS_SUCCESS else STATUS_INSUFFICIENT_RESOURCES,
     upd_interface i (\<lambda>ic. ic\<lparr>PipeContextByIndex := fill_slots k (map endpoint_slot qs) (PipeContextByIndex ic),
        PipeCount := (if qs = ps then PipeCount ic else k + length qs)\<rparr>)
      (update_pipes (map (\<lambda>p. (endpoint_slot p, init_pipe d p)) qs) d))"
  using assms(1) unfolding qs_def
proof (induction ps arbitrary: k d)
  case Nil
  then show ?case by (simp add: fill_slots_def upd_interface_same)
next
  case (Cons p ps)
  show ?case
  proof (cases "fst p = 0")
    case True
    then show ?thesis by (simp add: fill_slots_def upd_interface_def)
  next
    case False
    let ?s = "\<lambda>ic. ic\<lparr>PipeContextByIndex := (PipeContextByIndex ic)[k := Some (endpoint_slot p)]\<rparr>"
    let ?d = "upd_pipe (endpoint_slot p) (init_pipe d p) (upd_interface i ?s d)"
    let ?qs = "takeWhile (\<lambda>p. fst p \<noteq> 0) ps"
    have len: "Suc k + length ps \<le> length (PipeContextByIndex (InterfaceContexts ?d ! i))"
      using Cons.prems by (cases "i < length (InterfaceContexts d)") (simp_all add: upd_interface_def list_update_beyond)
    have ip: "init_pipe ?d = init_pipe d" by (rule init_pipe_cong) simp
    have us: "update_pipes (map (\<lambda>p. (endpoint_slot p, init_pipe d p)) ?qs) ?d
        = upd_interface i ?s (update_pipes (map (\<lambda>p. (endpoint_slot p, init_pipe d p)) (p # ?qs)) d)"
      by (simp add: upd_pipe_upd_interface update_pipes_upd_interface)
    show ?thesis
      using Cons.IH [OF len] False Cons.prems unfolding ip us
      by (cases "?qs = ps") (auto simp: fill_slots_Cons Let_def simp del: takeWhile_eq_all_conv intro!: upd_interface_cong)
  qed
qed

definition set_interface :: "usb_interface \<Rightarrow> interface_context \<Rightarrow> interface_context" where
  "set_interface u ic = ic\<lparr>SettingIndex := ConfiguredSetting u, bInterfaceNumber := InterfaceNumber u,
     bAlternateSetting := AltNumbers u ! unat (ConfiguredSetting u), PipeCount := length (usable_pipes u),
     PipeContextByIndex := fill_slots 0 (map endpoint_slot (usable_pipes u)) (PipeContextByIndex ic)\<rparr>"

lemma interface_init_state:
  assumes "length (ConfiguredPipes u) \<le> 32" "Interface (InterfaceContexts d ! i) \<noteq> 0" "i < length (InterfaceContexts d)"
    and "length (PipeContextByIndex (InterfaceContexts d ! i)) = 32"
  shows "Interface_InitContext u i d =
    (if usable_pipes u = ConfiguredPipes u then STATUS_SUCCESS else STATUS_INSUFFICIENT_RESOURCES,
     upd_interface i (set_interface u) (update_pipes (map (\<lambda>p. (endpoint_slot p, init_pipe d p)) (usable_pipes u)) d))"
proof -
  let ?h = "\<lambda>ic. ic\<lparr>SettingIndex := ConfiguredSetting u, bInterfaceNumber := InterfaceNumber u,
           bAlternateSetting := AltNumbers u ! unat (ConfiguredSetting u), PipeCount := length (ConfiguredPipes u)\<rparr>"
  have len: "0 + length (ConfiguredPipes u) \<le> length (PipeContextByIndex (InterfaceContexts (upd_interface i ?h d) ! i))"
    using assms by simp
  have ip: "init_pipe (upd_interface i ?h d) = init_pipe d" by (rule init_pipe_cong) simp
  show ?thesis
    using init_pipes_state [OF len] assms(2) unfolding ip usable_pipes_def [symmetric]
    by (cases "usable_pipes u = ConfiguredPipes u")
      (auto simp: Interface_InitContext_def set_interface_def update_pipes_upd_interface intro!: upd_interface_cong)
qed

lemma interface_pipes_set_interface:
  assumes "length (PipeContextByIndex ic) = 32" "length (usable_pipes u) \<le> 32"
  shows "interface_pipes (set_interface u ic) = map endpoint_slot (usable_pipes u)"
    "take (PipeCount (set_interface u ic)) (PipeContextByIndex (set_interface u ic)) = map (Some \<circ> endpoint_slot) (usable_pipes u)"
proof -
  show t: "take (PipeCount (set_interface u ic)) (PipeContextByIndex (set_interface u ic)) = map (Some \<circ> endpoint_slot) (usable_pipes u)"
    using assms by (simp add: set_interface_def fill_slots_def)
  have "List.map_filter id (map (Some \<circ> f) xs) = map f xs" for f :: "'a \<Rightarrow> 'b" and xs
    by (induction xs) simp_all
  with t show "interface_pipes (set_interface u ic) = map endpoint_slot (usable_pipes u)"
    by (simp add: interface_pipes_def)
qed

text \<open>What the framework says of a setting: at most 32 pipes with real endpoints, each of its own.\<close>

definition usb_ok :: "usb_interface \<Rightarrow> bool" where
  "usb_ok u \<longleftrightarrow> length (ConfiguredPipes u) \<le> 32 \<and> distinct (map endpoint_slot (ConfiguredPipes u))
     \<and> (\<forall>p \<in> set (ConfiguredPipes u). EndpointAddress (snd p) AND 0xF \<noteq> 0)"

definition slots_of :: "usb_interface \<Rightarrow> nat set" where
  "slots_of u = endpoint_slot ` set (ConfiguredPipes u)"

lemma usable_subset: "set (usable_pipes u) \<subseteq> set (ConfiguredPipes u)" "length (usable_pipes u) \<le> length (ConfiguredPipes u)"
  by (auto simp: usable_pipes_def length_takeWhile_le dest: set_takeWhileD)

lemma usb_ok_usable: "usb_ok u \<Longrightarrow> distinct (map endpoint_slot (usable_pipes u))"
  unfolding usb_ok_def usable_pipes_def by (metis distinct_takeWhile distinct_map set_takeWhileD inj_on_subset subsetI)

lemma endpoint_slot_pos: "EndpointAddress (snd p) AND 0xF \<noteq> 0 \<Longrightarrow> 0 < endpoint_slot p"
proof -
  have "x AND 0xF \<noteq> 0 \<Longrightarrow> 0 < GetPipeContextByID x" for x :: UCHAR
  proof -
    assume x: "x AND 0xF \<noteq> 0"
    then have "(x AND 0xF) OR drop_bit 3 (x AND 0x80) \<noteq> 0" by (simp add: or_eq_0_iff)
    moreover have "x \<noteq> 0x80" using x by auto
    ultimately show "0 < GetPipeContextByID x" by (simp add: GetPipeContextByID_def unat_gt_0)
  qed
  then show "EndpointAddress (snd p) AND 0xF \<noteq> 0 \<Longrightarrow> 0 < endpoint_slot p" by blast
qed

section \<open>Operations on an interface\<close>

lemma interface_pipes_listed: "i < length (InterfaceContexts d) \<Longrightarrow> set (interface_pipes (InterfaceContexts d ! i)) \<subseteq> listed d"
  by (auto simp: listed_def pipes_of_def)

lemma listed_less: "device_wf d \<Longrightarrow> listed d \<subseteq> {..<32}"
  using device_wfD(5) by blast

lemma stop_wf:
  assumes "device_wf d" "i < length (InterfaceContexts d)"
  defines "d' \<equiv> Interface_Stop (InterfaceContexts d ! i) d"
  shows "device_wf d' \<and> InterfaceContexts d' = InterfaceContexts d \<and> listed d' = listed d \<and> (\<forall>k \<in> pipes_of d i. \<not> IsValid (PipeContextByID d' ! k))"
proof -
  let ?ks = "interface_pipes (InterfaceContexts d ! i)"
  have ks: "set ?ks \<subseteq> {..<32}" using interface_pipes_listed [OF assms(2)] listed_less [OF assms(1)] by blast
  have dist: "distinct ?ks" using device_wfD(2) [OF assms(1) nth_mem [OF assms(2)]] by (simp add: slots_ok_def)
  have "device_wf d'" unfolding d'_def Interface_Stop_def by (rule device_wf_fold [OF assms(1) ks keeps_pipe_stop])
  moreover have i: "InterfaceContexts d' = InterfaceContexts d" by (simp add: d'_def Interface_Stop_def fold_upd_pipe)
  moreover have "listed d' = listed d" by (simp add: listed_def pipes_of_def i)
  moreover have "\<not> IsValid (PipeContextByID d' ! k)" if "k \<in> pipes_of d i" for k
    using that ks device_wfD(1) [OF assms(1)] unfolding d'_def Interface_Stop_def
    by (subst update_pipes_all [OF dist]) (auto simp: pipes_of_def Pipe_Stop_def)
  ultimately show ?thesis by blast
qed

lemma start_wf:
  assumes "device_wf d" "i < length (InterfaceContexts d)"
  shows "device_wf (Interface_Start e (InterfaceContexts d ! i) d)"
    "InterfaceContexts (Interface_Start e (InterfaceContexts d ! i) d) = InterfaceContexts d"
  unfolding Interface_Start_def using interface_pipes_listed [OF assms(2)]
  by (auto intro: device_wf_fold_start [OF assms(1)]) (simp add: fold_upd_pipe)

definition others :: "device_context \<Rightarrow> nat \<Rightarrow> nat set" where
  "others d i = (\<Union>j \<in> {..<length (InterfaceContexts d)} - {i}. pipes_of d j)"

lemma listed_others: "i < length (InterfaceContexts d) \<Longrightarrow> listed d = others d i \<union> pipes_of d i"
  by (auto simp: listed_def others_def)

lemma others_cong:
  "length (InterfaceContexts d') = length (InterfaceContexts d) \<Longrightarrow> (\<And>j. j \<noteq> i \<Longrightarrow> pipes_of d' j = pipes_of d j) \<Longrightarrow> others d' i = others d i"
  by (simp add: others_def)

lemma others_disjoint: "device_wf d \<Longrightarrow> i < length (InterfaceContexts d) \<Longrightarrow> others d i \<inter> pipes_of d i = {}"
  using device_wfD(3) [of d] unfolding others_def by fastforce

text \<open>The device without the pipes of an interface, and with the pipes of a new setting.\<close>

lemma delete_wf:
  assumes "device_wf d" "i < length (InterfaceContexts d)" "\<forall>k \<in> pipes_of d i. \<not> IsValid (PipeContextByID d ! k)"
  defines "d' \<equiv> Interface_DeletePipesAndQueues i d"
  shows "device_wf d' \<and> pipes_of d' i = {} \<and> listed d' = listed d - pipes_of d i
    \<and> (\<exists>xs. length xs = 32 \<and> InterfaceContexts d' = (InterfaceContexts d)[i := (InterfaceContexts d ! i)\<lparr>PipeContextByIndex := xs, PipeCount := 0\<rparr>])
    \<and> (\<forall>j. PipeContextByID d' ! j = (if j \<in> pipes_of d i then (PipeContextByID d ! j)\<lparr>Queue := None, Pipe := 0\<rparr> else PipeContextByID d ! j))"
proof -
  let ?ic = "InterfaceContexts d ! i" and ?ks = "interface_pipes (InterfaceContexts d ! i)"
  note wf = device_wfD [OF assms(1)]
  have ks: "set ?ks \<subseteq> {..<32}" using interface_pipes_listed [OF assms(2)] listed_less [OF assms(1)] by blast
  have sl: "slots_ok ?ic" by (rule wf(2) [OF nth_mem [OF assms(2)]])
  then have dist: "distinct ?ks" by (simp add: slots_ok_def)
  let ?f = "\<lambda>ic. ic\<lparr>PipeContextByIndex := replicate (PipeCount ic) None @ drop (PipeCount ic) (PipeContextByIndex ic), PipeCount := 0\<rparr>"
  have d': "d' = upd_interface i ?f (fold (\<lambda>k. upd_pipe k delete_pipe) ?ks d)"
    by (simp add: d'_def Interface_DeletePipesAndQueues_def Let_def fold_upd_pipe)
  have ic: "InterfaceContexts d' = (InterfaceContexts d)[i := ?f ?ic]" by (simp add: d' fold_upd_pipe upd_interface_def)
  have del: "delete_pipe (PipeContextByID d ! k) = (PipeContextByID d ! k)\<lparr>Queue := None, Pipe := 0\<rparr>" if "k \<in> pipes_of d i" for k
    using that assms(3) wf(5) [of k] assms(2) by (auto simp: delete_pipe_def listed_def)
  have pipes: "PipeContextByID d' ! j = (if j \<in> pipes_of d i then (PipeContextByID d ! j)\<lparr>Queue := None, Pipe := 0\<rparr> else PipeContextByID d ! j)" for j
    using ks wf(1) del by (simp add: d') (simp add: update_pipes_all [OF dist] pipes_of_def)
  have p_i: "pipes_of d' i = {}" using assms(2) by (simp add: pipes_of_def ic interface_pipes_def)
  have p_j: "pipes_of d' j = pipes_of d j" if "j \<noteq> i" for j using that by (simp add: pipes_of_def ic)
  have l: "listed d' = listed d - pipes_of d i"
    using listed_others [of i d] listed_others [of i d'] others_cong [of d' d i] others_disjoint [OF assms(1,2)] p_i p_j assms(2)
    by (auto simp: ic)
  have len: "length (PipeContextByIndex (?f ?ic)) = 32" using sl by (simp add: slots_ok_def)
  have ex: "\<exists>xs. length xs = 32 \<and> InterfaceContexts d' = (InterfaceContexts d)[i := ?ic\<lparr>PipeContextByIndex := xs, PipeCount := 0\<rparr>]"
    by (rule exI [of _ "PipeContextByIndex (?f ?ic)"]) (use len ic in simp)
  have "slots_ok (?f ?ic)" using sl by (simp add: slots_ok_def interface_pipes_def)
  then have s: "\<forall>ic \<in> set (InterfaceContexts d'). slots_ok ic"
    using wf(2) unfolding ic by (auto dest!: set_update_subset_insert [THEN subsetD])
  have "pipe_ok (PipeContextByID d' ! k)" if "k < 32" for k
    using wf(4) [OF that] assms(3) by (simp add: pipes) (simp add: pipe_ok_def)
  moreover have "Queue (PipeContextByID d' ! k) = None" if "k < 32" "k \<noteq> 0" "k \<notin> listed d'" for k
    using wf(6) [OF that(1,2)] that(3) l by (auto simp: pipes)
  moreover have "pipes_of d' a \<inter> pipes_of d' b = {}" if "a < length (InterfaceContexts d)" "b < length (InterfaceContexts d)" "a \<noteq> b" for a b
    using wf(3) [OF that] p_i p_j by (cases "a = i"; cases "b = i") auto
  moreover have "length (PipeContextByID d') = 32" using wf(1) by (simp add: d' fold_upd_pipe)
  moreover have "0 < k \<and> k < 32 \<and> EndpointAddress (PipeInformation (PipeContextByID d' ! k)) AND 0xF \<noteq> 0" if "k \<in> listed d'" for k
    using that l wf(5) [of k] by (auto simp: pipes)
  ultimately have "device_wf d'" using s by (simp add: device_wf_def ic)
  with p_i l ex pipes show ?thesis by blast
qed

lemma map_of_slot:
  "map_of (map (\<lambda>p. (endpoint_slot p, f p)) ps) k = Some g \<Longrightarrow> \<exists>p \<in> set ps. endpoint_slot p = k \<and> g = f p"
  by (induction ps) (auto split: if_splits)

lemma init_wf:
  assumes "device_wf d" "i < length (InterfaceContexts d)" "pipes_of d i = {}" "Interface (InterfaceContexts d ! i) \<noteq> 0"
    and "length (PipeContextByIndex (InterfaceContexts d ! i)) = 32" "usb_ok u" "slots_of u \<inter> listed d = {}"
    and "Interface_InitContext u i d = (s, d')"
  shows "device_wf d' \<and> InterfaceContexts d' = (InterfaceContexts d)[i := set_interface u (InterfaceContexts d ! i)]
    \<and> pipes_of d' i \<subseteq> slots_of u \<and> listed d' \<subseteq> listed d \<union> slots_of u"
proof -
  let ?us = "map (\<lambda>p. (endpoint_slot p, init_pipe d p)) (usable_pipes u)"
  note wf = device_wfD [OF assms(1)]
  have le: "length (ConfiguredPipes u) \<le> 32" using assms(6) by (simp add: usb_ok_def)
  have d': "d' = upd_interface i (set_interface u) (update_pipes ?us d)"
    using interface_init_state [OF le assms(4,2,5)] assms(8) by (simp split: if_splits)
  have ic: "InterfaceContexts d' = (InterfaceContexts d)[i := set_interface u (InterfaceContexts d ! i)]"
    by (simp add: d' upd_interface_def)
  have le2: "length (usable_pipes u) \<le> 32" using usable_subset(2) [of u] le by simp
  note ip = interface_pipes_set_interface [OF assms(5) le2]
  have p_i: "pipes_of d' i = endpoint_slot ` set (usable_pipes u)" using assms(2) by (simp add: pipes_of_def ic ip)
  have sub: "pipes_of d' i \<subseteq> slots_of u" unfolding p_i slots_of_def using usable_subset(1) by blast
  have p_j: "pipes_of d' j = pipes_of d j" if "j \<noteq> i" for j using that by (simp add: pipes_of_def ic)
  have ot: "others d' i = others d i" by (rule others_cong) (simp_all add: ic p_j)
  have l: "listed d' = listed d \<union> pipes_of d' i"
    using listed_others [of i d] listed_others [of i d'] ot assms(2,3) by (simp add: ic)
  have slot: "0 < endpoint_slot p \<and> endpoint_slot p < 32" if "p \<in> set (usable_pipes u)" for p
    using that usable_subset(1) [of u] assms(6) endpoint_slot_pos GetPipeContextByID_less by (auto simp: usb_ok_def)
  have pipes: "PipeContextByID d' ! k = (case map_of ?us k of None \<Rightarrow> PipeContextByID d ! k | Some f \<Rightarrow> f (PipeContextByID d ! k))" for k
    unfolding d' upd_interface_frame using usb_ok_usable [OF assms(6)] slot wf(1)
    by (intro update_pipes_nth) (auto simp: o_def)
  have new: "k \<notin> listed d \<and> k \<noteq> 0 \<and> k < 32 \<and> Queue (PipeContextByID d ! k) = None
      \<and> (\<exists>p \<in> set (usable_pipes u). endpoint_slot p = k \<and> PipeContextByID d' ! k = init_pipe d p (PipeContextByID d ! k))"
    if k: "map_of ?us k = Some f" for k f
  proof -
    obtain p where p: "p \<in> set (usable_pipes u)" "endpoint_slot p = k" "f = init_pipe d p" using map_of_slot [OF k] by blast
    have "k \<in> slots_of u" using p usable_subset(1) [of u] by (auto simp: slots_of_def)
    then have n: "k \<notin> listed d" using assms(7) by blast
    then have "Queue (PipeContextByID d ! k) = None" using wf(6) slot [OF p(1)] p(2) by simp
    then show ?thesis using n p k slot [OF p(1)] pipes [of k] by auto
  qed
  have init: "Queue (init_pipe d p pc) = Queue pc \<and> IsValid (init_pipe d p pc) = IsValid pc
      \<and> EndpointAddress (PipeInformation (init_pipe d p pc)) = EndpointAddress (snd p)" for p pc
    by (simp add: init_pipe_def Policy_InitPipe_def Let_def)
  have ok: "pipe_ok (PipeContextByID d' ! k)" if "k < 32" for k
  proof (cases "map_of ?us k")
    case None
    then show ?thesis using wf(4) [OF that] pipes [of k] by simp
  next
    case (Some f)
    then show ?thesis using new [OF Some] wf(4) [OF that] by (auto simp: pipe_ok_def init)
  qed
  have dom: "map_of ?us k = None \<longleftrightarrow> k \<notin> pipes_of d' i" for k by (simp add: p_i map_of_eq_None_iff image_image)
  have none: "Queue (PipeContextByID d' ! k) = None" if "k < 32" "k \<noteq> 0" "k \<notin> listed d'" for k
    using wf(6) [OF that(1,2)] that(3) l dom [of k] pipes [of k] by simp
  have listed: "0 < k \<and> k < 32 \<and> EndpointAddress (PipeInformation (PipeContextByID d' ! k)) AND 0xF \<noteq> 0" if "k \<in> listed d'" for k
  proof (cases "map_of ?us k")
    case None
    then show ?thesis using that l dom [of k] wf(5) [of k] pipes [of k] by simp
  next
    case (Some f)
    from new [OF this] obtain p where "p \<in> set (usable_pipes u)" "k \<noteq> 0" "k < 32" "PipeContextByID d' ! k = init_pipe d p (PipeContextByID d ! k)"
      by blast
    moreover from this(1) have "EndpointAddress (snd p) AND 0xF \<noteq> 0" using assms(6) usable_subset(1) [of u] by (auto simp: usb_ok_def)
    ultimately show ?thesis by (simp add: init)
  qed
  have disj: "pipes_of d' a \<inter> pipes_of d' b = {}" if "a < length (InterfaceContexts d)" "b < length (InterfaceContexts d)" "a \<noteq> b" for a b
  proof -
    have n: "pipes_of d' i \<inter> listed d = {}" using sub assms(7) by blast
    have c: "pipes_of d' c \<subseteq> listed d" if "c < length (InterfaceContexts d)" "c \<noteq> i" for c
      using that p_j by (auto simp: listed_def)
    note ab = that(3)
    consider "a = i" "b \<noteq> i" | "a \<noteq> i" "b = i" | "a \<noteq> i" "b \<noteq> i" using ab by metis
    then show ?thesis using n c [of a] c [of b] that wf(3) [OF that] p_j by cases auto
  qed
  have "slots_ok (set_interface u (InterfaceContexts d ! i))"
    using ip le2 usb_ok_usable [OF assms(6)] assms(5) by (auto simp: slots_ok_def o_def) (simp_all add: set_interface_def fill_slots_def)
  then have s: "\<forall>ic \<in> set (InterfaceContexts d'). slots_ok ic"
    using wf(2) unfolding ic by (auto dest!: set_update_subset_insert [THEN subsetD])
  have "length (PipeContextByID d') = 32" using wf(1) by (simp add: d')
  with ok none listed disj s have "device_wf d'" by (simp add: device_wf_def ic)
  with ic sub l show ?thesis by blast
qed

text \<open>An alternate setting, whatever it answers.\<close>

lemma set_alt_setting_wf:
  assumes "device_wf d" "usb_ok u" "Interface_SetAltSetting u d r = (s, d')"
    and "\<And>i. GetInterfaceContextFromRequest d r = Inr i \<Longrightarrow> slots_of u \<inter> others d i = {}"
  shows "device_wf d'"
proof (cases "GetInterfaceContextFromRequest d r")
  case (Inr i)
  let ?ic = "InterfaceContexts d ! i" and ?f = "\<lambda>ic. ic\<lparr>SettingIndex := ConfiguredSetting u\<rparr>"
  have i: "i < length (InterfaceContexts d)"
    using Inr by (auto simp: GetInterfaceContextFromRequest_def Interface_GetContextByIndex_def Interface_GetContextByNumber_def find_Some_iff
        split: if_splits option.splits)
  let ?d1 = "Interface_Stop ?ic d"
  note s1 = stop_wf [OF assms(1) i]
  have i1: "i < length (InterfaceContexts ?d1)" using s1 i by simp
  show ?thesis
  proof (cases "Interface ?ic = 0 \<or> (\<exists>t. GetInterfaceAltSettingIndexFromRequest u r = Inl t)
      \<or> GetInterfaceAltSettingIndexFromRequest u r = Inr (SettingIndex ?ic) \<or> \<not> NT_SUCCESS (SelectStatus u)")
    case True
    then have "d' \<in> {d, Interface_Start (pipe_env.truncate u) (InterfaceContexts ?d1 ! i) ?d1}"
      using assms(3) Inr by (auto simp: Interface_SetAltSetting_def Let_def split: if_splits sum.splits)
    then show ?thesis using assms(1) start_wf(1) [OF conjunct1 [OF s1] i1] by auto
  next
    case False
    let ?d2 = "upd_interface i ?f ?d1"
    let ?d3 = "Interface_DeletePipesAndQueues i ?d2"
    have wf2: "device_wf ?d2" using s1 by (intro device_wf_upd_interface) simp_all
    have ic2: "InterfaceContexts ?d2 = (InterfaceContexts d)[i := ?f ?ic]" using s1 by (simp add: upd_interface_def)
    have p2: "pipes_of ?d2 = pipes_of d" using i by (auto simp: pipes_of_def ic2 interface_pipes_def fun_eq_iff nth_list_update)
    have i2: "i < length (InterfaceContexts ?d2)" using i ic2 by simp
    have inv: "\<forall>k \<in> pipes_of ?d2 i. \<not> IsValid (PipeContextByID ?d2 ! k)" using s1 p2 by simp
    note del = delete_wf [OF wf2 i2 inv]
    obtain t d4 where it: "Interface_InitContext u i ?d3 = (t, d4)" by fastforce
    obtain xs where xs: "length xs = 32" "InterfaceContexts ?d3 = (InterfaceContexts ?d2)[i := (InterfaceContexts ?d2 ! i)\<lparr>PipeContextByIndex := xs, PipeCount := 0\<rparr>]"
      using del by blast
    have i3: "i < length (InterfaceContexts ?d3)" using xs(2) i2 by simp
    have h3: "Interface (InterfaceContexts ?d3 ! i) = Interface ?ic" "length (PipeContextByIndex (InterfaceContexts ?d3 ! i)) = 32"
      using xs i i2 by (simp_all add: ic2)
    have l2: "listed ?d2 = listed d" by (simp add: listed_def p2 ic2)
    have d3: "device_wf ?d3" "pipes_of ?d3 i = {}" "listed ?d3 = listed ?d2 - pipes_of ?d2 i" using del by simp_all
    have l3: "listed ?d3 = others d i"
      unfolding d3(3) l2 p2 listed_others [OF i] using others_disjoint [OF assms(1) i] by blast
    have dis: "slots_of u \<inter> listed ?d3 = {}" using assms(4) [OF Inr] l3 by simp
    have nz: "Interface (InterfaceContexts ?d3 ! i) \<noteq> 0" using False h3 by simp
    have "device_wf d4 \<and> InterfaceContexts d4 = (InterfaceContexts ?d3)[i := set_interface u (InterfaceContexts ?d3 ! i)]"
      using init_wf [OF d3(1) i3 d3(2) nz h3(2) assms(2) dis it] by blast
    moreover from this have "i < length (InterfaceContexts d4)" using i3 by simp
    moreover have "d' \<in> {d4, Interface_Start (pipe_env.truncate u) (InterfaceContexts d4 ! i) d4}"
      using assms(3) Inr False it by (auto simp: Interface_SetAltSetting_def Let_def split: if_splits sum.splits prod.splits)
    ultimately show ?thesis using start_wf(1) [of d4 i "pipe_env.truncate u"] by (metis insertE singletonD)
  qed
qed (use assms in \<open>simp add: Interface_SetAltSetting_def\<close>)

section \<open>Requests\<close>

lemma device_wf_cong:
  "device_wf d \<Longrightarrow> PipeContextByID d' = PipeContextByID d \<Longrightarrow> InterfaceContexts d' = InterfaceContexts d \<Longrightarrow> device_wf d'"
  by (simp add: device_wf_def listed_def pipes_of_def)

lemma forward_wf:
  assumes "device_wf d" "mRequest_InitAndForwardToQueue e d request ty actual len timeout p = (x, d')"
  shows "device_wf d'"
proof -
  let ?k = "GetPipeContextByID p" and ?pc = "PipeContextByID d ! GetPipeContextByID p"
  let ?pc1 = "if IsQueueDirty ?pc then snd (Pipe_RefreshQueue e ?pc) else ?pc"
  let ?d1 = "upd_pipe ?k (\<lambda>_. ?pc1) d"
  have wf1: "device_wf ?d1" by (intro device_wf_keeps [OF assms(1) GetPipeContextByID_less]) (simp add: keeps_pipe_refresh)
  have wf2: "device_wf (upd_pipe ?k (Queue_update (map_option (\<lambda>q. q\<lparr>Requests := Requests q @ [request]\<rparr>))) ?d1)"
    by (intro device_wf_keeps [OF wf1 GetPipeContextByID_less] keeps_pipe_queue_update) simp
  have "d' \<in> {d, ?d1, upd_pipe ?k (Queue_update (map_option (\<lambda>q. q\<lparr>Requests := Requests q @ [request]\<rparr>))) ?d1}"
    using assms(2) unfolding mRequest_InitAndForwardToQueue_def Let_def
    by (cases "IsQueueDirty ?pc") (auto split: if_splits prod.splits)
  with assms(1) wf1 wf2 show ?thesis by blast
qed

lemma forwarded_ioctl_wf:
  "device_wf d \<Longrightarrow> forwarded_ioctl e d request timeout c inlen out = Some (a, d') \<Longrightarrow> device_wf d'"
  using forward_wf
  by (cases c) (force simp: forwarded_ioctl_def forward_to_def Let_def split: prod.splits sum.splits)+

text \<open>Claims and releases.\<close>

lemma claim_wf: "device_wf d \<Longrightarrow> device_wf (snd (Interface_Claim d r f))"
  by (auto simp: Interface_Claim_def split: sum.splits intro: device_wf_upd_interface)

lemma release_wf: "device_wf d \<Longrightarrow> device_wf (snd (Interface_Release d r f))"
  by (auto simp: Interface_Release_def split: sum.splits intro: device_wf_upd_interface)

lemma release_all_wf:
  assumes "device_wf d"
  shows "device_wf (snd (Interface_ReleaseAll d f))"
proof -
  let ?g = "\<lambda>ic. if ClaimedByFileObject ic = f then ic\<lparr>ClaimedByFileObject := 0\<rparr> else ic"
  let ?d = "snd (Interface_ReleaseAll d f)"
  have ic: "InterfaceContexts ?d = map ?g (InterfaceContexts d)" "PipeContextByID ?d = PipeContextByID d"
    by (simp_all add: Interface_ReleaseAll_def)
  have g: "interface_pipes (?g x) = interface_pipes x" "slots_ok (?g x) = slots_ok x" for x
    by (simp_all add: interface_pipes_def slots_ok_def)
  have p: "pipes_of ?d i = pipes_of d i" if "i < length (InterfaceContexts d)" for i
    using that by (simp add: pipes_of_def ic g)
  then have "listed ?d = listed d" by (auto simp: listed_def ic)
  moreover have "\<forall>x \<in> set (InterfaceContexts ?d). slots_ok x" using device_wfD(2) [OF assms] unfolding ic by (auto simp only: set_map g)
  ultimately show ?thesis using assms p by (simp add: device_wf_def ic)
qed

text \<open>What an alternate setting must say of the device: its pipes belong to no other interface.\<close>

definition setting_known :: "usb_interface \<Rightarrow> device_context \<Rightarrow> interface_request \<Rightarrow> bool" where
  "setting_known u d r \<longleftrightarrow> usb_ok u \<and> (\<forall>i. GetInterfaceContextFromRequest d r = Inr i \<longrightarrow> slots_of u \<inter> others d i = {})"

fun setting_fits :: "usb_interface \<Rightarrow> device_context \<Rightarrow> ioctl \<Rightarrow> bool" where
  "setting_fits u d (Ioc_K_SET_INTERFACE r) = setting_known u d r"
| "setting_fits u d (Ioc_SET_INTERFACE r) = setting_known u d (by_number r)"
| "setting_fits u d _ = True"

lemma set_interface_wf: "device_wf d \<Longrightarrow> setting_known u d r \<Longrightarrow> device_wf (snd (Interface_SetAltSetting u d r))"
  using set_alt_setting_wf [of d u r] by (auto simp: setting_known_def) (metis surjective_pairing)

lemma with_output_wf:
  "with_output n out d x = Some (a, d') \<Longrightarrow> device_wf d \<Longrightarrow> (x = Some (a, d') \<Longrightarrow> device_wf d') \<Longrightarrow> device_wf d'"
  by (auto simp: with_output_def split: if_splits)

lemma interface_answer_state: "interface_answer out r x = Some (a, d') \<Longrightarrow> d' = snd x"
  by (auto simp: interface_answer_def split: prod.splits sum.splits if_splits)

lemma interface_ioctl_wf:
  assumes "device_wf d" "interface_ioctl e d file c out = Some (a, d')" "setting_fits (usb_interface.truncate e) d c"
  shows "device_wf d'"
  using assms claim_wf release_wf release_all_wf set_interface_wf
  by (cases c) (fastforce simp: interface_ioctl_def Let_def split_def split: sum.splits prod.splits elim!: with_output_wf dest: interface_answer_state)+

lemma power_frame:
  "Policy_InitPower e d = (s, acc, d') \<Longrightarrow> PipeContextByID d' = PipeContextByID d \<and> InterfaceContexts d' = InterfaceContexts d"
  by (auto simp: Policy_InitPower_def Let_def split: if_splits)

lemma set_power_frame:
  "Policy_SetPower e d t value len = Some (s, acc, d') \<Longrightarrow> PipeContextByID d' = PipeContextByID d \<and> InterfaceContexts d' = InterfaceContexts d"
  by (auto simp: Policy_SetPower_def Let_def split: if_splits prod.splits elim!: bind_SomeE dest!: power_frame)

lemma set_pipe_wf: "device_wf d \<Longrightarrow> Policy_SetPipe d p t value len = Some (s, d') \<Longrightarrow> device_wf d'"
  unfolding Policy_SetPipe_def Let_def
  by (auto split: if_split_asm elim!: bind_SomeE intro!: device_wf_keeps GetPipeContextByID_less dest: keeps_pipe_policy)

lemma policy_ioctl_wf:
  assumes "device_wf d" "policy_ioctl e d c data out = Some (a, d')"
  shows "device_wf d'"
proof -
  have "d' = d \<or> (\<exists>p t s. Policy_SetPipe d p t data (word_of_nat (length data)) = Some (s, d'))
      \<or> (\<exists>t s acc. Policy_SetPower (Power e) d t data (word_of_nat (length data)) = Some (s, acc, d'))"
    using assms(2) unfolding policy_ioctl_def Let_def with_output_def
    by (cases c) (auto split: if_split_asm option.splits elim!: bind_SomeE)
  then show ?thesis using assms(1) set_pipe_wf set_power_frame device_wf_cong by metis
qed

lemma reset_wf: "device_wf d \<Longrightarrow> device_wf (snd (Pipe_Reset s d p))"
proof -
  assume wf: "device_wf d"
  have "keeps_pipe pc (Queue_update (map_option (\<lambda>q. q\<lparr>IsFreshPipeReset := True\<rparr>)) pc)" for pc
    by (rule keeps_pipe_queue_update) simp
  with wf show ?thesis by (simp add: Pipe_Reset_def Let_def device_wf_keeps GetPipeContextByID_less)
qed

lemma all_pipes_listed: "set (concat (map interface_pipes (InterfaceContexts d))) = listed d"
proof -
  have "set (InterfaceContexts d) = (\<lambda>i. InterfaceContexts d ! i) ` {..<length (InterfaceContexts d)}"
    by (auto simp: in_set_conv_nth)
  then show ?thesis by (simp add: listed_def pipes_of_def)
qed

lemma reset_device_wf: "device_wf d \<Longrightarrow> Device_Reset e c r d = Some (s, d') \<Longrightarrow> device_wf d'"
proof -
  assume wf: "device_wf d" and r: "Device_Reset e c r d = Some (s, d')"
  obtain d1 where d1: "Pipe_StopAll d = Some d1" and d': "d' = Pipe_StartAll e True d1"
    using r by (auto simp: Device_Reset_def elim!: bind_SomeE)
  have s: "d1 = fold (\<lambda>k. upd_pipe k (\<lambda>pc. snd (Pipe_Stop True pc))) (concat (map interface_pipes (InterfaceContexts d))) d"
    using d1 by (simp add: Pipe_StopAll_def split: if_splits)
  have "device_wf d1" unfolding s using listed_less [OF wf] keeps_pipe_stop
    by (intro device_wf_fold [OF wf]) (simp_all only: all_pipes_listed)
  moreover have "InterfaceContexts d1 = InterfaceContexts d" unfolding s by (simp add: fold_upd_pipe)
  ultimately show ?thesis unfolding d' Pipe_StartAll_def using all_pipes_listed [of d1] by (intro device_wf_fold_start) auto
qed

lemma other_ioctl_wf:
  assumes "device_wf d" "other_ioctl e d c out = Some (a, d')"
  shows "device_wf d'"
proof -
  have "d' = d \<or> (\<exists>s p. d' = snd (Pipe_Reset s d p)) \<or> (\<exists>s. Device_Reset e (ConnectedStatus e) (ResetPortStatus e) d = Some (s, d'))
      \<or> (\<exists>p. d' = upd_pipe (GetPipeContextByID p) (\<lambda>_. snd (flush_pipe e (PipeContextByID d ! GetPipeContextByID p))) d)"
    using assms(2) unfolding other_ioctl_def Let_def with_output_def
    by (cases c) (auto split: if_split_asm option.splits prod.splits elim!: bind_SomeE; metis snd_conv)+
  then show ?thesis
  proof (elim disjE exE)
    fix p assume "d' = upd_pipe (GetPipeContextByID p) (\<lambda>_. snd (flush_pipe e (PipeContextByID d ! GetPipeContextByID p))) d"
    then show ?thesis by (simp add: device_wf_keeps [OF assms(1) GetPipeContextByID_less] keeps_pipe_flush)
  qed (use assms(1) reset_wf reset_device_wf in auto)
qed

lemma ioctl_wf:
  assumes "device_wf d" "DefaultQueue_OnIoControl e d file request timeout c data out = Some (a, d')"
    and "setting_fits (usb_interface.truncate e) d c"
  shows "device_wf d'"
  using assms(2) forwarded_ioctl_wf [OF assms(1)] interface_ioctl_wf [OF assms(1) _ assms(3)] policy_ioctl_wf [OF assms(1)] other_ioctl_wf [OF assms(1)]
  unfolding DefaultQueue_OnIoControl_def by (auto split: if_split_asm)

section \<open>The configured device\<close>

lemma zero_interface_props [simp]:
  "interface_pipes (zero_interface\<lparr>InterfaceIndex := x, Interface := h\<rparr>) = []" "interface_pipes zero_interface = []"
  "slots_ok zero_interface" "length (PipeContextByIndex zero_interface) = 32" "PipeCount zero_interface = 0"
  by (simp_all add: zero_interface_def interface_pipes_def slots_ok_def)

text \<open>The pipes of the interfaces are real endpoints, each of its own.\<close>

fun interfaces_ok :: "(addr \<times> usb_interface) list \<Rightarrow> bool" where
  "interfaces_ok [] = True"
| "interfaces_ok ((h, u) # us) \<longleftrightarrow> usb_ok u \<and> (\<forall>(g, v) \<in> set us. slots_of u \<inter> slots_of v = {}) \<and> interfaces_ok us"

lemma configure_interfaces_wf:
  assumes "device_wf d" "interfaces_ok us" "i + length us = length (InterfaceContexts d)"
    and "\<forall>j. i \<le> j \<and> j < length (InterfaceContexts d) \<longrightarrow> InterfaceContexts d ! j = zero_interface"
    and "\<forall>(h, u) \<in> set us. slots_of u \<inter> listed d = {}"
    and "configure_interfaces i us d = (s, d')" "NT_SUCCESS s"
  shows "device_wf d'"
  using assms
proof (induction i us d rule: configure_interfaces.induct)
  case (2 i h u us d)
  let ?f = "\<lambda>ic. ic\<lparr>InterfaceIndex := word_of_nat i, Interface := h\<rparr>"
  let ?d = "upd_interface i ?f d"
  obtain t d1 where it: "Interface_InitContext u i ?d = (t, d1)" by fastforce
  have i: "i < length (InterfaceContexts d)" "InterfaceContexts d ! i = zero_interface" using 2 by simp_all
  have ok: "NT_SUCCESS t" using "2.prems"(6,7) it by (auto simp: Let_def split: if_splits)
  have conf: "configure_interfaces (i + 1) us (Interface_Start (pipe_env.truncate u) (InterfaceContexts d1 ! i) d1) = (s, d')"
    using "2.prems"(6) it ok by (simp add: Let_def)
  have h: "h \<noteq> 0" using it ok i by (auto simp: Interface_InitContext_def NT_SUCCESS_def split: if_splits)
  have wf: "device_wf ?d" using "2.prems"(1) by (rule device_wf_upd_interface) simp_all
  have p: "pipes_of ?d = pipes_of d" "pipes_of ?d i = {}" using i by (auto simp: pipes_of_def fun_eq_iff)
  have l: "listed ?d = listed d" by (simp add: listed_def p)
  have ini: "device_wf d1 \<and> InterfaceContexts d1 = (InterfaceContexts ?d)[i := set_interface u (InterfaceContexts ?d ! i)]
    \<and> pipes_of d1 i \<subseteq> slots_of u \<and> listed d1 \<subseteq> listed ?d \<union> slots_of u"
    by (rule init_wf [OF wf _ p(2) _ _ _ _ it]) (use i h 2 l in simp_all)
  let ?d2 = "Interface_Start (pipe_env.truncate u) (InterfaceContexts d1 ! i) d1"
  have i1: "i < length (InterfaceContexts d1)" using ini i by simp
  note st = start_wf [OF conjunct1 [OF ini] i1, of "pipe_env.truncate u"]
  have ic2: "InterfaceContexts ?d2 = (InterfaceContexts d)[i := set_interface u (InterfaceContexts ?d ! i)]"
    using st(2) ini by (simp add: upd_interface_def)
  have l2: "listed ?d2 = listed d1" using st(2) by (simp add: listed_def pipes_of_def)
  have "\<forall>(g, v) \<in> set us. slots_of v \<inter> listed ?d2 = {}"
    using "2.prems"(2,5) ini l l2 by fastforce
  moreover have "\<forall>j. i + 1 \<le> j \<and> j < length (InterfaceContexts ?d2) \<longrightarrow> InterfaceContexts ?d2 ! j = zero_interface"
    using "2.prems"(4) by (simp add: ic2)
  ultimately show ?case
    using "2.IH" [OF it [symmetric] refl _ st(1)] ok "2.prems"(2,3,7) conf ic2 by simp
qed auto

text \<open>A device that was configured from zeroed contexts.\<close>

definition configured :: "config_env \<Rightarrow> device_context \<Rightarrow> bool" where
  "configured e d \<longleftrightarrow> interfaces_ok (Interfaces e) \<and> (\<exists>d0 s. PipeContextByID d0 = replicate 32 zero_pipe
     \<and> Device_Configure e d0 = Some (s, d) \<and> NT_SUCCESS s)"

lemma configured_wf:
  assumes "configured e d"
  shows "device_wf d"
proof -
  obtain d0 s where d0: "PipeContextByID d0 = replicate 32 zero_pipe" "Device_Configure e d0 = Some (s, d)" "NT_SUCCESS s" "interfaces_ok (Interfaces e)"
    using assms by (auto simp: configured_def)
  let ?n = "length (Interfaces e)"
  let ?d = "d0\<lparr>InterfaceContexts := replicate ?n zero_interface\<rparr>"
  obtain t d1 where df: "Pipe_InitDefaultContext (pipe_env.truncate e) ?d = (t, d1)" by fastforce
  have conf: "configure_interfaces 0 (Interfaces e) d1 = (s, d)"
    using d0(2,3) df by (auto simp: Device_Configure_def Let_def NT_SUCCESS_def split: if_splits)
  have wf: "device_wf ?d"
    using d0(1) by (auto simp: device_wf_def listed_def pipes_of_def zero_pipe_def pipe_ok_def)
  let ?info = "\<lambda>pc. (PipeInformation pc)\<lparr>MaximumPacketSize := ucast (bMaxPacketSize0 d0), MaximumTransferSize := 4096,
                   EndpointAddress := 0, PipeType := PipeTypeControl\<rparr>"
  let ?pc0 = "Policy_InitPipe ?d zero_pipe"
  let ?pc = "?pc0\<lparr>Pipe := 0, Queue := None, PipeInformation := ?info ?pc0, TimeoutPolicy := 5000\<rparr>"
  have v: "IsValid ?pc0 = False" by (simp add: Policy_InitPipe_def zero_pipe_def Let_def)
  then have "pipe_ok ?pc" "\<not> IsValid ?pc" by (simp_all add: pipe_ok_def)
  then have ok: "pipe_ok (snd (Pipe_InitContext (pipe_env.truncate e) False ?pc))"
    using start_ok [of ?pc "pipe_env.truncate e" False] by (simp add: Pipe_Start_def)
  have z: "GetPipeContextByID 0 = 0" by (simp add: GetPipeContextByID_def)
  have d1: "d1 = upd_pipe 0 (\<lambda>_. snd (Pipe_InitContext (pipe_env.truncate e) False ?pc)) ?d"
    using df d0(1) by (simp add: Pipe_InitDefaultContext_def Let_def z split_def)
  have "device_wf d1"
    using ok d0(1) wf unfolding d1 by (auto simp: device_wf_def upd_pipe_nth listed_def pipes_of_def)
  then show ?thesis
  proof (rule configure_interfaces_wf [OF _ d0(4) _ _ _ conf d0(3)])
    show "0 + length (Interfaces e) = length (InterfaceContexts d1)" by (simp add: d1)
    show "\<forall>j. 0 \<le> j \<and> j < length (InterfaceContexts d1) \<longrightarrow> InterfaceContexts d1 ! j = zero_interface" by (simp add: d1)
    have "listed d1 = {}" by (auto simp: d1 listed_def pipes_of_def)
    then show "\<forall>(h, u) \<in> set (Interfaces e). slots_of u \<inter> listed d1 = {}" by auto
  qed
qed

section \<open>Reachable states\<close>

text \<open>
  The steps of the driver: a control code, a read or write of a file, progress of a transfer, the exit
  from the working power state, and the end of a file. Transfers change the queue that they run on.
\<close>

inductive driver_step :: "device_context \<Rightarrow> device_context \<Rightarrow> bool" where
  step_ioctl: "DefaultQueue_OnIoControl e d file request timeout c data out = Some (a, d')
    \<Longrightarrow> setting_fits (usb_interface.truncate e) d c \<Longrightarrow> driver_step d d'"
| step_read: "DefaultQueue_OnRead e d f request len = (x, d') \<Longrightarrow> driver_step d d'"
| step_write: "DefaultQueue_OnWrite e d f request len = (x, d') \<Longrightarrow> driver_step d d'"
| step_transfer: "k < 32 \<Longrightarrow> Queue (PipeContextByID d ! k) = Some q \<Longrightarrow> keeps_queue q q'
    \<Longrightarrow> driver_step d (upd_pipe k (\<lambda>pc. pc\<lparr>Queue := Some q'\<rparr>) d)"
| step_suspend: "driver_step d (Device_OnD0Exit d)"
| step_close: "driver_step d (Device_OnFileClose d file)"

inductive driver_reachable :: "device_context \<Rightarrow> bool" where
  reach_configured: "configured e d \<Longrightarrow> driver_reachable d"
| reach_step: "driver_reachable d \<Longrightarrow> driver_step d d' \<Longrightarrow> driver_reachable d'"

lemma file_transfer_wf: "device_wf d \<Longrightarrow> file_transfer b e d f request len = (x, d') \<Longrightarrow> device_wf d'"
  using forward_wf by (auto simp: file_transfer_def Let_def split: if_splits)

lemma driver_step_wf: "driver_step d d' \<Longrightarrow> device_wf d \<Longrightarrow> device_wf d'"
proof (induction rule: driver_step.induct)
  case (step_transfer k d q q')
  have "keeps_pipe (PipeContextByID d ! k) ((PipeContextByID d ! k)\<lparr>Queue := Some q'\<rparr>)"
    using step_transfer queue_fits_keeps queue_fits_cong [of "PipeContextByID d ! k" q' "(PipeContextByID d ! k)\<lparr>Queue := Some q'\<rparr>"]
    by (auto simp: keeps_pipe_def pipe_ok_def)
  with step_transfer show ?case by (intro device_wf_keeps) simp_all
next
  case (step_suspend d)
  have "keeps_pipe pc (mark_for_resume pc)" for pc
    unfolding mark_for_resume_def by (auto intro: keeps_pipe_queue)
  with step_suspend show ?case unfolding Device_OnD0Exit_def by (intro device_wf_fold) auto
qed (auto simp: DefaultQueue_OnRead_def DefaultQueue_OnWrite_def Device_OnFileClose_def intro: ioctl_wf file_transfer_wf release_all_wf)

lemma reachable_wf: "driver_reachable d \<Longrightarrow> device_wf d"
  by (induction rule: driver_reachable.induct) (auto intro: configured_wf driver_step_wf)

end
