(* ===== verification/Drv_Requests.thy ===== *)
theory Drv_Requests
  imports Drv_Invariant
begin

text \<open>
  What the invariant of the driver gives for its requests, how requests are completed, and what an
  accepted alternate setting does.
\<close>

section \<open>Forwarded requests\<close>

lemma init_queue_success:
  assumes "Pipe_InitQueue e pc = (s, q)" "NT_SUCCESS s"
  shows "\<exists>q'. q = Some q' \<and> Requests q' = [] \<and> leftover q' = []"
proof -
  let ?new = "new_queue (Pipe_InitQueueConfig e pc) pc"
  have n: "Requests ?new = []" "OverOfs ?new = \<lparr>BufferOffset = 0, BufferLength = 0\<rparr>" by (simp_all add: new_queue_def)
  have "\<exists>b. q = Some (?new\<lparr>OverBuf := b\<rparr>) \<or> q = Some ?new"
    using assms unfolding Pipe_InitQueue_def Let_def by (auto split: if_split_asm)
  with n show ?thesis by (auto simp: leftover_def)
qed

lemma refresh_success:
  assumes "Pipe_RefreshQueue e pc = (s, pc')" "NT_SUCCESS s" "IsValid pc" "Queue pc = Some q"
  shows "IsValid pc' \<and> PipeInformation pc' = PipeInformation pc
    \<and> (if EndpointAddress (PipeInformation pc) AND 0xF \<noteq> 0 then \<not> IsQueueDirty pc' else IsQueueDirty pc' = IsQueueDirty pc)
    \<and> (\<exists>q'. Queue pc' = Some q' \<and> Requests q' = [])"
proof -
  let ?pc = "pc\<lparr>IsValid := False, Queue := Some (q\<lparr>Requests := []\<rparr>)\<rparr>"
  have i: "Pipe_InitContext e False ?pc = (s, pc')"
    using assms(1,3,4) by (simp add: Pipe_RefreshQueue_def Pipe_Stop_def Pipe_Start_def NT_SUCCESS_def)
  have h: "\<not> (Pipe ?pc = 0 \<and> PipeType (PipeInformation ?pc) \<noteq> PipeTypeControl)"
  proof
    assume "Pipe ?pc = 0 \<and> PipeType (PipeInformation ?pc) \<noteq> PipeTypeControl"
    then have "Pipe_InitContext e False ?pc = (STATUS_INVALID_HANDLE, ?pc)" by (simp add: Pipe_InitContext_def Let_def)
    with i assms(2) show False by (simp add: NT_SUCCESS_def)
  qed
  show ?thesis
  proof (cases "EndpointAddress (PipeInformation pc) AND 0xF \<noteq> 0 \<and> IsQueueDirty pc")
    case True
    obtain t q1 where q1: "Pipe_InitQueue e (?pc\<lparr>IsQueueDirty := False\<rparr>) = (t, q1)" by fastforce
    have t: "NT_SUCCESS t" using i h True q1 assms(2) by (auto simp: Pipe_InitContext_def Let_def split: if_splits)
    then have "pc' = ?pc\<lparr>IsQueueDirty := False, Queue := q1, IsValid := True\<rparr>"
      using i h True q1 by (auto simp: Pipe_InitContext_def Let_def)
    with init_queue_success [OF q1 t] True show ?thesis by auto
  next
    case False
    then have "pc' = ?pc\<lparr>IsValid := True\<rparr>"
      using i h by (auto simp: Pipe_InitContext_def Let_def NT_SUCCESS_def split: if_splits)
    with False show ?thesis by auto
  qed
qed

lemma forward_success:
  assumes "mRequest_InitAndForwardToQueue e d request ty actual len timeout p = (Inr r, d')" "length (PipeContextByID d) = 32"
  defines "k \<equiv> GetPipeContextByID p"
  obtains pc q where "IsValid (PipeContextByID d ! k)" "IsValid pc" "Queue pc = Some q" "Req_Policies r = Policies pc" "HasQueueContext r"
    "PipeInformation pc = PipeInformation (PipeContextByID d ! k)"
    "if IsQueueDirty (PipeContextByID d ! k)
     then Requests q = [] \<and> (if EndpointAddress (PipeInformation pc) AND 0xF \<noteq> 0 then \<not> IsQueueDirty pc else IsQueueDirty pc)
     else pc = PipeContextByID d ! k"
    "PipeContextByID d' ! k = pc\<lparr>Queue := Some (q\<lparr>Requests := Requests q @ [request]\<rparr>)\<rparr>"
proof -
  let ?pc = "PipeContextByID d ! k"
  obtain s pc where sp: "(if IsQueueDirty ?pc then Pipe_RefreshQueue e ?pc else (STATUS_SUCCESS, ?pc)) = (s, pc)" by fastforce
  obtain q0 where v: "IsValid ?pc" "Queue ?pc = Some q0" and s: "NT_SUCCESS s"
    and r: "Req_Policies r = Policies pc" "HasQueueContext r"
    and d': "d' = upd_pipe k (Queue_update (map_option (\<lambda>q. q\<lparr>Requests := Requests q @ [request]\<rparr>))) (upd_pipe k (\<lambda>_. pc) d)"
    using assms(1) sp unfolding mRequest_InitAndForwardToQueue_def k_def [symmetric] by (auto simp: Let_def split: if_split_asm)
  have k: "k < 32" by (simp add: k_def GetPipeContextByID_less)
  obtain q where q: "Queue pc = Some q" "IsValid pc" "PipeInformation pc = PipeInformation ?pc"
    "if IsQueueDirty ?pc
     then Requests q = [] \<and> (if EndpointAddress (PipeInformation pc) AND 0xF \<noteq> 0 then \<not> IsQueueDirty pc else IsQueueDirty pc)
     else pc = ?pc"
  proof (cases "IsQueueDirty ?pc")
    case True
    then have "Pipe_RefreshQueue e ?pc = (s, pc)" using sp by simp
    from refresh_success [OF this s v] True that show ?thesis by auto
  next
    case False
    then have "pc = ?pc" using sp by simp
    with False v show ?thesis by (intro that [of q0]) simp_all
  qed
  have "PipeContextByID d' ! k = Queue_update (map_option (\<lambda>q. q\<lparr>Requests := Requests q @ [request]\<rparr>)) pc"
    using k assms(2) by (simp add: d' upd_pipe_nth)
  then have "PipeContextByID d' ! k = pc\<lparr>Queue := Some (q\<lparr>Requests := Requests q @ [request]\<rparr>)\<rparr>"
    using q(1) by (cases pc) simp
  with q v r show thesis by (intro that) auto
qed

text \<open>The transfers that keep their state in the context of the queue.\<close>

definition buffered :: "transfer list \<Rightarrow> bool" where
  "buffered ts \<longleftrightarrow> StartReadBulk \<in> set ts \<or> StartWriteBulk \<in> set ts"

lemma buffered_bulk:
  assumes "buffered (PipeQueue_OnIoControl c (Some r) q) \<or> buffered (PipeQueue_OnRead (Some r) q) \<or> buffered (PipeQueue_OnWrite (Some r) q)"
  shows "PipeType (Info q) \<in> {PipeTypeBulk, PipeTypeInterrupt} \<and> \<not> raw r"
  using assms
  by (auto simp: buffered_def PipeQueue_OnIoControl_def PipeQueue_OnRead_def PipeQueue_OnWrite_def bulk_transfer_def iso_ex_transfer_of_def Let_def
      split: ioctl.splits if_split_asm)

text \<open>
  C8. Transfers that keep their state in the context of the queue run one at a time. In every state that
  the driver reaches, a request that is forwarded to a data pipe waits in the queue of the pipe as it is
  configured now, and when the queue starts a buffered transfer for it, by whatever event, the queue is
  sequential and its over-run buffer is in order.
\<close>

theorem buffered_transfers_one_at_a_time:
  assumes "driver_reachable d" "mRequest_InitAndForwardToQueue e d request ty actual len timeout p = (Inr r, d')"
    and "GetPipeContextByID p \<noteq> 0"
  shows "\<exists>q. Queue (PipeContextByID d' ! GetPipeContextByID p) = Some q \<and> request \<in> set (Requests q)
    \<and> Info q = PipeInformation (PipeContextByID d' ! GetPipeContextByID p)
    \<and> (\<forall>c. buffered (PipeQueue_OnIoControl c (Some r) q) \<or> buffered (PipeQueue_OnRead (Some r) q) \<or> buffered (PipeQueue_OnWrite (Some r) q)
        \<longrightarrow> DispatchType (Config q) = DispatchSequential \<and> (buffered_pipe (Info q) \<longrightarrow> queue_ok q))"
proof -
  let ?k = "GetPipeContextByID p"
  note wf = device_wfD [OF reachable_wf [OF assms(1)]]
  obtain pc q where v: "IsValid (PipeContextByID d ! ?k)" and q: "Queue pc = Some q" and r: "Req_Policies r = Policies pc"
    and i: "PipeInformation pc = PipeInformation (PipeContextByID d ! ?k)"
    and dirty: "if IsQueueDirty (PipeContextByID d ! ?k)
     then Requests q = [] \<and> (if EndpointAddress (PipeInformation pc) AND 0xF \<noteq> 0 then \<not> IsQueueDirty pc else IsQueueDirty pc)
     else pc = PipeContextByID d ! ?k"
    and d': "PipeContextByID d' ! ?k = pc\<lparr>Queue := Some (q\<lparr>Requests := Requests q @ [request]\<rparr>)\<rparr>"
    using forward_success [OF assms(2) wf(1)] by metis
  have "pipe_ok (PipeContextByID d ! ?k)" by (rule wf(4)) (rule GetPipeContextByID_less)
  with v have "Queue (PipeContextByID d ! ?k) \<noteq> None" by (simp add: pipe_ok_def)
  then have "?k \<in> listed d" using wf(6) [OF GetPipeContextByID_less assms(3)] by metis
  then have ep: "EndpointAddress (PipeInformation pc) AND 0xF \<noteq> 0" using wf(5) i by simp
  let ?q = "q\<lparr>Requests := Requests q @ [request]\<rparr>"
  have "device_wf d'" by (rule forward_wf [OF reachable_wf [OF assms(1)] assms(2)])
  then have "pipe_ok (PipeContextByID d' ! ?k)" by (rule device_wfD(4)) (rule GetPipeContextByID_less)
  then have fits: "queue_fits (pc\<lparr>Queue := Some ?q\<rparr>) ?q" using d' by (simp add: pipe_ok_def)
  have clean: "\<not> IsQueueDirty pc" using dirty ep by (simp split: if_split_asm)
  have "DispatchType (Config ?q) = DispatchSequential" if "PipeType (Info ?q) \<in> {PipeTypeBulk, PipeTypeInterrupt}" "\<not> raw r"
    using fits that clean r by (auto simp: queue_fits_def parallel_pipe_def) (metis queue_dispatch.exhaust)+
  moreover have "buffered_pipe (Info ?q) \<longrightarrow> queue_ok ?q" "Info ?q = PipeInformation pc" using fits by (simp_all add: queue_fits_def)
  ultimately show ?thesis using d' buffered_bulk [of _ r ?q] by (intro exI [of _ ?q]) auto
qed


section \<open>The control pipe\<close>

text \<open>Requests that are forwarded to the control pipe one after the other, all of them successfully.\<close>

fun forward_all :: "queue_env \<Rightarrow> device_context \<Rightarrow> nat list \<Rightarrow> device_context option" where
  "forward_all e d [] = Some d"
| "forward_all e d (r # rs) =
     (case mRequest_InitAndForwardToQueue e d r RequestTypeRead RequestTypeDeviceControl 0 0 0 of
        (Inl _, _) \<Rightarrow> None | (Inr _, d) \<Rightarrow> forward_all e d rs)"

lemma slot_0: "GetPipeContextByID 0 = 0"
  by (simp add: GetPipeContextByID_def)

lemma forward_control_dirty:
  assumes "mRequest_InitAndForwardToQueue e d request ty actual len timeout 0 = (Inr r, d')" "length (PipeContextByID d) = 32"
    and "IsQueueDirty (PipeContextByID d ! 0)" "EndpointAddress (PipeInformation (PipeContextByID d ! 0)) = 0"
  shows "IsQueueDirty (PipeContextByID d' ! 0) \<and> (\<exists>q. Queue (PipeContextByID d' ! 0) = Some q \<and> Requests q = [request])
    \<and> EndpointAddress (PipeInformation (PipeContextByID d' ! 0)) = 0 \<and> length (PipeContextByID d') = 32"
proof -
  obtain pc q where pc: "PipeInformation pc = PipeInformation (PipeContextByID d ! 0)"
    "if IsQueueDirty (PipeContextByID d ! 0)
     then Requests q = [] \<and> (if EndpointAddress (PipeInformation pc) AND 0xF \<noteq> 0 then \<not> IsQueueDirty pc else IsQueueDirty pc)
     else pc = PipeContextByID d ! 0"
    "PipeContextByID d' ! 0 = pc\<lparr>Queue := Some (q\<lparr>Requests := Requests q @ [request]\<rparr>)\<rparr>"
    using forward_success [OF assms(1,2)] slot_0 by metis
  have "length (PipeContextByID d') = 32"
    using assms(1,2) unfolding mRequest_InitAndForwardToQueue_def Let_def by (auto split: if_split_asm prod.splits)
  with pc assms(3,4) show ?thesis by simp
qed

lemma forward_all_dirty:
  assumes "forward_all e d rs = Some d'" "length (PipeContextByID d) = 32" "rs \<noteq> []"
    and "IsQueueDirty (PipeContextByID d ! 0)" "EndpointAddress (PipeInformation (PipeContextByID d ! 0)) = 0"
  shows "IsQueueDirty (PipeContextByID d' ! 0) \<and> (\<exists>q. Queue (PipeContextByID d' ! 0) = Some q \<and> Requests q = [last rs])"
  using assms
proof (induction rs arbitrary: d)
  case (Cons r rs)
  obtain c d1 where f: "mRequest_InitAndForwardToQueue e d r RequestTypeRead RequestTypeDeviceControl 0 0 0 = (Inr c, d1)"
    and rest: "forward_all e d1 rs = Some d'"
    using Cons.prems(1) by (auto split: prod.splits sum.splits)
  note n = forward_control_dirty [OF f Cons.prems(2,4,5)]
  show ?case
  proof (cases "rs = []")
    case True
    with rest n show ?thesis by simp
  next
    case False
    with Cons.IH [OF rest] n show ?thesis by simp
  qed
qed simp

text \<open>
  C30. The number of parallel requests can be set on the control pipe, whose queue is never created again.
  It stays marked from then on, and every request that is sent to it cancels all that wait in the queue.
\<close>

theorem control_queue_stays_dirty:
  assumes "Policy_SetPipe d 0 SIMUL_PARALLEL_REQUESTS value len = Some (s, d1)" "NT_SUCCESS s"
    and "le_read 4 value = Some x" "x \<noteq> SimulParallelRequests (PipeContextByID d ! 0)"
    and "length (PipeContextByID d) = 32" "EndpointAddress (PipeInformation (PipeContextByID d ! 0)) = 0"
    and "forward_all e d1 rs = Some d2" "rs \<noteq> []"
  shows "IsQueueDirty (PipeContextByID d2 ! 0) \<and> (\<exists>q. Queue (PipeContextByID d2 ! 0) = Some q \<and> Requests q = [last rs])"
proof (rule forward_all_dirty [OF assms(7) _ assms(8)])
  obtain pc where pc: "d1 = upd_pipe 0 (\<lambda>_. pc) d" "IsQueueDirty pc" "PipeInformation pc = PipeInformation (PipeContextByID d ! 0)"
    using assms(1-4) by (auto simp: Policy_SetPipe_def Let_def slot_0 set_pipe_switch_def set_parallel_requests_def NT_SUCCESS_def
        split: if_split_asm elim!: bind_SomeE)
  show "length (PipeContextByID d1) = 32" "IsQueueDirty (PipeContextByID d1 ! 0)"
    "EndpointAddress (PipeInformation (PipeContextByID d1 ! 0)) = 0"
    using pc assms(5,6) by (simp_all add: upd_pipe_nth)
qed

section \<open>Files and completions\<close>

text \<open>
  C32. A file that is opened by the name of a pipe cannot be read or written. The type of its pipe is never
  stored, so every read and write is refused and changes nothing.
\<close>

theorem pipe_file_refused:
  "DefaultQueue_OnRead e d (snd (Device_OnFileCreate d name)) request len = (Inl STATUS_INVALID_PARAMETER, d)
   \<and> DefaultQueue_OnWrite e d (snd (Device_OnFileCreate d name)) request len = (Inl STATUS_INVALID_PARAMETER, d)"
proof -
  have "FilePipeType (snd (Device_OnFileCreate d name)) = PipeTypeInvalid"
    by (simp add: Device_OnFileCreate_def Let_def split: option.split)
  then show ?thesis by (simp add: DefaultQueue_OnRead_def DefaultQueue_OnWrite_def file_transfer_def)
qed

text \<open>
  How often the queue of a pipe completes a request. A control code and a read start one transfer or
  complete the request, never both. A write to a bulk or interrupt pipe starts a transfer, which completes
  the request, and completes it as well.
\<close>

theorem queue_completions:
  "length (PipeQueue_OnIoControl c rc q) = 1 \<and> length (PipeQueue_OnRead rc q) = 1
   \<and> length (PipeQueue_OnWrite rc q) =
      (if NT_SUCCESS (VALIDATE_REQUEST_CONTEXT rc) \<and> PipeHandle q \<noteq> 0 \<and> PipeType (Info q) \<in> {PipeTypeBulk, PipeTypeInterrupt}
          \<and> \<not> endpoint_in (EndpointAddress (Info q)) then 2 else 1)"
  by (auto simp: PipeQueue_OnIoControl_def PipeQueue_OnRead_def PipeQueue_OnWrite_def iso_ex_transfer_of_def Let_def split: ioctl.split)

section \<open>An accepted setting\<close>

lemma start_fresh:
  assumes "Queue pc = None" "\<not> IsValid pc" "Pipe pc \<noteq> 0"
    and "\<And>a. NT_SUCCESS (QueueCreateStatus e a)" "\<And>a. NT_SUCCESS (MemoryCreateStatus e a)"
  shows "\<exists>q. snd (Pipe_Start e False pc) = pc\<lparr>IsQueueDirty := False, Queue := Some q, IsValid := True\<rparr> \<and> Requests q = [] \<and> leftover q = []"
proof -
  obtain s q where q: "Pipe_InitQueue e (pc\<lparr>IsQueueDirty := False\<rparr>) = (s, q)" by fastforce
  have s: "NT_SUCCESS s" using q assms(4,5) by (auto simp: Pipe_InitQueue_def Let_def split: if_split_asm)
  then have "snd (Pipe_Start e False pc) = pc\<lparr>IsQueueDirty := False, Queue := q, IsValid := True\<rparr>"
    using assms(1-3) q by (simp add: Pipe_Start_def Pipe_InitContext_def Let_def)
  with init_queue_success [OF q s] show ?thesis by auto
qed

lemma stop_queue_none: "IsValid (snd (Pipe_Stop b pc)) = False" "PipeInformation (snd (Pipe_Stop b pc)) = PipeInformation pc"
  by (simp_all add: Pipe_Stop_def)

text \<open>The state behind an accepted setting: each pipe of it comes from a context without queue.\<close>

definition cleared :: "interface_context \<Rightarrow> device_context \<Rightarrow> nat \<Rightarrow> pipe_context" where
  "cleared ic d j = (if j \<in> set (interface_pipes ic) then (snd (Pipe_Stop True (PipeContextByID d ! j)))\<lparr>Queue := None, Pipe := 0\<rparr>
     else PipeContextByID d ! j)"

lemma accepted_state:
  assumes "device_wf d" "GetInterfaceContextFromRequest d r = Inr i" "Interface (InterfaceContexts d ! i) \<noteq> 0"
    and "GetInterfaceAltSettingIndexFromRequest u r = Inr k" "SettingIndex (InterfaceContexts d ! i) \<noteq> k"
    and "NT_SUCCESS (SelectStatus u)" "usb_ok u" "slots_of u \<inter> others d i = {}" "\<forall>p \<in> set (ConfiguredPipes u). fst p \<noteq> 0"
  shows "\<exists>d' xs. Interface_SetAltSetting u d r = (STATUS_SUCCESS, d') \<and> i < length (InterfaceContexts d) \<and> length xs = 32
    \<and> InterfaceContexts d' = (InterfaceContexts d)[i := set_interface u ((InterfaceContexts d ! i)\<lparr>PipeContextByIndex := xs\<rparr>)]
    \<and> (\<forall>j. PipeContextByID d' ! j = (case map_of (map (\<lambda>p. (endpoint_slot p, init_pipe d p)) (ConfiguredPipes u)) j of
          None \<Rightarrow> cleared (InterfaceContexts d ! i) d j
        | Some g \<Rightarrow> snd (Pipe_Start (pipe_env.truncate u) False (g (cleared (InterfaceContexts d ! i) d j)))))
    \<and> (\<forall>p \<in> set (ConfiguredPipes u). Queue (cleared (InterfaceContexts d ! i) d (endpoint_slot p)) = None
        \<and> \<not> IsValid (cleared (InterfaceContexts d ! i) d (endpoint_slot p)))"
proof -
  let ?ic = "InterfaceContexts d ! i" and ?f = "\<lambda>ic. ic\<lparr>SettingIndex := ConfiguredSetting u\<rparr>" and ?e = "pipe_env.truncate u"
  let ?ks = "interface_pipes ?ic" and ?js = "map endpoint_slot (ConfiguredPipes u)"
  have i: "i < length (InterfaceContexts d)"
    using assms(2) by (auto simp: GetInterfaceContextFromRequest_def Interface_GetContextByIndex_def Interface_GetContextByNumber_def find_Some_iff
        split: if_splits option.splits)
  note wf = device_wfD [OF assms(1)]
  have sl: "slots_ok ?ic" by (rule wf(2) [OF nth_mem [OF i]])
  let ?d1 = "Interface_Stop ?ic d"
  note s1 = stop_wf [OF assms(1) i]
  have ks: "set ?ks \<subseteq> {..<32}" using interface_pipes_listed [OF i] listed_less [OF assms(1)] by blast
  have pc1: "PipeContextByID ?d1 ! j = (if j \<in> set ?ks then snd (Pipe_Stop True (PipeContextByID d ! j)) else PipeContextByID d ! j)" for j
    unfolding Interface_Stop_def using sl ks wf(1) by (subst update_pipes_all) (auto simp: slots_ok_def)
  let ?d2 = "upd_interface i ?f ?d1"
  have wf2: "device_wf ?d2" using s1 by (intro device_wf_upd_interface) simp_all
  have ic2: "InterfaceContexts ?d2 = (InterfaceContexts d)[i := ?f ?ic]" using s1 by (simp add: upd_interface_def)
  have p2: "pipes_of ?d2 = pipes_of d" using i by (auto simp: pipes_of_def ic2 interface_pipes_def fun_eq_iff nth_list_update)
  have i2: "i < length (InterfaceContexts ?d2)" using i ic2 by simp
  have inv: "\<forall>k \<in> pipes_of ?d2 i. \<not> IsValid (PipeContextByID ?d2 ! k)" using s1 p2 by simp
  let ?d3 = "Interface_DeletePipesAndQueues i ?d2"
  note del = delete_wf [OF wf2 i2 inv]
  obtain xs where xs: "length xs = 32" "InterfaceContexts ?d3 = (InterfaceContexts ?d2)[i := (InterfaceContexts ?d2 ! i)\<lparr>PipeContextByIndex := xs, PipeCount := 0\<rparr>]"
    using del by blast
  have d3: "device_wf ?d3" "listed ?d3 = listed ?d2 - pipes_of ?d2 i"
    "\<And>j. PipeContextByID ?d3 ! j = (if j \<in> pipes_of ?d2 i then (PipeContextByID ?d2 ! j)\<lparr>Queue := None, Pipe := 0\<rparr> else PipeContextByID ?d2 ! j)"
    using del by simp_all
  have l3: "listed ?d3 = others d i"
  proof -
    have "listed ?d2 = listed d" by (simp add: listed_def p2 ic2)
    then show ?thesis unfolding d3(2) p2 using listed_others [OF i] others_disjoint [OF assms(1) i] by blast
  qed
  have pc3: "PipeContextByID ?d3 ! j = cleared ?ic d j" for j
    unfolding d3(3) p2 by (simp add: pipes_of_def pc1 cleared_def)
  have ic3: "InterfaceContexts ?d3 = (InterfaceContexts d)[i := (?f ?ic)\<lparr>PipeContextByIndex := xs, PipeCount := 0\<rparr>]"
    using xs(2) i by (simp add: ic2)
  have us: "usable_pipes u = ConfiguredPipes u" using assms(9) by (simp add: usable_pipes_def)
  have le: "length (ConfiguredPipes u) \<le> 32" using assms(7) by (simp add: usb_ok_def)
  have sp: "init_pipe ?d3 = init_pipe d"
    by (rule init_pipe_cong) (simp add: Interface_DeletePipesAndQueues_def Interface_Stop_def fold_upd_pipe Let_def)
  let ?us = "map (\<lambda>p. (endpoint_slot p, init_pipe d p)) (ConfiguredPipes u)"
  let ?d4 = "upd_interface i (set_interface u) (update_pipes ?us ?d3)"
  have it: "Interface_InitContext u i ?d3 = (STATUS_SUCCESS, ?d4)"
    using interface_init_state [OF le, of ?d3 i] assms(3) xs(1) i us by (simp add: ic3 sp)
  have ic4: "InterfaceContexts ?d4 = (InterfaceContexts ?d3)[i := set_interface u (InterfaceContexts ?d3 ! i)]" by (simp add: upd_interface_def)
  have ip4: "interface_pipes (InterfaceContexts ?d4 ! i) = ?js"
    using interface_pipes_set_interface(1) [of "InterfaceContexts ?d3 ! i" u] i le us xs(1) by (simp add: ic4) (simp add: ic3)
  let ?d5 = "Interface_Start ?e (InterfaceContexts ?d4 ! i) ?d4"
  have run: "Interface_SetAltSetting u d r = (STATUS_SUCCESS, ?d5)"
    using assms(2-6) it by (simp add: Interface_SetAltSetting_def Let_def NT_SUCCESS_def)
  have slot: "endpoint_slot p \<noteq> 0 \<and> endpoint_slot p < 32" if "p \<in> set (ConfiguredPipes u)" for p
    using that assms(7) endpoint_slot_pos GetPipeContextByID_less by (auto simp: usb_ok_def)
  have len: "length (PipeContextByID ?d3) = 32" by (rule device_wfD(1) [OF d3(1)])
  have dist: "distinct ?js" using assms(7) by (simp add: usb_ok_def)
  have pc4: "PipeContextByID ?d4 ! j = (case map_of ?us j of None \<Rightarrow> PipeContextByID ?d3 ! j | Some g \<Rightarrow> g (PipeContextByID ?d3 ! j))" for j
    unfolding upd_interface_frame using dist slot len by (intro update_pipes_nth) (auto simp: o_def)
  have mem: "map_of ?us j \<noteq> None \<longleftrightarrow> j \<in> slots_of u" for j by (simp add: map_of_eq_None_iff image_image slots_of_def)
  have started: "PipeContextByID ?d5 ! j = (if j \<in> set ?js then snd (Pipe_Start ?e False (PipeContextByID ?d4 ! j)) else PipeContextByID ?d4 ! j)" for j
    unfolding Interface_Start_def ip4 using dist slot len by (subst update_pipes_all) auto
  have pc5: "PipeContextByID ?d5 ! j = (case map_of ?us j of None \<Rightarrow> cleared ?ic d j | Some g \<Rightarrow> snd (Pipe_Start ?e False (g (cleared ?ic d j))))" for j
  proof (cases "map_of ?us j")
    case None
    then have "j \<notin> set ?js" using mem [of j] by (simp add: slots_of_def)
    then show ?thesis unfolding started pc4 pc3 None by (simp only: if_False option.case)
  next
    case (Some g)
    then have "j \<in> set ?js" using mem [of j] by (simp add: slots_of_def)
    then show ?thesis unfolding started pc4 pc3 Some by (simp only: if_True option.case)
  qed
  have free: "Queue (cleared ?ic d (endpoint_slot p)) = None \<and> \<not> IsValid (cleared ?ic d (endpoint_slot p))" if p: "p \<in> set (ConfiguredPipes u)" for p
  proof -
    have "endpoint_slot p \<notin> listed ?d3" using assms(8) l3 p by (auto simp: slots_of_def)
    then show ?thesis using device_wfD(4,6) [OF d3(1), of "endpoint_slot p"] slot [OF p] by (simp add: pipe_ok_def pc3)
  qed
  have "set_interface u (InterfaceContexts ?d3 ! i) = set_interface u (?ic\<lparr>PipeContextByIndex := xs\<rparr>)"
    using i by (simp add: ic3 set_interface_def)
  then have ic5: "InterfaceContexts ?d5 = (InterfaceContexts d)[i := set_interface u (?ic\<lparr>PipeContextByIndex := xs\<rparr>)]"
    using ic4 by (simp add: Interface_Start_def fold_upd_pipe ic3)
  show ?thesis by (intro exI [of _ ?d5] exI [of _ xs] conjI run i xs(1) ic5) (simp_all add: pc5 free)
qed

text \<open>
  C14. An accepted alternate setting. The interface shows the setting and its pipes. Each of them is valid,
  has the handle and the description of the setting, with a transfer size that the driver allows, and a
  new empty queue. Pipes that only the old setting had lose handle and queue, and all other pipes and
  interfaces are untouched.
\<close>

theorem accepted_setting:
  assumes "device_wf d" "GetInterfaceContextFromRequest d r = Inr i" "Interface (InterfaceContexts d ! i) \<noteq> 0"
    and "GetInterfaceAltSettingIndexFromRequest u r = Inr k" "SettingIndex (InterfaceContexts d ! i) \<noteq> k"
    and "NT_SUCCESS (SelectStatus u)" "ConfiguredSetting u = k" "usb_ok u" "slots_of u \<inter> others d i = {}"
    and "\<forall>p \<in> set (ConfiguredPipes u). fst p \<noteq> 0"
    and "\<And>a. NT_SUCCESS (QueueCreateStatus u a)" "\<And>a. NT_SUCCESS (MemoryCreateStatus u a)"
  shows "\<exists>d'. Interface_SetAltSetting u d r = (STATUS_SUCCESS, d')
    \<and> SettingIndex (InterfaceContexts d' ! i) = k \<and> bAlternateSetting (InterfaceContexts d' ! i) = AltNumbers u ! unat k
    \<and> interface_pipes (InterfaceContexts d' ! i) = map endpoint_slot (ConfiguredPipes u)
    \<and> (\<forall>p \<in> set (ConfiguredPipes u). let pc = PipeContextByID d' ! endpoint_slot p in
         IsValid pc \<and> Pipe pc = fst p
         \<and> PipeInformation pc = (snd p)\<lparr>MaximumTransferSize :=
              Pipe_CalcMaxTransferSize (IsHighSpeedDevice d) (PipeType (snd p)) (MaximumPacketSize (snd p)) (MaximumTransferSize (snd p))\<rparr>
         \<and> (\<exists>q. Queue pc = Some q \<and> Requests q = [] \<and> leftover q = []))
    \<and> (\<forall>j \<in> set (interface_pipes (InterfaceContexts d ! i)) - slots_of u.
         \<not> IsValid (PipeContextByID d' ! j) \<and> Pipe (PipeContextByID d' ! j) = 0 \<and> Queue (PipeContextByID d' ! j) = None)
    \<and> (\<forall>j < 32. j \<notin> set (interface_pipes (InterfaceContexts d ! i)) \<union> slots_of u \<longrightarrow> PipeContextByID d' ! j = PipeContextByID d ! j)
    \<and> (\<forall>j. j \<noteq> i \<longrightarrow> InterfaceContexts d' ! j = InterfaceContexts d ! j)"
proof -
  let ?ic = "InterfaceContexts d ! i" and ?us = "map (\<lambda>p. (endpoint_slot p, init_pipe d p)) (ConfiguredPipes u)"
  obtain d' xs where run: "Interface_SetAltSetting u d r = (STATUS_SUCCESS, d')" and i: "i < length (InterfaceContexts d)" and xs: "length xs = 32"
    and ic: "InterfaceContexts d' = (InterfaceContexts d)[i := set_interface u (?ic\<lparr>PipeContextByIndex := xs\<rparr>)]"
    and pc: "\<And>j. PipeContextByID d' ! j = (case map_of ?us j of None \<Rightarrow> cleared ?ic d j
        | Some g \<Rightarrow> snd (Pipe_Start (pipe_env.truncate u) False (g (cleared ?ic d j))))"
    and free: "\<And>p. p \<in> set (ConfiguredPipes u) \<Longrightarrow> Queue (cleared ?ic d (endpoint_slot p)) = None \<and> \<not> IsValid (cleared ?ic d (endpoint_slot p))"
    using accepted_state [OF assms(1-6,8-10)] by blast
  have us: "usable_pipes u = ConfiguredPipes u" "length (ConfiguredPipes u) \<le> 32" "distinct (map endpoint_slot (ConfiguredPipes u))"
    using assms(8,10) by (simp_all add: usable_pipes_def usb_ok_def)
  have none: "map_of ?us j = None" if "j \<notin> slots_of u" for j
    using that by (simp add: map_of_eq_None_iff image_image slots_of_def)
  have new: "let pc = PipeContextByID d' ! endpoint_slot p in IsValid pc \<and> Pipe pc = fst p
         \<and> PipeInformation pc = (snd p)\<lparr>MaximumTransferSize :=
              Pipe_CalcMaxTransferSize (IsHighSpeedDevice d) (PipeType (snd p)) (MaximumPacketSize (snd p)) (MaximumTransferSize (snd p))\<rparr>
         \<and> (\<exists>q. Queue pc = Some q \<and> Requests q = [] \<and> leftover q = [])"
    if p: "p \<in> set (ConfiguredPipes u)" for p
  proof -
    let ?pc = "init_pipe d p (cleared ?ic d (endpoint_slot p))"
    have "map_of ?us (endpoint_slot p) = Some (init_pipe d p)" using p us(3) by (intro map_of_is_SomeI) (auto simp: o_def)
    then have e: "PipeContextByID d' ! endpoint_slot p = snd (Pipe_Start (pipe_env.truncate u) False ?pc)" by (simp add: pc)
    have f: "Queue ?pc = None" "\<not> IsValid ?pc" "Pipe ?pc = fst p" "PipeInformation ?pc = (snd p)\<lparr>MaximumTransferSize :=
              Pipe_CalcMaxTransferSize (IsHighSpeedDevice d) (PipeType (snd p)) (MaximumPacketSize (snd p)) (MaximumTransferSize (snd p))\<rparr>"
      using free [OF p] by (simp_all add: init_pipe_def Policy_InitPipe_def Let_def)
    have nz: "Pipe ?pc \<noteq> 0" using f(3) assms(10) p by simp
    have "NT_SUCCESS (QueueCreateStatus (pipe_env.truncate u) a)" "NT_SUCCESS (MemoryCreateStatus (pipe_env.truncate u) a)" for a
      using assms(11,12) by (simp_all add: pipe_env.truncate_def)
    from start_fresh [OF f(1,2) nz this] show ?thesis unfolding e using f(3,4) by (auto simp: Let_def)
  qed
  have "\<not> IsValid (PipeContextByID d' ! j) \<and> Pipe (PipeContextByID d' ! j) = 0 \<and> Queue (PipeContextByID d' ! j) = None"
    if "j \<in> set (interface_pipes ?ic) - slots_of u" for j
    using that none [of j] by (simp add: pc cleared_def Pipe_Stop_def)
  moreover have "PipeContextByID d' ! j = PipeContextByID d ! j" if "j \<notin> set (interface_pipes ?ic) \<union> slots_of u" for j
    using that none [of j] by (simp add: pc cleared_def)
  moreover have "interface_pipes (InterfaceContexts d' ! i) = map endpoint_slot (ConfiguredPipes u)"
    using interface_pipes_set_interface(1) [of "?ic\<lparr>PipeContextByIndex := xs\<rparr>" u] xs us i by (simp add: ic)
  moreover have "SettingIndex (InterfaceContexts d' ! i) = k" "bAlternateSetting (InterfaceContexts d' ! i) = AltNumbers u ! unat k"
    using i assms(7) by (simp_all add: ic set_interface_def)
  ultimately show ?thesis using run new ic by (intro exI [of _ d']) simp
qed

section \<open>An example device\<close>

text \<open>A device with one interface of two settings and a bulk pipe, and what the framework says of its second setting.\<close>

definition example_pipe :: "addr \<Rightarrow> ULONG \<Rightarrow> UCHAR \<Rightarrow> addr \<times> wdf_pipe_information" where
  "example_pipe h mps a = (h, \<lparr>MaximumPacketSize = mps, EndpointAddress = a, Interval = 0, PipeType = PipeTypeBulk, MaximumTransferSize = 65536\<rparr>)"

definition example_usb :: "NTSTATUS \<Rightarrow> UCHAR \<Rightarrow> (addr \<times> wdf_pipe_information) list \<Rightarrow> usb_interface" where
  "example_usb s k ps = \<lparr>QueueCreateStatus = \<lambda>_. 0, MemoryCreateStatus = \<lambda>_. 0, PipeStartStatus = \<lambda>_. 0, VersionAvailable = True,
     PoolByte = \<lambda>_. 0, InterfaceNumber = 0, AltNumbers = [0, 1], ConfiguredSetting = k, ConfiguredPipes = ps, SelectStatus = s\<rparr>"

definition example_config :: config_env where
  "example_config = \<lparr>QueueCreateStatus = \<lambda>_. 0, MemoryCreateStatus = \<lambda>_. 0, PipeStartStatus = \<lambda>_. 0, VersionAvailable = True,
     PoolByte = \<lambda>_. 0, Interfaces = [(9, example_usb 0 0 [example_pipe 11 4 0x81])], AllocatePairs = True, SelectConfigStatus = 0\<rparr>"

definition example_env :: queue_env where
  "example_env = \<lparr>QueueCreateStatus = \<lambda>_. 0, MemoryCreateStatus = \<lambda>_. 0, PipeStartStatus = \<lambda>_. 0, VersionAvailable = True,
     PoolByte = \<lambda>_. 0, InterfaceNumber = 0, AltNumbers = [0, 1], ConfiguredSetting = 0, ConfiguredPipes = [], SelectStatus = 0,
     ForwardStatus = 0, ResetPipeStatus = 0, AbortPipeStatus = 0, ConnectedStatus = 0, ResetPortStatus = 0, FrameNumber = (0, 0),
     StatusAnswer = \<lambda>_ _. (0, []), Power = \<lparr>AssignS0IdleSettings = \<lambda>_. 0, AssignSxWakeSettings = \<lambda>_. 0\<rparr>\<rparr>"

definition example_blank :: device_context where
  "example_blank = \<lparr>DeviceSpeed = 2, RemoteWakeCapable = False, USBDI_Version = 0, bMaxPacketSize0 = 64, ConfigurationValue = Some 1,
     PipeContextByID = replicate 32 zero_pipe, InterfaceContexts = [],
     DeviceRegSettings = \<lparr>SystemWakeEnabled = 0, DeviceIdleEnabled = 0, DeviceIdleIgnoreWakeEnable = 0, UserSetDeviceIdleEnabled = 0,
       DefaultIdleState = 0, DefaultIdleTimeout = 0\<rparr>, IsIdleSettingsInitialized = False\<rparr>"

definition example_device :: device_context where
  "example_device = snd (the (Device_Configure example_config example_blank))"

lemma example_reachable: "driver_reachable example_device"
proof (rule reach_configured)
  have "map_option fst (Device_Configure example_config example_blank) = Some 0" by code_simp
  then have "Device_Configure example_config example_blank = Some (0, example_device)" by (auto simp: example_device_def)
  moreover have "interfaces_ok (Interfaces example_config)"
    by (simp add: example_config_def example_usb_def usb_ok_def example_pipe_def)
  moreover have "PipeContextByID example_blank = replicate 32 zero_pipe" by (simp add: example_blank_def)
  ultimately show "configured example_config example_device" unfolding configured_def using NT_SUCCESS_simps(1) by blast
qed

lemma example_pipes:
  "GetInterfaceContextFromRequest example_device (by_index 0) = Inr 0" "Interface (InterfaceContexts example_device ! 0) = 9"
  "SettingIndex (InterfaceContexts example_device ! 0) = 0" "interface_pipes (InterfaceContexts example_device ! 0) = [17]"
  "IsValid (PipeContextByID example_device ! 17)" "Pipe (PipeContextByID example_device ! 17) = 11"
  "\<not> IsQueueDirty (PipeContextByID example_device ! 17)" "length (InterfaceContexts example_device) = 1"
  by code_simp+

lemma example_slots: "GetPipeContextByID 0x81 = 17" "GetPipeContextByID 2 = 2"
  by code_simp+

lemma example_read:
  "case mRequest_InitAndForwardToQueue example_env example_device 7 RequestTypeRead RequestTypeRead 64 0 0x81 of
     (Inl _, _) \<Rightarrow> False
   | (Inr r, d') \<Rightarrow> (case Queue (PipeContextByID d' ! 17) of None \<Rightarrow> False
      | Some q \<Rightarrow> buffered (PipeQueue_OnRead (Some r) q) \<and> buffered_pipe (Info q))"
  by code_simp

lemma buffered_transfers_one_at_a_time_witness:
  "\<exists>r d' q. mRequest_InitAndForwardToQueue example_env example_device 7 RequestTypeRead RequestTypeRead 64 0 0x81 = (Inr r, d')
    \<and> Queue (PipeContextByID d' ! 17) = Some q \<and> 7 \<in> set (Requests q) \<and> buffered (PipeQueue_OnRead (Some r) q)
    \<and> DispatchType (Config q) = DispatchSequential \<and> queue_ok q"
proof -
  obtain r d' q where f: "mRequest_InitAndForwardToQueue example_env example_device 7 RequestTypeRead RequestTypeRead 64 0 0x81 = (Inr r, d')"
    and q: "Queue (PipeContextByID d' ! 17) = Some q" "buffered (PipeQueue_OnRead (Some r) q)" "buffered_pipe (Info q)"
    using example_read by (auto split: prod.splits sum.splits option.splits)
  show ?thesis using buffered_transfers_one_at_a_time [OF example_reachable f] f q by (simp add: example_slots)
qed


lemma example_control:
  "map_option fst (Policy_SetPipe example_device 0 SIMUL_PARALLEL_REQUESTS [2, 0, 0, 0] 4) = Some 0"
  "case Policy_SetPipe example_device 0 SIMUL_PARALLEL_REQUESTS [2, 0, 0, 0] 4 of None \<Rightarrow> False
   | Some (s, d) \<Rightarrow> forward_all example_env d [7, 8] \<noteq> None"
  "le_read 4 [2, 0, 0, 0] = Some 2" "SimulParallelRequests (PipeContextByID example_device ! 0) = 0"
  "length (PipeContextByID example_device) = 32" "EndpointAddress (PipeInformation (PipeContextByID example_device ! 0)) = 0"
  by code_simp+

lemma control_queue_stays_dirty_witness:
  "\<exists>d1 d2 q. Policy_SetPipe example_device 0 SIMUL_PARALLEL_REQUESTS [2, 0, 0, 0] 4 = Some (0, d1)
    \<and> forward_all example_env d1 [7, 8] = Some d2 \<and> IsQueueDirty (PipeContextByID d2 ! 0)
    \<and> Queue (PipeContextByID d2 ! 0) = Some q \<and> Requests q = [8]"
proof -
  obtain d1 where d1: "Policy_SetPipe example_device 0 SIMUL_PARALLEL_REQUESTS [2, 0, 0, 0] 4 = Some (0, d1)"
    using example_control(1) by auto
  then obtain d2 where d2: "forward_all example_env d1 [7, 8] = Some d2" using example_control(2) by auto
  show ?thesis
    using control_queue_stays_dirty [OF d1 NT_SUCCESS_simps(1) example_control(3) _ example_control(5,6) d2] d1 d2
    by (simp add: example_control(4))
qed

abbreviation (input) example_request :: interface_request where
  "example_request \<equiv> (by_index 0)\<lparr>altsetting_number := 1\<rparr>"

lemma example_request:
  "GetInterfaceContextFromRequest example_device example_request = Inr 0"
  "GetInterfaceAltSettingIndexFromRequest (example_usb s k ps) example_request = Inr 1"
  by (code_simp, simp add: GetInterfaceAltSettingIndexFromRequest_def example_usb_def by_index_def)

lemma refused_setting_restores_witness:
  "Interface_SetAltSetting (example_usb STATUS_INVALID_PARAMETER 0 []) example_device example_request
   = (STATUS_INVALID_PARAMETER, upd_pipe 17 purged example_device)"
proof -
  have s: "SelectStatus (example_usb s k ps) = s" for s k ps by (simp add: example_usb_def)
  have "running (PipeContextByID example_device ! 17)" by code_simp
  then show ?thesis
    using refused_setting_restores [where u = "example_usb STATUS_INVALID_PARAMETER 0 []", OF example_request(1) _ example_request(2)]
    by (simp add: example_pipes example_control(5) s)
qed

lemma interface_ownership_witness:
  "interface_owner (fold claim_event [Claim 5 0, Claim 6 0] example_device) 0 = Some 5
   \<and> fst (Interface_Claim (fold claim_event [] (snd (Interface_Claim example_device (by_index 0) 5))) (by_index 0) 6) = STATUS_OBJECT_NAME_COLLISION"
proof -
  have i: "0 \<in> interface_ids example_device" "interface_owner example_device 0 = None" by code_simp+
  then have "fst (Interface_Claim example_device (by_index 0) 5) = STATUS_SUCCESS"
    using interface_ownership [of 0 example_device 5 6 "[]"] by simp
  then show ?thesis
    using interface_ownership [of 0 example_device 5 6 "[]"] interface_ownership [of 0 example_device 5 6 "[Claim 5 0, Claim 6 0]"] i by simp
qed

lemma accepted_setting_witness:
  "\<exists>d'. Interface_SetAltSetting (example_usb 0 1 [example_pipe 12 8 2]) example_device example_request = (STATUS_SUCCESS, d')
    \<and> SettingIndex (InterfaceContexts d' ! 0) = 1 \<and> interface_pipes (InterfaceContexts d' ! 0) = [2]
    \<and> IsValid (PipeContextByID d' ! 2) \<and> Pipe (PipeContextByID d' ! 2) = 12
    \<and> MaximumTransferSize (PipeInformation (PipeContextByID d' ! 2)) = 32768
    \<and> Queue (PipeContextByID d' ! 17) = None"
proof -
  let ?u = "example_usb 0 1 [example_pipe 12 8 2]"
  have u: "ConfiguredPipes ?u = [example_pipe 12 8 2]" "SelectStatus ?u = 0" "ConfiguredSetting ?u = 1" "slots_of ?u = {2}" "endpoint_slot (example_pipe 12 8 2) = 2"
    "QueueCreateStatus ?u a = 0" "MemoryCreateStatus ?u a = 0" for a
    by (simp_all add: example_usb_def slots_of_def example_pipe_def GetPipeContextByID_def)
  have ok: "usb_ok ?u" unfolding usb_ok_def u(1) by (simp add: example_pipe_def)
  have none: "others example_device 0 = {}" by (auto simp: others_def example_pipes(8))
  have p: "fst (example_pipe 12 8 2) = 12" "MaximumPacketSize (snd (example_pipe 12 8 2)) = 8" "MaximumTransferSize (snd (example_pipe 12 8 2)) = 65536"
    "PipeType (snd (example_pipe 12 8 2)) = PipeTypeBulk"
    by (simp_all add: example_pipe_def)
  show ?thesis
    using accepted_setting [where u = ?u, OF reachable_wf [OF example_reachable] example_request(1) _ example_request(2) _ _ u(3) ok]
    by (simp add: u none example_pipes p Let_def Pipe_CalcMaxTransferSize_def) (elim exE conjE, auto)
qed

end
