(* ===== verification/Spec2Isabelle.thy ===== *)
theory Spec2Isabelle
  imports Stream_Races Isoch_Handle Drv_Iso Drv_Requests
begin

text \<open>
  A verification library for libusbK, a USB library for Windows: the user mode library
  (\<open>libusbK/src\<close>) and its kernel driver (\<open>libusbK/src/sys\<close>). This theory only collects the others.

  \<^bold>\<open>The program.\<close> An application opens a device with the library and gets a handle from one of its
  static pools. The library reads the configuration descriptor, builds a tree of interfaces, alternate
  settings and pipes, and answers queries from it; transfers, policies, claims and settings become
  control codes for the driver. On top of that it offers pools of overlapped structures, streams that a
  thread of the library keeps filled, and isochronous contexts and handles. The driver takes all control
  codes in its default queue, answers them or forwards them to the queue of a pipe, which starts
  transfers on the device; it owns the policies, the alternate settings and the claims.

  \<^bold>\<open>The library.\<close>

  \<^item> \<open>LibK_Prelude\<close>: C integer types, error codes, generic lemmas.
  \<^item> \<open>Linked_List\<close> (\<open>lusbk_linked_list.h\<close>): the \<open>DL_\<close> macros over an explicit store of pointers,
    and the locale \<open>dlist\<close>, the sequence that they implement.
  \<^item> \<open>Handle_Pool\<close> (\<open>lusbk_handles.c\<close>): acquiring, counting and releasing handles of a pool, for any
    type of handle; a lens places the pool in the state.
  \<^item> \<open>LibK_State\<close> (\<open>lusbk_handles.h\<close>, \<open>lusbk_private.h\<close>): the structures behind the handles, all pools, and
    what the library leaves in the system. \<open>driver\<close> is the answer to a control code.
  \<^item> \<open>Iso_Context\<close> (\<open>lusbk_usb_iso.c\<close>): contexts of isochronous transfers, and packet timing.
  \<^item> \<open>Driver_Api\<close> (\<open>lusbk_usb.c\<close>, \<open>lusbk_bknd_unsupported.c\<close>): which backend implements which function.
  \<^item> \<open>Config_Parser\<close>, \<open>Usb_Stack\<close> (\<open>lusbk_stack_collection.c\<close>, \<open>lusbk_ioctl.c\<close>): the parser of
    configuration descriptors with its two nested loops, device handles and clones, claims, selections
    and queries of the tree.
  \<^item> \<open>Backend_UsbK\<close> (\<open>lusbk_bknd_libusbk.c\<close>): the device functions for the libusbK and libusb0 drivers.
  \<^item> \<open>Ovl_Pool\<close> (\<open>lusbk_overlapped.c\<close>): pools of overlapped structures and waiting on them.
  \<^item> \<open>Queued_Stream\<close>, \<open>Stream_Thread\<close>, \<open>Stream_Run\<close>, \<open>Stream_Live\<close>, \<open>Stream_Races\<close>
    (\<open>lusbk_queued_stream.c\<close>): the functions of a stream, its thread as a step function over control
    points, runs of the thread against its users as a step relation with invariant and progress, and
    computed runs.
  \<^item> \<open>Isoch_Handle\<close> (\<open>lusbk_usb_isoch.c\<close>): isochronous handles over the packets of either driver.

  \<^bold>\<open>The driver.\<close>

  \<^item> \<open>Drv_Base\<close> (\<open>drv_private.h\<close>): status codes, the policy word with its bit fields, and the contexts.
  \<^item> \<open>Drv_Policy\<close> (\<open>drv_policy.c\<close>): pipe, power and device policies.
  \<^item> \<open>Drv_Bulk\<close> (\<open>drv_xfer_bulk.c\<close>, \<open>drv_xfer.h\<close>): bulk and interrupt transfers in stages, the over-run
    buffer, and a request from its start to its end.
  \<^item> \<open>Drv_Iso\<close> (\<open>drv_xfer_iso.c\<close>): isochronous transfers, simple and extended.
  \<^item> \<open>Drv_Pipe\<close> (\<open>drv_pipe.c\<close>, \<open>drv_interface.c\<close>, \<open>drv_interface.h\<close>): pipes and their queues, alternate
    settings, and the claims as an instance of the locale \<open>lock_table\<close>.
  \<^item> \<open>Drv_Device\<close> (\<open>drv_device.c\<close>): configuration, reset, power-down, files.
  \<^item> \<open>Drv_Queue\<close> (\<open>drv_queue_default.c\<close>, \<open>drv_queue_pipe.c\<close>, \<open>drv_xfer_control.c\<close>, \<open>drv_request.c\<close>): control
    codes, reads and writes, and what the queue of a pipe does with them.
  \<^item> \<open>Drv_Invariant\<close>: the invariant of the driver, its steps and reachable states.
  \<^item> \<open>Drv_Requests\<close>: what the invariant gives for forwarded requests, how requests are completed, what
    an accepted setting does; an example device.

  \<^bold>\<open>How the code is read.\<close> Definitions keep the names of the source. A structure is a record, a pointer to a
  structure of a pool its index, a pointer into a list an address of an explicit store. Machine words are
  words; signed values are integers with the wrap written out; lengths and offsets of buffers, which a
  32 bit length bounds, are natural numbers. \<open>SetLastError\<close> and \<open>return FALSE\<close> are branches of the result,
  and so is every \<open>NTSTATUS\<close> of the driver. \<open>None\<close> is an access outside a buffer, a null pointer that is
  followed, a division by zero or a loop without end; theorems that a function returns say that it is not
  \<open>None\<close>. Formats of messages and logging have no counterpart.

  \<^bold>\<open>What the lemmas show.\<close> Pools hand out the first free slot and release what the last reference held. The
  parser computes one fold over the descriptors and its tree is well formed. Freeing the last handle, and
  cloning and freeing a clone, do to the state what their names say. Claims, settings and timeouts in the
  library follow the answers of the driver. An overlapped pool is two lists that partition its elements. A
  stream keeps each transfer in one place, delivers bytes in order and stops. In the driver a bulk pipe is
  a queue of bytes; the packets of isochronous transfers cover and pack the buffers; policies that are set
  read back; claims are a table of locks; settings are taken over as a whole or restored; and the
  invariant makes sure that transfers which keep their state in the queue run one at a time. Other theorems
  state where the code does not keep to this: each is a theorem about what the code does.

  \<^bold>\<open>Interfaces.\<close> \<open>dlist\<close> (lists and their clients), \<open>pool_lens\<close> and \<open>libk_pool\<close> (a pool inside a larger
  state), \<open>staging_loop\<close> (the loops of reading and writing a stream), \<open>desc_array\<close> (the packets of two
  drivers) and \<open>lock_table\<close> (claims) are locales; the theories of their providers interpret them on the
  definitions of the code.

  \<^bold>\<open>Bounds and fuel.\<close> The search of a pool visits each slot once, so its fuel is the number of slots. The
  parser advances by at least one byte per descriptor, or not at all on a descriptor of length zero, where
  it runs out of any fuel; on consistent descriptors more fuel than descriptors is enough. Walks over a list
  take its length. The search for a configuration sends at most 254 requests. The loops of the stream thread
  over queued and pending transfers take the number of transfers of the stream; in reachable states no
  list is longer. The completion of a bulk read is played against a list of answers of the device, and a
  read of \<open>n\<close> bytes takes at most \<open>n\<close> of them.

  \<^bold>\<open>Parameters.\<close> Windows, its driver framework, WinUSB and the device are not under \<open>libusbK/src\<close>. What they
  answer is an argument of the operations that ask: \<open>driver\<close> and \<open>winusb_library\<close> for the backends, the
  results of waits, allocations and callbacks for pools and streams, and the environment records
  (\<open>xfer_env\<close>, \<open>iso_env\<close>, \<open>power_env\<close>, \<open>pipe_env\<close>, \<open>usb_interface\<close>, \<open>config_env\<close>, \<open>queue_env\<close>) for the
  driver. Hypotheses on them are documented behaviour: a device sends no more than it is asked for, a
  setting has each endpoint once, endpoints of a pipe are not endpoint 0.

  \<^bold>\<open>Atomicity.\<close> An operation of a pool is one step, also where the code uses several interlocked
  instructions. The steps of a stream are the stretches between waits and locks. A step of the driver is
  one handler; the framework serialises the handlers of a sequential queue, and the model says what runs
  in parallel by the configuration of the queue. Memory that has been freed is not tracked.

  \<^bold>\<open>Not modelled.\<close> Device lists and hot plug (\<open>lusbk_device_list.c\<close>, \<open>lusbk_hot_plug.c\<close>), which read the
  registry and the setup API; the functions of the WinUSB and libusb0 backends, beyond their tables and
  the parts that \<open>lusbk_bknd_libusbk.c\<close> shares; the registration of the driver with the framework, its
  registry settings and its symbolic link; text output; the installer, the benchmark and other tools,
  examples and bindings; the firmware under \<open>BmFW\<close> and the vendored libwdi.
\<close>

end
